(* ===== verification/Text_Numbers.thy ===== *)
theory Text_Numbers
  imports Prelude
begin

text \<open>
  Numbers in text: the digits Rust's integer parsers and formatters read and write.
  \<open>parse_uint mx\<close> is \<open>str::parse\<close> for an unsigned type with largest value \<open>mx\<close>: an
  optional \<open>+\<close>, at least one digit, and an error for anything else, overflow included.
  \<open>show_radix\<close> is \<open>Display\<close> (radix 10) and \<open>LowerHex\<close> (radix 16); \<open>show_hex8\<close> is \<open>{:08x}\<close>.
\<close>

subsection \<open>Digits\<close>

definition digit_val :: "char \<Rightarrow> nat option" where
  "digit_val c =
     (let n = of_char c :: nat in
      if 48 \<le> n \<and> n \<le> 57 then Some (n - 48)
      else if 97 \<le> n \<and> n \<le> 102 then Some (n - 87)
      else if 65 \<le> n \<and> n \<le> 70 then Some (n - 55)
      else None)"

definition radix_val :: "nat \<Rightarrow> char \<Rightarrow> nat option" where
  "radix_val r c = (case digit_val c of Some d \<Rightarrow> if d < r then Some d else None | None \<Rightarrow> None)"

definition is_radix_digit :: "nat \<Rightarrow> char \<Rightarrow> bool" where
  "is_radix_digit r c \<longleftrightarrow> radix_val r c \<noteq> None"

definition digit_char :: "nat \<Rightarrow> char" where
  "digit_char d = (if d < 10 then char_of (48 + d) else char_of (87 + d))"

fun digits_val :: "nat \<Rightarrow> nat \<Rightarrow> string \<Rightarrow> nat option" where
  "digits_val r acc [] = Some acc"
| "digits_val r acc (c # cs) =
     (case radix_val r c of None \<Rightarrow> None | Some d \<Rightarrow> digits_val r (acc * r + d) cs)"

fun show_radix :: "nat \<Rightarrow> nat \<Rightarrow> string" where
  "show_radix r n =
     (if n < r \<or> r < 2 then [digit_char n] else show_radix r (n div r) @ [digit_char (n mod r)])"

declare show_radix.simps [simp del]

abbreviation show_nat :: "nat \<Rightarrow> string" where
  "show_nat \<equiv> show_radix 10"

definition show_hex8 :: "nat \<Rightarrow> string" where
  "show_hex8 n = (let s = show_radix 16 n in replicate (8 - length s) (CHR ''0'') @ s)"

subsection \<open>Integer parsing\<close>

definition parse_uint :: "nat \<Rightarrow> string \<Rightarrow> nat option" where
  "parse_uint mx s =
     (let ds = (case s of c # cs \<Rightarrow> if c = CHR ''+'' then cs else s | [] \<Rightarrow> []) in
      if ds = [] then None
      else (case digits_val 10 0 ds of
              None \<Rightarrow> None
            | Some n \<Rightarrow> if n \<le> mx then Some n else None))"

abbreviation parse_u8 :: "string \<Rightarrow> nat option" where
  "parse_u8 \<equiv> parse_uint 255"

abbreviation parse_u16 :: "string \<Rightarrow> nat option" where
  "parse_u16 \<equiv> parse_uint 65535"

abbreviation parse_u32 :: "string \<Rightarrow> nat option" where
  "parse_u32 \<equiv> parse_uint 4294967295"

abbreviation parse_u64 :: "string \<Rightarrow> nat option" where
  "parse_u64 \<equiv> parse_uint 18446744073709551615"

text \<open>
  \<open>parse_int lo hi\<close> is \<open>str::parse\<close> for a signed type with values from \<open>-lo\<close> to \<open>hi\<close>; \<open>show_int\<close> is
  its \<open>Display\<close>.
\<close>

definition parse_int :: "nat \<Rightarrow> nat \<Rightarrow> string \<Rightarrow> int option" where
  "parse_int lo hi s =
     (case s of
        c # cs \<Rightarrow>
          if c = CHR ''-'' then
            (if cs \<noteq> [] \<and> hd cs = CHR ''+'' then None
             else map_option (\<lambda>n. - int n) (parse_uint lo cs))
          else map_option int (parse_uint hi s)
      | [] \<Rightarrow> None)"

abbreviation parse_i32 :: "string \<Rightarrow> int option" where
  "parse_i32 \<equiv> parse_int 2147483648 2147483647"

abbreviation parse_i64 :: "string \<Rightarrow> int option" where
  "parse_i64 \<equiv> parse_int 9223372036854775808 9223372036854775807"

definition show_int :: "int \<Rightarrow> string" where
  "show_int k = (if k < 0 then CHR ''-'' # show_nat (nat (- k)) else show_nat (nat k))"

text \<open>\<open>u64::MAX\<close>\<close>

definition u64_max :: nat where "u64_max = 18446744073709551615"

subsection \<open>Laws\<close>

lemma radix_val_digit_char: "d < r \<Longrightarrow> r \<le> 16 \<Longrightarrow> radix_val r (digit_char d) = Some d"
  by (auto simp: radix_val_def digit_val_def digit_char_def Let_def)

lemma radix_val_less: "radix_val r c = Some d \<Longrightarrow> d < r"
  by (auto simp: radix_val_def split: option.splits if_splits)

lemma digits_val_append:
  "digits_val r acc (s @ t) =
     (case digits_val r acc s of None \<Rightarrow> None | Some a \<Rightarrow> digits_val r a t)"
  by (induction r acc s rule: digits_val.induct) (auto split: option.splits)

lemma show_radix_not_Nil [simp]: "show_radix r n \<noteq> []"
  by (subst show_radix.simps) simp

lemma digits_val_show_radix [parse_simps]:
  "2 \<le> r \<Longrightarrow> r \<le> 16 \<Longrightarrow> digits_val r 0 (show_radix r n) = Some n"
proof (induction r n rule: show_radix.induct)
  case (1 r n)
  show ?case
  proof (cases "n < r")
    case True
    with 1 show ?thesis by (subst show_radix.simps) (simp add: radix_val_digit_char)
  next
    case False
    with 1 have "digits_val r 0 (show_radix r (n div r)) = Some (n div r)" by simp
    with False 1(2,3) show ?thesis
      by (subst show_radix.simps) (simp add: digits_val_append radix_val_digit_char)
  qed
qed

lemma show_radix_digits:
  "2 \<le> r \<Longrightarrow> r \<le> 16 \<Longrightarrow> c \<in> set (show_radix r n) \<Longrightarrow> \<exists>d<r. c = digit_char d"
proof (induction r n rule: show_radix.induct)
  case (1 r n)
  show ?case
  proof (cases "n < r")
    case True
    with 1(4) show ?thesis by (subst (asm) show_radix.simps) auto
  next
    case False
    with 1(2,4) have "c \<in> set (show_radix r (n div r)) \<or> c = digit_char (n mod r)"
      by (auto simp: show_radix.simps [of r n])
    moreover have "n mod r < r" using 1(2) by simp
    moreover have "\<not> (n < r \<or> r < 2)" using False 1(2) by simp
    ultimately show ?thesis using 1(1-3) by blast
  qed
qed

lemma of_char_digit_char: "d < 16 \<Longrightarrow> of_char (digit_char d) = (if d < 10 then 48 + d else 87 + d)"
  by (auto simp: digit_char_def)

lemma show_radix_is_digit:
  "2 \<le> r \<Longrightarrow> r \<le> 16 \<Longrightarrow> c \<in> set (show_radix r n) \<Longrightarrow> is_radix_digit r c"
  using show_radix_digits [of r c n] radix_val_digit_char [of _ r]
  by (auto simp: is_radix_digit_def)

lemma not_digit_separators [simp]:
  "\<not> is_radix_digit r CHR ''/''" "\<not> is_radix_digit r CHR ''.''" "\<not> is_radix_digit r CHR '':''"
  "\<not> is_radix_digit r CHR ''+''" "\<not> is_radix_digit r CHR ''-''" "\<not> is_radix_digit r CHR '' ''"
  by (simp_all add: is_radix_digit_def radix_val_def digit_val_def)

lemma separators_not_in_show [simp]:
  assumes "2 \<le> r" "r \<le> 16"
  shows "CHR ''/'' \<notin> set (show_radix r n)" "CHR ''.'' \<notin> set (show_radix r n)"
    "CHR '':'' \<notin> set (show_radix r n)" "CHR ''+'' \<notin> set (show_radix r n)"
    "CHR ''-'' \<notin> set (show_radix r n)" "CHR '' '' \<notin> set (show_radix r n)"
  using show_radix_is_digit [OF assms] by (metis not_digit_separators)+

lemma parse_uint_show_nat [parse_simps]: "n \<le> mx \<Longrightarrow> parse_uint mx (show_nat n) = Some n"
proof -
  assume n: "n \<le> mx"
  obtain c cs where s: "show_nat n = c # cs" by (cases "show_nat n") auto
  have "c \<noteq> CHR ''+''" using separators_not_in_show(4) [of 10 n] s by auto
  with n s show ?thesis
    using digits_val_show_radix [of 10 n] by (simp add: parse_uint_def split: option.splits)
qed

lemma parse_uint_le: "parse_uint mx s = Some n \<Longrightarrow> n \<le> mx"
  by (auto simp: parse_uint_def Let_def split: option.splits if_splits)

lemma length_show_radix_le:
  "2 \<le> r \<Longrightarrow> n < r ^ k \<Longrightarrow> 0 < k \<Longrightarrow> length (show_radix r n) \<le> k"
proof (induction r n arbitrary: k rule: show_radix.induct)
  case (1 r n)
  show ?case
  proof (cases "n < r \<or> k = 1")
    case True
    with 1 show ?thesis by (subst show_radix.simps) auto
  next
    case False
    then obtain k' where k: "k = Suc k'" "0 < k'" using 1 by (cases k) auto
    then have "n < r ^ k' * r" using 1(3) by (simp add: mult.commute)
    then have "n div r < r ^ k'" by (rule less_mult_imp_div_less)
    moreover have "\<not> (n < r \<or> r < 2)" using False 1(2) by simp
    ultimately have "length (show_radix r (n div r)) \<le> k'" using 1(1,2) k by blast
    with False k 1(2) show ?thesis by (simp add: show_radix.simps [of r n])
  qed
qed

lemma show_nat_inject: "show_nat m = show_nat n \<Longrightarrow> m = n"
proof -
  assume "show_nat m = show_nat n"
  then have "digits_val 10 0 (show_nat m) = digits_val 10 0 (show_nat n)" by (rule arg_cong)
  then show "m = n" by (simp add: digits_val_show_radix)
qed

lemma parse_int_show_int [parse_simps]:
  assumes "- int lo \<le> k" "k \<le> int hi"
  shows "parse_int lo hi (show_int k) = Some k"
proof (cases "k < 0")
  case True
  obtain c cs where s: "show_nat (nat (- k)) = c # cs" by (cases "show_nat (nat (- k))") auto
  have "c \<noteq> CHR ''+''" using separators_not_in_show(4) [of 10 "nat (- k)"] s by auto
  moreover have "nat (- k) \<le> lo" using assms(1) by linarith
  ultimately show ?thesis
    using True s parse_uint_show_nat [of "nat (- k)" lo] by (simp add: parse_int_def show_int_def)
next
  case False
  obtain c cs where s: "show_nat (nat k) = c # cs" by (cases "show_nat (nat k)") auto
  have "c \<noteq> CHR ''-''" using separators_not_in_show(5) [of 10 "nat k"] s by auto
  moreover have "nat k \<le> hi" using assms(2) by linarith
  ultimately show ?thesis
    using False s parse_uint_show_nat [of "nat k" hi] by (simp add: parse_int_def show_int_def)
qed

lemma parse_int_range: "parse_int lo hi s = Some k \<Longrightarrow> - int lo \<le> k \<and> k \<le> int hi"
  by (auto simp: parse_int_def dest!: parse_uint_le split: list.splits if_splits)

subsection \<open>White space\<close>

text \<open>A printable ASCII character other than the space is part of no white space.\<close>

definition plain_char :: "char \<Rightarrow> bool" where
  "plain_char c \<longleftrightarrow> CHR 0x20 < c \<and> c < CHR 0x80"

lemma trim_plain:
  assumes "s \<noteq> []" "plain_char (hd s)" "plain_char (last s)"
  shows "trim s = s"
proof -
  have ends: "p \<in> set ws_encodings \<Longrightarrow> p \<noteq> [] \<and> \<not> plain_char (hd p) \<and> \<not> plain_char (last p)" for p
    by (auto simp: ws_encodings_def plain_char_def less_char_def less_eq_char_def)
  have "strip_any ws_encodings s = s"
  proof (rule strip_any_id)
    fix p assume "p \<in> set ws_encodings" "p \<noteq> []"
    then show "\<not> prefix p s" using ends [of p] assms by (auto simp: prefix_def)
  qed
  moreover have "strip_any (map rev ws_encodings) (rev s) = rev s"
  proof (rule strip_any_id)
    fix p assume "p \<in> set (map rev ws_encodings)" "p \<noteq> []"
    then obtain q where q: "q \<in> set ws_encodings" "p = rev q" by auto
    show "\<not> prefix p (rev s)"
    proof
      assume "prefix p (rev s)"
      then have "suffix q s" using q by (simp add: suffix_to_prefix)
      then have "last q = last s" using ends [OF q(1)] by (auto simp: suffix_def)
      then show False using ends [OF q(1)] assms(3) by simp
    qed
  qed
  ultimately show ?thesis by (simp add: trim_def)
qed

text \<open>\<open>str::split_whitespace\<close>: the non-empty pieces between white-space characters.\<close>

function words_of :: "string \<Rightarrow> string \<Rightarrow> string list" where
  "words_of word s =
     (let flush = (if word = [] then [] else [word]) in
      if s = [] then flush
      else (case find (\<lambda>p. prefix p s) ws_encodings of
              Some p \<Rightarrow> flush @ words_of [] (drop (length p) s)
            | None \<Rightarrow> words_of (word @ [hd s]) (tl s)))"
  by pat_completeness auto
termination
proof (relation "measure (\<lambda>(word, s). length s)")
  fix s p assume "s \<noteq> []" "find (\<lambda>p. prefix p s) ws_encodings = Some p"
  then have "p \<in> set ws_encodings" by (auto simp: find_Some_iff)
  then have "p \<noteq> []" by (auto simp: ws_encodings_def)
  then show "(([] :: string, drop (length p) s), (word :: string, s)) \<in> measure (\<lambda>(word, s). length s)" for word
    using \<open>s \<noteq> []\<close> by simp
qed auto

declare words_of.simps [simp del]

definition split_whitespace :: "string \<Rightarrow> string list" where
  "split_whitespace = words_of []"

text \<open>A word is text in which no white space begins.\<close>

definition ws_begins :: "string \<Rightarrow> bool" where
  "ws_begins s \<longleftrightarrow> (\<exists>p \<in> set ws_encodings. prefix p s)"

definition ws_free :: "string \<Rightarrow> bool" where
  "ws_free t \<longleftrightarrow> t \<noteq> [] \<and> (\<forall>i < length t. \<not> ws_begins (drop i t))"

lemma ws_begins_find: "find (\<lambda>p. prefix p s) ws_encodings = None \<longleftrightarrow> \<not> ws_begins s"
  by (auto simp: find_None_iff ws_begins_def)

lemma ws_begins_append: "ws_begins s \<Longrightarrow> ws_begins (s @ t)"
  unfolding ws_begins_def using prefix_prefix by blast

lemma ws_begins_space: "ws_begins (CHR 0x20 # s)" "find (\<lambda>p. prefix p (CHR 0x20 # s)) ws_encodings = Some [CHR 0x20]"
  by (simp_all add: ws_begins_def ws_encodings_def)

text \<open>No encoding other than the space itself holds a space, so none crosses one.\<close>

lemma ws_begins_cut: "ws_begins (s @ CHR 0x20 # t) \<Longrightarrow> s \<noteq> [] \<Longrightarrow> ws_begins s"
proof -
  assume "ws_begins (s @ CHR 0x20 # t)" and s: "s \<noteq> []"
  then obtain p where p: "p \<in> set ws_encodings" "prefix p (s @ CHR 0x20 # t)" by (auto simp: ws_begins_def)
  have sp: "p = [CHR 0x20] \<or> CHR 0x20 \<notin> set p" using p(1) by (auto simp: ws_encodings_def)
  from p(2) have "prefix p s \<or> (\<exists>u. p = s @ u \<and> prefix u (CHR 0x20 # t))" by (simp add: prefix_append)
  then have "prefix p s"
  proof
    assume "\<exists>u. p = s @ u \<and> prefix u (CHR 0x20 # t)"
    then obtain u where u: "p = s @ u" "prefix u (CHR 0x20 # t)" by blast
    show "prefix p s"
    proof (cases u)
      case (Cons c cs)
      then have "CHR 0x20 \<in> set p" using u by auto
      with sp s u Cons show ?thesis by (cases s) auto
    qed (use u in simp)
  qed
  then show "ws_begins s" using p(1) by (auto simp: ws_begins_def)
qed

lemma words_of_word:
  "\<forall>i < length t. \<not> ws_begins (drop i t) \<Longrightarrow> words_of w (t @ CHR 0x20 # s) = (if w @ t = [] then [] else [w @ t]) @ words_of [] s"
proof (induction t arbitrary: w)
  case Nil
  then show ?case by (simp add: words_of.simps [of w "CHR 0x20 # s"] ws_begins_space(2))
next
  case (Cons c t)
  have "\<not> ws_begins (c # t)" using Cons.prems by force
  then have "\<not> ws_begins ((c # t) @ CHR 0x20 # s)" using ws_begins_cut [of "c # t" s] by blast
  moreover have "\<forall>i < length t. \<not> ws_begins (drop i t)" using Cons.prems by force
  ultimately show ?case
    using Cons.IH [of "w @ [c]"] by (simp add: words_of.simps [of w "c # t @ CHR 0x20 # s"] ws_begins_find [symmetric])
qed

lemma words_of_last: "\<forall>i < length t. \<not> ws_begins (drop i t) \<Longrightarrow> words_of w t = (if w @ t = [] then [] else [w @ t])"
proof (induction t arbitrary: w)
  case (Cons c t)
  have "\<not> ws_begins (c # t)" using Cons.prems by force
  moreover have "\<forall>i < length t. \<not> ws_begins (drop i t)" using Cons.prems by force
  ultimately show ?case
    using Cons.IH [of "w @ [c]"] by (simp add: words_of.simps [of w "c # t"] ws_begins_find [symmetric])
qed (simp add: words_of.simps)

lemma split_whitespace_Cons: "ws_free t \<Longrightarrow> split_whitespace (t @ CHR 0x20 # s) = t # split_whitespace s"
  by (simp add: ws_free_def split_whitespace_def words_of_word)

lemma split_whitespace_one: "ws_free t \<Longrightarrow> split_whitespace t = [t]"
  by (simp add: ws_free_def split_whitespace_def words_of_last)

lemma words_of_ws_free:
  "\<forall>i < length w. \<not> ws_begins (drop i w @ s) \<Longrightarrow> x \<in> set (words_of w s) \<Longrightarrow> ws_free x \<and> set x \<subseteq> set w \<union> set s"
proof (induction w s rule: words_of.induct)
  case (1 w s)
  have flush: "ws_free w" if "w \<noteq> []" using that 1(3) ws_begins_append by (auto simp: ws_free_def)
  show ?case
  proof (cases "s = []")
    case True
    with 1(4) flush show ?thesis by (simp add: words_of.simps [of w "[]"] split: if_splits)
  next
    case s: False
    show ?thesis
    proof (cases "find (\<lambda>p. prefix p s) ws_encodings")
      case (Some p)
      then have "x \<in> set (if w = [] then [] else [w]) \<or> x \<in> set (words_of [] (drop (length p) s))"
        using 1(4) s by (simp add: words_of.simps [of w s])
      moreover have "ws_free x \<and> set x \<subseteq> set [] \<union> set (drop (length p) s)"
        if "x \<in> set (words_of [] (drop (length p) s))"
        by (rule 1(2) [OF refl s Some]) (use that in simp_all)
      ultimately show ?thesis using flush set_drop_subset [of "length p" s] by (auto split: if_splits)
    next
      case None
      then have n: "\<not> ws_begins s" by (simp add: ws_begins_find)
      have "\<forall>i < length (w @ [hd s]). \<not> ws_begins (drop i (w @ [hd s]) @ tl s)"
        using 1(3) n s by (auto simp: less_Suc_eq)
      moreover have "x \<in> set (words_of (w @ [hd s]) (tl s))" using 1(4) s None by (simp add: words_of.simps [of w s])
      ultimately have "ws_free x \<and> set x \<subseteq> set (w @ [hd s]) \<union> set (tl s)" using 1(1) [OF refl s None] by blast
      then show ?thesis using s by (cases s) auto
    qed
  qed
qed

lemma split_whitespace_ws_free: "x \<in> set (split_whitespace s) \<Longrightarrow> ws_free x \<and> set x \<subseteq> set s"
  using words_of_ws_free [of "[]" s x] by (simp add: split_whitespace_def)

lemma plain_ws_free: "t \<noteq> [] \<Longrightarrow> list_all plain_char t \<Longrightarrow> ws_free t"
proof -
  have ends: "p \<in> set ws_encodings \<Longrightarrow> p \<noteq> [] \<and> \<not> plain_char (hd p)" for p
    by (auto simp: ws_encodings_def plain_char_def less_char_def less_eq_char_def)
  assume t: "t \<noteq> []" "list_all plain_char t"
  have "\<not> ws_begins (drop i t)" if i: "i < length t" for i
  proof
    assume "ws_begins (drop i t)"
    then obtain p where p: "p \<in> set ws_encodings" "prefix p (drop i t)" by (auto simp: ws_begins_def)
    then have "hd p = t ! i" using ends [OF p(1)] i by (cases p) (auto simp: prefix_def hd_drop_conv_nth [symmetric])
    then show False using ends [OF p(1)] t(2) i by (auto simp: list_all_length)
  qed
  with t show "ws_free t" by (simp add: ws_free_def)
qed

end
