(* ===== verification/Ip_Addr.thy ===== *)
theory Ip_Addr
  imports Text_Numbers
begin

unbundle bit_operations_syntax

text \<open>
  IP addresses: \<open>std::net::IpAddr\<close> with its text form, and the address helpers of
  \<open>crates/nlink-lab/src/helpers.rs\<close>. An address is its number: 32 bits for IPv4, 128 for
  IPv6. A prefix length is a \<open>u8\<close>, modelled as a \<^typ>\<open>nat\<close>; where the code subtracts it from
  the address width, the subtraction is checked and an underflow (a panic) is \<open>None\<close>.
\<close>

datatype ip_addr = V4 "32 word" | V6 "128 word"

fun is_ipv4 :: "ip_addr \<Rightarrow> bool" where
  "is_ipv4 (V4 _) = True"
| "is_ipv4 (V6 _) = False"

subsection \<open>Bits of an address\<close>

definition addr_bits :: "ip_addr \<Rightarrow> nat" where
  "addr_bits ip = (if is_ipv4 ip then 32 else 128)"

fun ip_to_bits :: "ip_addr \<Rightarrow> 128 word" where
  "ip_to_bits (V4 a) = ucast a"
| "ip_to_bits (V6 a) = a"

definition ip_from_bits :: "nat \<Rightarrow> 128 word \<Rightarrow> ip_addr" where
  "ip_from_bits bits v = (if bits = 32 then V4 (ucast v) else V6 v)"

definition network_address :: "ip_addr \<Rightarrow> nat \<Rightarrow> ip_addr option" where
  "network_address ip p =
     (case ip of
        V4 a \<Rightarrow> (if p = 0 then Some (V4 (a AND 0))
                else if p \<le> 32 then Some (V4 (a AND push_bit (32 - p) (NOT 0))) else None)
      | V6 a \<Rightarrow> (if p = 0 then Some (V6 (a AND 0))
                else if p \<le> 128 then Some (V6 (a AND push_bit (128 - p) (NOT 0))) else None))"

text \<open>\<open>u128::checked_add\<close> and \<open>u128::checked_shl\<close>.\<close>

definition checked_add_u128 :: "128 word \<Rightarrow> 128 word \<Rightarrow> 128 word option" where
  "checked_add_u128 a b = (if unat a + unat b < 2 ^ 128 then Some (a + b) else None)"

definition checked_shl_u128 :: "128 word \<Rightarrow> nat \<Rightarrow> 128 word option" where
  "checked_shl_u128 a k = (if k < 128 then Some (push_bit k a) else None)"

definition u32_max :: "128 word" where
  "u32_max = 4294967295"

fun ip_offset :: "ip_addr \<Rightarrow> 128 word \<Rightarrow> ip_addr option" where
  "ip_offset (V4 a) off =
     Option.bind (checked_add_u128 (ucast a) off)
       (\<lambda>n. if n \<le> u32_max then Some (V4 (ucast n)) else None)"
| "ip_offset (V6 a) off = map_option V6 (checked_add_u128 a off)"

fun ip_in_subnet :: "ip_addr \<Rightarrow> ip_addr \<Rightarrow> nat \<Rightarrow> bool" where
  "ip_in_subnet (V4 ip) (V4 net) p =
     (if p = 0 then True
      else if 32 < p then False
      else (ip AND push_bit (32 - p) (- 1)) = (net AND push_bit (32 - p) (- 1)))"
| "ip_in_subnet (V6 ip) (V6 net) p =
     (if p = 0 then True
      else if 128 < p then False
      else (ip AND push_bit (128 - p) (- 1)) = (net AND push_bit (128 - p) (- 1)))"
| "ip_in_subnet _ _ p = False"

subsection \<open>The meaning of the masks\<close>

lemma unat_and_not_mask [simp]:
  "unat ((a :: 'a :: len word) AND NOT (mask k)) = unat a div 2 ^ k * 2 ^ k"
proof -
  have "unat a div 2 ^ k * 2 ^ k \<le> unat a" by (rule div_times_less_eq_dividend)
  also have "\<dots> < 2 ^ LENGTH('a)" by (rule unsigned_less)
  finally have "unat (push_bit k (drop_bit k a)) = unat a div 2 ^ k * 2 ^ k"
    unfolding unsigned_push_bit_eq unsigned_drop_bit_eq
    by (simp add: push_bit_eq_mult drop_bit_eq_div take_bit_eq_mod)
  moreover have "a AND NOT (mask k) = push_bit k (drop_bit k a)"
    by (rule bit_eqI) (auto simp: bit_simps)
  ultimately show ?thesis by simp
qed

lemma and_not_mask_eq_iff [simp]:
  "(a :: 'a :: len word) AND NOT (mask k) = b AND NOT (mask k) \<longleftrightarrow>
     unat a div 2 ^ k = unat b div 2 ^ k"
  by (simp add: word_unat_eq_iff)

text \<open>The number of an address, and the bits below its prefix.\<close>

definition ip_num :: "ip_addr \<Rightarrow> nat" where
  "ip_num ip = unat (ip_to_bits ip)"

lemma ip_num_simps [simp]: "ip_num (V4 a) = unat a" "ip_num (V6 b) = unat b"
  by (simp_all add: ip_num_def unsigned_ucast_eq take_bit_nat_eq_self
      order_less_trans [OF unsigned_less])

lemma ip_num_bound [simp]: "ip_num ip < 2 ^ addr_bits ip"
  by (cases ip) (simp_all add: addr_bits_def unsigned_less [where 'a = nat, THEN order_less_le_trans])

lemma ip_eqI: "is_ipv4 a = is_ipv4 b \<Longrightarrow> ip_num a = ip_num b \<Longrightarrow> a = b"
  by (cases a; cases b) (auto simp: word_unat_eq_iff)

lemma ip_num_div_addr_bits [simp]: "ip_num ip div 2 ^ addr_bits ip = 0"
  using ip_num_bound by (rule div_less)

lemma addr_bits_cong: "is_ipv4 a = is_ipv4 b \<Longrightarrow> addr_bits a = addr_bits b"
  by (simp add: addr_bits_def)

lemma addr_bits_le: "addr_bits ip \<le> 128"
  by (simp add: addr_bits_def)

lemma addr_bits_cases: "addr_bits ip = 32 \<and> is_ipv4 ip \<or> addr_bits ip = 128 \<and> \<not> is_ipv4 ip"
  by (simp add: addr_bits_def)

lemma network_address_eq_None: "network_address ip p = None \<longleftrightarrow> addr_bits ip < p"
  by (cases ip) (auto simp: network_address_def addr_bits_def)

lemma network_address_Some:
  assumes "network_address ip p = Some n"
  shows "is_ipv4 n = is_ipv4 ip"
    and "ip_num n = ip_num ip div 2 ^ (addr_bits ip - p) * 2 ^ (addr_bits ip - p)"
proof -
  have "p = 0 \<Longrightarrow> ip_num ip div 2 ^ (addr_bits ip - p) = 0" by simp
  with assms show "ip_num n = ip_num ip div 2 ^ (addr_bits ip - p) * 2 ^ (addr_bits ip - p)"
    by (cases ip) (auto simp: network_address_def addr_bits_def split: if_splits)
  from assms show "is_ipv4 n = is_ipv4 ip"
    by (cases ip) (auto simp: network_address_def split: if_splits)
qed

lemma network_address_exists: "p \<le> addr_bits ip \<Longrightarrow> \<exists>n. network_address ip p = Some n"
  using network_address_eq_None [of ip p] by (cases "network_address ip p") auto

lemma ip_in_subnet_iff:
  "p \<le> addr_bits net \<Longrightarrow>
     ip_in_subnet ip net p \<longleftrightarrow>
     is_ipv4 ip = is_ipv4 net \<and>
     ip_num ip div 2 ^ (addr_bits net - p) = ip_num net div 2 ^ (addr_bits net - p)"
proof (cases "is_ipv4 ip = is_ipv4 net")
  case True
  then have "addr_bits ip = addr_bits net" by (rule addr_bits_cong)
  with True show "p \<le> addr_bits net \<Longrightarrow> ?thesis"
    using ip_num_div_addr_bits [of ip] ip_num_div_addr_bits [of net]
    by (cases ip; cases net; cases "p = 0") (auto simp: addr_bits_def)
next
  case False
  then show ?thesis by (cases ip; cases net) auto
qed

lemma unat_u32_max [simp]: "unat u32_max = 2 ^ 32 - 1"
  by (simp add: u32_max_def)

lemma unat_ucast_32_128 [simp]: "unat (ucast (a :: 32 word) :: 128 word) = unat a"
  using ip_num_simps(1) [of a] by (simp add: ip_num_def)

lemma unat_ucast_128_32:
  "unat (n :: 128 word) < 2 ^ 32 \<Longrightarrow> unat (ucast n :: 32 word) = unat n"
  by (simp add: unsigned_ucast_eq take_bit_nat_eq_self)

lemma checked_add_u128_Some:
  "checked_add_u128 a b = Some c \<longleftrightarrow> unat c = unat a + unat b"
proof
  assume "checked_add_u128 a b = Some c"
  then show "unat c = unat a + unat b"
    by (auto simp: checked_add_u128_def unat_word_ariths split: if_splits)
next
  assume c: "unat c = unat a + unat b"
  have "unat c < 2 ^ LENGTH(128)" by (rule unsigned_less)
  with c show "checked_add_u128 a b = Some c"
    by (auto simp: checked_add_u128_def word_unat_eq_iff unat_word_ariths)
qed

lemma ip_offset_Some:
  "ip_offset ip off = Some r \<longleftrightarrow> is_ipv4 r = is_ipv4 ip \<and> ip_num r = ip_num ip + unat off"
proof (cases ip)
  case (V4 a)
  have "ip_offset (V4 a) off = Some r \<longleftrightarrow>
      (\<exists>n. unat n = unat a + unat off \<and> n \<le> u32_max \<and> r = V4 (ucast n))"
    by (auto simp: bind_eq_Some_conv checked_add_u128_Some)
  also have "\<dots> \<longleftrightarrow> is_ipv4 r \<and> ip_num r = unat a + unat off"
  proof (cases r)
    case (V4 b)
    show ?thesis
    proof
      assume "\<exists>n. unat n = unat a + unat off \<and> n \<le> u32_max \<and> r = V4 (ucast n)"
      then obtain n where n: "unat n = unat a + unat off" "n \<le> u32_max" "r = V4 (ucast n)" by blast
      from n(2) have "unat n < 2 ^ 32" unfolding word_le_nat_alt by simp
      with n V4 show "is_ipv4 r \<and> ip_num r = unat a + unat off" by (simp add: unat_ucast_128_32)
    next
      assume b: "is_ipv4 r \<and> ip_num r = unat a + unat off"
      have lt: "unat b < 2 ^ 32" using unsigned_less [of b] by simp
      then have "(ucast b :: 128 word) \<le> u32_max" unfolding word_le_nat_alt by simp
      with b V4 lt show "\<exists>n. unat n = unat a + unat off \<and> n \<le> u32_max \<and> r = V4 (ucast n)"
        by (intro exI [of _ "ucast b"]) (simp add: word_unat_eq_iff unat_ucast_128_32)
    qed
  qed simp
  finally show ?thesis using V4 by simp
next
  case (V6 a)
  then show ?thesis by (cases r) (auto simp: checked_add_u128_Some)
qed

lemma ip_from_bits_num:
  "b = 32 \<and> unat v < 2 ^ 32 \<or> b = 128 \<Longrightarrow>
     ip_num (ip_from_bits b v) = unat v \<and> is_ipv4 (ip_from_bits b v) = (b = 32)"
  by (auto simp: ip_from_bits_def unat_ucast_128_32)

lemma ip_from_bits_ip_num: "ip_from_bits (addr_bits r) (of_nat (ip_num r)) = r"
proof (rule ip_eqI)
  have "ip_num r < 2 ^ LENGTH(128)"
    by (rule order_less_le_trans [OF ip_num_bound]) (simp add: addr_bits_def)
  then have u: "unat (of_nat (ip_num r) :: 128 word) = ip_num r"
    unfolding unat_of_nat by (rule mod_less)
  have "addr_bits r = 32 \<and> unat (of_nat (ip_num r) :: 128 word) < 2 ^ 32 \<or> addr_bits r = 128"
    unfolding u by (metis addr_bits_cases ip_num_bound)
  note num = ip_from_bits_num [OF this]
  show "is_ipv4 (ip_from_bits (addr_bits r) (of_nat (ip_num r))) = is_ipv4 r"
    using num addr_bits_cases [of r] by auto
  show "ip_num (ip_from_bits (addr_bits r) (of_nat (ip_num r))) = ip_num r"
    using num u by simp
qed

end
