(* ===== verification/Ip_Text.thy ===== *)
theory Ip_Text
  imports Ip_Addr
begin

text \<open>
  The text form of an address: what \<open>str::parse::<IpAddr>\<close> accepts and what
  \<open>IpAddr::to_string\<close> writes. The reader follows the standard library's recursive-descent
  parser: a dotted quad without leading zeros, or hexadecimal groups with at most one \<open>::\<close>
  and an optional trailing dotted quad. The printer compresses the longest run of at least
  two zero groups (the first one among equals) and writes IPv4-mapped addresses with a
  dotted quad. The main result is the round trip: parsing what was printed gives the
  address back.
\<close>

type_synonym 'a reader = "string \<Rightarrow> ('a \<times> string) option"

definition read_number :: "nat \<Rightarrow> nat \<Rightarrow> nat \<Rightarrow> bool \<Rightarrow> nat reader" where
  "read_number r max_digits max_val zero_prefix s =
     (let ds = takeWhile (is_radix_digit r) s in
      if max_digits < length ds then None
      else if ds = [] then None
      else if \<not> zero_prefix \<and> hd ds = CHR ''0'' \<and> 1 < length ds then None
      else (case digits_val r 0 ds of
              None \<Rightarrow> None
            | Some n \<Rightarrow> if n \<le> max_val then Some (n, drop (length ds) s) else None))"

definition read_separator :: "char \<Rightarrow> nat \<Rightarrow> 'a reader \<Rightarrow> 'a reader" where
  "read_separator c i p s =
     (if i = 0 then p s
      else (case s of [] \<Rightarrow> None | x # xs \<Rightarrow> if x = c then p xs else None))"

definition read_octet :: "nat \<Rightarrow> nat reader" where
  "read_octet i = read_separator CHR ''.'' i (read_number 10 3 255 False)"

text \<open>The dotted quad as its number, most significant octet first.\<close>

definition read_ipv4 :: "nat reader" where
  "read_ipv4 s =
     Option.bind (read_octet 0 s) (\<lambda>(a, s1).
     Option.bind (read_octet 1 s1) (\<lambda>(b, s2).
     Option.bind (read_octet 2 s2) (\<lambda>(c, s3).
     Option.bind (read_octet 3 s3) (\<lambda>(d, s4).
       Some (((a * 256 + b) * 256 + c) * 256 + d, s4)))))"

abbreviation read_group :: "nat reader" where
  "read_group \<equiv> read_number 16 4 65535 True"

text \<open>
  Up to \<open>n\<close> more groups, the first of them at index \<open>i\<close>: the groups, whether they ended in
  a dotted quad, and what is left.
\<close>

fun read_groups :: "nat \<Rightarrow> nat \<Rightarrow> string \<Rightarrow> nat list \<times> bool \<times> string" where
  "read_groups i 0 s = ([], False, s)"
| "read_groups i (Suc n) s =
     (case (if n = 0 then None else read_separator CHR '':'' i read_ipv4 s) of
        Some (v, r) \<Rightarrow> ([v div 65536, v mod 65536], True, r)
      | None \<Rightarrow>
          (case read_separator CHR '':'' i read_group s of
             None \<Rightarrow> ([], False, s)
           | Some (g, r) \<Rightarrow>
               (case read_groups (Suc i) n r of (gs, quad, r') \<Rightarrow> (g # gs, quad, r'))))"

definition groups_num :: "nat list \<Rightarrow> nat" where
  "groups_num gs = foldl (\<lambda>a g. a * 65536 + g) 0 gs"

definition read_ipv6 :: "nat reader" where
  "read_ipv6 s =
     (case read_groups 0 8 s of (front, quad, r) \<Rightarrow>
        if length front = 8 then Some (groups_num front, r)
        else if quad then None
        else (case strip_prefix_str ''::'' r of
                None \<Rightarrow> None
              | Some r1 \<Rightarrow>
                  (case read_groups 0 (8 - (length front + 1)) r1 of (back, _, r2) \<Rightarrow>
                     Some (groups_num
                       (front @ replicate (8 - length front - length back) 0 @ back), r2))))"

definition parse_ip :: "string \<Rightarrow> ip_addr option" where
  "parse_ip s =
     (case read_ipv4 s of
        Some (v, r) \<Rightarrow> if r = [] then Some (V4 (of_nat v)) else None
      | None \<Rightarrow>
          (case read_ipv6 s of
             Some (v, r) \<Rightarrow> if r = [] then Some (V6 (of_nat v)) else None
           | None \<Rightarrow> None))"

subsection \<open>Printing\<close>

definition show_quad :: "nat \<Rightarrow> string" where
  "show_quad n =
     show_nat (n div 16777216 mod 256) @ CHR ''.'' # show_nat (n div 65536 mod 256) @
     CHR ''.'' # show_nat (n div 256 mod 256) @ CHR ''.'' # show_nat (n mod 256)"

fun show_groups :: "nat list \<Rightarrow> string" where
  "show_groups [] = []"
| "show_groups [g] = show_radix 16 g"
| "show_groups (g # gs) = show_radix 16 g @ CHR '':'' # show_groups gs"

definition segments :: "nat \<Rightarrow> nat list" where
  "segments n = map (\<lambda>i. n div 65536 ^ (7 - i) mod 65536) [0..<8]"

text \<open>The loop over the segments: index, current run and longest run as (start, length).\<close>

fun zero_run :: "nat list \<Rightarrow> nat \<Rightarrow> nat \<times> nat \<Rightarrow> nat \<times> nat \<Rightarrow> nat \<times> nat" where
  "zero_run [] i current longest = longest"
| "zero_run (g # gs) i current longest =
     (if g = 0 then
        (let current' = ((if snd current = 0 then i else fst current), Suc (snd current)) in
         zero_run gs (Suc i) current' (if snd longest < snd current' then current' else longest))
      else zero_run gs (Suc i) (0, 0) longest)"

definition show_ipv6 :: "nat \<Rightarrow> string" where
  "show_ipv6 n =
     (let gs = segments n in
      if take 6 gs = [0, 0, 0, 0, 0, 65535] then ''::ffff:'' @ show_quad (n mod 4294967296)
      else (case zero_run gs 0 (0, 0) (0, 0) of (start, len) \<Rightarrow>
              if 1 < len
              then show_groups (take start gs) @ ''::'' @ show_groups (drop (start + len) gs)
              else show_groups gs))"

fun show_ip :: "ip_addr \<Rightarrow> string" where
  "show_ip (V4 a) = show_quad (unat a)"
| "show_ip (V6 a) = show_ipv6 (unat a)"

subsection \<open>Reading back a printed number\<close>

lemma hd_show_radix_zero:
  "2 \<le> r \<Longrightarrow> r \<le> 16 \<Longrightarrow> hd (show_radix r n) = CHR ''0'' \<Longrightarrow> n = 0"
proof (induction r n rule: show_radix.induct)
  case (1 r n)
  show ?case
  proof (cases "n < r")
    case True
    with 1 have "digit_char n = CHR ''0''" by (simp add: show_radix.simps [of r n])
    then have "of_char (digit_char n) = (48 :: nat)" by simp
    with True 1(3) show ?thesis by (simp add: of_char_digit_char split: if_splits)
  next
    case False
    with 1 have "hd (show_radix r (n div r)) = CHR ''0''"
      by (simp add: show_radix.simps [of r n])
    with 1 False have "n div r = 0" by simp
    with False 1(2) show ?thesis by (simp add: div_eq_0_iff)
  qed
qed

lemma takeWhile_show_radix:
  assumes "2 \<le> r" "r \<le> 16" "rest = [] \<or> \<not> is_radix_digit r (hd rest)"
  shows "takeWhile (is_radix_digit r) (show_radix r n @ rest) = show_radix r n"
proof -
  have "is_radix_digit r c" if "c \<in> set (show_radix r n)" for c
    using assms(1,2) that by (rule show_radix_is_digit)
  then have "takeWhile (is_radix_digit r) (show_radix r n @ rest) =
      show_radix r n @ takeWhile (is_radix_digit r) rest"
    by (intro takeWhile_append2) auto
  with assms(3) show ?thesis by (cases rest) auto
qed

lemma read_number_show:
  assumes "2 \<le> r" "r \<le> 16" "n < r ^ k" "0 < k" "n \<le> v"
    and "rest = [] \<or> \<not> is_radix_digit r (hd rest)"
  shows "read_number r k v z (show_radix r n @ rest) = Some (n, rest)"
proof -
  have "length (show_radix r n) \<le> k" using assms by (intro length_show_radix_le) auto
  moreover have "\<not> (hd (show_radix r n) = CHR ''0'' \<and> 1 < length (show_radix r n))"
    using hd_show_radix_zero [OF assms(1,2), of n] assms(1)
    by (auto simp: show_radix.simps [of r 0])
  ultimately show ?thesis
    unfolding read_number_def takeWhile_show_radix [OF assms(1,2,6)] Let_def
    using assms(1-5) by (simp add: digits_val_show_radix)
qed

lemma read_number_rest:
  "read_number r k v z s = Some (n, t) \<Longrightarrow> t = dropWhile (is_radix_digit r) s"
  by (auto simp: read_number_def Let_def dropWhile_eq_drop split: if_splits option.splits)

lemma read_number_Cons_None: "\<not> is_radix_digit r c \<Longrightarrow> read_number r k v z (c # s) = None"
  by (simp add: read_number_def)

lemma read_number_Nil [simp]: "read_number r k v z [] = None"
  by (simp add: read_number_def)

subsection \<open>IPv4\<close>

lemma read_octet_show:
  assumes "n < 256" "rest = [] \<or> \<not> is_radix_digit 10 (hd rest)"
  shows "read_octet 0 (show_nat n @ rest) = Some (n, rest)"
    and "0 < i \<Longrightarrow> read_octet i (CHR ''.'' # show_nat n @ rest) = Some (n, rest)"
  using assms by (simp_all add: read_octet_def read_separator_def read_number_show)

lemma quad_value:
  "16777216 * (n div 16777216) + 65536 * (n div 65536 mod 256) + n div 256 mod 256 * 256
    + n mod 256 = (n :: nat)"
proof -
  have "n = n div 256 * 256 + n mod 256" by simp
  moreover have "n div 256 = n div 65536 * 256 + n div 256 mod 256"
    using div_mult_mod_eq [of "n div 256" 256] by (simp flip: div_mult2_eq)
  moreover have "n div 65536 = n div 16777216 * 256 + n div 65536 mod 256"
    using div_mult_mod_eq [of "n div 65536" 256] by (simp flip: div_mult2_eq)
  ultimately show ?thesis by linarith
qed

lemma read_ipv4_show_quad [parse_simps]:
  assumes "n < 4294967296" "rest = [] \<or> \<not> is_radix_digit 10 (hd rest)"
  shows "read_ipv4 (show_quad n @ rest) = Some (n, rest)"
  using assms by (simp add: read_ipv4_def show_quad_def read_octet_show quad_value)

lemma parse_show_ipv4: "parse_ip (show_ip (V4 a)) = Some (V4 a)"
proof -
  have "unat a < 4294967296" using unsigned_less [of a, where 'a = nat] by simp
  then show ?thesis using read_ipv4_show_quad [of "unat a" "[]"] by (simp add: parse_ip_def)
qed

subsection \<open>IPv6\<close>

text \<open>A dotted quad is never read where a hexadecimal group ends in \<open>:\<close> or in the end.\<close>

lemma read_ipv4_Cons_None: "\<not> is_radix_digit 10 c \<Longrightarrow> read_ipv4 (c # s) = None"
  by (simp add: read_ipv4_def read_octet_def read_separator_def read_number_Cons_None)

lemma read_ipv4_Nil [simp]: "read_ipv4 [] = None"
  by (simp add: read_ipv4_def read_octet_def read_separator_def)

lemma read_ipv4_needs_dot:
  assumes "hd (dropWhile (is_radix_digit 10) s) \<noteq> CHR ''.'' \<or>
      dropWhile (is_radix_digit 10) s = []"
  shows "read_ipv4 s = None"
proof (cases "read_octet 0 s")
  case (Some p)
  then obtain a t where p: "p = (a, t)" by (cases p)
  with Some have "read_number 10 3 255 False s = Some (a, t)"
    by (simp add: read_octet_def read_separator_def)
  then have "t = dropWhile (is_radix_digit 10) s" by (rule read_number_rest)
  with assms have "t = [] \<or> hd t \<noteq> CHR ''.''" by blast
  then have "read_octet 1 t = None"
    by (cases t) (auto simp: read_octet_def read_separator_def)
  with Some p show ?thesis by (simp add: read_ipv4_def)
qed (simp add: read_ipv4_def)

lemma read_ipv4_hex_None:
  assumes "rest = [] \<or> hd rest = CHR '':''"
  shows "read_ipv4 (show_radix 16 g @ rest) = None"
proof (rule read_ipv4_needs_dot)
  let ?P = "is_radix_digit 10"
  have "dropWhile ?P (show_radix 16 g @ rest) = [] \<or>
      hd (dropWhile ?P (show_radix 16 g @ rest)) \<in> set (show_radix 16 g) \<union> {CHR '':''}"
  proof (cases "\<forall>c \<in> set (show_radix 16 g). ?P c")
    case True
    then have "dropWhile ?P (show_radix 16 g @ rest) = dropWhile ?P rest"
      by (intro dropWhile_append2) auto
    with assms show ?thesis by (cases rest) auto
  next
    case False
    then have ne: "dropWhile ?P (show_radix 16 g) \<noteq> []" by (simp add: dropWhile_eq_Nil_conv)
    from False obtain c where "c \<in> set (show_radix 16 g)" "\<not> ?P c" by blast
    then have "dropWhile ?P (show_radix 16 g @ rest) = dropWhile ?P (show_radix 16 g) @ rest"
      by (rule dropWhile_append1)
    then have "hd (dropWhile ?P (show_radix 16 g @ rest)) \<in> set (dropWhile ?P (show_radix 16 g))"
      using ne by simp
    then have "hd (dropWhile ?P (show_radix 16 g @ rest)) \<in> set (show_radix 16 g)"
      by (rule set_dropWhileD)
    then show ?thesis by blast
  qed
  then show "hd (dropWhile ?P (show_radix 16 g @ rest)) \<noteq> CHR ''.'' \<or>
      dropWhile ?P (show_radix 16 g @ rest) = []"
    using separators_not_in_show(2) [of 16 g] by auto
qed

definition sep_groups :: "nat \<Rightarrow> nat list \<Rightarrow> string" where
  "sep_groups i gs = (if i = 0 \<or> gs = [] then show_groups gs else CHR '':'' # show_groups gs)"

lemma show_groups_Cons: "show_groups (g # gs) = show_radix 16 g @ sep_groups (Suc i) gs"
  by (cases gs) (simp_all add: sep_groups_def)

lemma read_groups_stop:
  "rest = [] \<or> (\<exists>t. rest = CHR '':'' # CHR '':'' # t) \<Longrightarrow> read_groups i n rest = ([], False, rest)"
  by (cases n) (auto simp: read_separator_def read_number_Cons_None read_ipv4_Cons_None)

lemma read_groups_show:
  assumes "\<forall>g \<in> set gs. g < 65536" "length gs \<le> n"
    and "rest = [] \<or> (\<exists>t. rest = CHR '':'' # CHR '':'' # t)"
  shows "read_groups i n (sep_groups i gs @ rest) = (gs, False, rest)"
  using assms
proof (induction gs arbitrary: i n)
  case Nil
  then show ?case using read_groups_stop by (simp add: sep_groups_def)
next
  case (Cons g gs)
  then obtain m where n: "n = Suc m" by (cases n) auto
  let ?rest = "sep_groups (Suc i) gs @ rest"
  have rest: "?rest = [] \<or> hd ?rest = CHR '':''"
    using Cons.prems(3) by (auto simp: sep_groups_def)
  have quad: "read_ipv4 (show_radix 16 g @ ?rest) = None"
    using rest by (rule read_ipv4_hex_None)
  have "?rest = [] \<or> \<not> is_radix_digit 16 (hd ?rest)" using rest by auto
  then have grp: "read_group (show_radix 16 g @ ?rest) = Some (g, ?rest)"
    using Cons.prems(1) by (intro read_number_show) auto
  have whole: "sep_groups i (g # gs) @ rest =
      (if i = 0 then show_radix 16 g @ ?rest else CHR '':'' # show_radix 16 g @ ?rest)"
    by (simp add: sep_groups_def [of i] show_groups_Cons)
  have "read_groups (Suc i) m ?rest = (gs, False, rest)"
    using Cons.prems n by (intro Cons.IH) auto
  with n quad grp show ?case unfolding whole n
    by (cases "m = 0") (auto simp: read_separator_def)
qed

subsubsection \<open>The segments of a number\<close>

lemma foldl_segments:
  "foldl (\<lambda>a g. a * B + g) acc (map (\<lambda>i. n div B ^ (k - 1 - i) mod B) [0..<k]) =
     acc * B ^ k + n mod B ^ (k :: nat)" for n B acc :: nat
proof (induction k arbitrary: acc)
  case 0
  then show ?case by simp
next
  case (Suc k)
  have "[0..<Suc k] = 0 # map Suc [0..<k]" by (simp add: map_Suc_upt upt_conv_Cons del: upt_Suc)
  then have "foldl (\<lambda>a g. a * B + g) acc (map (\<lambda>i. n div B ^ (Suc k - 1 - i) mod B) [0..<Suc k])
      = (acc * B + n div B ^ k mod B) * B ^ k + n mod B ^ k"
    by (simp add: Suc.IH [simplified] comp_def del: upt_Suc)
  also have "\<dots> = acc * B ^ Suc k + n mod B ^ Suc k"
    using mod_mult2_eq [of n "B ^ k" B] by (simp add: algebra_simps)
  finally show ?case .
qed

lemma groups_num_segments: "n < 2 ^ 128 \<Longrightarrow> groups_num (segments n) = n"
  using foldl_segments [where k = 8 and B = 65536 and acc = 0 and n = n]
  by (simp add: groups_num_def segments_def)

lemma segments_less: "g \<in> set (segments n) \<Longrightarrow> g < 65536"
  by (auto simp: segments_def)

lemma length_segments [simp]: "length (segments n) = 8"
  by (simp add: segments_def)

text \<open>The run found is a run of zeros inside the list.\<close>

lemma zero_run_zeros:
  assumes "zero_run xs i cur long = (st, len)"
    and "length pre = i"
    and "snd cur > 0 \<longrightarrow> fst cur + snd cur = i"
    and "\<forall>j. fst cur \<le> j \<and> j < fst cur + snd cur \<longrightarrow> pre ! j = 0"
    and "fst long + snd long \<le> i"
    and "\<forall>j. fst long \<le> j \<and> j < fst long + snd long \<longrightarrow> pre ! j = 0"
  shows "st + len \<le> length (pre @ xs) \<and> (\<forall>j. st \<le> j \<and> j < st + len \<longrightarrow> (pre @ xs) ! j = 0)"
  using assms
proof (induction xs i cur long arbitrary: pre rule: zero_run.induct)
  case (1 i cur long)
  then show ?case by auto
next
  case (2 g gs i cur long)
  define cur' where "cur' = ((if snd cur = 0 then i else fst cur), Suc (snd cur))"
  define long' where "long' = (if snd long < snd cur' then cur' else long)"
  show ?case
  proof (cases "g = 0")
    case True
    have eq: "zero_run gs (Suc i) cur' long' = (st, len)"
      using 2(3) by (simp only: zero_run.simps True if_True Let_def cur'_def long'_def refl)
    have c: "fst cur' + snd cur' = Suc i" using 2(5) by (auto simp: cur'_def)
    have cz: "\<forall>j. fst cur' \<le> j \<and> j < fst cur' + snd cur' \<longrightarrow> (pre @ [g]) ! j = 0"
      using 2(4-6) True by (auto simp: cur'_def nth_append)
    have l: "fst long' + snd long' \<le> Suc i" using c 2(7) by (auto simp: long'_def)
    have lz: "\<forall>j. fst long' \<le> j \<and> j < fst long' + snd long' \<longrightarrow> (pre @ [g]) ! j = 0"
      using cz 2(4,7,8) by (auto simp: long'_def nth_append)
    show ?thesis
      using 2(1) [OF True, of cur' "pre @ [g]"] eq c cz l lz 2(4) True
      by (simp add: cur'_def long'_def)
  next
    case False
    then show ?thesis using 2(2) [OF False, of "pre @ [g]"] 2(3-8)
      by (simp add: nth_append)
  qed
qed

lemma zero_run_split:
  assumes "zero_run gs 0 (0, 0) (0, 0) = (st, len)"
  shows "st + len \<le> length gs" "gs = take st gs @ replicate len 0 @ drop (st + len) gs"
proof -
  have run: "st + len \<le> length gs \<and> (\<forall>j. st \<le> j \<and> j < st + len \<longrightarrow> gs ! j = 0)"
    using zero_run_zeros [OF assms, of "[]"] by simp
  then show "st + len \<le> length gs" by simp
  have "take len (drop st gs) = replicate len 0"
    using run by (intro nth_equalityI) auto
  then show "gs = take st gs @ replicate len 0 @ drop (st + len) gs"
    by (metis add.commute append_take_drop_id drop_drop)
qed

subsubsection \<open>Round trip\<close>

lemma read_groups_mapped:
  assumes "v < 4294967296"
  shows "read_groups 0 (Suc 6) (''ffff:'' @ show_quad v) = ([65535, v div 65536, v mod 65536], True, [])"
proof -
  have f: "show_radix 16 65535 = ''ffff''" by (simp add: show_radix.simps digit_char_def char_of_eq_iff)
  have "read_ipv4 (''ffff'' @ CHR '':'' # show_quad v) = None"
    using read_ipv4_hex_None [of "CHR '':'' # show_quad v" 65535] f by simp
  moreover have "read_group (''ffff'' @ CHR '':'' # show_quad v) =
      Some (65535, CHR '':'' # show_quad v)"
    using read_number_show [of 16 65535 4 65535 "CHR '':'' # show_quad v" True] f by simp
  moreover have "read_groups 1 (Suc 5) (CHR '':'' # show_quad v) = ([v div 65536, v mod 65536], True, [])"
    using read_ipv4_show_quad [OF assms, of "[]"]
    unfolding read_groups.simps by (simp add: read_separator_def)
  ultimately show ?thesis
    unfolding read_groups.simps(2) [of 0 6] by (simp add: read_separator_def)
qed

lemma segments_drop_6: "drop 6 (segments n) = [n div 65536 mod 65536, n mod 65536]"
  by (simp add: segments_def upt_rec)

lemma mapped_groups:
  assumes "take 6 (segments n) = [0, 0, 0, 0, 0, 65535]"
  shows "replicate 5 0 @ [65535, (n mod 4294967296) div 65536, (n mod 4294967296) mod 65536]
    = segments n"
proof -
  have "n mod 4294967296 = 65536 * (n div 65536 mod 65536) + n mod 65536"
    using mod_mult2_eq [of n 65536 65536] by simp
  moreover have "segments n = take 6 (segments n) @ drop 6 (segments n)" by simp
  moreover have "replicate 5 (0 :: nat) = [0, 0, 0, 0, 0]" by (simp add: eval_nat_numeral)
  ultimately show ?thesis using assms by (simp add: segments_drop_6)
qed

lemma read_ipv6_mapped:
  assumes "n < 2 ^ 128" "take 6 (segments n) = [0, 0, 0, 0, 0, 65535]"
  shows "read_ipv6 (''::ffff:'' @ show_quad (n mod 4294967296)) = Some (n, [])"
proof -
  let ?v = "n mod 4294967296"
  have "read_groups 0 8 (''::ffff:'' @ show_quad ?v) = ([], False, ''::ffff:'' @ show_quad ?v)"
    by (rule read_groups_stop) simp
  moreover have "read_groups 0 (Suc 6) (''ffff:'' @ show_quad ?v) =
      ([65535, ?v div 65536, ?v mod 65536], True, [])"
    by (rule read_groups_mapped) simp
  moreover have "groups_num (replicate 5 0 @ [65535, ?v div 65536, ?v mod 65536]) = n"
    using mapped_groups [OF assms(2)] groups_num_segments [OF assms(1)] by simp
  ultimately show ?thesis by (simp add: read_ipv6_def)
qed

lemma read_ipv6_compressed:
  assumes "n < 2 ^ 128" "zero_run (segments n) 0 (0, 0) (0, 0) = (st, len)" "1 < len"
  shows "read_ipv6 (show_groups (take st (segments n)) @ ''::'' @
    show_groups (drop (st + len) (segments n))) = Some (n, [])"
proof -
  let ?f = "take st (segments n)" and ?b = "drop (st + len) (segments n)"
  note split = zero_run_split [OF assms(2)]
  have "read_groups 0 8 (sep_groups 0 ?f @ ''::'' @ show_groups ?b) = (?f, False, ''::'' @ show_groups ?b)"
    by (rule read_groups_show) (auto simp: segments_less dest: in_set_takeD)
  moreover have "read_groups 0 (8 - (length ?f + 1)) (sep_groups 0 ?b @ []) = (?b, False, [])"
    using split(1) assms(3) by (intro read_groups_show) (auto simp: segments_less dest: in_set_dropD)
  moreover have "groups_num (?f @ replicate (8 - length ?f - length ?b) 0 @ ?b) = n"
    using split groups_num_segments [OF assms(1)] assms(3) by simp
  ultimately show ?thesis
    using split(1) assms(3) by (simp add: read_ipv6_def sep_groups_def)
qed

lemma read_ipv6_plain:
  assumes "n < 2 ^ 128"
  shows "read_ipv6 (show_groups (segments n)) = Some (n, [])"
proof -
  have "read_groups 0 8 (sep_groups 0 (segments n) @ []) = (segments n, False, [])"
    by (rule read_groups_show) (auto simp: segments_less)
  then show ?thesis
    using groups_num_segments [OF assms] by (simp add: read_ipv6_def sep_groups_def)
qed

lemma read_ipv6_show: "n < 2 ^ 128 \<Longrightarrow> read_ipv6 (show_ipv6 n) = Some (n, [])"
  by (auto simp: show_ipv6_def Let_def read_ipv6_mapped read_ipv6_compressed read_ipv6_plain
      simp del: append_Cons split: prod.splits)

lemma read_ipv4_show_groups:
  "rest = [] \<or> hd rest = CHR '':'' \<Longrightarrow> read_ipv4 (show_groups gs @ rest) = None"
proof (cases gs)
  case Nil
  then show "rest = [] \<or> hd rest = CHR '':'' \<Longrightarrow> ?thesis"
    by (cases rest) (auto simp: read_ipv4_Cons_None)
next
  case (Cons g gs')
  assume "rest = [] \<or> hd rest = CHR '':''"
  then have "read_ipv4 (show_radix 16 g @ sep_groups 1 gs' @ rest) = None"
    by (intro read_ipv4_hex_None) (auto simp: sep_groups_def)
  with Cons show ?thesis by (simp add: show_groups_Cons [of g gs' 0])
qed

lemma read_ipv4_show_ipv6: "read_ipv4 (show_ipv6 n) = None"
  using read_ipv4_show_groups [of "[]" "segments n"]
  by (auto simp: show_ipv6_def Let_def read_ipv4_show_groups read_ipv4_Cons_None split: prod.splits)

lemma parse_show_ip: "parse_ip (show_ip ip) = Some ip"
proof (cases ip)
  case (V6 a)
  have "unat a < 2 ^ 128" using unsigned_less [of a, where 'a = nat] by simp
  with V6 show ?thesis by (simp add: parse_ip_def read_ipv4_show_ipv6 read_ipv6_show)
qed (use parse_show_ipv4 in auto)

subsection \<open>Characters\<close>

lemma slash_not_in_show_groups: "CHR ''/'' \<notin> set (show_groups gs)"
  by (induction gs rule: show_groups.induct) auto

lemma slash_not_in_show_ip [simp]: "CHR ''/'' \<notin> set (show_ip ip)"
  by (cases ip) (simp_all add: show_quad_def show_ipv6_def Let_def slash_not_in_show_groups
      split: prod.splits)

end
