(* ===== verification/Ip_Helpers.thy ===== *)
theory Ip_Helpers
  imports Ip_Text
begin

unbundle bit_operations_syntax

text \<open>
  CIDR parsing and the management network of \<open>crates/nlink-lab/src/helpers.rs\<close>:
  \<open>parse_cidr\<close>, \<open>parse_ip_or_cidr\<close>, \<open>mgmt_usable_hosts\<close>, \<open>mgmt_addresses\<close> and
  \<open>validate_interface_name\<close>. Each place the code builds an error is one constructor of
  \<open>helper_error\<close>; \<open>Arithmetic_Panic\<close> stands for an arithmetic overflow the code does not guard.
\<close>

datatype helper_error =
    Missing_Slash
  | Bad_Address
  | Bad_Prefix
  | Prefix_Exceeds nat nat
  | Mgmt_Too_Small "128 word" nat
  | Offset_Overflow "128 word"
  | Name_Empty
  | Name_Too_Long nat
  | Name_Reserved
  | Name_Invalid_Chars
  | Arithmetic_Panic

definition parse_cidr :: "string \<Rightarrow> (helper_error, ip_addr \<times> nat) result" where
  "parse_cidr s =
     and_then (ok_or (rsplit_once CHR ''/'' s) Missing_Slash) (\<lambda>(addr_str, prefix_str).
     and_then (ok_or (parse_ip addr_str) Bad_Address) (\<lambda>addr.
     and_then (ok_or (parse_u8 prefix_str) Bad_Prefix) (\<lambda>p.
       let mx = (if is_ipv4 addr then 32 else 128) in
       if mx < p then Inl (Prefix_Exceeds p mx) else Inr (addr, p))))"

definition parse_ip_or_cidr :: "string \<Rightarrow> (helper_error, ip_addr \<times> nat) result" where
  "parse_ip_or_cidr s =
     (if CHR ''/'' \<in> set s then parse_cidr s
      else and_then (ok_or (parse_ip s) Bad_Address) (\<lambda>ip. Inr (ip, addr_bits ip)))"

definition mgmt_usable_hosts :: "ip_addr \<Rightarrow> nat \<Rightarrow> 128 word" where
  "mgmt_usable_hosts ip p =
     (let bits = addr_bits ip in
      if bits - 1 \<le> p then 0
      else (case checked_shl_u128 1 (bits - p) of Some n \<Rightarrow> n - 2 | None \<Rightarrow> - 1))"

record mgmt_addrs =
  mgmt_bridge :: ip_addr
  mgmt_nodes :: "ip_addr list"
  mgmt_prefix :: nat

definition mgmt_addresses :: "string \<Rightarrow> nat \<Rightarrow> (helper_error, mgmt_addrs) result" where
  "mgmt_addresses mgmt_subnet node_count =
     and_then (parse_cidr mgmt_subnet) (\<lambda>(ip, p).
     and_then (ok_or (network_address ip p) Arithmetic_Panic) (\<lambda>network.
       let usable = mgmt_usable_hosts ip p; needed = node_count + 1 in
       if unat usable < needed then Inl (Mgmt_Too_Small usable node_count)
       else
         let at = (\<lambda>off. ok_or (ip_offset network off) (Offset_Overflow off)) in
         and_then (at 1) (\<lambda>b.
         and_then (traverse (\<lambda>idx. at (2 + of_nat idx)) [0..<node_count]) (\<lambda>ns.
           Inr \<lparr>mgmt_bridge = b, mgmt_nodes = ns, mgmt_prefix = p\<rparr>))))"

definition validate_interface_name :: "string \<Rightarrow> (helper_error, unit) result" where
  "validate_interface_name name =
     (if name = [] then Inl Name_Empty
      else if 15 < length name then Inl (Name_Too_Long (length name))
      else if name = ''.'' \<or> name = ''..'' then Inl Name_Reserved
      else if CHR ''/'' \<in> set name \<or> (\<exists>w \<in> set ws_encodings. sublist w name)
      then Inl Name_Invalid_Chars
      else Inr ())"

subsection \<open>CIDR text\<close>

lemma parse_cidr_Inr:
  "parse_cidr s = Inr (ip, p) \<Longrightarrow> p \<le> addr_bits ip"
  by (auto simp: parse_cidr_def addr_bits_def Let_def split: if_splits)

definition show_cidr :: "ip_addr \<Rightarrow> nat \<Rightarrow> string" where
  "show_cidr ip p = show_ip ip @ CHR ''/'' # show_nat p"

lemma parse_cidr_show [parse_simps]:
  assumes "p \<le> addr_bits ip"
  shows "parse_cidr (show_cidr ip p) = Inr (ip, p)"
proof -
  have "p \<le> 255" using assms addr_bits_le [of ip] by simp
  then show ?thesis using assms
    by (auto simp: parse_cidr_def show_cidr_def rsplit_once_append parse_show_ip
        parse_uint_show_nat addr_bits_def split: if_splits)
qed

subsection \<open>The management network\<close>

lemma unat_exp: "k < LENGTH('a) \<Longrightarrow> unat ((2 :: 'a :: len word) ^ k) = 2 ^ k"
proof -
  assume k: "k < LENGTH('a)"
  have "unat (push_bit k (1 :: 'a word)) = take_bit LENGTH('a) (push_bit k (unat (1 :: 'a word)))"
    by (rule unsigned_push_bit_eq)
  also have "\<dots> = 2 ^ k" using k by (simp add: push_bit_eq_mult take_bit_nat_eq_self)
  finally show ?thesis by simp
qed

lemma unat_one_shl [simp]: "k < 128 \<Longrightarrow> unat ((2 :: 128 word) ^ k) = 2 ^ k"
  using unat_exp [where 'a = 128] by simp

lemma unat_mgmt_usable_hosts:
  assumes "p \<le> addr_bits ip"
  shows "unat (mgmt_usable_hosts ip p) =
    (if addr_bits ip - p \<le> 1 then 0
     else if addr_bits ip - p = 128 then 2 ^ 128 - 1 else 2 ^ (addr_bits ip - p) - 2)"
proof -
  let ?k = "addr_bits ip - p"
  have k: "?k \<le> 128" using addr_bits_le [of ip] by simp
  consider "?k \<le> 1" | "?k = 128" | "2 \<le> ?k" "?k < 128" using k by linarith
  then show ?thesis
  proof cases
    case 1
    then have "addr_bits ip - 1 \<le> p" by linarith
    with 1 show ?thesis by (simp add: mgmt_usable_hosts_def Let_def)
  next
    case 2
    then show ?thesis
      by (simp add: mgmt_usable_hosts_def Let_def checked_shl_u128_def unsigned_minus_1_eq_mask
          mask_eq_exp_minus_1)
  next
    case 3
    have "(2 :: nat) ^ 2 \<le> 2 ^ ?k" using 3 by (intro power_increasing) auto
    then have "unat (push_bit ?k (1 :: 128 word) - 2) = 2 ^ ?k - 2"
      using 3 by (subst unat_sub) (simp_all add: unat_one_shl word_le_nat_alt)
    with 3 show ?thesis by (simp add: mgmt_usable_hosts_def Let_def checked_shl_u128_def)
  qed
qed

lemma usable_lt_block:
  assumes "p \<le> addr_bits ip" "0 < n" "n \<le> unat (mgmt_usable_hosts ip p)"
  shows "n < 2 ^ (addr_bits ip - p)" "addr_bits ip - p \<noteq> 128 \<longrightarrow> n < 2 ^ (addr_bits ip - p) - 1"
  using assms addr_bits_le [of ip] by (auto simp: unat_mgmt_usable_hosts split: if_splits)

lemma ip_with_num: "m < 2 ^ addr_bits ip \<Longrightarrow> \<exists>r. is_ipv4 r = is_ipv4 ip \<and> ip_num r = m"
  by (intro exI [of _ "if is_ipv4 ip then V4 (of_nat m) else V6 (of_nat m)"])
    (auto simp: addr_bits_def unat_of_nat split: if_splits)

text \<open>
  Inside a block: the network address plus an offset below the block size is in the subnet.
\<close>

lemma offset_in_block:
  assumes net: "network_address ip p = Some network" and off: "unat off < 2 ^ (addr_bits ip - p)"
  obtains r where "ip_offset network off = Some r" "is_ipv4 r = is_ipv4 ip"
    "ip_num r = ip_num network + unat off" "ip_in_subnet r network p"
proof -
  let ?k = "addr_bits ip - p"
  have p: "p \<le> addr_bits ip" using net network_address_eq_None [of ip p] by fastforce
  have fam: "is_ipv4 network = is_ipv4 ip" and num: "ip_num network = ip_num ip div 2 ^ ?k * 2 ^ ?k"
    using network_address_Some [OF net] by auto
  have bits: "addr_bits network = addr_bits ip" using fam by (rule addr_bits_cong)
  have "ip_num ip div 2 ^ ?k < 2 ^ p"
  proof -
    have "ip_num ip < 2 ^ p * 2 ^ ?k" using ip_num_bound [of ip] p by (simp flip: power_add)
    then show ?thesis by (rule less_mult_imp_div_less)
  qed
  then have "Suc (ip_num ip div 2 ^ ?k) * 2 ^ ?k \<le> 2 ^ p * 2 ^ ?k"
    by (intro mult_right_mono) auto
  then have total: "ip_num network + unat off < 2 ^ addr_bits ip"
    using off num p by (simp flip: power_add)
  then obtain r where r: "is_ipv4 r = is_ipv4 ip" "ip_num r = ip_num network + unat off"
    by (metis ip_with_num)
  have "ip_offset network off = Some r" using r fam by (simp add: ip_offset_Some)
  moreover have "ip_in_subnet r network p"
    using r fam bits p off num by (simp add: ip_in_subnet_iff)
  ultimately show thesis using that r by blast
qed

lemma mgmt_capacity:
  assumes "p \<le> addr_bits ip" "n < 2 ^ 64"
  shows "n + 1 \<le> unat (mgmt_usable_hosts ip p) \<longleftrightarrow> n + 3 \<le> 2 ^ (addr_bits ip - p)"
proof -
  let ?k = "addr_bits ip - p"
  consider "?k = 0" | "?k = 1" | "?k = 128" | "2 \<le> ?k" "?k \<noteq> 128" by linarith
  then show ?thesis
  proof cases
    case 4
    then show ?thesis unfolding unat_mgmt_usable_hosts [OF assms(1)] by simp arith
  qed (use assms in \<open>simp_all add: unat_mgmt_usable_hosts\<close>)
qed

lemma mgmt_addresses_ok:
  assumes cidr: "parse_cidr s = Inr (ip, p)" and net: "network_address ip p = Some network"
    and n: "n < 2 ^ 64" and fits: "n + 3 \<le> 2 ^ (addr_bits ip - p)"
  obtains m where "mgmt_addresses s n = Inr m" "mgmt_prefix m = p"
    "length (mgmt_nodes m) = n"
    "\<forall>i \<le> n. let a = (mgmt_bridge m # mgmt_nodes m) ! i in
       ip_num a = ip_num network + i + 1 \<and> ip_in_subnet a network p"
proof -
  let ?at = "\<lambda>off. ok_or (ip_offset network off) (Offset_Overflow off)"
  have p: "p \<le> addr_bits ip" using cidr by (rule parse_cidr_Inr)
  have off: "unat (of_nat i :: 128 word) = i" if "i \<le> n + 1" for i
    using that n by (simp add: unat_of_nat)
  have ex: "\<exists>r. ip_offset network (of_nat i) = Some r \<and> ip_num r = ip_num network + i
      \<and> ip_in_subnet r network p" if "i \<le> n + 1" for i
  proof -
    have "unat (of_nat i :: 128 word) < 2 ^ (addr_bits ip - p)"
      using off [OF that] that fits by linarith
    from offset_in_block [OF net this] show ?thesis using off [OF that] by metis
  qed
  then obtain f where f: "\<And>i. i \<le> n + 1 \<Longrightarrow> ip_offset network (of_nat i) = Some (f i)
      \<and> ip_num (f i) = ip_num network + i \<and> ip_in_subnet (f i) network p" by metis
  define m where "m = \<lparr>mgmt_bridge = f 1, mgmt_nodes = map (\<lambda>i. f (2 + i)) [0..<n], mgmt_prefix = p\<rparr>"
  have "traverse (\<lambda>idx. ?at (2 + of_nat idx)) [0..<n] = Inr (mgmt_nodes m)"
    unfolding m_def mgmt_addrs.simps
    by (rule traverse_Inr) (use f [of "2 + i" for i] in simp)
  moreover have "?at 1 = Inr (f 1)" using f [of 1] by simp
  ultimately have "mgmt_addresses s n = Inr m"
    using cidr net p n fits mgmt_capacity [OF p n]
    by (simp add: mgmt_addresses_def Let_def m_def not_less)
  moreover have "\<forall>i \<le> n. let a = (mgmt_bridge m # mgmt_nodes m) ! i in
       ip_num a = ip_num network + i + 1 \<and> ip_in_subnet a network p"
    using f [of "Suc i" for i] by (auto simp: m_def Let_def nth_Cons split: nat.splits)
  ultimately show thesis using that by (simp add: m_def)
qed

lemma mgmt_addresses_small:
  assumes "parse_cidr s = Inr (ip, p)" "n < 2 ^ 64" "2 ^ (addr_bits ip - p) < n + 3"
  shows "mgmt_addresses s n = Inl (Mgmt_Too_Small (mgmt_usable_hosts ip p) n)"
proof -
  have p: "p \<le> addr_bits ip" using assms(1) by (rule parse_cidr_Inr)
  obtain network where "network_address ip p = Some network" using network_address_exists [OF p] ..
  moreover have "unat (mgmt_usable_hosts ip p) < n + 1"
    using mgmt_capacity [OF p assms(2)] assms(3) by linarith
  ultimately show ?thesis using assms(1) by (simp add: mgmt_addresses_def Let_def)
qed

lemma mgmt_addresses_fit:
  assumes "parse_cidr s = Inr (ip, p)" and "n < 2 ^ 64" and True: "n + 3 \<le> 2 ^ (addr_bits ip - p)"
  shows "\<exists>m. mgmt_addresses s n = Inr m \<and> mgmt_prefix m = p \<and> length (mgmt_nodes m) = n \<and>
    distinct (mgmt_bridge m # mgmt_nodes m) \<and>
    (\<forall>i \<le> n. ip_in_subnet ((mgmt_bridge m # mgmt_nodes m) ! i) ip p \<and>
       ip_num ((mgmt_bridge m # mgmt_nodes m) ! i) mod 2 ^ (addr_bits ip - p) = i + 1 \<and>
       i + 1 < 2 ^ (addr_bits ip - p) - 1)"
proof -
  let ?h = "addr_bits ip - p"
  have p: "p \<le> addr_bits ip" using assms(1) by (rule parse_cidr_Inr)
  obtain net where net: "network_address ip p = Some net" using network_address_exists [OF p] ..
  obtain m where m: "mgmt_addresses s n = Inr m" "mgmt_prefix m = p" "length (mgmt_nodes m) = n"
    and at: "\<forall>i \<le> n. let a = (mgmt_bridge m # mgmt_nodes m) ! i in
       ip_num a = ip_num net + i + 1 \<and> ip_in_subnet a net p"
    using mgmt_addresses_ok [OF assms(1) net assms(2) True] by blast
  let ?as = "mgmt_bridge m # mgmt_nodes m"
  have num: "ip_num (?as ! i) = ip_num net + i + 1" "ip_in_subnet (?as ! i) net p" if "i \<le> n" for i
    using at that by (auto simp: Let_def)
  have "distinct ?as"
    unfolding distinct_conv_nth using m(3) num(1) by (metis add_right_cancel add_left_cancel
        length_Cons less_Suc_eq_le)
  moreover have "ip_in_subnet (?as ! i) ip p" if "i \<le> n" for i
    using num(2) [OF that] p network_address_Some [OF net] addr_bits_cong [of net ip]
    by (simp add: ip_in_subnet_iff)
  moreover have "ip_num (?as ! i) mod 2 ^ ?h = i + 1 \<and> i + 1 < 2 ^ ?h - 1" if "i \<le> n" for i
  proof -
    have "ip_num (?as ! i) = i + 1 + ip_num ip div 2 ^ ?h * 2 ^ ?h"
      using num(1) [OF that] network_address_Some(2) [OF net] by simp
    moreover have "i + 1 < 2 ^ ?h - 1" using that True by linarith
    ultimately show ?thesis by simp
  qed
  ultimately show ?thesis using m by auto
qed

subsection \<open>Properties\<close>

text \<open>
  The management network: for a subnet that parses and a node count a \<open>usize\<close> can hold, the
  call succeeds exactly when the block has room for the bridge, every node, the network
  address and the broadcast address; a too small block is the only error (the offset error
  and the shift are never reached). On success there is one address per node, the bridge
  and the nodes take consecutive addresses from the first host address on, so they are
  pairwise different, all of them are inside the subnet and none of them is its network
  address or its last address.
\<close>

theorem mgmt_addresses_correct:
  assumes "parse_cidr s = Inr (ip, p)" and "n < 2 ^ 64"
  shows "if n + 3 \<le> 2 ^ (addr_bits ip - p)
         then \<exists>m. mgmt_addresses s n = Inr m \<and> mgmt_prefix m = p \<and> length (mgmt_nodes m) = n \<and>
                distinct (mgmt_bridge m # mgmt_nodes m) \<and>
                (\<forall>i \<le> n. ip_in_subnet ((mgmt_bridge m # mgmt_nodes m) ! i) ip p \<and>
                   ip_num ((mgmt_bridge m # mgmt_nodes m) ! i) mod 2 ^ (addr_bits ip - p) = i + 1 \<and>
                   i + 1 < 2 ^ (addr_bits ip - p) - 1)
         else mgmt_addresses s n = Inl (Mgmt_Too_Small (mgmt_usable_hosts ip p) n)"
  using mgmt_addresses_fit [OF assms] mgmt_addresses_small [OF assms] by simp

theorem mgmt_addresses_correct_witness:
  "\<exists>m. mgmt_addresses ''10.0.0.0/29'' 5 = Inr m \<and> length (mgmt_nodes m) = 5 \<and>
     distinct (mgmt_bridge m # mgmt_nodes m)"
proof -
  have "parse_cidr ''10.0.0.0/29'' = Inr (V4 0x0A000000, 29)" by code_simp
  from mgmt_addresses_correct [OF this, of 5] show ?thesis by (auto simp: addr_bits_def)
qed

text \<open>
  An address with a prefix that fits its family survives printing and parsing, as a CIDR;
  printed without a prefix it parses as a host route of its family's full width.
\<close>

theorem parse_cidr_roundtrip:
  assumes "p \<le> addr_bits ip"
  shows "parse_cidr (show_cidr ip p) = Inr (ip, p) \<and>
         parse_ip_or_cidr (show_cidr ip p) = Inr (ip, p) \<and>
         parse_ip_or_cidr (show_ip ip) = Inr (ip, addr_bits ip)"
proof -
  have "CHR ''/'' \<in> set (show_cidr ip p)" by (simp add: show_cidr_def)
  then show ?thesis
    using parse_cidr_show [OF assms] slash_not_in_show_ip [of ip] parse_show_ip [of ip]
    by (simp add: parse_ip_or_cidr_def)
qed

theorem parse_cidr_roundtrip_witness:
  "parse_cidr (show_cidr (V6 0xFD000000000000000000000000000001) 64) =
     Inr (V6 0xFD000000000000000000000000000001, 64)"
proof -
  have "(64 :: nat) \<le> addr_bits (V6 0xFD000000000000000000000000000001)" by (simp add: addr_bits_def)
  from parse_cidr_roundtrip [OF this] show ?thesis by simp
qed

end
