(* ===== verification/Ip_Func.thy ===== *)
theory Ip_Func
  imports Ip_Helpers
begin

unbundle bit_operations_syntax

text \<open>
  The address functions of the topology language, \<open>crates/nlink-lab/src/ipfunc.rs\<close>:
  \<open>subnet(base, prefix, index)\<close> and \<open>host(cidr, number)\<close>. Each error site of the code is one
  constructor of \<open>func_error\<close>. The subtractions the code performs without a check (on
  \<open>u8\<close> prefix lengths and on \<open>u128\<close> block sizes) go through \<open>checked_sub\<close>, whose failure is the
  value \<open>Func_Panic\<close>, so that the module's promise never to panic is a statement about the
  model.
\<close>

datatype func_error =
    Unknown_Function string
  | Wrong_Arity nat
  | Func_Missing_Slash
  | Func_Bad_Ip
  | Func_Bad_Prefix
  | Func_Prefix_Exceeds nat nat
  | Bad_Index
  | Not_Longer nat nat
  | Index_Exceeds nat
  | Func_Overflow
  | Bad_Host_Number
  | Host_Out_Of_Range nat
  | Func_Panic

definition checked_sub :: "nat \<Rightarrow> nat \<Rightarrow> nat option" where
  "checked_sub a b = (if b \<le> a then Some (a - b) else None)"

definition parse_prefix_len :: "string \<Rightarrow> nat \<Rightarrow> (func_error, nat) result" where
  "parse_prefix_len raw bits =
     and_then (ok_or (parse_u32 (trim raw)) Func_Bad_Prefix) (\<lambda>p.
       if bits < p then Inl (Func_Prefix_Exceeds p bits) else Inr p)"

definition parse_cidr_parts :: "string \<Rightarrow> (func_error, ip_addr \<times> nat) result" where
  "parse_cidr_parts s =
     and_then (ok_or (rsplit_once CHR ''/'' s) Func_Missing_Slash) (\<lambda>(ip_str, prefix_str).
     and_then (ok_or (parse_ip ip_str) Func_Bad_Ip) (\<lambda>ip.
     and_then (parse_prefix_len prefix_str (addr_bits ip)) (\<lambda>p. Inr (ip, p))))"

definition fits_family :: "nat \<Rightarrow> 128 word \<Rightarrow> bool" where
  "fits_family bits v \<longleftrightarrow> bits = 128 \<or> v \<le> u32_max"

definition filter_opt :: "('a \<Rightarrow> bool) \<Rightarrow> 'a option \<Rightarrow> 'a option" where
  "filter_opt P x = (case x of Some a \<Rightarrow> if P a then Some a else None | None \<Rightarrow> None)"

definition eval_subnet :: "string list \<Rightarrow> (func_error, string) result" where
  "eval_subnet args =
     (case args of
        [a0, a1, a2] \<Rightarrow>
          let base_str = trim_matches CHR 0x22 (trim a0) in
          and_then (parse_cidr_parts base_str) (\<lambda>(base_ip, base_prefix).
          let bits = addr_bits base_ip in
          and_then (parse_prefix_len a1 bits) (\<lambda>new_prefix.
          and_then (ok_or (parse_u64 (trim a2)) Bad_Index) (\<lambda>index.
          if new_prefix \<le> base_prefix then Inl (Not_Longer new_prefix base_prefix)
          else
            and_then (ok_or (checked_sub new_prefix base_prefix) Func_Panic) (\<lambda>additional_bits.
            let max_subnets = checked_shl_u128 1 additional_bits in
            if (case max_subnets of Some m \<Rightarrow> m \<le> of_nat index | None \<Rightarrow> False)
            then Inl (Index_Exceeds index)
            else
              and_then (ok_or (checked_sub bits new_prefix) Func_Panic) (\<lambda>host_bits.
              and_then (ok_or (filter_opt (\<lambda>off. drop_bit host_bits off = of_nat index)
                                 (checked_shl_u128 (of_nat index) host_bits)) Func_Overflow) (\<lambda>off.
              and_then (ok_or (network_address base_ip base_prefix) Func_Panic) (\<lambda>net.
              and_then (ok_or (filter_opt (fits_family bits)
                                 (checked_add_u128 (ip_to_bits net) off)) Func_Overflow)
                (\<lambda>subnet_ip.
                   Inr (show_ip (ip_from_bits bits subnet_ip) @ CHR ''/'' # show_nat new_prefix)))))))))
      | _ \<Rightarrow> Inl (Wrong_Arity 3))"

definition eval_host :: "string list \<Rightarrow> (func_error, string) result" where
  "eval_host args =
     (case args of
        [a0, a1] \<Rightarrow>
          let cidr_str = trim_matches CHR 0x22 (trim a0) in
          and_then (parse_cidr_parts cidr_str) (\<lambda>(base_ip, p).
          let bits = addr_bits base_ip in
          and_then (ok_or (parse_u64 (trim a1)) Bad_Host_Number) (\<lambda>host_num.
          and_then (ok_or (checked_sub bits p) Func_Panic) (\<lambda>host_bits.
          let block_size = (case checked_shl_u128 1 host_bits of Some b \<Rightarrow> b | None \<Rightarrow> - 1) in
          and_then (if p = bits then Inr (1, 0)
                    else if p = bits - 1 then Inr (2, 0)
                    else map_sum id (\<lambda>n. (n, 1)) (ok_or (checked_sub (unat block_size) 2) Func_Panic))
            (\<lambda>(max_hosts, first_offset).
          if host_num = 0 \<or> max_hosts < host_num then Inl (Host_Out_Of_Range host_num)
          else
            and_then (ok_or (network_address base_ip p) Func_Panic) (\<lambda>net.
            and_then (ok_or (filter_opt (fits_family bits)
                               (checked_add_u128 (ip_to_bits net)
                                  (of_nat host_num - 1 + of_nat first_offset))) Func_Overflow)
              (\<lambda>addr. Inr (show_ip (ip_from_bits bits addr))))))))
      | _ \<Rightarrow> Inl (Wrong_Arity 2))"

definition eval_function :: "string \<Rightarrow> string list \<Rightarrow> (func_error, string) result" where
  "eval_function name args =
     (if name = ''subnet'' then eval_subnet args
      else if name = ''host'' then eval_host args
      else Inl (Unknown_Function name))"

subsection \<open>Arithmetic of one block\<close>

lemma parse_prefix_len_le: "parse_prefix_len s bits = Inr p \<Longrightarrow> p \<le> bits"
  by (auto simp: parse_prefix_len_def split: if_splits)

lemma parse_cidr_parts_le: "parse_cidr_parts s = Inr (ip, p) \<Longrightarrow> p \<le> addr_bits ip"
  by (auto simp: parse_cidr_parts_def dest: parse_prefix_len_le)

lemma filter_opt_simps [simp]:
  "filter_opt P (Some a) = (if P a then Some a else None)" "filter_opt P None = None"
  by (simp_all add: filter_opt_def)

text \<open>An offset inside the block never overflows, and the address it gives is named by its number.\<close>

lemma add_in_family:
  assumes net: "network_address ip p = Some net" and off: "unat off < 2 ^ (addr_bits ip - p)"
  obtains v where "checked_add_u128 (ip_to_bits net) off = Some v" "fits_family (addr_bits ip) v"
    "ip_num (ip_from_bits (addr_bits ip) v) = ip_num net + unat off"
    "is_ipv4 (ip_from_bits (addr_bits ip) v) = is_ipv4 ip"
    "ip_in_subnet (ip_from_bits (addr_bits ip) v) net p"
proof -
  obtain r where r: "is_ipv4 r = is_ipv4 ip" "ip_num r = ip_num net + unat off" "ip_in_subnet r net p"
    using offset_in_block [OF net off] by metis
  have bound: "ip_num r < 2 ^ addr_bits ip" using ip_num_bound [of r] addr_bits_cong [OF r(1)] by simp
  let ?v = "ip_to_bits r"
  have 1: "checked_add_u128 (ip_to_bits net) off = Some ?v"
    using r(2) by (simp add: checked_add_u128_Some ip_num_def)
  have 2: "fits_family (addr_bits ip) ?v"
    using bound by (auto simp: fits_family_def addr_bits_def word_le_nat_alt ip_num_def)
  have "ip_from_bits (addr_bits ip) ?v = r"
  proof (rule ip_eqI)
    show "is_ipv4 (ip_from_bits (addr_bits ip) ?v) = is_ipv4 r"
      using r(1) by (auto simp: ip_from_bits_def addr_bits_def)
    show "ip_num (ip_from_bits (addr_bits ip) ?v) = ip_num r"
      using bound ip_from_bits_num [of "addr_bits ip" ?v]
      by (auto simp: addr_bits_def ip_num_def split: if_splits)
  qed
  with 1 2 r show thesis using that by simp
qed

lemma unat_of_nat_u64: "n \<le> 18446744073709551615 \<Longrightarrow> unat (of_nat n :: 128 word) = n"
  by (simp add: unat_of_nat)

lemma shl_index_in_block:
  assumes "i < 2 ^ a" "a + h \<le> 128" "h < 128" "i \<le> 18446744073709551615"
  shows "unat (push_bit h (of_nat i :: 128 word)) = i * 2 ^ h"
    "drop_bit h (push_bit h (of_nat i :: 128 word)) = of_nat i"
proof -
  have "i * 2 ^ h < 2 ^ a * 2 ^ h" using assms(1) by simp
  also have "\<dots> \<le> 2 ^ 128" using assms(2) by (simp only: power_add [symmetric]) (rule power_increasing, simp_all)
  finally have lt: "i * 2 ^ h < 2 ^ LENGTH(128)" by simp
  show u: "unat (push_bit h (of_nat i :: 128 word)) = i * 2 ^ h"
    unfolding unsigned_push_bit_eq unat_of_nat_u64 [OF assms(4)]
    using lt by (simp add: push_bit_eq_mult take_bit_nat_eq_self)
  show "drop_bit h (push_bit h (of_nat i :: 128 word)) = of_nat i"
    unfolding word_unat_eq_iff unsigned_drop_bit_eq u unat_of_nat_u64 [OF assms(4)]
    using lt by (simp add: drop_bit_eq_div take_bit_nat_eq_self)
qed

subsection \<open>The two functions\<close>

lemma eval_subnet_ok:
  assumes base: "parse_cidr_parts (trim_matches CHR 0x22 (trim a0)) = Inr (ip, bp)"
    and new: "parse_prefix_len a1 (addr_bits ip) = Inr np"
    and idx: "parse_u64 (trim a2) = Some i"
    and longer: "bp < np" and range: "i < 2 ^ (np - bp)"
    and net: "network_address ip bp = Some net"
  obtains r where "eval_subnet [a0, a1, a2] = Inr (show_cidr r np)" "is_ipv4 r = is_ipv4 ip"
    "ip_num r = ip_num net + i * 2 ^ (addr_bits ip - np)" "ip_in_subnet r net bp"
proof -
  let ?h = "addr_bits ip - np" and ?a = "np - bp"
  have np: "np \<le> addr_bits ip" using new by (rule parse_prefix_len_le)
  have i: "i \<le> 18446744073709551615" using idx by (rule parse_uint_le)
  have sum: "?a + ?h = addr_bits ip - bp" using np longer by simp
  have h: "?h < 128" "?a + ?h \<le> 128" using np longer addr_bits_le [of ip] by auto
  note shl = shl_index_in_block [OF range h(2) h(1) i]
  have "i * 2 ^ ?h < 2 ^ ?a * 2 ^ ?h" using range by simp
  then have "unat (push_bit ?h (of_nat i :: 128 word)) < 2 ^ (addr_bits ip - bp)"
    unfolding shl(1) using sum by (simp flip: power_add)
  from add_in_family [OF net this] obtain v where
    v: "checked_add_u128 (ip_to_bits net) (push_bit ?h (of_nat i)) = Some v"
       "fits_family (addr_bits ip) v"
       "ip_num (ip_from_bits (addr_bits ip) v) = ip_num net + i * 2 ^ ?h"
       "is_ipv4 (ip_from_bits (addr_bits ip) v) = is_ipv4 ip"
       "ip_in_subnet (ip_from_bits (addr_bits ip) v) net bp"
    unfolding shl(1) by blast
  have "\<not> (case checked_shl_u128 1 ?a of Some m \<Rightarrow> m \<le> of_nat i | None \<Rightarrow> False)"
    using range i by (auto simp: checked_shl_u128_def word_le_nat_alt unat_of_nat_u64 not_le)
  then have "eval_subnet [a0, a1, a2] = Inr (show_cidr (ip_from_bits (addr_bits ip) v) np)"
    using base new idx longer np net h v(1,2) shl(2)
    by (simp add: eval_subnet_def Let_def checked_sub_def show_cidr_def
        checked_shl_u128_def [of "of_nat i"])
  with v show thesis using that by blast
qed

lemma eval_subnet_index_error:
  assumes "parse_cidr_parts (trim_matches CHR 0x22 (trim a0)) = Inr (ip, bp)"
    and "parse_prefix_len a1 (addr_bits ip) = Inr np"
    and "parse_u64 (trim a2) = Some i" and "bp < np" and "2 ^ (np - bp) \<le> i"
  shows "eval_subnet [a0, a1, a2] = Inl (Index_Exceeds i)"
proof -
  have i: "i \<le> 18446744073709551615" using assms(3) by (rule parse_uint_le)
  have "np - bp < 64"
  proof (rule ccontr)
    assume "\<not> np - bp < 64"
    then have "(2 :: nat) ^ 64 \<le> 2 ^ (np - bp)" by (intro power_increasing) auto
    with assms(5) i show False by simp
  qed
  then have "case checked_shl_u128 1 (np - bp) of Some m \<Rightarrow> m \<le> of_nat i | None \<Rightarrow> False"
    using assms(5) i by (simp add: checked_shl_u128_def word_le_nat_alt unat_of_nat_u64)
  with assms show ?thesis by (simp add: eval_subnet_def Let_def checked_sub_def)
qed

text \<open>The hosts of a block: how many there are and where the first one is.\<close>

definition host_count :: "nat \<Rightarrow> nat" where
  "host_count host_bits = (if host_bits = 0 then 1 else if host_bits = 1 then 2 else 2 ^ host_bits - 2)"

definition host_first :: "nat \<Rightarrow> nat" where
  "host_first host_bits = (if host_bits \<le> 1 then 0 else 1)"

lemma host_max:
  assumes "p \<le> bits" "bits = 32 \<or> bits = 128" "n \<le> 18446744073709551615"
  obtains m where "(if p = bits then Inr (1, 0)
       else if p = bits - 1 then Inr (2, 0)
       else map_sum id (\<lambda>n. (n, 1)) (ok_or (checked_sub (unat (case checked_shl_u128 1 (bits - p)
              of Some b \<Rightarrow> b | None \<Rightarrow> - 1)) 2) Func_Panic)) = Inr (m, host_first (bits - p))"
    "n \<le> m \<longleftrightarrow> n \<le> host_count (bits - p)"
proof -
  consider "p = bits" | "p < bits" "p = bits - 1" | "2 \<le> bits - p" "bits - p < 128" | "bits - p = 128"
    using assms by linarith
  then show thesis
  proof cases
    case 3
    have "(2 :: nat) ^ 2 \<le> 2 ^ (bits - p)" using 3 by (intro power_increasing) auto
    with 3 show thesis
      by (intro that [of "2 ^ (bits - p) - 2"])
        (auto simp: checked_shl_u128_def checked_sub_def host_first_def host_count_def)
  next
    case 4
    with assms show thesis
      by (intro that [of "2 ^ 128 - 3"])
        (auto simp: checked_shl_u128_def checked_sub_def host_first_def host_count_def
          unsigned_minus_1_eq_mask mask_eq_exp_minus_1)
  qed (auto intro: that simp: host_first_def host_count_def)
qed

lemma eval_host_range:
  assumes base: "parse_cidr_parts (trim_matches CHR 0x22 (trim a0)) = Inr (ip, p)"
    and num: "parse_u64 (trim a1) = Some n"
    and bad: "n = 0 \<or> host_count (addr_bits ip - p) < n"
  shows "eval_host [a0, a1] = Inl (Host_Out_Of_Range n)"
proof -
  have p: "p \<le> addr_bits ip" using base by (rule parse_cidr_parts_le)
  have n: "n \<le> 18446744073709551615" using num by (rule parse_uint_le)
  have fam: "addr_bits ip = 32 \<or> addr_bits ip = 128" using addr_bits_cases [of ip] by blast
  show ?thesis
    by (rule host_max [OF p fam n]) (use base num bad p in
      \<open>auto simp: eval_host_def Let_def checked_sub_def [of "addr_bits ip"]\<close>)
qed

lemma eval_host_ok:
  assumes base: "parse_cidr_parts (trim_matches CHR 0x22 (trim a0)) = Inr (ip, p)"
    and num: "parse_u64 (trim a1) = Some n"
    and range: "1 \<le> n" "n \<le> host_count (addr_bits ip - p)"
    and net: "network_address ip p = Some net"
  obtains r where "eval_host [a0, a1] = Inr (show_ip r)" "is_ipv4 r = is_ipv4 ip"
    "ip_num r = ip_num net + (n - 1 + host_first (addr_bits ip - p))" "ip_in_subnet r net p"
proof -
  let ?h = "addr_bits ip - p"
  let ?off = "of_nat n - 1 + of_nat (host_first ?h) :: 128 word"
  have p: "p \<le> addr_bits ip" using base by (rule parse_cidr_parts_le)
  have n: "n \<le> 18446744073709551615" using num by (rule parse_uint_le)
  have fam: "addr_bits ip = 32 \<or> addr_bits ip = 128" using addr_bits_cases [of ip] by blast
  have eq: "?off = of_nat (n - 1 + host_first ?h)" using range(1) by (simp add: of_nat_diff)
  have off: "unat ?off = n - 1 + host_first ?h"
    unfolding eq using n by (intro unat_of_nat_u64) (auto simp: host_first_def)
  have "unat ?off < 2 ^ ?h" unfolding off
    using range by (auto simp: host_first_def host_count_def split: if_splits)
  from add_in_family [OF net this] obtain v where
    v: "checked_add_u128 (ip_to_bits net) ?off = Some v" "fits_family (addr_bits ip) v"
       "ip_num (ip_from_bits (addr_bits ip) v) = ip_num net + (n - 1 + host_first ?h)"
       "is_ipv4 (ip_from_bits (addr_bits ip) v) = is_ipv4 ip"
       "ip_in_subnet (ip_from_bits (addr_bits ip) v) net p"
    unfolding off by metis
  have "eval_host [a0, a1] = Inr (show_ip (ip_from_bits (addr_bits ip) v))"
    by (rule host_max [OF p fam n]) (use base num range net p v(1,2) in
      \<open>simp add: eval_host_def Let_def checked_sub_def [of "addr_bits ip"] not_less\<close>)
  with v show thesis using that by blast
qed

subsection \<open>Properties\<close>

lemma parse_cidr_parts_error:
  "parse_cidr_parts s = Inl e \<Longrightarrow> e \<noteq> Func_Panic \<and> e \<noteq> Func_Overflow"
  by (auto simp: parse_cidr_parts_def parse_prefix_len_def and_then_eq_Inl split: if_splits)

lemma parse_prefix_len_error:
  "parse_prefix_len s b = Inl e \<Longrightarrow> e \<noteq> Func_Panic \<and> e \<noteq> Func_Overflow"
  by (auto simp: parse_prefix_len_def and_then_eq_Inl split: if_splits)

lemma eval_subnet_safe:
  "eval_subnet args = Inl e \<Longrightarrow> e \<noteq> Func_Panic \<and> e \<noteq> Func_Overflow"
proof (cases "\<exists>a0 a1 a2. args = [a0, a1, a2]")
  case False
  then show "eval_subnet args = Inl e \<Longrightarrow> ?thesis"
    by (auto simp: eval_subnet_def split: list.splits)
next
  case True
  then obtain a0 a1 a2 where args: "args = [a0, a1, a2]" by blast
  assume err: "eval_subnet args = Inl e"
  let ?base = "parse_cidr_parts (trim_matches CHR 0x22 (trim a0))"
  consider (bad) e' where "?base = Inl e'" | (ok) ip bp where "?base = Inr (ip, bp)"
    by (metis sum.exhaust surj_pair)
  then show ?thesis
  proof cases
    case bad
    with err args parse_cidr_parts_error show ?thesis by (auto simp: eval_subnet_def Let_def)
  next
    case ok
    consider (bad1) e' where "parse_prefix_len a1 (addr_bits ip) = Inl e'"
      | (bad2) np where "parse_prefix_len a1 (addr_bits ip) = Inr np" "parse_u64 (trim a2) = None"
      | (short) np i where "parse_prefix_len a1 (addr_bits ip) = Inr np" "parse_u64 (trim a2) = Some i"
          "np \<le> bp"
      | (big) np i where "parse_prefix_len a1 (addr_bits ip) = Inr np" "parse_u64 (trim a2) = Some i"
          "bp < np" "2 ^ (np - bp) \<le> i"
      | (good) np i where "parse_prefix_len a1 (addr_bits ip) = Inr np" "parse_u64 (trim a2) = Some i"
          "bp < np" "i < 2 ^ (np - bp)"
      by (metis sum.exhaust option.exhaust not_le)
    then show ?thesis
    proof cases
      case bad1
      with ok err args parse_prefix_len_error show ?thesis by (auto simp: eval_subnet_def Let_def)
    next
      case big
      with ok err args show ?thesis using eval_subnet_index_error [of a0 ip bp a1 np a2 i] by auto
    next
      case good
      obtain net where "network_address ip bp = Some net"
        using network_address_exists parse_cidr_parts_le [OF ok] by blast
      from eval_subnet_ok [OF ok good this] err args show ?thesis by (metis Inl_Inr_False)
    qed (use ok err args in \<open>auto simp: eval_subnet_def Let_def\<close>)
  qed
qed

lemma eval_host_safe:
  "eval_host args = Inl e \<Longrightarrow> e \<noteq> Func_Panic \<and> e \<noteq> Func_Overflow"
proof (cases "\<exists>a0 a1. args = [a0, a1]")
  case False
  then show "eval_host args = Inl e \<Longrightarrow> ?thesis"
    by (auto simp: eval_host_def split: list.splits)
next
  case True
  then obtain a0 a1 where args: "args = [a0, a1]" by blast
  assume err: "eval_host args = Inl e"
  let ?base = "parse_cidr_parts (trim_matches CHR 0x22 (trim a0))"
  consider (bad) e' where "?base = Inl e'"
    | (bad2) ip p where "?base = Inr (ip, p)" "parse_u64 (trim a1) = None"
    | (ok) ip p n where "?base = Inr (ip, p)" "parse_u64 (trim a1) = Some n"
    by (metis sum.exhaust option.exhaust surj_pair)
  then show ?thesis
  proof cases
    case bad
    with err args parse_cidr_parts_error show ?thesis by (auto simp: eval_host_def Let_def)
  next
    case bad2
    with err args show ?thesis by (auto simp: eval_host_def Let_def)
  next
    case ok
    obtain net where net: "network_address ip p = Some net"
      using network_address_exists parse_cidr_parts_le [OF ok(1)] by blast
    show ?thesis
    proof (cases "1 \<le> n \<and> n \<le> host_count (addr_bits ip - p)")
      case True
      then show ?thesis using eval_host_ok [OF ok _ _ net] err args by (metis Inl_Inr_False)
    next
      case False
      then have "n = 0 \<or> host_count (addr_bits ip - p) < n" by linarith
      from eval_host_range [OF ok this] err args show ?thesis by auto
    qed
  qed
qed

text \<open>
  No call of a built-in function panics, whatever the arguments: no prefix subtraction and
  no block-size subtraction goes below zero. The two overflow errors of the code are
  unreachable as well.
\<close>

theorem eval_function_never_panics:
  "eval_function name args \<noteq> Inl Func_Panic \<and> eval_function name args \<noteq> Inl Func_Overflow"
  using eval_subnet_safe eval_host_safe by (auto simp: eval_function_def)

lemma eval_subnet_value:
  assumes "parse_cidr_parts (trim_matches CHR 0x22 (trim a0)) = Inr (ip, bp)"
    and "parse_prefix_len a1 (addr_bits ip) = Inr np"
    and "parse_u64 (trim a2) = Some i" "bp < np" "i < 2 ^ (np - bp)"
  defines "r \<equiv> ip_from_bits (addr_bits ip)
      (of_nat (ip_num ip div 2 ^ (addr_bits ip - bp) * 2 ^ (addr_bits ip - bp)
               + i * 2 ^ (addr_bits ip - np)))"
  shows "eval_subnet [a0, a1, a2] = Inr (show_cidr r np)" "parse_cidr (show_cidr r np) = Inr (r, np)"
    "ip_in_subnet r ip bp"
proof -
  have bp: "bp \<le> addr_bits ip" using assms(1) by (rule parse_cidr_parts_le)
  obtain net where net: "network_address ip bp = Some net" using network_address_exists [OF bp] ..
  obtain q where q: "eval_subnet [a0, a1, a2] = Inr (show_cidr q np)" "is_ipv4 q = is_ipv4 ip"
    "ip_num q = ip_num net + i * 2 ^ (addr_bits ip - np)" "ip_in_subnet q net bp"
    using eval_subnet_ok [OF assms(1-5) net] by blast
  have r: "r = q"
    unfolding r_def
    using addr_bits_cong [OF q(2)] ip_from_bits_ip_num [of q] q(3) network_address_Some(2) [OF net]
    by simp
  show "eval_subnet [a0, a1, a2] = Inr (show_cidr r np)" using q(1) r by simp
  show "ip_in_subnet r ip bp"
    using q(4) r bp network_address_Some [OF net] addr_bits_cong [of net ip]
    by (simp add: ip_in_subnet_iff)
  have "np \<le> addr_bits q"
    using parse_prefix_len_le [OF assms(2)] addr_bits_cong [OF q(2)] by simp
  then show "parse_cidr (show_cidr r np) = Inr (r, np)" using r by (simp add: parse_cidr_show)
qed

text \<open>
  \<open>subnet(base, prefix, index)\<close> on well-formed arguments: it is an error unless the new
  prefix is longer than the base prefix and the index is below \<open>2^(new - base)\<close>; otherwise it
  prints the CIDR of the address \<open>network + index * 2^(bits - new)\<close>, of the base's family and
  inside the base block, and that text parses back to the same address and prefix.
\<close>

theorem eval_subnet_correct:
  assumes "parse_cidr_parts (trim_matches CHR 0x22 (trim a0)) = Inr (ip, bp)"
    and "parse_prefix_len a1 (addr_bits ip) = Inr np"
    and "parse_u64 (trim a2) = Some i"
  shows "eval_function ''subnet'' [a0, a1, a2] =
           (if np \<le> bp then Inl (Not_Longer np bp)
            else if 2 ^ (np - bp) \<le> i then Inl (Index_Exceeds i)
            else Inr (show_cidr (ip_from_bits (addr_bits ip)
                   (of_nat (ip_num ip div 2 ^ (addr_bits ip - bp) * 2 ^ (addr_bits ip - bp)
                            + i * 2 ^ (addr_bits ip - np)))) np)) \<and>
         (\<forall>s. eval_function ''subnet'' [a0, a1, a2] = Inr s \<longrightarrow>
            (\<exists>r. parse_cidr s = Inr (r, np) \<and> ip_in_subnet r ip bp))"
proof -
  consider "np \<le> bp" | "bp < np" "2 ^ (np - bp) \<le> i" | "bp < np" "i < 2 ^ (np - bp)" by linarith
  then show ?thesis
  proof cases
    case 1
    with assms show ?thesis by (simp add: eval_function_def eval_subnet_def Let_def)
  next
    case 2
    with eval_subnet_index_error [OF assms] show ?thesis by (simp add: eval_function_def)
  next
    case 3
    note v = eval_subnet_value [OF assms 3]
    show ?thesis using 3 v by (auto simp: eval_function_def simp del: of_nat_add of_nat_mult)
  qed
qed

theorem eval_subnet_correct_witness:
  "eval_function ''subnet'' [''10.0.0.0/16'', ''24'', ''18''] = Inr ''10.0.18.0/24''"
proof -
  have base: "parse_cidr_parts (trim_matches CHR 0x22 (trim ''10.0.0.0/16'')) = Inr (V4 0x0A000000, 16)"
    by code_simp
  have new: "parse_prefix_len ''24'' (addr_bits (V4 0x0A000000)) = Inr 24" by code_simp
  have idx: "parse_u64 (trim ''18'') = Some 18" by code_simp
  have "show_cidr (V4 0x0A001200) 24 = ''10.0.18.0/24''" by code_simp
  with eval_subnet_correct [OF base new idx] show ?thesis
    by (simp add: addr_bits_def ip_from_bits_def)
qed

text \<open>
  Two different indices carve disjoint blocks: no address lies in both results of
  \<open>subnet\<close> for the same base and prefix.
\<close>

theorem eval_subnet_disjoint:
  assumes "eval_function ''subnet'' [a0, a1, a2] = Inr s"
    and "eval_function ''subnet'' [a0, a1, b2] = Inr t"
    and "parse_u64 (trim a2) \<noteq> parse_u64 (trim b2)"
  shows "\<exists>r q np. parse_cidr s = Inr (r, np) \<and> parse_cidr t = Inr (q, np) \<and>
           (\<forall>x. \<not> (ip_in_subnet x r np \<and> ip_in_subnet x q np))"
proof -
  obtain ip bp np i j where
    args: "parse_cidr_parts (trim_matches CHR 0x22 (trim a0)) = Inr (ip, bp)"
      "parse_prefix_len a1 (addr_bits ip) = Inr np"
    and idx: "parse_u64 (trim a2) = Some i" "parse_u64 (trim b2) = Some j"
    using assms(1,2) by (auto simp: eval_function_def eval_subnet_def Let_def split: if_splits)
  have "i \<noteq> j" using assms(3) idx by simp
  have bp: "bp \<le> addr_bits ip" using args(1) by (rule parse_cidr_parts_le)
  have np: "np \<le> addr_bits ip" using args(2) by (rule parse_prefix_len_le)
  obtain net where net: "network_address ip bp = Some net" using network_address_exists [OF bp] ..
  let ?h = "addr_bits ip - np"
  have block: "\<exists>r. u = show_cidr r np \<and> addr_bits r = addr_bits ip \<and>
      ip_num r = ip_num net + k * 2 ^ ?h"
    if "eval_function ''subnet'' [a0, a1, c] = Inr u" "parse_u64 (trim c) = Some k" for c k u
  proof -
    have "bp < np" "k < 2 ^ (np - bp)"
      using that(1) eval_subnet_index_error [OF args that(2)] args that(2)
      by (auto simp: eval_function_def eval_subnet_def Let_def not_le [symmetric] split: if_splits)
    from eval_subnet_ok [OF args that(2) this net] that(1) show ?thesis
      by (auto simp: eval_function_def intro: addr_bits_cong)
  qed
  from block [OF assms(1) idx(1)] block [OF assms(2) idx(2)]
  obtain r q where r: "s = show_cidr r np" "addr_bits r = addr_bits ip"
      "ip_num r = ip_num net + i * 2 ^ ?h"
    and q: "t = show_cidr q np" "addr_bits q = addr_bits ip" "ip_num q = ip_num net + j * 2 ^ ?h"
    by blast
  have "ip_num r div 2 ^ ?h \<noteq> ip_num q div 2 ^ ?h" unfolding r(3) q(3) using \<open>i \<noteq> j\<close> by simp
  then have "\<not> (ip_in_subnet x r np \<and> ip_in_subnet x q np)" for x
    using r(2) q(2) np by (auto simp: ip_in_subnet_iff)
  moreover have "parse_cidr s = Inr (r, np)" "parse_cidr t = Inr (q, np)"
    using r q np by (simp_all add: parse_cidr_show)
  ultimately show ?thesis by blast
qed

theorem eval_subnet_disjoint_witness:
  "\<exists>r q np. parse_cidr ''10.0.1.0/24'' = Inr (r, np) \<and> parse_cidr ''10.0.2.0/24'' = Inr (q, np) \<and>
     (\<forall>x. \<not> (ip_in_subnet x r np \<and> ip_in_subnet x q np))"
proof (rule eval_subnet_disjoint)
  have base: "parse_cidr_parts (trim_matches CHR 0x22 (trim ''10.0.0.0/16'')) = Inr (V4 0x0A000000, 16)"
    by code_simp
  have new: "parse_prefix_len ''24'' (addr_bits (V4 0x0A000000)) = Inr 24" by code_simp
  have idx: "parse_u64 (trim ''1'') = Some 1" "parse_u64 (trim ''2'') = Some 2" by code_simp+
  have "show_cidr (V4 0x0A000100) 24 = ''10.0.1.0/24''" by code_simp
  with eval_subnet_value(1) [OF base new idx(1)]
  show "eval_function ''subnet'' [''10.0.0.0/16'', ''24'', ''1''] = Inr ''10.0.1.0/24''"
    by (simp add: eval_function_def addr_bits_def ip_from_bits_def)
  have "show_cidr (V4 0x0A000200) 24 = ''10.0.2.0/24''" by code_simp
  with eval_subnet_value(1) [OF base new idx(2)]
  show "eval_function ''subnet'' [''10.0.0.0/16'', ''24'', ''2''] = Inr ''10.0.2.0/24''"
    by (simp add: eval_function_def addr_bits_def ip_from_bits_def)
  show "parse_u64 (trim ''1'') \<noteq> parse_u64 (trim ''2'')" by code_simp
qed

text \<open>
  \<open>host(cidr, n)\<close> on well-formed arguments: it is an error unless \<open>n\<close> is between 1 and the
  number of usable hosts (all of them for the two longest prefixes, the block less two
  otherwise); otherwise it prints an address of the block, which is never the network
  address nor the last address of a block of more than two.
\<close>

theorem eval_host_correct:
  assumes "parse_cidr_parts (trim_matches CHR 0x22 (trim a0)) = Inr (ip, p)"
    and "parse_u64 (trim a1) = Some n"
  shows "if n = 0 \<or> host_count (addr_bits ip - p) < n
         then eval_function ''host'' [a0, a1] = Inl (Host_Out_Of_Range n)
         else \<exists>r. eval_function ''host'' [a0, a1] = Inr (show_ip r) \<and> ip_in_subnet r ip p \<and>
                ip_num r mod 2 ^ (addr_bits ip - p) = n - 1 + host_first (addr_bits ip - p) \<and>
                (1 < addr_bits ip - p \<longrightarrow>
                   0 < ip_num r mod 2 ^ (addr_bits ip - p) \<and>
                   ip_num r mod 2 ^ (addr_bits ip - p) < 2 ^ (addr_bits ip - p) - 1)"
proof (cases "n = 0 \<or> host_count (addr_bits ip - p) < n")
  case True
  with eval_host_range [OF assms True] show ?thesis by (simp add: eval_function_def)
next
  case False
  then have n: "1 \<le> n" "n \<le> host_count (addr_bits ip - p)" by linarith+
  let ?h = "addr_bits ip - p" and ?o = "n - 1 + host_first (addr_bits ip - p)"
  have p: "p \<le> addr_bits ip" using assms(1) by (rule parse_cidr_parts_le)
  obtain net where net: "network_address ip p = Some net" using network_address_exists [OF p] ..
  obtain r where r: "eval_host [a0, a1] = Inr (show_ip r)" "is_ipv4 r = is_ipv4 ip"
    "ip_num r = ip_num net + ?o" "ip_in_subnet r net p"
    using eval_host_ok [OF assms n net] by blast
  have lt: "?o < 2 ^ ?h" and inner: "1 < ?h \<longrightarrow> 0 < ?o \<and> ?o < 2 ^ ?h - 1"
    using n by (auto simp: host_first_def host_count_def split: if_splits)
  have "ip_num r mod 2 ^ ?h = ?o"
    unfolding r(3) network_address_Some(2) [OF net] using lt by simp
  moreover have "ip_in_subnet r ip p"
    using r(4) p network_address_Some [OF net] addr_bits_cong [of net ip]
    by (simp add: ip_in_subnet_iff)
  moreover have "eval_function ''host'' [a0, a1] = Inr (show_ip r)"
    using r(1) by (simp add: eval_function_def)
  ultimately show ?thesis using False inner by auto
qed

theorem eval_host_correct_witness:
  "\<exists>r. eval_function ''host'' [''172.16.0.0/30'', ''2''] = Inr (show_ip r) \<and>
     ip_in_subnet r (V4 0xAC100000) 30 \<and> ip_num r mod 4 = 2"
proof -
  have base: "parse_cidr_parts (trim_matches CHR 0x22 (trim ''172.16.0.0/30'')) = Inr (V4 0xAC100000, 30)"
    by code_simp
  have num: "parse_u64 (trim ''2'') = Some 2" by code_simp
  from eval_host_correct [OF base num] show ?thesis
    by (auto simp: addr_bits_def host_count_def host_first_def)
qed

end
