(* ===== verification/Btree_Map.thy ===== *)
theory Btree_Map
  imports Prelude
begin

text \<open>
  \<open>std::collections::BTreeMap\<close> and \<open>BTreeSet\<close>, which hold every collection of the topology
  and of the registries. A map is its list of entries in ascending key order, each key once;
  the order is what iteration follows, so it is part of the value. The operations are the
  ones the sources use: \<open>get\<close>, \<open>contains_key\<close>, \<open>insert\<close>, \<open>remove\<close>, \<open>extend\<close>, \<open>retain\<close>,
  \<open>keys\<close>, \<open>values\<close>, \<open>iter\<close>, \<open>values_mut\<close> (as a map over the values) and \<open>collect\<close> (where a
  later entry replaces an earlier one with the same key).

  The locale \<open>ordered_map\<close> states the interface, with the lemmas its clients share; it is
  interpreted on the model at the end.
\<close>

subsection \<open>Sorted association lists\<close>

abbreviation ascending :: "('k :: linorder \<times> 'v) list \<Rightarrow> bool" where
  "ascending xs \<equiv> sorted_wrt (<) (map fst xs)"

fun al_insert :: "'k :: linorder \<Rightarrow> 'v \<Rightarrow> ('k \<times> 'v) list \<Rightarrow> ('k \<times> 'v) list" where
  "al_insert k v [] = [(k, v)]"
| "al_insert k v ((x, w) # xs) =
     (if k < x then (k, v) # (x, w) # xs
      else if k = x then (k, v) # xs
      else (x, w) # al_insert k v xs)"

lemma set_al_insert_keys [simp]: "fst ` set (al_insert k v xs) = insert k (fst ` set xs)"
  by (induction k v xs rule: al_insert.induct) auto

lemma ascending_al_insert: "ascending xs \<Longrightarrow> ascending (al_insert k v xs)"
proof (induction k v xs rule: al_insert.induct)
  case (2 k v x w xs)
  have "\<forall>y \<in> set (map fst (al_insert k v xs)). y \<in> insert k (fst ` set xs)" by simp
  with 2 show ?case by (auto simp: Ball_def)
qed simp

lemma ascending_distinct: "ascending xs \<Longrightarrow> distinct (map fst xs)"
  by (induction xs) auto

lemma map_of_al_insert: "ascending xs \<Longrightarrow> map_of (al_insert k v xs) = (map_of xs)(k \<mapsto> v)"
  by (induction k v xs rule: al_insert.induct) (auto simp: fun_upd_twist)

lemma ascending_filter: "ascending xs \<Longrightarrow> ascending (filter P xs)"
  by (induction xs) auto

lemma ascending_map_of_inject:
  assumes "ascending xs" "ascending ys" "map_of xs = map_of ys"
  shows "xs = ys"
proof (rule map_sorted_distinct_set_unique [where f = fst])
  note d = ascending_distinct [OF assms(1)] ascending_distinct [OF assms(2)]
  show set: "set xs = set ys" using map_of_inject_set [OF d] assms(3) by simp
  show "inj_on fst (set xs \<union> set ys)" using set d(1) by (simp add: distinct_map)
  show "sorted (map fst xs)" "sorted (map fst ys)"
    using assms(1,2) by (simp_all only: strict_sorted_iff)
  show "distinct (map fst xs)" "distinct (map fst ys)" using d by simp_all
qed

subsection \<open>The type and its operations\<close>

typedef (overloaded) ('k :: linorder, 'v) btree_map = "{xs :: ('k \<times> 'v) list. ascending xs}"
  morphisms bm_entries Bm
  by (rule exI [of _ "[]"]) simp

setup_lifting type_definition_btree_map

type_synonym 'k btree_set = "('k, unit) btree_map"

lift_definition bm_empty :: "('k :: linorder, 'v) btree_map" is "[]" by simp

lift_definition bm_get :: "('k :: linorder, 'v) btree_map \<Rightarrow> 'k \<Rightarrow> 'v option" is map_of .

lift_definition bm_insert :: "'k :: linorder \<Rightarrow> 'v \<Rightarrow> ('k, 'v) btree_map \<Rightarrow> ('k, 'v) btree_map"
  is al_insert by (rule ascending_al_insert)

lift_definition bm_retain :: "('k :: linorder \<Rightarrow> 'v \<Rightarrow> bool) \<Rightarrow> ('k, 'v) btree_map \<Rightarrow> ('k, 'v) btree_map"
  is "\<lambda>P. filter (\<lambda>(k, v). P k v)" by (rule ascending_filter)

lift_definition bm_map :: "('k :: linorder \<Rightarrow> 'v \<Rightarrow> 'w) \<Rightarrow> ('k, 'v) btree_map \<Rightarrow> ('k, 'w) btree_map"
  is "\<lambda>f. map (\<lambda>(k, v). (k, f k v))"
  by (simp add: comp_def case_prod_beta)

definition bm_remove :: "'k :: linorder \<Rightarrow> ('k, 'v) btree_map \<Rightarrow> ('k, 'v) btree_map" where
  "bm_remove k = bm_retain (\<lambda>x _. x \<noteq> k)"

definition bm_contains :: "('k :: linorder, 'v) btree_map \<Rightarrow> 'k \<Rightarrow> bool" where
  "bm_contains m k \<longleftrightarrow> (case bm_get m k of None \<Rightarrow> False | Some _ \<Rightarrow> True)"

definition bm_keys :: "('k :: linorder, 'v) btree_map \<Rightarrow> 'k list" where
  "bm_keys m = map fst (bm_entries m)"

definition bm_values :: "('k :: linorder, 'v) btree_map \<Rightarrow> 'v list" where
  "bm_values m = map snd (bm_entries m)"

definition bm_extend :: "('k :: linorder, 'v) btree_map \<Rightarrow> ('k \<times> 'v) list \<Rightarrow> ('k, 'v) btree_map" where
  "bm_extend m xs = foldl (\<lambda>m (k, v). bm_insert k v m) m xs"

definition bm_of_list :: "('k :: linorder \<times> 'v) list \<Rightarrow> ('k, 'v) btree_map" where
  "bm_of_list xs = bm_extend bm_empty xs"

definition bset_of_list :: "'k :: linorder list \<Rightarrow> 'k btree_set" where
  "bset_of_list ks = bm_of_list (map (\<lambda>k. (k, ())) ks)"

instantiation btree_map :: (linorder, equal) equal
begin

definition equal_btree_map :: "('a, 'b) btree_map \<Rightarrow> ('a, 'b) btree_map \<Rightarrow> bool" where
  "equal_btree_map m n \<longleftrightarrow> bm_entries m = bm_entries n"

instance
  by standard (simp add: equal_btree_map_def bm_entries_inject)

end

subsection \<open>Laws\<close>

lemma bm_ascending [simp]: "ascending (bm_entries m)"
  using bm_entries [of m] by simp

lemma bm_entries_distinct [simp]: "distinct (map fst (bm_entries m))"
  using bm_ascending by (rule ascending_distinct)

lemma bm_get_entries: "bm_get m = map_of (bm_entries m)"
  by (simp add: bm_get.rep_eq)

lemma bm_get_empty [simp]: "bm_get bm_empty k = None"
  by transfer simp

lemma dom_bm_empty [simp]: "dom (bm_get bm_empty) = {}"
  by (simp add: dom_def)

lemma bm_get_insert [simp]: "bm_get (bm_insert k v m) = (bm_get m)(k \<mapsto> v)"
  by transfer (rule map_of_al_insert)

lemma map_of_filter_pair:
  "distinct (map fst xs) \<Longrightarrow> map_of (filter (\<lambda>(k, v). P k v) xs) k =
     (case map_of xs k of Some v \<Rightarrow> if P k v then Some v else None | None \<Rightarrow> None)"
proof (induction xs)
  case (Cons a xs)
  obtain x w where a: "a = (x, w)" by fastforce
  have "map_of xs x = None" using Cons(2) a by (simp add: map_of_eq_None_iff)
  with Cons a show ?case by (auto split: option.splits)
qed simp

lemma bm_get_retain [simp]:
  "bm_get (bm_retain P m) k = (case bm_get m k of Some v \<Rightarrow> if P k v then Some v else None | None \<Rightarrow> None)"
  unfolding bm_get_entries bm_retain.rep_eq
  by (rule map_of_filter_pair) simp

lemma bm_get_remove [simp]: "bm_get (bm_remove k m) x = (if x = k then None else bm_get m x)"
  by (auto simp: bm_remove_def split: option.splits)

lemma map_of_map_pair: "map_of (map (\<lambda>(k, v). (k, f k v)) xs) k = map_option (f k) (map_of xs k)"
  by (induction xs) auto

lemma bm_get_map [simp]: "bm_get (bm_map f m) k = map_option (f k) (bm_get m k)"
  unfolding bm_get_entries bm_map.rep_eq by (rule map_of_map_pair)

lemma bm_contains_iff [simp]: "bm_contains m k \<longleftrightarrow> k \<in> dom (bm_get m)"
  by (auto simp: bm_contains_def split: option.splits)

lemma bm_ext: "(\<And>k. bm_get m k = bm_get n k) \<Longrightarrow> m = n"
  by (rule bm_entries_inject [THEN iffD1], rule ascending_map_of_inject)
    (auto simp: bm_get_entries [symmetric] fun_eq_iff)

lemma in_bm_entries: "(k, v) \<in> set (bm_entries m) \<longleftrightarrow> bm_get m k = Some v"
  by (simp add: bm_get_entries)

lemma set_bm_keys [simp]: "set (bm_keys m) = dom (bm_get m)"
  by (simp add: bm_keys_def bm_get_entries dom_map_of_conv_image_fst)

lemma distinct_bm_keys [simp]: "distinct (bm_keys m)"
  by (simp add: bm_keys_def)

lemma sorted_bm_keys [simp]: "sorted (bm_keys m)"
  using bm_ascending [of m] by (simp only: bm_keys_def strict_sorted_iff)

lemma set_bm_values: "set (bm_values m) = ran (bm_get m)"
  by (force simp: bm_values_def ran_def in_bm_entries [symmetric])

lemma finite_dom_bm_get [simp]: "finite (dom (bm_get m))"
  using finite_set [of "bm_keys m"] by simp

lemma bm_get_extend: "bm_get (bm_extend m xs) k = (case map_of (rev xs) k of Some v \<Rightarrow> Some v | None \<Rightarrow> bm_get m k)"
  by (induction xs arbitrary: m)
    (auto simp: bm_extend_def map_add_def split: option.splits if_splits)

lemma bm_get_of_list: "bm_get (bm_of_list xs) k = map_of (rev xs) k"
  by (simp add: bm_of_list_def bm_get_extend split: option.splits)

lemma bm_get_of_list_distinct:
  "distinct (map fst xs) \<Longrightarrow> bm_get (bm_of_list xs) k = map_of xs k"
  using map_of_inject_set [of "rev xs" xs] by (simp add: bm_get_of_list rev_map [symmetric])

subsection \<open>The interface\<close>

locale ordered_map =
  fixes empty :: "'m"
    and lookup :: "'m \<Rightarrow> 'k :: linorder \<Rightarrow> 'v option"
    and update :: "'k \<Rightarrow> 'v \<Rightarrow> 'm \<Rightarrow> 'm"
    and delete :: "'k \<Rightarrow> 'm \<Rightarrow> 'm"
    and keys :: "'m \<Rightarrow> 'k list"
  assumes lookup_empty: "lookup empty k = None"
    and lookup_update: "lookup (update k v m) = (lookup m)(k \<mapsto> v)"
    and lookup_delete: "lookup (delete k m) x = (if x = k then None else lookup m x)"
    and set_keys: "set (keys m) = dom (lookup m)"
    and keys_sorted: "sorted (keys m)"
    and keys_distinct: "distinct (keys m)"
    and map_ext: "(\<And>k. lookup m k = lookup n k) \<Longrightarrow> m = n"
begin

lemma update_overwrites: "update k v (update k w m) = update k v m"
  by (rule map_ext) (simp add: lookup_update)

lemma update_commute: "k \<noteq> l \<Longrightarrow> update k v (update l w m) = update l w (update k v m)"
  by (rule map_ext) (simp add: lookup_update fun_upd_twist)

lemma delete_update: "delete k (update k v m) = delete k m"
  by (rule map_ext) (simp add: lookup_update lookup_delete)

lemma delete_absent: "lookup m k = None \<Longrightarrow> delete k m = m"
  by (rule map_ext) (simp add: lookup_delete)

lemma update_present: "lookup m k = Some v \<Longrightarrow> update k v m = m"
  by (rule map_ext) (auto simp: lookup_update)

text \<open>Iteration follows the keys alone.\<close>

lemma keys_unique: "dom (lookup m) = dom (lookup n) \<Longrightarrow> keys m = keys n"
  using keys_sorted keys_distinct set_keys by (metis sorted_distinct_set_unique)

lemma keys_update_present: "k \<in> dom (lookup m) \<Longrightarrow> keys (update k v m) = keys m"
  by (rule keys_unique) (auto simp: lookup_update)

text \<open>Inserting distinct keys in any order gives the same map.\<close>

lemma lookup_fold_update:
  "lookup (fold (\<lambda>(k, v). update k v) xs m) = lookup m ++ map_of (rev xs)"
  by (induction xs arbitrary: m) (auto simp: lookup_update fun_eq_iff map_add_def split: option.splits)

lemma fold_update_order:
  assumes "set xs = set ys" "distinct (map fst xs)" "distinct (map fst ys)"
  shows "fold (\<lambda>(k, v). update k v) xs m = fold (\<lambda>(k, v). update k v) ys m"
proof (rule map_ext)
  have "map_of (rev xs) = map_of (rev ys)"
    using assms by (subst map_of_inject_set) (simp_all add: rev_map [symmetric])
  then show "lookup (fold (\<lambda>(k, v). update k v) xs m) k = lookup (fold (\<lambda>(k, v). update k v) ys m) k" for k
    by (simp add: lookup_fold_update)
qed

end

interpretation bm: ordered_map bm_empty bm_get bm_insert bm_remove bm_keys
  by unfold_locales (auto intro: bm_ext)

lemma bm_of_list_entries [simp]: "bm_of_list (bm_entries m) = m"
  by (rule bm_ext) (simp only: bm_get_of_list_distinct bm_entries_distinct bm_get_entries [of m])

end
