(* ===== verification/Topology_Types.thy ===== *)
theory Topology_Types
  imports Btree_Map Ip_Helpers
begin

text \<open>
  The topology of a lab, \<open>crates/nlink-lab/src/types.rs\<close>: every struct as a record and every
  enum as a datatype, in the order of the file's dependencies. A field is named after the
  struct and the source field (\<open>lab_name\<close> is \<open>LabConfig::name\<close>), a constructor carries a prefix
  of its enum where two enums share a name. Integers are words at their width, \<open>usize\<close> is a
  natural number, paths are strings and maps are the ordered maps of \<open>Btree_Map\<close>.
\<close>

type_synonym u8 = "8 word"
type_synonym u16 = "16 word"
type_synonym u32 = "32 word"
type_synonym u64 = "64 word"

subsection \<open>Traffic control\<close>

datatype compare_op = Gt | Lt | Gte | Lte | Cmp_Eq | Cmp_Ne

record impairment =
  imp_delay :: "string option"
  imp_jitter :: "string option"
  imp_loss :: "string option"
  imp_rate :: "string option"
  imp_corrupt :: "string option"
  imp_reorder :: "string option"
  imp_duplicate :: "string option"
  imp_delay_correlation :: "string option"
  imp_loss_correlation :: "string option"
  imp_limit :: "string option"
  imp_seed :: "string option"

record rate_limit =
  rl_egress :: "string option"
  rl_ingress :: "string option"
  rl_burst :: "string option"

datatype qdisc_kind =
    Tbf (tbf_rate: string) (tbf_burst: string) (tbf_limit: "string option")
        (tbf_peakrate: "string option") (tbf_mtu: "u32 option")
  | FqCodel (fq_target: "string option") (fq_interval: "string option") (fq_limit: "u32 option")
        (fq_flows: "u32 option") (fq_quantum: "u32 option") (fq_ecn: "bool option")
  | Sfq (sfq_perturb: "string option") (sfq_limit: "u32 option") (sfq_quantum: "u32 option")
  | Prio (prio_bands: "u8 option")

record qdisc_config =
  qdisc_kind_of :: qdisc_kind

subsection \<open>Assertions, scenarios and benchmarks\<close>

datatype counter_metric = Packets | Bytes

datatype assertion =
    Reach (reach_from: string) (reach_to: string)
  | NoReach (no_reach_from: string) (no_reach_to: string)
  | TcpConnect (tcp_from: string) (tcp_to: string) (tcp_port: u16) (tcp_timeout: "string option")
      (tcp_retries: "u32 option") (tcp_interval: "string option")
  | LatencyUnder (lat_from: string) (lat_to: string) (lat_max: string) (lat_samples: "u32 option")
  | RouteHas (rh_node: string) (rh_destination: string) (rh_via: "string option") (rh_dev: "string option")
  | DnsResolves (dr_from: string) (dr_name: string) (dr_expected_ip: string)
  | Counter (ctr_node: string) (ctr_name: string) (ctr_metric: counter_metric) (ctr_op: compare_op)
      (ctr_value: u64)

datatype direction = Dir_Out | Dir_In | Dir_Both

datatype replay_target =
    Replay_Endpoint (replay_endpoint: string) (replay_dir: direction)
  | Replay_Pair (replay_network: string) (replay_src: string) (replay_dst: string)

datatype scenario_action =
    Act_Down string
  | Act_Up string
  | Act_Clear string
  | Act_Validate "assertion list"
  | Act_Exec (act_node: string) (act_cmd: "string list")
  | Act_Log string
  | Act_Impair (act_endpoint: string) (act_impairment: impairment)
  | Act_Partition (part_endpoint: string) (part_both: bool)
  | Act_Heal (heal_endpoint: string) (heal_both: bool)
  | Act_PairImpair (pi_network: string) (pi_src: string) (pi_dst: string) (pi_impairment: impairment)
      (pi_rate_cap: "string option")
  | Act_Replay (replay_target_of: replay_target) (replay_file: string) (replay_step_ms: u64)
      (replay_looped: bool)

record scenario_step =
  step_time_ms :: u64
  step_actions :: "scenario_action list"

record scenario =
  scenario_name :: string
  scenario_steps :: "scenario_step list"
  scenario_keep :: bool

record benchmark_assertion =
  ba_metric :: string
  ba_op :: compare_op
  ba_value :: string

datatype benchmark_test =
    Iperf3 (iperf_from: string) (iperf_to: string) (iperf_duration: "string option")
      (iperf_streams: "u32 option") (iperf_udp: bool) (iperf_rate: "string option")
      (iperf_assertions: "benchmark_assertion list")
  | Ping (ping_from: string) (ping_to: string) (ping_count: "u32 option")
      (ping_assertions: "benchmark_assertion list")

record benchmark =
  bench_name :: string
  bench_tests :: "benchmark_test list"

subsection \<open>The lab and its routing\<close>

datatype dns_mode = Dns_Off | Dns_Hosts
datatype routing_mode = Routing_Manual | Routing_Frr | Routing_Auto
datatype container_runtime = Runtime_Auto | Runtime_Docker | Runtime_Podman

record ospf_config =
  ospf_area :: "string option"
  ospf_router_id :: "string option"
  ospf_passive :: "string list"
  ospf_hello :: "u32 option"
  ospf_dead :: "u32 option"
  ospf_redistribute :: "string list"

record bgp_neighbor =
  bn_node :: string
  bn_remote_as :: "u32 option"
  bn_remote :: "string option"

record bgp_config =
  bgp_asn :: u32
  bgp_router_id :: "string option"
  bgp_neighbors :: "bgp_neighbor list"
  bgp_networks :: "string list"
  bgp_redistribute :: "string list"

record frr_config =
  frr_ospf :: "ospf_config option"
  frr_bgp :: "bgp_config option"

record lab_config =
  lab_name :: string
  lab_description :: "string option"
  lab_prefix :: "string option"
  lab_runtime :: "container_runtime option"
  lab_version :: "string option"
  lab_author :: "string option"
  lab_tags :: "string list"
  lab_mgmt_subnet :: "string option"
  lab_mgmt_host_reachable :: bool
  lab_dns :: dns_mode
  lab_routing :: routing_mode
  lab_frr :: "frr_config option"
  lab_seed :: "u64 option"

subsection \<open>Firewall and NAT\<close>

datatype reject_with = TcpReset | PortUnreachable | HostUnreachable | NoRoute | AdminProhibited
datatype limit_per = Per_Second | Per_Minute | Per_Hour | Per_Day

record firewall_limit =
  fl_rate :: u64
  fl_per :: limit_per
  fl_burst :: "u32 option"
  fl_over :: bool
  fl_bytes :: bool

record firewall_log =
  flog_prefix :: "string option"
  flog_group :: "u16 option"
  flog_level :: "string option"

record mark_value =
  mark_val :: u32
  mark_mask :: "u32 option"

datatype ct_mark_action = Ct_Set u32 | Ct_Save | Ct_Restore
datatype mss_clamp = Mss_Pmtu | Mss_Size u16

record firewall_rule =
  fr_match_expr :: "string option"
  fr_action :: "string option"
  fr_reject_with :: "reject_with option"
  fr_limit :: "firewall_limit option"
  fr_counter :: bool
  fr_counter_name :: "string option"
  fr_log :: "firewall_log option"
  fr_set_mark :: "mark_value option"
  fr_ct_mark :: "ct_mark_action option"
  fr_classify :: "string option"
  fr_clamp_mss :: "mss_clamp option"

record firewall_chain =
  fc_policy :: "string option"
  fc_rules :: "firewall_rule list"

datatype set_key = Key_Ipv4 | Key_Ipv6 | Key_Port | Key_Mark

record firewall_set =
  fs_key :: "set_key list"
  fs_elements :: "string list"
  fs_size :: "u32 option"
  fs_timeout :: "string option"
  fs_dynamic :: bool

record firewall_config =
  fw_policy :: "string option"
  fw_rules :: "firewall_rule list"
  fw_forward :: "firewall_chain option"
  fw_output :: "firewall_chain option"
  fw_sets :: "(string, firewall_set) btree_map"

datatype nat_flag = Nat_Random | Nat_FullyRandom | Nat_Persistent
datatype nat_proto = Nat_Tcp | Nat_Udp
datatype nat_action = Masquerade | Snat | Dnat | Translate | Redirect

record nat_rule =
  nr_action :: nat_action
  nr_src :: "string option"
  nr_dst :: "string option"
  nr_target :: "string option"
  nr_target_port :: "u16 option"
  nr_proto :: "nat_proto option"
  nr_dport :: "u16 option"
  nr_iif :: "string option"
  nr_oif :: "string option"
  nr_target_end :: "string option"
  nr_target_port_end :: "u16 option"
  nr_flags :: "nat_flag list"

record nat_config =
  nat_rules :: "nat_rule list"

subsection \<open>Interfaces\<close>

datatype bond_mode = BalanceRr | ActiveBackup | BalanceXor | Broadcast | Lacp | BalanceTlb | BalanceAlb
datatype lacp_rate = Lacp_Slow | Lacp_Fast
datatype xmit_hash_policy = Layer2 | Layer34 | Layer23 | Encap23 | Encap34
datatype vlan_protocol = Dot1q | Dot1ad
datatype interface_kind = Kind_Dummy | Kind_Vxlan | Kind_Vlan | Kind_Bond | Kind_Loopback

record bond_options =
  bond_mode_of :: "bond_mode option"
  bond_miimon :: "u32 option"
  bond_lacp_rate :: "lacp_rate option"
  bond_xmit_hash :: "xmit_hash_policy option"
  bond_min_links :: "u32 option"
  bond_updelay :: "u32 option"
  bond_downdelay :: "u32 option"

record interface_config =
  if_kind :: "interface_kind option"
  if_addresses :: "string list"
  if_vni :: "u32 option"
  if_local :: "string option"
  if_remote :: "string option"
  if_port :: "u16 option"
  if_underlay :: "string option"
  if_mtu :: "u32 option"
  if_parent :: "string option"
  if_members :: "string list"
  if_bond :: "bond_options option"
  if_vlan_protocol :: "vlan_protocol option"

record route_config =
  route_via :: "string option"
  route_dev :: "string option"
  route_metric :: "u32 option"

record exec_config =
  exec_cmd :: "string list"
  exec_background :: bool

record vrf_config =
  vrf_table :: u32
  vrf_interfaces :: "string list"
  vrf_routes :: "(string, route_config) btree_map"

record wireguard_peer =
  wgp_endpoint :: "string option"
  wgp_allowed_ips :: "string list"

record wireguard_config =
  wg_private_key :: "string option"
  wg_listen_port :: "u16 option"
  wg_fwmark :: "u32 option"
  wg_addresses :: "string list"
  wg_peers :: "string list"
  wg_peer_settings :: "(string, wireguard_peer) btree_map"

datatype macvlan_mode = Macvlan_Bridge | Macvlan_Private | Macvlan_Vepa | Macvlan_Passthru

record macvlan_config =
  mv_name :: string
  mv_parent :: string
  mv_mode :: macvlan_mode
  mv_addresses :: "string list"

datatype ipvlan_mode = Ipvlan_L2 | Ipvlan_L3 | Ipvlan_L3S

record ipvlan_config =
  iv_name :: string
  iv_parent :: string
  iv_mode :: ipvlan_mode
  iv_addresses :: "string list"

datatype wifi_mode = Wifi_Ap | Wifi_Station | Wifi_Mesh

record wifi_config =
  wifi_name :: string
  wifi_mode_of :: wifi_mode
  wifi_ssid :: "string option"
  wifi_channel :: "u32 option"
  wifi_passphrase :: "string option"
  wifi_mesh_id :: "string option"
  wifi_addresses :: "string list"

subsection \<open>Nodes, links and networks\<close>

datatype foreign_target = Netns string | Container string | Tap string

record foreign =
  foreign_target_of :: foreign_target
  foreign_manage_addresses :: bool
  foreign_manage_tc :: bool

record profile =
  profile_sysctls :: "(string, string) btree_map"
  profile_firewall :: "firewall_config option"
  profile_frr :: "frr_config option"

record node =
  node_profiles :: "string list"
  node_image :: "string option"
  node_cmd :: "string list option"
  node_env :: "(string, string) btree_map option"
  node_volumes :: "string list option"
  node_cpu :: "string option"
  node_memory :: "string option"
  node_privileged :: bool
  node_cap_add :: "string list"
  node_cap_drop :: "string list"
  node_entrypoint :: "string option"
  node_hostname :: "string option"
  node_workdir :: "string option"
  node_labels :: "string list"
  node_pull :: "string option"
  node_container_exec :: "string list"
  node_healthcheck :: "string option"
  node_healthcheck_interval :: "string option"
  node_healthcheck_timeout :: "string option"
  node_healthcheck_retries :: "u32 option"
  node_startup_delay :: "string option"
  node_env_file :: "string option"
  node_configs :: "(string \<times> string) list"
  node_overlay :: "string option"
  node_depends_on :: "string list"
  node_frr :: "frr_config option"
  node_sysctls :: "(string, string) btree_map"
  node_interfaces :: "(string, interface_config) btree_map"
  node_routes :: "(string, route_config) btree_map"
  node_firewall :: "firewall_config option"
  node_nat :: "nat_config option"
  node_exec :: "exec_config list"
  node_vrfs :: "(string, vrf_config) btree_map"
  node_wireguard :: "(string, wireguard_config) btree_map"
  node_macvlans :: "macvlan_config list"
  node_ipvlans :: "ipvlan_config list"
  node_wifi :: "wifi_config list"
  node_foreign :: "foreign option"

record link =
  link_endpoints :: "string \<times> string"
  link_addresses :: "(string \<times> string) option"
  link_mtu :: "u32 option"

record vlan_config =
  vlan_name :: "string option"

record port_config =
  port_interface :: "string option"
  port_vlans :: "u16 list"
  port_tagged :: "bool option"
  port_pvid :: "u16 option"
  port_untagged :: "bool option"
  port_addresses :: "string list"

record network_impairment =
  ni_src :: string
  ni_dst :: string
  ni_impairment :: impairment
  ni_rate_cap :: "string option"

record network =
  network_kind :: "string option"
  network_vlan_filtering :: "bool option"
  network_mtu :: "u32 option"
  network_subnet :: "string option"
  network_members :: "string list"
  network_vlans :: "(u16, vlan_config) btree_map"
  network_ports :: "(string, port_config) btree_map"
  network_impairments :: "network_impairment list"

record topology =
  topo_lab :: lab_config
  topo_profiles :: "(string, profile) btree_map"
  topo_nodes :: "(string, node) btree_map"
  topo_links :: "link list"
  topo_networks :: "(string, network) btree_map"
  topo_impairments :: "(string, impairment) btree_map"
  topo_directional_impairments :: "string btree_set"
  topo_rate_limits :: "(string, rate_limit) btree_map"
  topo_qdiscs :: "(string, qdisc_config) btree_map"
  topo_assertions :: "assertion list"
  topo_assertion_retries :: "u32 option"
  topo_assertion_interval :: "string option"
  topo_scenarios :: "scenario list"
  topo_benchmarks :: "benchmark list"
  topo_sites :: "(string, string list) btree_map"
  topo_source_dir :: "string option"

end
