(* ===== verification/Topology_Ops.thy ===== *)
theory Topology_Ops
  imports Topology_Types
begin

text \<open>
  The functions of \<open>crates/nlink-lab/src/types.rs\<close>: generated interface names, keyword tables,
  endpoint references, the merged views of a node (\<open>effective_sysctls\<close>, \<open>effective_firewall\<close>,
  \<open>effective_frr\<close>), the redacted topology, and the netem and qdisc property setters. A
  \<open>&self\<close> method is a function of the record, a \<open>&mut self\<close> method returns the updated record.
\<close>

subsection \<open>Defaults\<close>

text \<open>\<open>Default::default()\<close> of the topology structs.\<close>

definition lab_default :: lab_config where
  "lab_default = \<lparr>lab_name = [], lab_description = None, lab_prefix = None, lab_runtime = None,
     lab_version = None, lab_author = None, lab_tags = [], lab_mgmt_subnet = None,
     lab_mgmt_host_reachable = False, lab_dns = Dns_Off, lab_routing = Routing_Manual,
     lab_frr = None, lab_seed = None\<rparr>"

definition node_default :: node where
  "node_default = \<lparr>node_profiles = [], node_image = None, node_cmd = None, node_env = None,
     node_volumes = None, node_cpu = None, node_memory = None, node_privileged = False,
     node_cap_add = [], node_cap_drop = [], node_entrypoint = None, node_hostname = None,
     node_workdir = None, node_labels = [], node_pull = None, node_container_exec = [],
     node_healthcheck = None, node_healthcheck_interval = None, node_healthcheck_timeout = None,
     node_healthcheck_retries = None, node_startup_delay = None, node_env_file = None,
     node_configs = [], node_overlay = None, node_depends_on = [], node_frr = None,
     node_sysctls = bm_empty, node_interfaces = bm_empty, node_routes = bm_empty,
     node_firewall = None, node_nat = None, node_exec = [], node_vrfs = bm_empty,
     node_wireguard = bm_empty, node_macvlans = [], node_ipvlans = [], node_wifi = [],
     node_foreign = None\<rparr>"

definition topology_default :: topology where
  "topology_default = \<lparr>topo_lab = lab_default, topo_profiles = bm_empty, topo_nodes = bm_empty,
     topo_links = [], topo_networks = bm_empty, topo_impairments = bm_empty,
     topo_directional_impairments = bm_empty, topo_rate_limits = bm_empty, topo_qdiscs = bm_empty,
     topo_assertions = [], topo_assertion_retries = None, topo_assertion_interval = None,
     topo_scenarios = [], topo_benchmarks = [], topo_sites = bm_empty, topo_source_dir = None\<rparr>"

subsection \<open>Names of the interfaces a lab creates\<close>

text \<open>\<open>hash.wrapping_mul(33).wrapping_add(b)\<close> on a \<open>u32\<close>, printed as eight hexadecimal digits.\<close>

definition djb2 :: "string \<Rightarrow> 32 word" where
  "djb2 s = foldl (\<lambda>hash b. hash * 33 + of_nat (of_char b)) 5381 s"

definition name_hash_str :: "string \<Rightarrow> string" where
  "name_hash_str s = show_hex8 (unat (djb2 s))"

definition lab_effective_prefix :: "lab_config \<Rightarrow> string" where
  "lab_effective_prefix lab = (case lab_prefix lab of Some p \<Rightarrow> p | None \<Rightarrow> lab_name lab)"

definition add_suffix :: "string \<Rightarrow> lab_config \<Rightarrow> lab_config" where
  "add_suffix sfx lab =
     lab\<lparr>lab_name := lab_name lab @ ''-'' @ sfx,
         lab_prefix := map_option (\<lambda>p. p @ ''-'' @ sfx) (lab_prefix lab)\<rparr>"

definition mgmt_bridge_name_for :: "string \<Rightarrow> string" where
  "mgmt_bridge_name_for name = ''nl'' @ name_hash_str name"

definition mgmt_bridge_name :: "lab_config \<Rightarrow> string" where
  "mgmt_bridge_name lab = mgmt_bridge_name_for (lab_name lab)"

definition mgmt_peer_name :: "lab_config \<Rightarrow> nat \<Rightarrow> string" where
  "mgmt_peer_name lab idx = ''nm'' @ name_hash_str (lab_name lab) @ show_nat idx"

definition tap_bridge_name :: "lab_config \<Rightarrow> string \<Rightarrow> string" where
  "tap_bridge_name lab n = ''nt'' @ name_hash_str (lab_name lab @ ''/'' @ n)"

definition tap_port_name :: "lab_config \<Rightarrow> string \<Rightarrow> nat \<Rightarrow> string" where
  "tap_port_name lab n k = tap_bridge_name lab n @ ''p'' @ show_nat k"

definition network_peer_name_for :: "string \<Rightarrow> nat \<Rightarrow> string" where
  "network_peer_name_for net_name idx = ''np'' @ name_hash_str net_name @ show_nat idx"

definition network_bridge_name_for :: "string \<Rightarrow> string" where
  "network_bridge_name_for net_name = ''nb'' @ name_hash_str net_name"

subsection \<open>Keyword tables\<close>

fun compare_holds :: "compare_op \<Rightarrow> 'a :: linorder \<Rightarrow> 'a \<Rightarrow> bool" where
  "compare_holds Gt v t = (v > t)"
| "compare_holds Lt v t = (v < t)"
| "compare_holds Gte v t = (v \<ge> t)"
| "compare_holds Lte v t = (v \<le> t)"
| "compare_holds Cmp_Eq v t = (v = t)"
| "compare_holds Cmp_Ne v t = (v \<noteq> t)"

fun compare_as_str :: "compare_op \<Rightarrow> string" where
  "compare_as_str Gt = ''>''"
| "compare_as_str Lt = ''<''"
| "compare_as_str Gte = ''>=''"
| "compare_as_str Lte = ''<=''"
| "compare_as_str Cmp_Eq = ''==''"
| "compare_as_str Cmp_Ne = ''!=''"

definition bond_mode_parse :: "string \<Rightarrow> bond_mode option" where
  "bond_mode_parse s =
     (if s = ''balance-rr'' then Some BalanceRr
      else if s = ''active-backup'' then Some ActiveBackup
      else if s = ''balance-xor'' then Some BalanceXor
      else if s = ''broadcast'' then Some Broadcast
      else if s = ''802.3ad'' \<or> s = ''lacp'' then Some Lacp
      else if s = ''balance-tlb'' then Some BalanceTlb
      else if s = ''balance-alb'' then Some BalanceAlb
      else None)"

fun bond_mode_as_str :: "bond_mode \<Rightarrow> string" where
  "bond_mode_as_str BalanceRr = ''balance-rr''"
| "bond_mode_as_str ActiveBackup = ''active-backup''"
| "bond_mode_as_str BalanceXor = ''balance-xor''"
| "bond_mode_as_str Broadcast = ''broadcast''"
| "bond_mode_as_str Lacp = ''802.3ad''"
| "bond_mode_as_str BalanceTlb = ''balance-tlb''"
| "bond_mode_as_str BalanceAlb = ''balance-alb''"

definition xmit_hash_parse :: "string \<Rightarrow> xmit_hash_policy option" where
  "xmit_hash_parse s =
     (if s = ''layer2'' then Some Layer2
      else if s = ''layer3+4'' then Some Layer34
      else if s = ''layer2+3'' then Some Layer23
      else if s = ''encap2+3'' then Some Encap23
      else if s = ''encap3+4'' then Some Encap34
      else None)"

fun xmit_hash_as_str :: "xmit_hash_policy \<Rightarrow> string" where
  "xmit_hash_as_str Layer2 = ''layer2''"
| "xmit_hash_as_str Layer34 = ''layer3+4''"
| "xmit_hash_as_str Layer23 = ''layer2+3''"
| "xmit_hash_as_str Encap23 = ''encap2+3''"
| "xmit_hash_as_str Encap34 = ''encap3+4''"

text \<open>\<open>str::to_ascii_lowercase\<close>.\<close>

definition ascii_lower :: "char \<Rightarrow> char" where
  "ascii_lower c = (let n = of_char c :: nat in if 65 \<le> n \<and> n \<le> 90 then char_of (n + 32) else c)"

abbreviation to_ascii_lowercase :: "string \<Rightarrow> string" where
  "to_ascii_lowercase \<equiv> map ascii_lower"

definition vlan_protocol_parse :: "string \<Rightarrow> vlan_protocol option" where
  "vlan_protocol_parse s =
     (let l = to_ascii_lowercase s in
      if l = ''802.1q'' \<or> l = ''dot1q'' then Some Dot1q
      else if l = ''802.1ad'' \<or> l = ''dot1ad'' \<or> l = ''qinq'' then Some Dot1ad
      else None)"

fun vlan_protocol_as_str :: "vlan_protocol \<Rightarrow> string" where
  "vlan_protocol_as_str Dot1q = ''802.1q''"
| "vlan_protocol_as_str Dot1ad = ''802.1ad''"

fun set_key_as_str :: "set_key \<Rightarrow> string" where
  "set_key_as_str Key_Ipv4 = ''ipv4''"
| "set_key_as_str Key_Ipv6 = ''ipv6''"
| "set_key_as_str Key_Port = ''port''"
| "set_key_as_str Key_Mark = ''mark''"

definition set_key_parse :: "string \<Rightarrow> set_key option" where
  "set_key_parse s =
     (if s = ''ipv4'' then Some Key_Ipv4
      else if s = ''ipv6'' then Some Key_Ipv6
      else if s = ''port'' then Some Key_Port
      else if s = ''mark'' then Some Key_Mark
      else None)"

fun limit_per_as_str :: "limit_per \<Rightarrow> string" where
  "limit_per_as_str Per_Second = ''second''"
| "limit_per_as_str Per_Minute = ''minute''"
| "limit_per_as_str Per_Hour = ''hour''"
| "limit_per_as_str Per_Day = ''day''"

definition limit_per_parse :: "string \<Rightarrow> limit_per option" where
  "limit_per_parse s =
     (if s = ''second'' then Some Per_Second
      else if s = ''minute'' then Some Per_Minute
      else if s = ''hour'' then Some Per_Hour
      else if s = ''day'' then Some Per_Day
      else None)"

fun reject_with_as_str :: "reject_with \<Rightarrow> string" where
  "reject_with_as_str TcpReset = ''tcp-reset''"
| "reject_with_as_str PortUnreachable = ''port-unreachable''"
| "reject_with_as_str HostUnreachable = ''host-unreachable''"
| "reject_with_as_str NoRoute = ''no-route''"
| "reject_with_as_str AdminProhibited = ''admin-prohibited''"

definition reject_with_parse :: "string \<Rightarrow> reject_with option" where
  "reject_with_parse s =
     (if s = ''tcp-reset'' then Some TcpReset
      else if s = ''port-unreachable'' then Some PortUnreachable
      else if s = ''host-unreachable'' then Some HostUnreachable
      else if s = ''no-route'' then Some NoRoute
      else if s = ''admin-prohibited'' then Some AdminProhibited
      else None)"

fun nat_flag_name :: "nat_flag \<Rightarrow> string" where
  "nat_flag_name Nat_Random = ''random''"
| "nat_flag_name Nat_FullyRandom = ''fully-random''"
| "nat_flag_name Nat_Persistent = ''persistent''"

definition log_levels :: "string list" where
  "log_levels = [''emerg'', ''alert'', ''crit'', ''err'', ''warn'', ''notice'', ''info'', ''debug'']"

fun qdisc_kind_name :: "qdisc_kind \<Rightarrow> string" where
  "qdisc_kind_name (Tbf _ _ _ _ _) = ''tbf''"
| "qdisc_kind_name (FqCodel _ _ _ _ _ _) = ''fq_codel''"
| "qdisc_kind_name (Sfq _ _ _) = ''sfq''"
| "qdisc_kind_name (Prio _) = ''prio''"

fun foreign_keyword :: "foreign_target \<Rightarrow> string" where
  "foreign_keyword (Netns _) = ''netns''"
| "foreign_keyword (Container _) = ''container''"
| "foreign_keyword (Tap _) = ''tap''"

fun foreign_name :: "foreign_target \<Rightarrow> string" where
  "foreign_name (Netns s) = s"
| "foreign_name (Container s) = s"
| "foreign_name (Tap s) = s"

text \<open>\<open>Path::join\<close> of \<open>/run/netns\<close> and a name without a slash.\<close>

fun foreign_netns_path :: "foreign_target \<Rightarrow> string option" where
  "foreign_netns_path (Netns s) = Some (if CHR ''/'' \<in> set s then s else ''/run/netns/'' @ s)"
| "foreign_netns_path _ = None"

subsection \<open>Endpoints\<close>

record endpoint_ref =
  ep_node :: string
  ep_iface :: string

definition endpoint_parse :: "string \<Rightarrow> endpoint_ref option" where
  "endpoint_parse s =
     Option.bind (split_once CHR '':'' s) (\<lambda>(n, i).
       if n = [] \<or> i = [] then None else Some \<lparr>ep_node = n, ep_iface = i\<rparr>)"

definition endpoint_show :: "endpoint_ref \<Rightarrow> string" where
  "endpoint_show e = ep_node e @ '':'' @ ep_iface e"

subsection \<open>Netem properties\<close>

definition imp_default :: impairment where
  "imp_default = \<lparr>imp_delay = None, imp_jitter = None, imp_loss = None, imp_rate = None,
     imp_corrupt = None, imp_reorder = None, imp_duplicate = None, imp_delay_correlation = None,
     imp_loss_correlation = None, imp_limit = None, imp_seed = None\<rparr>"

definition imp_properties :: "string list" where
  "imp_properties = [''delay'', ''jitter'', ''loss'', ''rate'', ''corrupt'', ''reorder'', ''duplicate'',
     ''delay-correlation'', ''loss-correlation'', ''limit'', ''seed'']"

text \<open>\<open>set_property\<close>: \<open>None\<close> is the unknown-property error.\<close>

definition set_property :: "string \<Rightarrow> string \<Rightarrow> impairment \<Rightarrow> impairment option" where
  "set_property key value imp =
     (let v = Some (trim value); k = trim key in
      if k = ''delay'' then Some (imp\<lparr>imp_delay := v\<rparr>)
      else if k = ''jitter'' then Some (imp\<lparr>imp_jitter := v\<rparr>)
      else if k = ''loss'' then Some (imp\<lparr>imp_loss := v\<rparr>)
      else if k = ''rate'' then Some (imp\<lparr>imp_rate := v\<rparr>)
      else if k = ''corrupt'' then Some (imp\<lparr>imp_corrupt := v\<rparr>)
      else if k = ''reorder'' then Some (imp\<lparr>imp_reorder := v\<rparr>)
      else if k = ''duplicate'' then Some (imp\<lparr>imp_duplicate := v\<rparr>)
      else if k = ''delay-correlation'' then Some (imp\<lparr>imp_delay_correlation := v\<rparr>)
      else if k = ''loss-correlation'' then Some (imp\<lparr>imp_loss_correlation := v\<rparr>)
      else if k = ''limit'' then Some (imp\<lparr>imp_limit := v\<rparr>)
      else if k = ''seed'' then Some (imp\<lparr>imp_seed := v\<rparr>)
      else None)"

text \<open>The properties that are set, with their keys, in the order of \<open>PROPERTIES\<close>.\<close>

definition imp_fields :: "impairment \<Rightarrow> (string \<times> string option) list" where
  "imp_fields imp =
     [(''delay'', imp_delay imp), (''jitter'', imp_jitter imp), (''loss'', imp_loss imp),
      (''rate'', imp_rate imp), (''corrupt'', imp_corrupt imp), (''reorder'', imp_reorder imp),
      (''duplicate'', imp_duplicate imp), (''delay-correlation'', imp_delay_correlation imp),
      (''loss-correlation'', imp_loss_correlation imp), (''limit'', imp_limit imp),
      (''seed'', imp_seed imp)]"

fun join_str :: "string \<Rightarrow> string list \<Rightarrow> string" where
  "join_str sep [] = []"
| "join_str sep [x] = x"
| "join_str sep (x # xs) = x @ sep @ join_str sep xs"

definition imp_summary :: "impairment \<Rightarrow> string" where
  "imp_summary imp =
     join_str '' '' (List.map_filter (\<lambda>(k, v). map_option (\<lambda>w. k @ '' '' @ w) v) (imp_fields imp))"

subsection \<open>Qdisc specifications\<close>

datatype qdisc_error =
    Missing_Kind
  | Ecn_Contradiction
  | Bad_Item string
  | Ecn_Not_Fq_Codel
  | Unknown_Parameter string
  | Missing_Parameter string
  | Not_An_Integer string
  | Bands_Out_Of_Range u32
  | Unknown_Kind string

text \<open>The loop over the items after the kind: the key/value pairs and the \<open>ecn\<close> flag.\<close>

fun qdisc_items ::
  "string list \<Rightarrow> (string, string) btree_map \<Rightarrow> bool option \<Rightarrow>
     (qdisc_error, (string, string) btree_map \<times> bool option) result" where
  "qdisc_items [] kv ecn = Inr (kv, ecn)"
| "qdisc_items (item # items) kv ecn =
     (case split_once CHR ''='' item of
        Some (k, v) \<Rightarrow> qdisc_items items (bm_insert (trim k) (trim v) kv) ecn
      | None \<Rightarrow>
          if item = ''ecn'' \<or> item = ''noecn''
          then (let on = (item = ''ecn'') in
                if (case ecn of Some was \<Rightarrow> was \<noteq> on | None \<Rightarrow> False) then Inl Ecn_Contradiction
                else qdisc_items items kv (Some on))
          else Inl (Bad_Item item))"

definition qdisc_num :: "(string, string) btree_map \<Rightarrow> string \<Rightarrow> (qdisc_error, u32 option) result" where
  "qdisc_num kv k =
     (case bm_get kv k of
        None \<Rightarrow> Inr None
      | Some v \<Rightarrow> and_then (ok_or (parse_u32 v) (Not_An_Integer k)) (\<lambda>n. Inr (Some (of_nat n))))"

definition qdisc_allowed :: "(string, string) btree_map \<Rightarrow> string list \<Rightarrow> (qdisc_error, unit) result" where
  "qdisc_allowed kv names =
     (case find (\<lambda>k. k \<notin> set names) (bm_keys kv) of
        Some k \<Rightarrow> Inl (Unknown_Parameter k)
      | None \<Rightarrow> Inr ())"

definition qdisc_required :: "(string, string) btree_map \<Rightarrow> string \<Rightarrow> (qdisc_error, string) result" where
  "qdisc_required kv k = ok_or (bm_get kv k) (Missing_Parameter k)"

definition qdisc_parse_spec :: "string \<Rightarrow> (qdisc_error, qdisc_kind) result" where
  "qdisc_parse_spec spec =
     (case filter (\<lambda>t. t \<noteq> []) (map trim (split_char CHR '','' spec)) of
        [] \<Rightarrow> Inl Missing_Kind
      | kind # items \<Rightarrow>
          and_then (qdisc_items items bm_empty None) (\<lambda>(kv, ecn).
          if ecn \<noteq> None \<and> kind \<noteq> ''fq_codel'' then Inl Ecn_Not_Fq_Codel
          else if kind = ''tbf'' then
            and_then (qdisc_allowed kv [''rate'', ''burst'', ''limit'', ''peakrate'', ''mtu'']) (\<lambda>_.
            and_then (qdisc_required kv ''rate'') (\<lambda>rate.
            and_then (qdisc_required kv ''burst'') (\<lambda>burst.
            and_then (qdisc_required kv ''limit'') (\<lambda>lim.
            and_then (qdisc_num kv ''mtu'') (\<lambda>mtu.
              Inr (Tbf rate burst (Some lim) (bm_get kv ''peakrate'') mtu))))))
          else if kind = ''fq_codel'' then
            and_then (qdisc_allowed kv [''target'', ''interval'', ''limit'', ''flows'', ''quantum'']) (\<lambda>_.
            and_then (qdisc_num kv ''limit'') (\<lambda>lim.
            and_then (qdisc_num kv ''flows'') (\<lambda>flows.
            and_then (qdisc_num kv ''quantum'') (\<lambda>quantum.
              Inr (FqCodel (bm_get kv ''target'') (bm_get kv ''interval'') lim flows quantum ecn)))))
          else if kind = ''sfq'' then
            and_then (qdisc_allowed kv [''perturb'', ''limit'', ''quantum'']) (\<lambda>_.
            and_then (qdisc_num kv ''limit'') (\<lambda>lim.
            and_then (qdisc_num kv ''quantum'') (\<lambda>quantum.
              Inr (Sfq (bm_get kv ''perturb'') lim quantum))))
          else if kind = ''prio'' then
            and_then (qdisc_allowed kv [''bands'']) (\<lambda>_.
            and_then (qdisc_num kv ''bands'') (\<lambda>b.
              case b of
                None \<Rightarrow> Inr (Prio None)
              | Some n \<Rightarrow> if unat n \<le> 255 then Inr (Prio (Some (ucast n)))
                          else Inl (Bands_Out_Of_Range n)))
          else Inl (Unknown_Kind kind)))"

subsection \<open>Merged views of a node\<close>

definition is_container :: "node \<Rightarrow> bool" where
  "is_container n \<longleftrightarrow> (case node_image n of Some _ \<Rightarrow> True | None \<Rightarrow> False)"

definition is_foreign :: "node \<Rightarrow> bool" where
  "is_foreign n \<longleftrightarrow> (case node_foreign n of Some _ \<Rightarrow> True | None \<Rightarrow> False)"

definition input_declared :: "firewall_config \<Rightarrow> bool" where
  "input_declared fw \<longleftrightarrow> fw_policy fw \<noteq> None \<or> fw_rules fw \<noteq> []"

definition declares_anything :: "firewall_config \<Rightarrow> bool" where
  "declares_anything fw \<longleftrightarrow>
     input_declared fw \<or> fw_forward fw \<noteq> None \<or> fw_output fw \<noteq> None \<or> bm_entries (fw_sets fw) \<noteq> []"

definition merge_from :: "firewall_config \<Rightarrow> firewall_config \<Rightarrow> firewall_config" where
  "merge_from self other =
     (let f1 = self\<lparr>fw_sets := bm_extend (fw_sets self) (bm_entries (fw_sets other))\<rparr>;
          f2 = (if input_declared other
                then f1\<lparr>fw_policy := fw_policy other, fw_rules := fw_rules other\<rparr> else f1);
          f3 = (if fw_forward other \<noteq> None then f2\<lparr>fw_forward := fw_forward other\<rparr> else f2)
      in if fw_output other \<noteq> None then f3\<lparr>fw_output := fw_output other\<rparr> else f3)"

definition all_rules :: "firewall_config \<Rightarrow> firewall_rule list" where
  "all_rules fw =
     fw_rules fw @ (case fw_forward fw of Some c \<Rightarrow> fc_rules c | None \<Rightarrow> []) @
     (case fw_output fw of Some c \<Rightarrow> fc_rules c | None \<Rightarrow> [])"

definition has_statement :: "firewall_rule \<Rightarrow> bool" where
  "has_statement r \<longleftrightarrow>
     fr_limit r \<noteq> None \<or> fr_counter r \<or> fr_counter_name r \<noteq> None \<or> fr_log r \<noteq> None \<or>
     fr_set_mark r \<noteq> None \<or> fr_ct_mark r \<noteq> None \<or> fr_classify r \<noteq> None \<or> fr_clamp_mss r \<noteq> None"

definition effective_sysctls :: "topology \<Rightarrow> node \<Rightarrow> (string, string) btree_map" where
  "effective_sysctls t n =
     bm_extend
       (foldl (\<lambda>m name. case bm_get (topo_profiles t) name of
                          Some p \<Rightarrow> bm_extend m (bm_entries (profile_sysctls p))
                        | None \<Rightarrow> m)
          bm_empty (node_profiles n))
       (bm_entries (node_sysctls n))"

definition firewall_layers :: "topology \<Rightarrow> node \<Rightarrow> firewall_config list" where
  "firewall_layers t n =
     List.map_filter (\<lambda>name. Option.bind (bm_get (topo_profiles t) name) profile_firewall) (node_profiles n) @
     (case node_firewall n of Some f \<Rightarrow> [f] | None \<Rightarrow> [])"

definition effective_firewall :: "topology \<Rightarrow> node \<Rightarrow> firewall_config option" where
  "effective_firewall t n =
     (case firewall_layers t n of
        [] \<Rightarrow> None
      | [only] \<Rightarrow> Some only
      | first # rest \<Rightarrow> Some (foldl merge_from first rest))"

fun first_some :: "('a \<Rightarrow> 'b option) \<Rightarrow> 'a list \<Rightarrow> 'b option" where
  "first_some f [] = None"
| "first_some f (x # xs) = (case f x of Some y \<Rightarrow> Some y | None \<Rightarrow> first_some f xs)"

definition effective_frr :: "topology \<Rightarrow> node \<Rightarrow> frr_config option" where
  "effective_frr t n =
     (if lab_routing (topo_lab t) \<noteq> Routing_Frr \<or> is_container n then None
      else (case node_frr n of
              Some f \<Rightarrow> Some f
            | None \<Rightarrow>
                (case first_some (\<lambda>name. Option.bind (bm_get (topo_profiles t) name) profile_frr)
                        (rev (node_profiles n)) of
                   Some f \<Rightarrow> Some f
                 | None \<Rightarrow>
                     if bm_get (effective_sysctls t n) ''net.ipv4.ip_forward'' = Some ''1''
                     then lab_frr (topo_lab t) else None)))"

definition namespace_name :: "topology \<Rightarrow> string \<Rightarrow> string" where
  "namespace_name t n = lab_effective_prefix (topo_lab t) @ ''-'' @ n"

subsection \<open>Secrets and host paths\<close>

definition redacted_text :: string where
  "redacted_text = ''<redacted>''"

definition redact_wireguard :: "wireguard_config \<Rightarrow> wireguard_config" where
  "redact_wireguard wg =
     (case wg_private_key wg of
        Some k \<Rightarrow> if k \<noteq> ''auto'' then wg\<lparr>wg_private_key := Some redacted_text\<rparr> else wg
      | None \<Rightarrow> wg)"

definition redact_wifi :: "wifi_config \<Rightarrow> wifi_config" where
  "redact_wifi w =
     (case wifi_passphrase w of Some _ \<Rightarrow> w\<lparr>wifi_passphrase := Some redacted_text\<rparr> | None \<Rightarrow> w)"

definition redact_node :: "node \<Rightarrow> node" where
  "redact_node n =
     n\<lparr>node_wireguard := bm_map (\<lambda>_. redact_wireguard) (node_wireguard n),
       node_wifi := map redact_wifi (node_wifi n),
       node_env := map_option (bm_map (\<lambda>_ _. redacted_text)) (node_env n)\<rparr>"

definition redacted :: "topology \<Rightarrow> topology" where
  "redacted t = t\<lparr>topo_nodes := bm_map (\<lambda>_. redact_node) (topo_nodes t)\<rparr>"

text \<open>\<open>Path::is_absolute\<close> and \<open>Path::join\<close> of a relative path, on Unix.\<close>

definition path_is_absolute :: "string \<Rightarrow> bool" where
  "path_is_absolute p \<longleftrightarrow> (case p of c # _ \<Rightarrow> c = CHR ''/'' | [] \<Rightarrow> False)"

definition path_join :: "string \<Rightarrow> string \<Rightarrow> string" where
  "path_join base p =
     (if path_is_absolute p then p
      else if base = [] \<or> last base = CHR ''/'' then base @ p
      else base @ ''/'' @ p)"

definition rebase_path :: "string \<Rightarrow> string \<Rightarrow> string" where
  "rebase_path base p = (if path_is_absolute p then p else path_join base p)"

definition rebase_node :: "string \<Rightarrow> node \<Rightarrow> node" where
  "rebase_node base n =
     n\<lparr>node_configs := map (\<lambda>(host, c). (rebase_path base host, c)) (node_configs n),
       node_overlay := map_option (rebase_path base) (node_overlay n),
       node_env_file := map_option (rebase_path base) (node_env_file n)\<rparr>"

definition rebase_host_paths :: "string \<Rightarrow> topology \<Rightarrow> topology" where
  "rebase_host_paths base t = t\<lparr>topo_nodes := bm_map (\<lambda>_. rebase_node base) (topo_nodes t)\<rparr>"

subsection \<open>Generated names are valid interface names\<close>

definition name_char :: "char \<Rightarrow> bool" where
  "name_char c \<longleftrightarrow> is_radix_digit 16 c \<or> c \<in> set ''nlmtpb''"

lemma name_char_not_ws: "name_char c \<Longrightarrow> c \<notin> hd ` set ws_encodings"
  by (auto simp: name_char_def ws_encodings_def is_radix_digit_def radix_val_def digit_val_def)

lemma name_char_plain: "name_char c \<Longrightarrow> c \<noteq> CHR ''/''" "name_char c \<Longrightarrow> c \<noteq> CHR ''.''"
  by (auto simp: name_char_def)

lemma valid_name:
  assumes "name \<noteq> []" "length name \<le> 15" "\<forall>c \<in> set name. name_char c"
  shows "validate_interface_name name = Inr ()"
proof -
  have "\<not> sublist w name" if w: "w \<in> set ws_encodings" for w
  proof
    assume "sublist w name"
    then have "set w \<subseteq> set name" by (auto dest: set_mono_sublist)
    moreover have "w \<noteq> []" using w by (auto simp: ws_encodings_def)
    ultimately have "name_char (hd w)" using assms(3) by (metis hd_in_set subsetD)
    from name_char_not_ws [OF this] imageI [OF w, of hd] show False by (rule notE)
  qed
  moreover have "CHR ''/'' \<notin> set name" "CHR ''.'' \<notin> set name"
    using assms(3) name_char_plain by metis+
  moreover from this have "name \<noteq> ''.''" "name \<noteq> ''..''" by auto
  ultimately show ?thesis using assms(1,2) by (simp add: validate_interface_name_def)
qed

lemma name_char_show_radix: "2 \<le> r \<Longrightarrow> r \<le> 16 \<Longrightarrow> c \<in> set (show_radix r n) \<Longrightarrow> name_char c"
  using show_radix_digits [of r c n] radix_val_digit_char [of _ 16]
  by (auto simp: name_char_def is_radix_digit_def)

lemmas name_char_digits = name_char_show_radix [of 10, simplified] name_char_show_radix [of 16, simplified]

lemma length_name_hash [simp]: "length (name_hash_str s) = 8"
proof -
  have "unat (djb2 s) < 16 ^ 8" using unsigned_less [of "djb2 s", where 'a = nat] by simp
  then have "length (show_radix 16 (unat (djb2 s))) \<le> 8" by (intro length_show_radix_le) simp_all
  then show ?thesis by (simp add: name_hash_str_def show_hex8_def Let_def)
qed

lemma name_char_hash: "c \<in> set (name_hash_str s) \<Longrightarrow> name_char c"
  by (auto simp: name_hash_str_def show_hex8_def Let_def dest: name_char_digits)
    (simp add: name_char_def is_radix_digit_def radix_val_def digit_val_def)

lemma name_char_letters [simp]:
  "name_char CHR ''n''" "name_char CHR ''l''" "name_char CHR ''m''" "name_char CHR ''t''"
  "name_char CHR ''p''" "name_char CHR ''b''"
  by (simp_all add: name_char_def)

lemmas generated_name_defs = mgmt_bridge_name_def mgmt_bridge_name_for_def mgmt_peer_name_def
  tap_bridge_name_def tap_port_name_def network_peer_name_for_def network_bridge_name_for_def

lemma length_show_nat_le: "n < 10 ^ k \<Longrightarrow> 0 < k \<Longrightarrow> length (show_nat n) \<le> k"
  by (rule length_show_radix_le) simp_all

text \<open>C39.
  Every interface name the lab generates is a name Linux accepts, whatever the lab, node
  and network are called: bridges always, the management and network peers up to index
  99999, the ports of a tap bridge up to 9999.
\<close>

theorem generated_names_valid:
  assumes "i < 100000" "k < 10000"
  shows "validate_interface_name (mgmt_bridge_name lab) = Inr () \<and>
         validate_interface_name (mgmt_peer_name lab i) = Inr () \<and>
         validate_interface_name (tap_bridge_name lab n) = Inr () \<and>
         validate_interface_name (tap_port_name lab n k) = Inr () \<and>
         validate_interface_name (network_peer_name_for net i) = Inr () \<and>
         validate_interface_name (network_bridge_name_for net) = Inr ()"
proof -
  have "length (show_nat i) \<le> 5" "length (show_nat k) \<le> 4"
    using assms length_show_nat_le [of i 5] length_show_nat_le [of k 4] by simp_all
  then show ?thesis
    by (intro conjI valid_name)
      (auto simp: generated_name_defs name_char_hash dest: name_char_digits)
qed

theorem generated_names_valid_witness:
  "validate_interface_name (network_peer_name_for ''lan_a'' 99999) = Inr ()"
proof -
  have "(99999 :: nat) < 100000" "(0 :: nat) < 10000" by simp_all
  from generated_names_valid [OF this] show ?thesis by blast
qed

lemma digits_val_zeros: "digits_val 16 0 (replicate k (CHR ''0'') @ s) = digits_val 16 0 s"
  by (induction k) (simp_all add: radix_val_def digit_val_def)

lemma digits_val_hex8: "digits_val 16 0 (show_hex8 n) = Some n"
  by (simp add: show_hex8_def Let_def digits_val_zeros digits_val_show_radix)

text \<open>
  Within a lab no two generated names of different kinds coincide, and two peers (or tap
  ports) of one kind differ as soon as their indices do.
\<close>

theorem generated_names_distinct:
  "(mgmt_peer_name lab i = mgmt_peer_name lab j \<longleftrightarrow> i = j) \<and>
   (tap_port_name lab n i = tap_port_name lab n j \<longleftrightarrow> i = j) \<and>
   (network_peer_name_for net i = network_peer_name_for net' j \<longleftrightarrow> djb2 net = djb2 net' \<and> i = j) \<and>
   distinct [mgmt_bridge_name lab, mgmt_peer_name lab i, tap_bridge_name lab n, tap_port_name lab n j,
             network_peer_name_for net i, network_bridge_name_for net]"
proof -
  have hash: "name_hash_str a = name_hash_str b \<longleftrightarrow> djb2 a = djb2 b" for a b
    unfolding name_hash_str_def word_unat_eq_iff by (metis digits_val_hex8 option.inject)
  have nat: "show_nat a = show_nat b \<longleftrightarrow> a = b" for a b using show_nat_inject by blast
  show ?thesis
    by (simp add: generated_name_defs hash nat)
qed

subsection \<open>Keyword and endpoint round trips\<close>

text \<open>
  Every keyword a configuration enum prints is parsed back to the same value, and comparison
  operators print differently from one another.
\<close>

theorem keyword_roundtrip:
  "bond_mode_parse (bond_mode_as_str b) = Some b \<and>
   xmit_hash_parse (xmit_hash_as_str x) = Some x \<and>
   vlan_protocol_parse (vlan_protocol_as_str v) = Some v \<and>
   set_key_parse (set_key_as_str k) = Some k \<and>
   limit_per_parse (limit_per_as_str l) = Some l \<and>
   reject_with_parse (reject_with_as_str r) = Some r \<and>
   (compare_as_str c = compare_as_str d \<longleftrightarrow> c = d)"
proof (intro conjI)
  show "vlan_protocol_parse (vlan_protocol_as_str v) = Some v"
    by (cases v) (simp_all add: vlan_protocol_parse_def ascii_lower_def Let_def)
  show "compare_as_str c = compare_as_str d \<longleftrightarrow> c = d" by (cases c; cases d) simp_all
  show "bond_mode_parse (bond_mode_as_str b) = Some b" by (cases b) (simp_all add: bond_mode_parse_def)
  show "xmit_hash_parse (xmit_hash_as_str x) = Some x" by (cases x) (simp_all add: xmit_hash_parse_def)
  show "set_key_parse (set_key_as_str k) = Some k" by (cases k) (simp_all add: set_key_parse_def)
  show "limit_per_parse (limit_per_as_str l) = Some l" by (cases l) (simp_all add: limit_per_parse_def)
  show "reject_with_parse (reject_with_as_str r) = Some r"
    by (cases r) (simp_all add: reject_with_parse_def)
qed

lemma endpoint_parse_Some:
  "endpoint_parse s = Some e \<longleftrightarrow>
     s = endpoint_show e \<and> ep_node e \<noteq> [] \<and> ep_iface e \<noteq> [] \<and> CHR '':'' \<notin> set (ep_node e)"
  (is "?l \<longleftrightarrow> ?r")
proof
  assume ?l
  then show ?r
    by (auto simp: endpoint_parse_def endpoint_show_def bind_eq_Some_conv split: if_splits
        dest!: split_once_Some)
next
  assume ?r
  then show ?l
    by (cases e) (simp add: endpoint_parse_def endpoint_show_def split_once_append)
qed

text \<open>
  An endpoint text parses exactly when it is what an endpoint with a non-empty node (without
  a colon) and a non-empty interface prints: parsing is the inverse of printing, in both
  directions.
\<close>

theorem endpoint_roundtrip:
  "(endpoint_parse s = Some e \<longleftrightarrow>
      s = endpoint_show e \<and> ep_node e \<noteq> [] \<and> ep_iface e \<noteq> [] \<and> CHR '':'' \<notin> set (ep_node e)) \<and>
   (endpoint_parse s = None \<longleftrightarrow>
      (\<nexists>n i. s = n @ '':'' @ i \<and> n \<noteq> [] \<and> i \<noteq> [] \<and> CHR '':'' \<notin> set n))"
proof (intro conjI)
  show "endpoint_parse s = None \<longleftrightarrow>
      (\<nexists>n i. s = n @ '':'' @ i \<and> n \<noteq> [] \<and> i \<noteq> [] \<and> CHR '':'' \<notin> set n)"
  proof
    assume none: "endpoint_parse s = None"
    show "\<nexists>n i. s = n @ '':'' @ i \<and> n \<noteq> [] \<and> i \<noteq> [] \<and> CHR '':'' \<notin> set n"
    proof
      assume "\<exists>n i. s = n @ '':'' @ i \<and> n \<noteq> [] \<and> i \<noteq> [] \<and> CHR '':'' \<notin> set n"
      then obtain n i where "s = n @ '':'' @ i" "n \<noteq> []" "i \<noteq> []" "CHR '':'' \<notin> set n" by blast
      then have "endpoint_parse s = Some \<lparr>ep_node = n, ep_iface = i\<rparr>"
        by (simp add: endpoint_parse_Some endpoint_show_def)
      with none show False by simp
    qed
  next
    assume "\<nexists>n i. s = n @ '':'' @ i \<and> n \<noteq> [] \<and> i \<noteq> [] \<and> CHR '':'' \<notin> set n"
    then show "endpoint_parse s = None"
      by (cases "endpoint_parse s") (auto simp: endpoint_parse_Some endpoint_show_def)
  qed
qed (rule endpoint_parse_Some)

subsection \<open>Merged views\<close>

lemma first_some_append:
  "first_some f (xs @ ys) = (case first_some f xs of Some y \<Rightarrow> Some y | None \<Rightarrow> first_some f ys)"
  by (induction xs) (auto split: option.splits)

lemma bm_get_extend_entries:
  "bm_get (bm_extend m (bm_entries n)) k = (case bm_get n k of Some v \<Rightarrow> Some v | None \<Rightarrow> bm_get m k)"
  using bm_get_of_list [of "bm_entries n" k] by (simp add: bm_get_extend)

text \<open>
  A value layered by extending maps one after the other is the one of the last layer that
  has it. Sysctls and firewall sets share this.
\<close>

lemma bm_get_layers:
  "bm_get (foldl (\<lambda>m l. case f l of Some n \<Rightarrow> bm_extend m (bm_entries n) | None \<Rightarrow> m) m0 ls) k =
     (case first_some (\<lambda>l. Option.bind (f l) (\<lambda>n. bm_get n k)) (rev ls) of
        Some v \<Rightarrow> Some v | None \<Rightarrow> bm_get m0 k)"
  by (induction ls arbitrary: m0)
    (auto simp: first_some_append bm_get_extend_entries split: option.splits)

text \<open>
  A node's effective sysctl is its own setting; without one, the setting of the last listed
  profile that exists and has the key; without one, it is unset.
\<close>

theorem effective_sysctls_spec:
  "bm_get (effective_sysctls t n) k =
     (case bm_get (node_sysctls n) k of
        Some v \<Rightarrow> Some v
      | None \<Rightarrow> first_some (\<lambda>name. Option.bind (bm_get (topo_profiles t) name)
                                     (\<lambda>p. bm_get (profile_sysctls p) k)) (rev (node_profiles n)))"
proof -
  let ?f = "\<lambda>name. map_option profile_sysctls (bm_get (topo_profiles t) name)"
  have eq: "(\<lambda>m name. case bm_get (topo_profiles t) name of
           Some p \<Rightarrow> bm_extend m (bm_entries (profile_sysctls p)) | None \<Rightarrow> m) =
        (\<lambda>m name. case ?f name of Some s \<Rightarrow> bm_extend m (bm_entries s) | None \<Rightarrow> m)"
    by (auto simp: fun_eq_iff split: option.splits)
  have bind: "Option.bind (?f name) (\<lambda>s. bm_get s k) =
      Option.bind (bm_get (topo_profiles t) name) (\<lambda>p. bm_get (profile_sysctls p) k)" for name
    by (cases "bm_get (topo_profiles t) name") simp_all
  show ?thesis
    unfolding effective_sysctls_def eq bm_get_extend_entries bm_get_layers bind
    by (simp split: option.splits)
qed

lemma merge_from_fields [simp]:
  "fw_forward (merge_from a b) = (case fw_forward b of Some c \<Rightarrow> Some c | None \<Rightarrow> fw_forward a)"
  "fw_output (merge_from a b) = (case fw_output b of Some c \<Rightarrow> Some c | None \<Rightarrow> fw_output a)"
  "fw_policy (merge_from a b) = (if input_declared b then fw_policy b else fw_policy a)"
  "fw_rules (merge_from a b) = (if input_declared b then fw_rules b else fw_rules a)"
  "bm_get (fw_sets (merge_from a b)) k =
     (case bm_get (fw_sets b) k of Some s \<Rightarrow> Some s | None \<Rightarrow> bm_get (fw_sets a) k)"
  by (auto simp: merge_from_def Let_def bm_get_extend_entries split: option.splits)

lemma input_declared_merge [simp]: "input_declared (merge_from a b) \<longleftrightarrow> input_declared a \<or> input_declared b"
  by (auto simp: input_declared_def)

lemma foldl_merge_from:
  shows "fw_forward (foldl merge_from l ls) = first_some fw_forward (rev (l # ls))"
    "fw_output (foldl merge_from l ls) = first_some fw_output (rev (l # ls))"
    "bm_get (fw_sets (foldl merge_from l ls)) k = first_some (\<lambda>f. bm_get (fw_sets f) k) (rev (l # ls))"
    "(fw_policy (foldl merge_from l ls), fw_rules (foldl merge_from l ls)) =
       (case find input_declared (rev (l # ls)) of
          Some f \<Rightarrow> (fw_policy f, fw_rules f) | None \<Rightarrow> (fw_policy l, fw_rules l))"
proof -
  have find_append: "find P (xs @ ys) = (case find P xs of Some x \<Rightarrow> Some x | None \<Rightarrow> find P ys)"
    for P :: "firewall_config \<Rightarrow> bool" and xs ys
    by (induction xs) auto
  show "fw_forward (foldl merge_from l ls) = first_some fw_forward (rev (l # ls))"
    by (induction ls arbitrary: l) (auto simp: first_some_append split: option.splits)
  show "fw_output (foldl merge_from l ls) = first_some fw_output (rev (l # ls))"
    by (induction ls arbitrary: l) (auto simp: first_some_append split: option.splits)
  show "bm_get (fw_sets (foldl merge_from l ls)) k = first_some (\<lambda>f. bm_get (fw_sets f) k) (rev (l # ls))"
    by (induction ls arbitrary: l) (auto simp: first_some_append split: option.splits)
  show "(fw_policy (foldl merge_from l ls), fw_rules (foldl merge_from l ls)) =
       (case find input_declared (rev (l # ls)) of
          Some f \<Rightarrow> (fw_policy f, fw_rules f) | None \<Rightarrow> (fw_policy l, fw_rules l))"
    by (induction ls rule: rev_induct) (auto simp: find_append split: option.splits)
qed

text \<open>
  A node's effective firewall, from its profiles in order and its own section: there is one
  exactly when one of them has a firewall, and each chain, and each named set, is the one of
  the last layer that declares it. A layer that declares nothing of the input chain leaves
  policy and rules as they were.
\<close>

theorem effective_firewall_spec:
  "(effective_firewall t n = None \<longleftrightarrow> firewall_layers t n = []) \<and>
   (case effective_firewall t n of
      None \<Rightarrow> True
    | Some fw \<Rightarrow>
        fw_forward fw = first_some fw_forward (rev (firewall_layers t n)) \<and>
        fw_output fw = first_some fw_output (rev (firewall_layers t n)) \<and>
        (\<forall>k. bm_get (fw_sets fw) k =
           first_some (\<lambda>f. bm_get (fw_sets f) k) (rev (firewall_layers t n))) \<and>
        (fw_policy fw, fw_rules fw) =
          (case find input_declared (rev (firewall_layers t n)) of
             Some f \<Rightarrow> (fw_policy f, fw_rules f) | None \<Rightarrow> (None, [])))"
proof (cases "firewall_layers t n")
  case Nil
  then show ?thesis by (simp add: effective_firewall_def)
next
  case (Cons l ls)
  then have eff: "effective_firewall t n = Some (foldl merge_from l ls)"
    by (cases ls) (simp_all add: effective_firewall_def)
  have "find input_declared (rev (l # ls)) = None \<Longrightarrow> (fw_policy l, fw_rules l) = (None, [])"
    by (auto simp: find_None_iff input_declared_def)
  then have "(fw_policy (foldl merge_from l ls), fw_rules (foldl merge_from l ls)) =
      (case find input_declared (rev (l # ls)) of
         Some f \<Rightarrow> (fw_policy f, fw_rules f) | None \<Rightarrow> (None, []))"
    using foldl_merge_from(4) [of l ls] by (auto split: option.splits)
  with Cons eff foldl_merge_from(1-3) [of l ls] show ?thesis by simp
qed

subsection \<open>Secrets\<close>

lemma redact_wireguard_idem [simp]: "redact_wireguard (redact_wireguard w) = redact_wireguard w"
  by (simp add: redact_wireguard_def redacted_text_def split: option.splits)

lemma redact_wifi_idem [simp]: "redact_wifi (redact_wifi w) = redact_wifi w"
  by (simp add: redact_wifi_def split: option.splits)

lemma bm_map_comp: "bm_map f (bm_map g m) = bm_map (\<lambda>k v. f k (g k v)) m"
  by (rule bm_ext) (simp add: option.map_comp comp_def)

lemma bm_map_idem: "(\<And>k v. f k (f k v) = f k v) \<Longrightarrow> bm_map f (bm_map f m) = bm_map f m"
  by (rule bm_ext) (simp add: option.map_comp comp_def)

lemma redact_node_idem [simp]: "redact_node (redact_node n) = redact_node n"
  by (simp add: redact_node_def bm_map_idem option.map_comp comp_def)

text \<open>The places of a node that hold a secret.\<close>

definition node_secrets :: "node \<Rightarrow> string set" where
  "node_secrets n =
     {k. \<exists>w. w \<in> set (bm_values (node_wireguard n)) \<and> wg_private_key w = Some k \<and> k \<noteq> ''auto''} \<union>
     {p. \<exists>w. w \<in> set (node_wifi n) \<and> wifi_passphrase w = Some p} \<union>
     {v. \<exists>e. node_env n = Some e \<and> v \<in> set (bm_values e)}"

definition without_secrets :: "node \<Rightarrow> node" where
  "without_secrets n =
     n\<lparr>node_wireguard := bm_map (\<lambda>_ w. w\<lparr>wg_private_key := None\<rparr>) (node_wireguard n),
       node_wifi := map (\<lambda>w. w\<lparr>wifi_passphrase := None\<rparr>) (node_wifi n),
       node_env := map_option (bm_map (\<lambda>_ _. [])) (node_env n)\<rparr>"

lemma node_secrets_redact: "node_secrets (redact_node n) \<subseteq> {redacted_text}"
proof -
  have "wg_private_key (redact_wireguard w) = Some k \<Longrightarrow> k \<noteq> ''auto'' \<Longrightarrow> k = redacted_text" for w k
    by (auto simp: redact_wireguard_def split: option.splits if_splits)
  moreover have "wifi_passphrase (redact_wifi w) = Some k \<Longrightarrow> k = redacted_text" for w k
    by (auto simp: redact_wifi_def split: option.splits)
  ultimately show ?thesis
    by (auto simp: node_secrets_def redact_node_def set_bm_values ran_def)
qed

lemma without_secrets_redact: "without_secrets (redact_node n) = without_secrets n"
proof -
  have "(redact_wireguard w)\<lparr>wg_private_key := None\<rparr> = w\<lparr>wg_private_key := None\<rparr>" for w
    by (auto simp: redact_wireguard_def split: option.splits)
  moreover have "(redact_wifi w)\<lparr>wifi_passphrase := None\<rparr> = w\<lparr>wifi_passphrase := None\<rparr>" for w
    by (auto simp: redact_wifi_def split: option.splits)
  ultimately show ?thesis
    by (simp add: without_secrets_def redact_node_def bm_map_comp option.map_comp comp_def)
qed



subsection \<open>Qdisc specifications\<close>

lemma qdisc_parse_spec_kind:
  assumes "qdisc_parse_spec spec = Inr q"
  obtains items where
    "filter (\<lambda>t. t \<noteq> []) (map trim (split_char CHR '','' spec)) = qdisc_kind_name q # items"
    "\<exists>kv ecn. qdisc_items items bm_empty None = Inr (kv, ecn) \<and>
       (case q of
          Tbf r b l p m \<Rightarrow> bm_get kv ''rate'' = Some r \<and> bm_get kv ''burst'' = Some b \<and>
            l = bm_get kv ''limit'' \<and> l \<noteq> None \<and> p = bm_get kv ''peakrate'' \<and> ecn = None
        | FqCodel t i l f u e \<Rightarrow> t = bm_get kv ''target'' \<and> i = bm_get kv ''interval'' \<and> e = ecn
        | Sfq p l u \<Rightarrow> p = bm_get kv ''perturb'' \<and> ecn = None
        | Prio b \<Rightarrow> ecn = None)"
proof -
  obtain kind items where parts: "filter (\<lambda>t. t \<noteq> []) (map trim (split_char CHR '','' spec)) = kind # items"
    using assms unfolding qdisc_parse_spec_def by (auto split: list.splits)
  obtain kv ecn where it: "qdisc_items items bm_empty None = Inr (kv, ecn)"
    using assms parts by (auto simp: qdisc_parse_spec_def)
  consider "kind = ''tbf''" | "kind = ''fq_codel''" | "kind = ''sfq''" | "kind = ''prio''"
    using assms parts it by (auto simp: qdisc_parse_spec_def split: if_splits)
  then show thesis
    by cases (use assms parts it in \<open>auto intro!: that simp: qdisc_parse_spec_def qdisc_required_def
        split: if_splits option.splits\<close>)
qed

text \<open>
  A qdisc specification that is accepted names its kind first and carries the written
  parameters; a token bucket always has a queue limit (without one it would drop
  everything), and \<open>ecn\<close> or \<open>noecn\<close> is accepted for \<open>fq_codel\<close> only.
\<close>

theorem qdisc_parse_spec_sound:
  assumes "qdisc_parse_spec spec = Inr q"
  shows "\<exists>items kv ecn.
    filter (\<lambda>t. t \<noteq> []) (map trim (split_char CHR '','' spec)) = qdisc_kind_name q # items \<and>
    qdisc_items items bm_empty None = Inr (kv, ecn) \<and>
    (case q of
       Tbf r b l p m \<Rightarrow> bm_get kv ''rate'' = Some r \<and> bm_get kv ''burst'' = Some b \<and>
         l = bm_get kv ''limit'' \<and> l \<noteq> None \<and> p = bm_get kv ''peakrate'' \<and> ecn = None
     | FqCodel t i l f u e \<Rightarrow> t = bm_get kv ''target'' \<and> i = bm_get kv ''interval'' \<and> e = ecn
     | Sfq p l u \<Rightarrow> p = bm_get kv ''perturb'' \<and> ecn = None
     | Prio b \<Rightarrow> ecn = None)"
  by (rule qdisc_parse_spec_kind [OF assms]) blast

theorem qdisc_parse_spec_sound_witness:
  "\<exists>items kv ecn. qdisc_items items bm_empty None = Inr (kv, ecn) \<and> bm_get kv ''rate'' = Some ''1mbit''"
proof -
  have "qdisc_parse_spec ''tbf, rate=1mbit, burst=32kb, limit=64kb'' =
      Inr (Tbf ''1mbit'' ''32kb'' (Some ''64kb'') None None)" by code_simp
  from qdisc_parse_spec_sound [OF this] show ?thesis by auto
qed

end
