(* ===== verification/Deploy_Op.thy ===== *)
theory Deploy_Op
  imports Topology_Ops
begin

text \<open>
  The vocabulary of deploy plans, \<open>crates/nlink-lab/src/deploy/op.rs\<close>: where a node lives
  (\<open>NsRef\<close>), the stages, the typed operations with their stage, identity (\<open>key\<close>), inverse and
  classification. The kernel-side configuration types of the netlink library
  (\<open>NetworkConfig\<close>, \<open>WireguardConfig\<close>) are the type parameters \<open>'net\<close> and \<open>'wg\<close>; the one
  function of them the module calls, the interface names of a WireGuard configuration, is
  the argument \<open>wg_ifnames\<close> of the definitions that need it.
\<close>

subsection \<open>Where a node lives\<close>

datatype ns_ref =
    Ns_Root
  | Ns_Named string
  | Ns_Container string u32
  | Ns_Path string

datatype namespace_spec = Spec_Default | Spec_Named string | Spec_Pid u32 | Spec_Path string

fun ns_spec :: "ns_ref \<Rightarrow> namespace_spec" where
  "ns_spec Ns_Root = Spec_Default"
| "ns_spec (Ns_Named name) = Spec_Named name"
| "ns_spec (Ns_Container _ pid) = Spec_Pid pid"
| "ns_spec (Ns_Path path) = Spec_Path path"

fun ns_name :: "ns_ref \<Rightarrow> string option" where
  "ns_name (Ns_Named name) = Some name"
| "ns_name _ = None"

fun ns_container_id :: "ns_ref \<Rightarrow> string option" where
  "ns_container_id (Ns_Container cid _) = Some cid"
| "ns_container_id _ = None"

text \<open>The directory of named namespaces is a constant of the netlink library.\<close>

fun ns_path :: "string \<Rightarrow> ns_ref \<Rightarrow> string" where
  "ns_path run_dir Ns_Root = ''/proc/self/ns/net''"
| "ns_path run_dir (Ns_Named name) = path_join run_dir name"
| "ns_path run_dir (Ns_Container _ pid) = ''/proc/'' @ show_nat (unat pid) @ ''/ns/net''"
| "ns_path run_dir (Ns_Path path) = path"

subsection \<open>Stages\<close>

datatype stage =
    Namespaces | Hwsim | MgmtBridge | Networks | Links | HostLinks | LinksUpStage | SysctlsStage
  | StackStage | Dns | RoutingDaemons | Processes | WifiStage

fun stage_index :: "stage \<Rightarrow> nat" where
  "stage_index Namespaces = 0"
| "stage_index Hwsim = 1"
| "stage_index MgmtBridge = 2"
| "stage_index Networks = 3"
| "stage_index Links = 4"
| "stage_index HostLinks = 5"
| "stage_index LinksUpStage = 6"
| "stage_index SysctlsStage = 7"
| "stage_index StackStage = 8"
| "stage_index Dns = 9"
| "stage_index RoutingDaemons = 10"
| "stage_index Processes = 11"
| "stage_index WifiStage = 12"

lemma stage_index_inject: "stage_index a = stage_index b \<Longrightarrow> a = b"
  by (cases a; cases b) simp_all

text \<open>The derived \<open>Ord\<close>: the order of declaration.\<close>

instantiation stage :: linorder
begin

definition less_eq_stage :: "stage \<Rightarrow> stage \<Rightarrow> bool" where
  "less_eq_stage a b \<longleftrightarrow> stage_index a \<le> stage_index b"

definition less_stage :: "stage \<Rightarrow> stage \<Rightarrow> bool" where
  "less_stage a b \<longleftrightarrow> stage_index a < stage_index b"

instance
  by standard (auto simp: less_eq_stage_def less_stage_def dest: stage_index_inject)

end

fun stage_name :: "stage \<Rightarrow> string" where
  "stage_name Namespaces = ''namespaces''"
| "stage_name Hwsim = ''hwsim''"
| "stage_name MgmtBridge = ''mgmt-bridge''"
| "stage_name Networks = ''networks''"
| "stage_name Links = ''links''"
| "stage_name HostLinks = ''host-links''"
| "stage_name LinksUpStage = ''links-up''"
| "stage_name SysctlsStage = ''sysctls''"
| "stage_name StackStage = ''stack''"
| "stage_name Dns = ''dns''"
| "stage_name RoutingDaemons = ''routing-daemons''"
| "stage_name Processes = ''processes''"
| "stage_name WifiStage = ''wifi''"

text \<open>The derived \<open>Debug\<close>, which the diff appends to a key.\<close>

fun stage_debug :: "stage \<Rightarrow> string" where
  "stage_debug Namespaces = ''Namespaces''"
| "stage_debug Hwsim = ''Hwsim''"
| "stage_debug MgmtBridge = ''MgmtBridge''"
| "stage_debug Networks = ''Networks''"
| "stage_debug Links = ''Links''"
| "stage_debug HostLinks = ''HostLinks''"
| "stage_debug LinksUpStage = ''LinksUp''"
| "stage_debug SysctlsStage = ''Sysctls''"
| "stage_debug StackStage = ''Stack''"
| "stage_debug Dns = ''Dns''"
| "stage_debug RoutingDaemons = ''RoutingDaemons''"
| "stage_debug Processes = ''Processes''"
| "stage_debug WifiStage = ''Wifi''"

subsection \<open>Operations\<close>

datatype daemon = Zebra | Ospfd | Bgpd

fun daemon_index :: "daemon \<Rightarrow> nat" where
  "daemon_index Zebra = 0"
| "daemon_index Ospfd = 1"
| "daemon_index Bgpd = 2"

instantiation daemon :: linorder
begin

definition less_eq_daemon :: "daemon \<Rightarrow> daemon \<Rightarrow> bool" where
  "less_eq_daemon a b \<longleftrightarrow> daemon_index a \<le> daemon_index b"

definition less_daemon :: "daemon \<Rightarrow> daemon \<Rightarrow> bool" where
  "less_daemon a b \<longleftrightarrow> daemon_index a < daemon_index b"

instance
proof
  fix a b :: daemon
  show "a \<le> b \<Longrightarrow> b \<le> a \<Longrightarrow> a = b" by (cases a; cases b) (simp_all add: less_eq_daemon_def)
qed (auto simp: less_eq_daemon_def less_daemon_def)

end

fun daemon_name :: "daemon \<Rightarrow> string" where
  "daemon_name Zebra = ''zebra''"
| "daemon_name Ospfd = ''ospfd''"
| "daemon_name Bgpd = ''bgpd''"

record frr_node_spec =
  frr_pathspace :: string
  frr_daemons :: "daemon list"
  frr_confs :: "(daemon, string) btree_map"
  frr_integrated :: string
  frr_expected_ospf_neighbors :: nat
  frr_expected_bgp_peers :: nat

record create_opts =
  opt_cmd :: "string list option"
  opt_env :: "(string, string) btree_map"
  opt_volumes :: "string list"
  opt_cpu :: "string option"
  opt_memory :: "string option"
  opt_privileged :: bool
  opt_cap_add :: "string list"
  opt_cap_drop :: "string list"
  opt_entrypoint :: "string option"
  opt_hostname :: "string option"
  opt_workdir :: "string option"
  opt_labels :: "string list"
  opt_extra_hosts :: "string list"
  opt_configs :: "(string \<times> string) list"
  opt_env_file :: "string option"
  opt_overlay :: "string option"

record port_vlans_rec =
  pv_vlans :: "u16 list"
  pv_pvid :: "u16 option"
  pv_untagged :: bool

record ('net, 'wg) stack_config =
  stk_network :: 'net
  stk_firewall :: "firewall_config option"
  stk_nat :: "nat_config option"
  stk_wireguard :: "'wg option"

definition wireguard_ifnames :: "('wg \<Rightarrow> string list) \<Rightarrow> ('net, 'wg) stack_config \<Rightarrow> string list" where
  "wireguard_ifnames wg_ifnames cfg =
     (case stk_wireguard cfg of Some wg \<Rightarrow> wg_ifnames wg | None \<Rightarrow> [])"

datatype (plugins only: code size) ('net, 'wg) op =
    CreateNamespace string string
      \<comment> \<open>node, ns\<close>
  | CreateContainer string string string "string option" create_opts
      \<comment> \<open>node, name, image, pull, opts\<close>
  | AttachForeign string foreign_target "string option"
      \<comment> \<open>node, target, bridge\<close>
  | CreateRadio string string string wifi_mode string
      \<comment> \<open>node, iface, radio, mode, maker\<close>
  | CreateMgmtBridge string ip_addr u8
      \<comment> \<open>name, ip, prefix\<close>
  | CreateMgmtVeth string string string ip_addr u8
      \<comment> \<open>node, peer, bridge, node ip, prefix\<close>
  | CreateMgmtNamespace string
      \<comment> \<open>ns\<close>
  | CreateBridge string string string bool "u32 option"
      \<comment> \<open>ns, network, name, vlan filtering, mtu\<close>
  | CreateNetworkVeth string string string string string "port_vlans_rec option" "u32 option"
      \<comment> \<open>node, iface, peer, mgmt ns, bridge, vlans, mtu\<close>
  | CreateVeth endpoint_ref endpoint_ref "u32 option"
      \<comment> \<open>a, b, mtu\<close>
  | CreateTapVeth endpoint_ref string string "u32 option"
      \<comment> \<open>a, port, bridge, mtu\<close>
  | CreateMacvlan string macvlan_config
  | CreateIpvlan string ipvlan_config
  | LinksUp string "string list"
      \<comment> \<open>node, ifaces\<close>
  | Sysctls string "(string, string) btree_map"
      \<comment> \<open>node, entries\<close>
  | Stack string "('net, 'wg) stack_config"
      \<comment> \<open>node, cfg\<close>
  | DnsInject string
      \<comment> \<open>lab\<close>
  | DnsNetnsEtc string string
      \<comment> \<open>node, ns\<close>
  | StartupDelay string string
      \<comment> \<open>node, delay\<close>
  | Exec string nat exec_config
      \<comment> \<open>node, index, exec\<close>
  | Healthcheck string string "string option" "string option" "u32 option"
      \<comment> \<open>node, cmd, interval, timeout, retries\<close>
  | WifiDaemon string wifi_config
  | FrrDaemons string frr_node_spec
  | DeleteNamespace string string
      \<comment> \<open>node, ns\<close>
  | DetachForeign string "string option"
      \<comment> \<open>node, bridge\<close>
  | RemoveContainer string string
      \<comment> \<open>node, id\<close>
  | DeleteLink string string
      \<comment> \<open>node, iface\<close>
  | DeleteHostLink string
      \<comment> \<open>name\<close>
  | DeleteBridge string string
      \<comment> \<open>ns, name\<close>
  | KillNodeProcesses string
      \<comment> \<open>node\<close>
  | KillExec string nat
      \<comment> \<open>node, index\<close>
  | KillWifiDaemon string string wifi_mode
      \<comment> \<open>node, name, mode\<close>
  | KillFrrDaemons string string "daemon list"
      \<comment> \<open>node, pathspace, daemons\<close>
  | RemoveDns string
      \<comment> \<open>lab\<close>
  | DeleteRadio string string string
      \<comment> \<open>node, iface, radio\<close>

text \<open>\<open>Op::stage\<close>.\<close>

primrec op_stage :: "('net, 'wg) op \<Rightarrow> stage" where
  "op_stage (CreateNamespace _ _) = Namespaces"
| "op_stage (CreateContainer _ _ _ _ _) = Namespaces"
| "op_stage (AttachForeign _ _ _) = Namespaces"
| "op_stage (DeleteNamespace _ _) = Namespaces"
| "op_stage (DetachForeign _ _) = Namespaces"
| "op_stage (RemoveContainer _ _) = Namespaces"
| "op_stage (CreateRadio _ _ _ _ _) = Hwsim"
| "op_stage (DeleteRadio _ _ _) = Hwsim"
| "op_stage (CreateMgmtBridge _ _ _) = MgmtBridge"
| "op_stage (CreateMgmtVeth _ _ _ _ _) = MgmtBridge"
| "op_stage (DeleteHostLink _) = MgmtBridge"
| "op_stage (CreateMgmtNamespace _) = Networks"
| "op_stage (CreateBridge _ _ _ _ _) = Networks"
| "op_stage (DeleteBridge _ _) = Networks"
| "op_stage (CreateNetworkVeth _ _ _ _ _ _ _) = Networks"
| "op_stage (CreateVeth _ _ _) = Links"
| "op_stage (CreateTapVeth _ _ _ _) = Links"
| "op_stage (DeleteLink _ _) = Links"
| "op_stage (CreateMacvlan _ _) = HostLinks"
| "op_stage (CreateIpvlan _ _) = HostLinks"
| "op_stage (LinksUp _ _) = LinksUpStage"
| "op_stage (Sysctls _ _) = SysctlsStage"
| "op_stage (Stack _ _) = StackStage"
| "op_stage (DnsInject _) = Dns"
| "op_stage (DnsNetnsEtc _ _) = Dns"
| "op_stage (RemoveDns _) = Dns"
| "op_stage (StartupDelay _ _) = Processes"
| "op_stage (Exec _ _ _) = Processes"
| "op_stage (Healthcheck _ _ _ _ _) = Processes"
| "op_stage (KillNodeProcesses _) = Processes"
| "op_stage (KillExec _ _) = Processes"
| "op_stage (FrrDaemons _ _) = RoutingDaemons"
| "op_stage (KillFrrDaemons _ _ _) = RoutingDaemons"
| "op_stage (WifiDaemon _ _) = WifiStage"
| "op_stage (KillWifiDaemon _ _ _) = WifiStage"

text \<open>\<open>Op::key\<close>: two operations with the same key describe the same resource.\<close>

primrec op_key :: "('net, 'wg) op \<Rightarrow> string" where
  "op_key (CreateNamespace node ns) = ''ns:'' @ ns"
| "op_key (DeleteNamespace node ns) = ''ns:'' @ ns"
| "op_key (CreateContainer node name img pull opts) = ''container:'' @ node"
| "op_key (RemoveContainer node cid) = ''container:'' @ node"
| "op_key (AttachForeign node target bridge) = ''foreign:'' @ node"
| "op_key (DetachForeign node bridge) = ''foreign:'' @ node"
| "op_key (CreateRadio node iface radio mode maker) = ''radio:'' @ node @ '':'' @ iface"
| "op_key (DeleteRadio node iface radio) = ''radio:'' @ node @ '':'' @ iface"
| "op_key (CreateMgmtBridge name ip p) = ''hostlink:'' @ name"
| "op_key (CreateMgmtVeth node peer bridge ip p) = ''hostlink:'' @ peer"
| "op_key (DeleteHostLink name) = ''hostlink:'' @ name"
| "op_key (CreateMgmtNamespace ns) = ''ns:'' @ ns"
| "op_key (CreateBridge ns network name vf mtu) = ''bridge:'' @ ns @ '':'' @ name"
| "op_key (DeleteBridge ns name) = ''bridge:'' @ ns @ '':'' @ name"
| "op_key (CreateNetworkVeth node iface peer mgmt_ns bridge vlans mtu) = ''link:'' @ node @ '':'' @ iface"
| "op_key (DeleteLink node iface) = ''link:'' @ node @ '':'' @ iface"
| "op_key (CreateVeth a b mtu) = ''link:'' @ ep_node a @ '':'' @ ep_iface a"
| "op_key (CreateTapVeth a port bridge mtu) = ''link:'' @ ep_node a @ '':'' @ ep_iface a"
| "op_key (CreateMacvlan node mcfg) = ''link:'' @ node @ '':'' @ mv_name mcfg"
| "op_key (CreateIpvlan node icfg) = ''link:'' @ node @ '':'' @ iv_name icfg"
| "op_key (LinksUp node ifaces) = ''linksup:'' @ node"
| "op_key (Sysctls node entries) = ''sysctls:'' @ node"
| "op_key (Stack node cfg) = ''stack:'' @ node"
| "op_key (DnsInject lab) = ''dns:'' @ lab"
| "op_key (RemoveDns lab) = ''dns:'' @ lab"
| "op_key (DnsNetnsEtc node ns) = ''dns-etc:'' @ ns"
| "op_key (StartupDelay node delay) = ''delay:'' @ node"
| "op_key (Exec node index exec) = ''exec:'' @ node @ '':'' @ show_nat index"
| "op_key (KillExec node index) = ''exec:'' @ node @ '':'' @ show_nat index"
| "op_key (Healthcheck node cmd interval timeout retries) = ''healthcheck:'' @ node"
| "op_key (FrrDaemons node spec) = ''frr:'' @ node"
| "op_key (KillFrrDaemons node pathspace daemons) = ''frr:'' @ node"
| "op_key (WifiDaemon node wifi) = ''wifi:'' @ node @ '':'' @ wifi_name wifi"
| "op_key (KillWifiDaemon node name mode) = ''wifi:'' @ node @ '':'' @ name"
| "op_key (KillNodeProcesses node) = ''procs:'' @ node"

definition op_inverse :: "('net, 'wg) op \<Rightarrow> ('net, 'wg) op option" where
  "op_inverse o1 =
     (case o1 of
        CreateNamespace node ns \<Rightarrow> Some (DeleteNamespace node ns)
      | CreateMgmtNamespace ns \<Rightarrow> Some (DeleteNamespace [] ns)
      | CreateContainer node name _ _ _ \<Rightarrow> Some (RemoveContainer node name)
      | AttachForeign node _ bridge \<Rightarrow> Some (DetachForeign node bridge)
      | CreateMgmtBridge name _ _ \<Rightarrow> Some (DeleteHostLink name)
      | CreateBridge ns _ name _ _ \<Rightarrow> Some (DeleteBridge ns name)
      | FrrDaemons node spec \<Rightarrow> Some (KillFrrDaemons node (frr_pathspace spec) (frr_daemons spec))
      | CreateRadio node iface radio _ _ \<Rightarrow> Some (DeleteRadio node iface radio)
      | WifiDaemon node wifi \<Rightarrow> Some (KillWifiDaemon node (wifi_name wifi) (wifi_mode_of wifi))
      | CreateMgmtVeth _ peer _ _ _ \<Rightarrow> Some (DeleteHostLink peer)
      | CreateNetworkVeth node iface _ _ _ _ _ \<Rightarrow> Some (DeleteLink node iface)
      | CreateVeth a _ _ \<Rightarrow> Some (DeleteLink (ep_node a) (ep_iface a))
      | CreateTapVeth a _ _ _ \<Rightarrow> Some (DeleteLink (ep_node a) (ep_iface a))
      | CreateMacvlan node cfg \<Rightarrow> Some (DeleteLink node (mv_name cfg))
      | CreateIpvlan node cfg \<Rightarrow> Some (DeleteLink node (iv_name cfg))
      | DnsInject lab \<Rightarrow> Some (RemoveDns lab)
      | Exec node index exec \<Rightarrow> if exec_background exec then Some (KillExec node index) else None
      | _ \<Rightarrow> None)"

definition lives_in_node :: "string \<Rightarrow> ('net, 'wg) op \<Rightarrow> bool" where
  "lives_in_node node o1 =
     (case o1 of
        CreateVeth a b _ \<Rightarrow> ep_node a = node \<or> ep_node b = node
      | CreateTapVeth a _ _ _ \<Rightarrow> ep_node a = node
      | CreateNetworkVeth n _ _ _ _ _ _ \<Rightarrow> n = node
      | CreateMgmtVeth n _ _ _ _ \<Rightarrow> n = node
      | CreateMacvlan n _ \<Rightarrow> n = node
      | CreateIpvlan n _ \<Rightarrow> n = node
      | Sysctls n _ \<Rightarrow> n = node
      | Exec n _ _ \<Rightarrow> n = node
      | Healthcheck n _ _ _ _ \<Rightarrow> n = node
      | WifiDaemon n _ \<Rightarrow> n = node
      | _ \<Rightarrow> False)"

definition is_removal :: "('net, 'wg) op \<Rightarrow> bool" where
  "is_removal o1 =
     (case o1 of
        DeleteNamespace _ _ \<Rightarrow> True
      | DetachForeign _ _ \<Rightarrow> True
      | RemoveContainer _ _ \<Rightarrow> True
      | DeleteLink _ _ \<Rightarrow> True
      | DeleteHostLink _ \<Rightarrow> True
      | DeleteBridge _ _ \<Rightarrow> True
      | KillNodeProcesses _ \<Rightarrow> True
      | KillExec _ _ \<Rightarrow> True
      | KillWifiDaemon _ _ _ \<Rightarrow> True
      | KillFrrDaemons _ _ _ \<Rightarrow> True
      | RemoveDns _ \<Rightarrow> True
      | DeleteRadio _ _ _ \<Rightarrow> True
      | _ \<Rightarrow> False)"

text \<open>The operations a diff always re-runs.\<close>

definition is_reconcile :: "('net, 'wg) op \<Rightarrow> bool" where
  "is_reconcile o1 =
     (case o1 of Stack _ _ \<Rightarrow> True | LinksUp _ _ \<Rightarrow> True | DnsInject _ \<Rightarrow> True | DnsNetnsEtc _ _ \<Rightarrow> True
      | _ \<Rightarrow> False)"

subsection \<open>Plans\<close>

type_synonym ('net, 'wg) plan = "('net, 'wg) op list"

definition plan_sorted :: "('net, 'wg) plan \<Rightarrow> ('net, 'wg) plan" where
  "plan_sorted ops = sort_key op_stage ops"

definition plan_work :: "('net, 'wg) plan \<Rightarrow> ('net, 'wg) op list" where
  "plan_work ops = filter (\<lambda>o1. \<not> is_removal o1 \<and> \<not> is_reconcile o1) ops"

definition plan_stage :: "stage \<Rightarrow> ('net, 'wg) plan \<Rightarrow> ('net, 'wg) op list" where
  "plan_stage st ops = filter (\<lambda>o1. op_stage o1 = st) ops"

subsection \<open>Inverses\<close>

lemma op_inverse_key: "op_inverse o1 = Some i \<Longrightarrow> op_key i = op_key o1"
  by (cases o1) (auto simp: op_inverse_def split: if_splits)

lemma op_inverse_removal: "op_inverse o1 = Some i \<Longrightarrow> is_removal i \<and> \<not> is_removal o1"
  by (cases o1) (auto simp: op_inverse_def is_removal_def split: if_splits)

lemma op_inverse_of_removal: "is_removal o1 \<Longrightarrow> op_inverse o1 = None"
  by (cases o1) (auto simp: op_inverse_def is_removal_def)

text \<open>A removal runs in its creation's stage, or earlier only where both are links.\<close>

lemma op_inverse_stage:
  "op_inverse o1 = Some i \<Longrightarrow>
     op_stage i = op_stage o1 \<or> op_stage o1 \<in> {Networks, HostLinks} \<and> op_stage i \<in> {Namespaces, Links}"
  by (cases o1) (auto simp: op_inverse_def split: if_splits)

lemma is_reconcile_not_removal: "is_reconcile o1 \<Longrightarrow> \<not> is_removal o1"
  by (cases o1) (auto simp: is_reconcile_def is_removal_def)

end
