(* ===== verification/Plan_Diff.thy ===== *)
theory Plan_Diff
  imports Deploy_Op
begin

text \<open>
  \<open>Plan::diff\<close> of \<open>crates/nlink-lab/src/deploy/op.rs\<close>: the plan that turns a deployed lab into
  the desired one. The function is modelled phase by phase, in the order of the code: the
  removals (inverses of vanished operations, dropped WireGuard interfaces, process kills of
  dying nodes, the filter, the reverse stage sort and the deduplication), the loop over the
  desired operations, the two passes for re-created containers and radios, and the final
  sorts.
\<close>

subsection \<open>Removals\<close>

definition plan_map :: "('net, 'wg) plan \<Rightarrow> (string, ('net, 'wg) op) btree_map" where
  "plan_map ops = bm_of_list (map (\<lambda>o1. (op_key o1, o1)) ops)"

definition vanished :: "('net, 'wg) plan \<Rightarrow> ('net, 'wg) plan \<Rightarrow> ('net, 'wg) op list" where
  "vanished current desired =
     List.map_filter op_inverse (filter (\<lambda>o1. \<not> bm_contains (plan_map desired) (op_key o1)) current)"

definition dropped_wireguard ::
  "('wg \<Rightarrow> string list) \<Rightarrow> ('net, 'wg) plan \<Rightarrow> ('net, 'wg) plan \<Rightarrow> ('net, 'wg) op list" where
  "dropped_wireguard wg_ifnames current desired =
     concat (map (\<lambda>(key, o1).
       case (o1, bm_get (plan_map desired) key) of
         (Stack node cfg, Some (Stack _ wanted)) \<Rightarrow>
           map (\<lambda>iface. DeleteLink node iface)
             (filter (\<lambda>i. i \<notin> set (wireguard_ifnames wg_ifnames wanted)) (wireguard_ifnames wg_ifnames cfg))
       | _ \<Rightarrow> []) (bm_entries (plan_map current)))"

definition dying_nodes :: "('net, 'wg) op list \<Rightarrow> string btree_set" where
  "dying_nodes removals =
     bset_of_list (List.map_filter (\<lambda>o1. case o1 of
       DeleteNamespace node _ \<Rightarrow> Some node | RemoveContainer node _ \<Rightarrow> Some node | _ \<Rightarrow> None) removals)"

definition dying_namespaces :: "('net, 'wg) op list \<Rightarrow> string btree_set" where
  "dying_namespaces removals =
     bset_of_list (List.map_filter (\<lambda>o1. case o1 of
       DeleteNamespace _ ns \<Rightarrow> Some ns | _ \<Rightarrow> None) removals)"

definition keep_removal :: "string btree_set \<Rightarrow> string btree_set \<Rightarrow> ('net, 'wg) op \<Rightarrow> bool" where
  "keep_removal dying dying_ns o1 =
     (case o1 of
        DeleteBridge ns _ \<Rightarrow> \<not> bm_contains dying_ns ns
      | DeleteLink node _ \<Rightarrow> \<not> bm_contains dying node
      | KillExec node _ \<Rightarrow> \<not> bm_contains dying node
      | KillWifiDaemon node _ _ \<Rightarrow> \<not> bm_contains dying node
      | _ \<Rightarrow> True)"

text \<open>\<open>sort_by_key(|o| Reverse(o.stage()))\<close>: stable, later stages first.\<close>

definition reverse_stage_sort :: "('net, 'wg) op list \<Rightarrow> ('net, 'wg) op list" where
  "reverse_stage_sort ops = sort_key (\<lambda>o1. - int (stage_index (op_stage o1))) ops"

text \<open>Deduplication keeps the first removal per key and stage (as one string).\<close>

definition dedupe_key :: "('net, 'wg) op \<Rightarrow> string" where
  "dedupe_key o1 = op_key o1 @ stage_debug (op_stage o1)"

fun dedupe :: "string set \<Rightarrow> ('net, 'wg) op list \<Rightarrow> ('net, 'wg) op list" where
  "dedupe seen [] = []"
| "dedupe seen (o1 # ops) =
     (if dedupe_key o1 \<in> seen then dedupe seen ops
      else o1 # dedupe (insert (dedupe_key o1) seen) ops)"

definition initial_removals ::
  "('wg \<Rightarrow> string list) \<Rightarrow> ('net, 'wg) plan \<Rightarrow> ('net, 'wg) plan \<Rightarrow> ('net, 'wg) op list" where
  "initial_removals wg_ifnames current desired =
     (let removals = vanished current desired @ dropped_wireguard wg_ifnames current desired;
          dying = dying_nodes removals;
          dying_ns = dying_namespaces removals;
          removals = removals @ map KillNodeProcesses (bm_keys dying);
          removals = filter (keep_removal dying dying_ns) removals
      in dedupe {} (reverse_stage_sort removals))"

subsection \<open>Changes\<close>

definition without_hosts ::
  "('net, 'wg) op \<Rightarrow> (string \<times> string \<times> string \<times> string option \<times> create_opts) option" where
  "without_hosts o1 =
     (case o1 of
        CreateContainer node name img pull opts \<Rightarrow>
          Some (node, name, img, pull, opts\<lparr>opt_extra_hosts := []\<rparr>)
      | _ \<Rightarrow> None)"

definition same_container :: "('net, 'wg) op \<Rightarrow> ('net, 'wg) op \<Rightarrow> bool" where
  "same_container a b \<longleftrightarrow> without_hosts a = without_hosts b"

record ('net, 'wg) diff_state =
  ds_removals :: "('net, 'wg) op list"
  ds_changes :: "('net, 'wg) op list"
  ds_restarted :: "string set"
  ds_recreated :: "string set"
  ds_radios :: "(string \<times> string) set"

definition push_change :: "('net, 'wg) op \<Rightarrow> ('net, 'wg) diff_state \<Rightarrow> ('net, 'wg) diff_state" where
  "push_change o1 st = st\<lparr>ds_changes := ds_changes st @ [o1]\<rparr>"

definition push_inverse :: "('net, 'wg) op \<Rightarrow> ('net, 'wg) diff_state \<Rightarrow> ('net, 'wg) diff_state" where
  "push_inverse existing st =
     (case op_inverse existing of
        Some undo \<Rightarrow> st\<lparr>ds_removals := ds_removals st @ [undo]\<rparr>
      | None \<Rightarrow> st)"

text \<open>One iteration of the loop over the desired operations.\<close>

definition diff_step ::
  "(string, ('net, 'wg) op) btree_map \<Rightarrow> ('net, 'wg) diff_state \<Rightarrow> ('net, 'wg) op \<Rightarrow>
     ('net, 'wg) diff_state" where
  "diff_step cur st o1 =
     (case bm_get cur (op_key o1) of
        None \<Rightarrow> push_change o1 st
      | Some existing \<Rightarrow>
          (case o1 of
             Stack _ _ \<Rightarrow> push_change o1 st
           | LinksUp _ _ \<Rightarrow> push_change o1 st
           | DnsInject _ \<Rightarrow> push_change o1 st
           | DnsNetnsEtc _ _ \<Rightarrow> push_change o1 st
           | Exec node _ _ \<Rightarrow>
               if existing \<noteq> o1
               then (push_change o1 (push_inverse existing st))
                      \<lparr>ds_restarted := insert node (ds_restarted st)\<rparr>
               else st
           | Healthcheck node _ _ _ _ \<Rightarrow>
               if node \<in> ds_restarted st \<or> existing \<noteq> o1 then push_change o1 st else st
           | StartupDelay _ _ \<Rightarrow> st
           | CreateBridge _ _ _ _ _ \<Rightarrow> st
           | CreateContainer node _ _ _ _ \<Rightarrow>
               if \<not> same_container existing o1
               then (push_change o1 (push_inverse existing st))
                      \<lparr>ds_recreated := insert node (ds_recreated st)\<rparr>
               else st
           | CreateRadio node iface _ _ _ \<Rightarrow>
               if existing \<noteq> o1
               then (push_change o1 (push_inverse existing st))
                      \<lparr>ds_radios := insert (node, iface) (ds_radios st)\<rparr>
               else st
           | _ \<Rightarrow> if existing \<noteq> o1 then push_change o1 (push_inverse existing st) else st))"

text \<open>What lived in a re-created container is created again.\<close>

definition readd_step :: "('net, 'wg) diff_state \<Rightarrow> ('net, 'wg) op \<Rightarrow> ('net, 'wg) diff_state" where
  "readd_step st o1 =
     (if (\<exists>n \<in> ds_recreated st. lives_in_node n o1) \<and> o1 \<notin> set (ds_changes st)
      then push_change o1 st else st)"

text \<open>The daemon of a re-created radio is stopped and started again.\<close>

definition radio_step ::
  "(string, ('net, 'wg) op) btree_map \<Rightarrow> ('net, 'wg) diff_state \<Rightarrow> ('net, 'wg) op \<Rightarrow>
     ('net, 'wg) diff_state" where
  "radio_step cur st o1 =
     (case o1 of
        WifiDaemon node wifi \<Rightarrow>
          if (node, wifi_name wifi) \<in> ds_radios st \<and> o1 \<notin> set (ds_changes st)
          then push_change o1
                 (case Option.bind (bm_get cur (op_key o1)) op_inverse of
                    Some undo \<Rightarrow> st\<lparr>ds_removals := ds_removals st @ [undo]\<rparr>
                  | None \<Rightarrow> st)
          else st
      | _ \<Rightarrow> st)"

definition diff_loop ::
  "('wg \<Rightarrow> string list) \<Rightarrow> ('net, 'wg) plan \<Rightarrow> ('net, 'wg) plan \<Rightarrow> ('net, 'wg) diff_state" where
  "diff_loop wg_ifnames current desired =
     (let cur = plan_map current;
          st0 = \<lparr>ds_removals = initial_removals wg_ifnames current desired, ds_changes = [],
                 ds_restarted = {}, ds_recreated = {}, ds_radios = {}\<rparr>;
          st1 = foldl (diff_step cur) st0 desired;
          st2 = foldl readd_step st1 desired
      in foldl (radio_step cur) st2 desired)"

definition plan_diff ::
  "('wg \<Rightarrow> string list) \<Rightarrow> ('net, 'wg) plan \<Rightarrow> ('net, 'wg) plan \<Rightarrow> ('net, 'wg) plan" where
  "plan_diff wg_ifnames current desired =
     (let st = diff_loop wg_ifnames current desired
      in reverse_stage_sort (ds_removals st) @ sort_key op_stage (ds_changes st))"

subsection \<open>Plans as maps\<close>

lemma plan_map_Some:
  "distinct (map op_key ops) \<Longrightarrow> bm_get (plan_map ops) k = Some o1 \<longleftrightarrow> o1 \<in> set ops \<and> op_key o1 = k"
  unfolding plan_map_def by (subst bm_get_of_list_distinct) (auto simp: comp_def)

lemma plan_map_dom: "k \<in> dom (bm_get (plan_map ops)) \<longleftrightarrow> (\<exists>o1 \<in> set ops. op_key o1 = k)"
proof -
  have "dom (bm_get (plan_map ops)) = dom (map_of (rev (map (\<lambda>o1. (op_key o1, o1)) ops)))"
    unfolding plan_map_def by (auto simp: bm_get_of_list dom_def)
  then show ?thesis by (auto simp: dom_map_of_conv_image_fst image_image)
qed

lemma plan_map_in: "bm_get (plan_map ops) k = Some o1 \<Longrightarrow> o1 \<in> set ops \<and> op_key o1 = k"
  unfolding plan_map_def bm_get_of_list by (auto dest!: map_of_SomeD)

subsection \<open>Sorting and deduplication\<close>

lemma set_reverse_stage_sort [simp]: "set (reverse_stage_sort ops) = set ops"
  by (simp add: reverse_stage_sort_def)

lemma sorted_reverse_stage_sort:
  "sorted_wrt (\<lambda>a b. op_stage b \<le> op_stage a) (reverse_stage_sort ops)"
proof -
  have "sorted (map (\<lambda>o1. - int (stage_index (op_stage o1))) (reverse_stage_sort ops))"
    unfolding reverse_stage_sort_def by (rule sorted_sort_key)
  then show ?thesis by (simp add: sorted_map less_eq_stage_def)
qed

lemma dedupe_subset: "set (dedupe seen ops) \<subseteq> set ops"
  by (induction seen ops rule: dedupe.induct) auto

lemma dedupe_complete:
  "o1 \<in> set ops \<Longrightarrow> dedupe_key o1 \<notin> seen \<Longrightarrow> \<exists>o2 \<in> set (dedupe seen ops). dedupe_key o2 = dedupe_key o1"
  by (induction seen ops rule: dedupe.induct) (auto, metis)

lemma dedupe_distinct: "distinct (map dedupe_key (dedupe seen ops)) \<and>
    set (map dedupe_key (dedupe seen ops)) \<inter> seen = {}"
  by (induction seen ops rule: dedupe.induct) auto

definition removal_stages :: "stage set" where
  "removal_stages = {Namespaces, Hwsim, MgmtBridge, Networks, Links, Dns, RoutingDaemons, Processes, WifiStage}"

lemma removal_stage: "is_removal o1 \<Longrightarrow> op_stage o1 \<in> removal_stages"
  by (cases o1) (simp_all add: is_removal_def removal_stages_def)

text \<open>
  The stage names of removals are suffix-free, so the concatenated string identifies key and
  stage.
\<close>

lemma stage_debug_append_inject:
  assumes "x @ stage_debug s = y @ stage_debug t" "s \<in> removal_stages" "t \<in> removal_stages"
  shows "x = y \<and> s = t"
proof -
  have "s = t"
  proof -
    have "rev (stage_debug s) @ rev x = rev (stage_debug t) @ rev y"
      using arg_cong [OF assms(1), of rev] by simp
    with assms(2,3) show ?thesis unfolding removal_stages_def by auto
  qed
  with assms(1) show ?thesis by simp
qed

lemma dedupe_key_inject:
  assumes "dedupe_key a = dedupe_key b" "is_removal a" "is_removal b"
  shows "op_key a = op_key b \<and> op_stage a = op_stage b"
  by (rule stage_debug_append_inject [OF assms(1) [unfolded dedupe_key_def]
        removal_stage [OF assms(2)] removal_stage [OF assms(3)]])

subsection \<open>The loop\<close>

lemma same_container_refl [simp]: "same_container a a"
  by (simp add: same_container_def)

text \<open>
  What every step keeps: changes come from the desired plan, and a removal added by the loop
  is the inverse of the current operation whose replacement is among the changes. A current
  container that is replaced is recorded as re-created.
\<close>

definition container_of :: "('net, 'wg) op \<Rightarrow> string option" where
  "container_of o1 = (case o1 of CreateContainer n _ _ _ _ \<Rightarrow> Some n | _ \<Rightarrow> None)"

definition is_wifi_daemon :: "('net, 'wg) op \<Rightarrow> bool" where
  "is_wifi_daemon o1 = (case o1 of WifiDaemon _ _ \<Rightarrow> True | _ \<Rightarrow> False)"

definition loop_inv ::
  "(string, ('net, 'wg) op) btree_map \<Rightarrow> ('net, 'wg) op list \<Rightarrow> ('net, 'wg) op set \<Rightarrow>
     ('net, 'wg) diff_state \<Rightarrow> bool" where
  "loop_inv cur init des st \<longleftrightarrow>
     set (ds_changes st) \<subseteq> des \<and>
     set init \<subseteq> set (ds_removals st) \<and>
     (\<forall>r \<in> set (ds_removals st). r \<in> set init \<or>
        (\<exists>o1 \<in> set (ds_changes st). \<exists>e. bm_get cur (op_key o1) = Some e \<and> op_inverse e = Some r \<and>
           (e \<noteq> o1 \<or> is_wifi_daemon o1))) \<and>
     (\<forall>o1 \<in> set (ds_changes st). \<forall>e n. bm_get cur (op_key o1) = Some e \<longrightarrow>
        container_of o1 = Some n \<longrightarrow> n \<in> ds_recreated st)"

lemma loop_inv_push_change:
  assumes "loop_inv cur init des st" "o1 \<in> des"
    and "\<And>e n. bm_get cur (op_key o1) = Some e \<Longrightarrow> container_of o1 = Some n \<Longrightarrow> n \<in> ds_recreated st"
  shows "loop_inv cur init des (push_change o1 st)"
  using assms unfolding loop_inv_def push_change_def by simp blast

lemma loop_inv_push_inverse:
  assumes "loop_inv cur init des st" "o1 \<in> des" "bm_get cur (op_key o1) = Some e"
    and "container_of o1 = None" "e \<noteq> o1 \<or> is_wifi_daemon o1"
  shows "loop_inv cur init des (push_change o1 (push_inverse e st))"
proof (cases "op_inverse e")
  case None
  then show ?thesis using assms loop_inv_push_change [OF assms(1,2)] by (simp add: push_inverse_def)
next
  case (Some u)
  then show ?thesis
    using assms unfolding loop_inv_def push_change_def push_inverse_def by simp blast
qed

lemma loop_inv_container:
  assumes "loop_inv cur init des st" "o1 \<in> des" "bm_get cur (op_key o1) = Some e"
    and "container_of o1 = Some n" "e \<noteq> o1"
  shows "loop_inv cur init des
    ((push_change o1 (push_inverse e st))\<lparr>ds_recreated := insert n (ds_recreated st)\<rparr>)"
proof (cases "op_inverse e")
  case None
  then show ?thesis using assms unfolding loop_inv_def push_change_def push_inverse_def by simp
next
  case (Some u)
  then show ?thesis
    using assms unfolding loop_inv_def push_change_def push_inverse_def by simp blast
qed

lemma loop_inv_flags [simp]:
  "loop_inv cur init des (st\<lparr>ds_restarted := S\<rparr>) = loop_inv cur init des st"
  "loop_inv cur init des (st\<lparr>ds_radios := Q\<rparr>) = loop_inv cur init des st"
  by (simp_all add: loop_inv_def)

lemma diff_step_inv:
  assumes "loop_inv cur init des st" "o1 \<in> des"
  shows "loop_inv cur init des (diff_step cur st o1)"
proof (cases "bm_get cur (op_key o1)")
  case None
  then have "loop_inv cur init des (push_change o1 st)" by (intro loop_inv_push_change [OF assms]) simp
  with None show ?thesis by (simp add: diff_step_def)
next
  case (Some e)
  show ?thesis
  proof (cases "container_of o1")
    case None
    note ch = loop_inv_push_change [OF assms] loop_inv_push_inverse [OF assms Some None]
    show ?thesis using None Some assms(1) ch
      by (cases o1) (simp_all add: diff_step_def container_of_def)
  next
    case (Some n)
    then show ?thesis using \<open>bm_get cur (op_key o1) = Some e\<close> assms
        loop_inv_container [OF assms \<open>bm_get cur (op_key o1) = Some e\<close> Some] same_container_refl [of o1]
      by (cases o1; cases "e = o1") (simp_all add: diff_step_def container_of_def)
  qed
qed

lemma lives_not_container: "lives_in_node n o1 \<Longrightarrow> container_of o1 = None"
  by (cases o1) (simp_all add: lives_in_node_def container_of_def)

lemma readd_step_inv:
  assumes "loop_inv cur init des st" "o1 \<in> des"
  shows "loop_inv cur init des (readd_step st o1)"
proof (cases "(\<exists>n \<in> ds_recreated st. lives_in_node n o1) \<and> o1 \<notin> set (ds_changes st)")
  case True
  then have "container_of o1 = None" using lives_not_container by blast
  then have "loop_inv cur init des (push_change o1 st)" by (intro loop_inv_push_change [OF assms]) simp
  with True show ?thesis by (simp add: readd_step_def)
next
  case False
  with assms(1) show ?thesis unfolding readd_step_def by (simp only: if_False)
qed

lemma radio_step_inv:
  assumes "loop_inv cur init des st" "o1 \<in> des"
  shows "loop_inv cur init des (radio_step cur st o1)"
proof (cases o1)
  case (WifiDaemon node wifi)
  have c: "container_of o1 = None" using WifiDaemon by (simp add: container_of_def)
  show ?thesis
  proof (cases "bm_get cur (op_key o1)")
    case None
    then show ?thesis
      using WifiDaemon assms c loop_inv_push_change [OF assms] by (simp add: radio_step_def)
  next
    case (Some e)
    have "push_change o1 (case op_inverse e of Some u \<Rightarrow> st\<lparr>ds_removals := ds_removals st @ [u]\<rparr> | None \<Rightarrow> st)
        = push_change o1 (push_inverse e st)"
      by (simp add: push_inverse_def split: option.splits)
    with WifiDaemon Some show ?thesis
      using loop_inv_push_inverse [OF assms Some c] assms(1)
      by (simp add: radio_step_def is_wifi_daemon_def)
  qed
qed (use assms in \<open>simp_all add: radio_step_def\<close>)

text \<open>A step keeps an invariant, so the loop over a sublist of the desired plan does.\<close>

lemma foldl_invariant:
  "I st \<Longrightarrow> (\<And>st x. x \<in> set xs \<Longrightarrow> I st \<Longrightarrow> I (f st x)) \<Longrightarrow> I (foldl f st xs)"
  by (induction xs arbitrary: st) auto

lemma diff_loop_inv:
  "loop_inv (plan_map current) (initial_removals w current desired) (set desired)
     (diff_loop w current desired)"
  (is "loop_inv ?cur ?init ?des _")
proof -
  define st0 :: "('a, 'b) diff_state" where
    "st0 = \<lparr>ds_removals = ?init, ds_changes = [], ds_restarted = {}, ds_recreated = {}, ds_radios = {}\<rparr>"
  define st1 where "st1 = foldl (diff_step ?cur) st0 desired"
  define st2 where "st2 = foldl readd_step st1 desired"
  have "loop_inv ?cur ?init ?des st0" by (simp add: loop_inv_def st0_def)
  then have "loop_inv ?cur ?init ?des st1"
    unfolding st1_def by (rule foldl_invariant) (rule diff_step_inv)
  then have "loop_inv ?cur ?init ?des st2"
    unfolding st2_def by (rule foldl_invariant) (rule readd_step_inv)
  then have "loop_inv ?cur ?init ?des (foldl (radio_step ?cur) st2 desired)"
    by (rule foldl_invariant) (rule radio_step_inv)
  then show ?thesis by (simp add: diff_loop_def Let_def st0_def st1_def st2_def)
qed

subsection \<open>What has to change does\<close>

text \<open>
  The edits the diff leaves alone on purpose: a delay, a bridge, a container whose extra
  hosts alone differ.
\<close>

definition exempt :: "('net, 'wg) op \<Rightarrow> ('net, 'wg) op \<Rightarrow> bool" where
  "exempt e o1 =
     (case o1 of StartupDelay _ _ \<Rightarrow> True | CreateBridge _ _ _ _ _ \<Rightarrow> True
      | CreateContainer _ _ _ _ _ \<Rightarrow> same_container e o1 | _ \<Rightarrow> False)"

definition must_change :: "(string, ('net, 'wg) op) btree_map \<Rightarrow> ('net, 'wg) op \<Rightarrow> bool" where
  "must_change cur o1 =
     (case bm_get cur (op_key o1) of
        None \<Rightarrow> True
      | Some e \<Rightarrow> is_reconcile o1 \<or> e \<noteq> o1 \<and> \<not> exempt e o1)"

lemma push_simps [simp]:
  "ds_changes (push_change o1 st) = ds_changes st @ [o1]"
  "ds_removals (push_change o1 st) = ds_removals st"
  "ds_recreated (push_change o1 st) = ds_recreated st"
  "ds_radios (push_change o1 st) = ds_radios st"
  "ds_changes (push_inverse e st) = ds_changes st"
  "ds_recreated (push_inverse e st) = ds_recreated st"
  "ds_radios (push_inverse e st) = ds_radios st"
  by (simp_all add: push_change_def push_inverse_def split: option.splits)

lemma diff_step_mono: "set (ds_changes st) \<subseteq> set (ds_changes (diff_step cur st o1))"
  by (cases o1) (auto simp: diff_step_def split: option.splits)

lemma readd_step_mono: "set (ds_changes st) \<subseteq> set (ds_changes (readd_step st o1))"
  by (auto simp: readd_step_def)

lemma radio_step_mono: "set (ds_changes st) \<subseteq> set (ds_changes (radio_step cur st o1))"
  by (cases o1) (auto simp: radio_step_def split: option.splits)

lemma diff_step_complete: "must_change cur o1 \<Longrightarrow> o1 \<in> set (ds_changes (diff_step cur st o1))"
proof (cases "bm_get cur (op_key o1)")
  case (Some e)
  then show "must_change cur o1 \<Longrightarrow> ?thesis"
    by (cases o1) (simp_all add: diff_step_def must_change_def is_reconcile_def exempt_def)
qed (simp add: diff_step_def)

lemma foldl_mono:
  assumes "\<And>st x. set (ds_changes st) \<subseteq> set (ds_changes (f st x))"
  shows "set (ds_changes st) \<subseteq> set (ds_changes (foldl f st xs))"
  by (rule foldl_invariant) (use assms in blast)+

lemmas foldl_diff_mono = foldl_mono [of "diff_step cur" for cur, OF diff_step_mono]
lemmas foldl_readd_mono = foldl_mono [of readd_step, OF readd_step_mono]
lemmas foldl_radio_mono = foldl_mono [of "radio_step cur" for cur, OF radio_step_mono]

lemma foldl_reaches:
  assumes "\<And>st x. set (ds_changes st) \<subseteq> set (ds_changes (f st x))"
    and "x \<in> set xs" and "\<And>st. P st \<Longrightarrow> x \<in> set (ds_changes (f st x))"
    and "\<And>st y. P st \<Longrightarrow> P (f st y)" and "P st"
  shows "x \<in> set (ds_changes (foldl f st xs))"
  using assms(2,5)
proof (induction xs arbitrary: st)
  case (Cons y ys)
  then show ?case
    using assms(3,4) foldl_mono [of f "f st y" ys] assms(1) by (cases "x = y") auto
qed simp

lemma recreated_readd [simp]: "ds_recreated (readd_step st o1) = ds_recreated st"
  by (simp add: readd_step_def)

lemma recreated_radio [simp]: "ds_recreated (radio_step cur st o1) = ds_recreated st"
  by (cases o1) (simp_all add: radio_step_def split: option.splits)

lemma recreated_foldl_radio: "ds_recreated (foldl (radio_step cur) st xs) = ds_recreated st"
  by (induction xs arbitrary: st) auto

lemma recreated_foldl_readd: "ds_recreated (foldl readd_step st xs) = ds_recreated st"
  by (induction xs arbitrary: st) auto

lemma diff_loop_complete:
  assumes "o1 \<in> set desired" "must_change (plan_map current) o1"
  shows "o1 \<in> set (ds_changes (diff_loop w current desired))"
proof -
  let ?cur = "plan_map current"
  have "o1 \<in> set (ds_changes (foldl (diff_step ?cur) st desired))" for st :: "('a, 'b) diff_state"
    by (rule foldl_reaches [where P = "\<lambda>_. True"])
      (use assms diff_step_mono diff_step_complete in auto)
  then show ?thesis
    unfolding diff_loop_def Let_def
    by (intro subsetD [OF foldl_radio_mono] subsetD [OF foldl_readd_mono])
qed

lemma diff_loop_readd:
  assumes "o1 \<in> set desired" "n \<in> ds_recreated (diff_loop w current desired)" "lives_in_node n o1"
  shows "o1 \<in> set (ds_changes (diff_loop w current desired))"
proof -
  let ?cur = "plan_map current"
  let ?st1 = "foldl (diff_step ?cur) \<lparr>ds_removals = initial_removals w current desired, ds_changes = [],
      ds_restarted = {}, ds_recreated = {}, ds_radios = {}\<rparr> desired"
  have "n \<in> ds_recreated ?st1"
    using assms(2) by (simp add: diff_loop_def Let_def recreated_foldl_radio recreated_foldl_readd)
  then have "o1 \<in> set (ds_changes (foldl readd_step ?st1 desired))"
    by (intro foldl_reaches [where P = "\<lambda>st. n \<in> ds_recreated st"])
      (use assms readd_step_mono in \<open>auto simp: readd_step_def\<close>)
  then show ?thesis
    unfolding diff_loop_def Let_def by (rule subsetD [OF foldl_radio_mono])
qed

subsection \<open>Where removals come from\<close>

lemma in_map_filter: "y \<in> set (List.map_filter f xs) \<longleftrightarrow> (\<exists>x \<in> set xs. f x = Some y)"
  by (induction xs) (auto simp: map_filter_simps split: option.splits)

lemma vanished_in:
  "r \<in> set (vanished current desired) \<longleftrightarrow>
     (\<exists>o1 \<in> set current. op_key o1 \<notin> op_key ` set desired \<and> op_inverse o1 = Some r)"
proof -
  have "bm_contains (plan_map desired) k \<longleftrightarrow> k \<in> op_key ` set desired" for k
    unfolding bm_contains_iff plan_map_dom by (auto simp: image_iff)
  then show ?thesis by (auto simp only: vanished_def in_map_filter set_filter)
qed

lemma dropped_wireguard_in:
  "r \<in> set (dropped_wireguard w current desired) \<Longrightarrow>
     \<exists>node iface cfg. r = DeleteLink node iface \<and> Stack node cfg \<in> set current \<and>
       iface \<in> set (wireguard_ifnames w cfg)"
proof -
  assume "r \<in> set (dropped_wireguard w current desired)"
  then obtain key node cfg iface where "bm_get (plan_map current) key = Some (Stack node cfg)"
    "r = DeleteLink node iface" "iface \<in> set (wireguard_ifnames w cfg)"
    unfolding dropped_wireguard_def
    by (auto simp: in_bm_entries split: op.splits option.splits)
  then show ?thesis using plan_map_in by blast
qed

definition base_removals ::
  "('wg \<Rightarrow> string list) \<Rightarrow> ('net, 'wg) plan \<Rightarrow> ('net, 'wg) plan \<Rightarrow> ('net, 'wg) op list" where
  "base_removals w current desired = vanished current desired @ dropped_wireguard w current desired"

lemma initial_removals_eq:
  "initial_removals w current desired =
     dedupe {} (reverse_stage_sort (filter
       (keep_removal (dying_nodes (base_removals w current desired))
                     (dying_namespaces (base_removals w current desired)))
       (base_removals w current desired @
        map KillNodeProcesses (bm_keys (dying_nodes (base_removals w current desired))))))"
  by (simp add: initial_removals_def base_removals_def Let_def)

lemma initial_removals_in:
  "r \<in> set (initial_removals w current desired) \<Longrightarrow>
     r \<in> set (base_removals w current desired) \<or> (\<exists>n. r = KillNodeProcesses n)"
  unfolding initial_removals_eq using dedupe_subset by fastforce

lemma base_removals_removal: "r \<in> set (base_removals w current desired) \<Longrightarrow> is_removal r"
  using op_inverse_removal vanished_in [of r] dropped_wireguard_in [of r]
  by (fastforce simp: base_removals_def is_removal_def)

lemma initial_removals_removal: "r \<in> set (initial_removals w current desired) \<Longrightarrow> is_removal r"
  using initial_removals_in base_removals_removal by (fastforce simp: is_removal_def)

lemma loop_removals_removal: "r \<in> set (ds_removals (diff_loop w current desired)) \<Longrightarrow> is_removal r"
  using diff_loop_inv [of current w desired] initial_removals_removal op_inverse_removal
  unfolding loop_inv_def by blast

lemma plan_diff_parts:
  "plan_diff w current desired =
     reverse_stage_sort (ds_removals (diff_loop w current desired)) @
     sort_key op_stage (ds_changes (diff_loop w current desired))"
  by (simp add: plan_diff_def Let_def)

subsection \<open>Unchanged plans\<close>

lemma diff_step_same:
  assumes "bm_get cur (op_key o1) = Some o1" "ds_restarted st = {}"
  shows "diff_step cur st o1 = (if is_reconcile o1 then push_change o1 st else st)"
  using assms by (cases o1) (simp_all add: diff_step_def is_reconcile_def)

lemma foldl_diff_step_same:
  assumes "\<forall>o1 \<in> set xs. bm_get cur (op_key o1) = Some o1" "ds_restarted st = {}"
  shows "foldl (diff_step cur) st xs = st\<lparr>ds_changes := ds_changes st @ filter is_reconcile xs\<rparr>"
  using assms
proof (induction xs arbitrary: st)
  case (Cons o1 xs)
  have "ds_restarted (push_change o1 st) = {}" using Cons(3) by (simp add: push_change_def)
  with Cons show ?case by (simp add: diff_step_same push_change_def)
qed simp

lemma foldl_readd_same: "ds_recreated st = {} \<Longrightarrow> foldl readd_step st xs = st"
  by (induction xs) (simp_all add: readd_step_def)

lemma foldl_radio_same: "ds_radios st = {} \<Longrightarrow> foldl (radio_step cur) st xs = st"
proof (induction xs)
  case (Cons o1 xs)
  then show ?case by (cases o1) (simp_all add: radio_step_def)
qed simp

lemma base_removals_same: "base_removals w p p = []"
proof -
  have "vanished p p = []"
    using vanished_in [of _ p p] by (metis (no_types, lifting) image_eqI list.set_intros(1) neq_Nil_conv)
  moreover have "dropped_wireguard w p p = []"
    by (auto simp: dropped_wireguard_def in_bm_entries split: op.splits option.splits)
  ultimately show ?thesis by (simp add: base_removals_def)
qed

lemma bm_keys_empty [simp]: "bm_keys bm_empty = []"
  by (simp add: bm_keys_def bm_empty.rep_eq)

lemma dying_nodes_Nil [simp]: "dying_nodes [] = bm_empty"
  by (simp add: dying_nodes_def List.map_filter_def bset_of_list_def bm_of_list_def bm_extend_def)

lemma initial_removals_same: "initial_removals w p p = []"
  by (simp add: initial_removals_eq base_removals_same reverse_stage_sort_def)

subsection \<open>Dying nodes\<close>

lemma bm_get_bset: "k \<in> dom (bm_get (bset_of_list ks)) \<longleftrightarrow> k \<in> set ks"
proof -
  have "dom (bm_get (bset_of_list ks)) = dom (map_of (rev (map (\<lambda>k. (k, ())) ks)))"
    unfolding bset_of_list_def by (auto simp: bm_get_of_list dom_def)
  then show ?thesis by (auto simp: dom_map_of_conv_image_fst image_image)
qed

definition kills_node :: "('net, 'wg) op \<Rightarrow> string \<Rightarrow> bool" where
  "kills_node r n =
     (case r of DeleteNamespace node _ \<Rightarrow> node = n | RemoveContainer node _ \<Rightarrow> node = n | _ \<Rightarrow> False)"

lemma dying_nodes_iff: "bm_contains (dying_nodes rs) n \<longleftrightarrow> (\<exists>r \<in> set rs. kills_node r n)"
  unfolding bm_contains_iff dying_nodes_def bm_get_bset in_map_filter
  by (rule bex_cong [OF refl]) (auto simp: kills_node_def split: op.splits)

lemma dying_namespaces_iff: "bm_contains (dying_namespaces rs) ns \<longleftrightarrow> (\<exists>n. DeleteNamespace n ns \<in> set rs)"
proof -
  have "(case x of DeleteNamespace _ ns \<Rightarrow> Some ns | _ \<Rightarrow> None) = Some ns \<longleftrightarrow>
      (\<exists>n. x = DeleteNamespace n ns)" for x :: "('a, 'b) op"
    by (cases x) auto
  then show ?thesis
    unfolding bm_contains_iff dying_namespaces_def bm_get_bset in_map_filter by auto
qed

text \<open>What the filter drops goes with its node or namespace, and what kills a node is kept.\<close>

lemma initial_removals_keeps:
  assumes "r \<in> set (base_removals w current desired @
      map KillNodeProcesses (bm_keys (dying_nodes (base_removals w current desired))))"
    and "keep_removal (dying_nodes (base_removals w current desired))
           (dying_namespaces (base_removals w current desired)) r"
  shows "\<exists>r' \<in> set (initial_removals w current desired). op_key r' = op_key r \<and> op_stage r' = op_stage r"
proof -
  let ?base = "base_removals w current desired"
  have "r \<in> set (reverse_stage_sort (filter (keep_removal (dying_nodes ?base) (dying_namespaces ?base))
      (?base @ map KillNodeProcesses (bm_keys (dying_nodes ?base)))))"
    using assms by simp
  from dedupe_complete [OF this, of "{}"]
  obtain r' where r': "r' \<in> set (initial_removals w current desired)" "dedupe_key r' = dedupe_key r"
    unfolding initial_removals_eq by blast
  have "is_removal r" using assms(1) base_removals_removal by (auto simp: is_removal_def)
  with r' show ?thesis
    using dedupe_key_inject [OF r'(2) initial_removals_removal [OF r'(1)]] by blast
qed

subsection \<open>An abstract execution\<close>

text \<open>
  The resources of a lab, by key, and what one operation does to them: creating sets the
  resource to the operation, removing takes it away, and taking a namespace or container
  away takes along everything that lives in the node, and the bridges of the namespace.
\<close>

type_synonym ('net, 'wg) resources = "string \<rightharpoonup> ('net, 'wg) op"

definition cascades :: "('net, 'wg) op \<Rightarrow> ('net, 'wg) op \<Rightarrow> bool" where
  "cascades r o1 =
     ((case r of
         DeleteNamespace node ns \<Rightarrow>
           lives_in_node node o1 \<or> (case o1 of CreateBridge n _ _ _ _ \<Rightarrow> n = ns | _ \<Rightarrow> False)
       | RemoveContainer node _ \<Rightarrow> lives_in_node node o1
       | _ \<Rightarrow> False))"

definition apply_op :: "('net, 'wg) op \<Rightarrow> ('net, 'wg) resources \<Rightarrow> ('net, 'wg) resources" where
  "apply_op r m =
     (if is_removal r
      then (\<lambda>k. case m k of
                  Some o1 \<Rightarrow> if k = op_key r \<or> cascades r o1 then None else Some o1
                | None \<Rightarrow> None)
      else m(op_key r \<mapsto> r))"

definition run_plan :: "('net, 'wg) plan \<Rightarrow> ('net, 'wg) resources \<Rightarrow> ('net, 'wg) resources" where
  "run_plan p m = fold apply_op p m"

lemma run_removals:
  "\<forall>r \<in> set rs. is_removal r \<Longrightarrow> run_plan rs m k =
     (case m k of
        Some o1 \<Rightarrow> if \<exists>r \<in> set rs. k = op_key r \<or> cascades r o1 then None else Some o1
      | None \<Rightarrow> None)"
proof (induction rs arbitrary: m)
  case (Cons r rs)
  then have "run_plan (r # rs) m k = (case apply_op r m k of
        Some o1 \<Rightarrow> if \<exists>r \<in> set rs. k = op_key r \<or> cascades r o1 then None else Some o1
      | None \<Rightarrow> None)"
    by (simp add: run_plan_def)
  with Cons(2) show ?case by (auto simp: apply_op_def split: option.splits)
qed (simp add: run_plan_def split: option.splits)

lemma run_creations_out: "\<forall>o1 \<in> set cs. \<not> is_removal o1 \<Longrightarrow> k \<notin> op_key ` set cs \<Longrightarrow> run_plan cs m k = m k"
  by (induction cs arbitrary: m) (auto simp: run_plan_def apply_op_def)

lemma run_creations_in:
  assumes "\<forall>o1 \<in> set cs. \<not> is_removal o1" "o1 \<in> set cs" "inj_on op_key (set cs)"
  shows "run_plan cs m (op_key o1) = Some o1"
  using assms
proof (induction cs arbitrary: m)
  case (Cons c cs)
  show ?case
  proof (cases "o1 \<in> set cs")
    case True
    then show ?thesis using Cons by (simp add: run_plan_def)
  next
    case False
    then have "op_key o1 \<notin> op_key ` set cs" using Cons(3,4) by (auto simp: inj_on_def)
    then have "run_plan cs (apply_op c m) (op_key o1) = apply_op c m (op_key o1)"
      using Cons(2) by (intro run_creations_out) auto
    then show ?thesis using Cons(2,3) False by (simp add: run_plan_def apply_op_def)
  qed
qed simp

subsection \<open>Convergence\<close>

text \<open>
  What the planner guarantees of the two plans: keys are unique and no plan holds a removal;
  a namespace that is on both sides belongs to the same node. And what an edit must not do
  for the diff to be enough: a node whose namespace or container goes away is not the home
  of a desired operation (it is not switched from a namespace to a container or back), and
  an interface name WireGuard gives up is not taken by another link.
\<close>

definition creates_namespace :: "('net, 'wg) op \<Rightarrow> bool" where
  "creates_namespace o1 =
     (case o1 of CreateNamespace _ _ \<Rightarrow> True | CreateMgmtNamespace _ \<Rightarrow> True | _ \<Rightarrow> False)"

definition planned :: "('net, 'wg) plan \<Rightarrow> bool" where
  "planned p \<longleftrightarrow> distinct (map op_key p) \<and> (\<forall>o1 \<in> set p. \<not> is_removal o1)"

definition edit_ok :: "('wg \<Rightarrow> string list) \<Rightarrow> ('net, 'wg) plan \<Rightarrow> ('net, 'wg) plan \<Rightarrow> bool" where
  "edit_ok w current desired \<longleftrightarrow>
     (\<forall>e \<in> set current. \<forall>o1 \<in> set desired.
        creates_namespace e \<longrightarrow> op_key e = op_key o1 \<longrightarrow> e = o1) \<and>
     (\<forall>r \<in> set (vanished current desired). \<forall>o1 \<in> set desired. \<not> cascades r o1) \<and>
     (\<forall>r \<in> set (dropped_wireguard w current desired). op_key r \<notin> op_key ` set desired)"

lemma inverse_cascade:
  assumes "op_inverse e = Some r" "cascades r o1"
  shows "creates_namespace e \<or> (\<exists>n. container_of e = Some n \<and> lives_in_node n o1)"
  using assms by (cases e) (auto simp: op_inverse_def cascades_def creates_namespace_def container_of_def
      split: if_splits)

lemma container_key: "container_of e = Some n \<Longrightarrow> \<not> is_removal o1 \<Longrightarrow> op_key o1 = op_key e \<Longrightarrow> container_of o1 = Some n"
  by (cases e; cases o1) (simp_all add: container_of_def is_removal_def)

lemma procs_key: "op_key (KillNodeProcesses n) = op_key o1 \<Longrightarrow> is_removal o1"
  by (cases o1) (simp_all add: is_removal_def)

text \<open>No removal of the plan touches a desired resource that is not created again.\<close>

lemma untouched:
  assumes cur: "planned current" and des: "planned desired" and ok: "edit_ok w current desired"
    and o1: "o1 \<in> set desired" "o1 \<notin> set (ds_changes (diff_loop w current desired))"
    and r: "r \<in> set (ds_removals (diff_loop w current desired))"
  shows "op_key o1 \<noteq> op_key r \<and> \<not> cascades r o1"
proof -
  let ?st = "diff_loop w current desired" and ?cur = "plan_map current"
  note inv = diff_loop_inv [of current w desired, unfolded loop_inv_def]
  consider (vanished) "r \<in> set (vanished current desired)"
    | (wg) "r \<in> set (dropped_wireguard w current desired)"
    | (kill) n where "r = KillNodeProcesses n"
    | (loop) c e where "c \<in> set (ds_changes ?st)" "bm_get ?cur (op_key c) = Some e" "op_inverse e = Some r"
        "e \<noteq> c \<or> is_wifi_daemon c"
    using bspec [OF inv [THEN conjunct2, THEN conjunct2, THEN conjunct1] r]
      initial_removals_in [of r w current desired] unfolding base_removals_def by auto
  then show ?thesis
  proof cases
    case vanished
    then have "op_key r \<notin> op_key ` set desired" using vanished_in [of r] op_inverse_key by fastforce
    moreover have "op_key o1 \<in> op_key ` set desired" using o1(1) by (rule imageI)
    ultimately have "op_key o1 \<noteq> op_key r" by metis
    with vanished ok o1(1) show ?thesis unfolding edit_ok_def by blast
  next
    case wg
    then have "\<not> cascades r o1" using dropped_wireguard_in by (fastforce simp: cascades_def)
    moreover have "op_key o1 \<in> op_key ` set desired" using o1(1) by (rule imageI)
    then have "op_key o1 \<noteq> op_key r" using wg ok unfolding edit_ok_def by metis
    ultimately show ?thesis by simp
  next
    case kill
    have "\<not> is_removal o1" using des o1(1) by (simp add: planned_def)
    with kill procs_key [of n o1] show ?thesis by (auto simp: cascades_def)
  next
    case loop
    have c: "c \<in> set desired" using loop(1) inv by blast
    have key: "op_key r = op_key c"
      using op_inverse_key [OF loop(3)] plan_map_in [OF loop(2)] by simp
    have ne: "op_key o1 \<noteq> op_key r"
      using des c o1 loop(1) unfolding key planned_def distinct_map inj_on_def by blast
    moreover have "\<not> cascades r o1"
    proof
      assume casc: "cascades r o1"
      have e: "e \<in> set current" "op_key e = op_key c" using plan_map_in [OF loop(2)] by auto
      from inverse_cascade [OF loop(3) casc] show False
      proof
        assume ns: "creates_namespace e"
        then have "e = c" using ok e c unfolding edit_ok_def by blast
        with ns loop(4) show False
          by (cases c) (simp_all add: creates_namespace_def is_wifi_daemon_def)
      next
        assume "\<exists>n. container_of e = Some n \<and> lives_in_node n o1"
        then obtain n where n: "container_of e = Some n" "lives_in_node n o1" by blast
        have "\<not> is_removal c" using des c by (simp add: planned_def)
        then have "container_of c = Some n" by (rule container_key [OF n(1) _ e(2) [symmetric]])
        then have "n \<in> ds_recreated ?st" using inv loop(1,2) by blast
        from diff_loop_readd [OF o1(1) this n(2)] o1(2) show False by simp
      qed
    qed
    ultimately show ?thesis by simp
  qed
qed

lemma plan_diff_run:
  assumes "planned desired"
  shows "run_plan (plan_diff w current desired) m =
    run_plan (sort_key op_stage (ds_changes (diff_loop w current desired)))
      (run_plan (reverse_stage_sort (ds_removals (diff_loop w current desired))) m)"
    "\<forall>o1 \<in> set (sort_key op_stage (ds_changes (diff_loop w current desired))). \<not> is_removal o1"
    "\<forall>r \<in> set (reverse_stage_sort (ds_removals (diff_loop w current desired))). is_removal r"
    "inj_on op_key (set (sort_key op_stage (ds_changes (diff_loop w current desired))))"
proof -
  note inv = diff_loop_inv [of current w desired, unfolded loop_inv_def]
  show "\<forall>o1 \<in> set (sort_key op_stage (ds_changes (diff_loop w current desired))). \<not> is_removal o1"
    using inv assms by (auto simp: planned_def)
  show "\<forall>r \<in> set (reverse_stage_sort (ds_removals (diff_loop w current desired))). is_removal r"
    using loop_removals_removal by auto
  show "inj_on op_key (set (sort_key op_stage (ds_changes (diff_loop w current desired))))"
    using inv assms by (auto simp: planned_def distinct_map intro: inj_on_subset)
qed (simp add: plan_diff_parts run_plan_def)

lemma run_desired_changed:
  assumes "planned desired" "o1 \<in> set (ds_changes (diff_loop w current desired))"
  shows "run_plan (plan_diff w current desired) m (op_key o1) = Some o1"
  unfolding plan_diff_run(1) [OF assms(1)]
  by (rule run_creations_in [OF plan_diff_run(2) [OF assms(1)] _ plan_diff_run(4) [OF assms(1)]])
    (use assms(2) in simp)

lemma changes_keys:
  assumes "planned desired" "o1 \<in> set desired" "o1 \<notin> set (ds_changes (diff_loop w current desired))"
  shows "op_key o1 \<notin> op_key ` set (ds_changes (diff_loop w current desired))"
  using diff_loop_inv [of current w desired] assms
  unfolding loop_inv_def planned_def distinct_map inj_on_def by blast

lemma run_outside_changes:
  assumes "planned desired" "k \<notin> op_key ` set (ds_changes (diff_loop w current desired))"
  shows "run_plan (plan_diff w current desired) m k =
    (case m k of
       Some o1 \<Rightarrow> if \<exists>r \<in> set (ds_removals (diff_loop w current desired)). k = op_key r \<or> cascades r o1
                  then None else Some o1
     | None \<Rightarrow> None)"
proof -
  note run = plan_diff_run [OF assms(1), where w = w and current = current]
  have "run_plan (plan_diff w current desired) m k =
      run_plan (reverse_stage_sort (ds_removals (diff_loop w current desired))) m k"
    unfolding run(1) using assms(2) by (intro run_creations_out [OF run(2)]) simp
  also note run_removals [OF run(3)]
  finally show ?thesis unfolding set_reverse_stage_sort .
qed

lemma run_desired:
  assumes "planned current" "planned desired" "edit_ok w current desired" "o1 \<in> set desired"
    and "\<And>e. bm_get (plan_map current) (op_key o1) = Some e \<Longrightarrow> e = o1 \<or> \<not> exempt e o1"
  shows "run_plan (plan_diff w current desired) (bm_get (plan_map current)) (op_key o1) = Some o1"
proof (cases "o1 \<in> set (ds_changes (diff_loop w current desired))")
  case True
  with assms(2) show ?thesis by (rule run_desired_changed)
next
  case False
  then have "\<not> must_change (plan_map current) o1" using diff_loop_complete [OF assms(4)] by blast
  then have "bm_get (plan_map current) (op_key o1) = Some o1"
    using assms(5) by (auto simp: must_change_def split: option.splits)
  then show ?thesis
    unfolding run_outside_changes [OF assms(2) changes_keys [OF assms(2,4) False]]
    using untouched [OF assms(1-4) False] by simp
qed

subsection \<open>Vanished resources\<close>

lemma kill_kept: "kills_node r n \<Longrightarrow> keep_removal a b r"
  by (cases r) (simp_all add: kills_node_def keep_removal_def)

lemma kill_same:
  assumes "kills_node r n" "is_removal r'" "op_key r' = op_key r" "r \<in> set (vanished current desired)"
    "r' \<in> set (vanished current desired)" "planned current"
  shows "kills_node r' n"
proof -
  obtain a b where "a \<in> set current" "op_inverse a = Some r" "b \<in> set current" "op_inverse b = Some r'"
    using assms(4,5) unfolding vanished_in by blast
  moreover from this have "a = b"
    using assms(3,6) op_inverse_key [of a r] op_inverse_key [of b r']
    unfolding planned_def distinct_map inj_on_def by metis
  ultimately show ?thesis using assms(1) by simp
qed

lemma kill_in_vanished:
  "r \<in> set (base_removals w current desired) \<Longrightarrow> kills_node r n \<Longrightarrow> r \<in> set (vanished current desired)"
  using dropped_wireguard_in [of r w current desired] by (auto simp: base_removals_def kills_node_def)

lemma kill_key_kill: "kills_node r n \<Longrightarrow> is_removal r' \<Longrightarrow> op_key r' = op_key r \<Longrightarrow> \<exists>n'. kills_node r' n'"
  by (cases r; cases r') (simp_all add: kills_node_def is_removal_def)

lemma kill_executed:
  assumes "planned current" "r \<in> set (base_removals w current desired)" "kills_node r n"
  obtains r' where "r' \<in> set (initial_removals w current desired)" "kills_node r' n" "op_key r' = op_key r"
proof -
  obtain r' where r': "r' \<in> set (initial_removals w current desired)" "op_key r' = op_key r"
    using initial_removals_keeps [OF _ kill_kept [OF assms(3)], of w current desired] assms(2) by auto
  have rem: "is_removal r'" using r'(1) by (rule initial_removals_removal)
  obtain n' where n': "kills_node r' n'" using kill_key_kill [OF assms(3) rem r'(2)] by blast
  then have "r' \<in> set (vanished current desired)"
    using initial_removals_in [OF r'(1)] kill_in_vanished by (auto simp: kills_node_def)
  then have "kills_node r' n"
    using kill_same [OF assms(3) rem r'(2) kill_in_vanished [OF assms(2,3)] _ assms(1)] by blast
  with r' show thesis using that by blast
qed

text \<open>A removal the filter drops is implied by one that kills the node or the namespace.\<close>

lemma dropped_removal:
  assumes "op_inverse o1 = Some r" "\<not> keep_removal dn dns r"
  shows "(\<exists>n. bm_contains dn n \<and> lives_in_node n o1) \<or>
         (\<exists>ns b c d e. bm_contains dns ns \<and> o1 = CreateBridge ns b c d e)"
  using assms
  by (cases o1) (auto simp: op_inverse_def keep_removal_def lives_in_node_def split: if_splits,
      blast intro: domI)

lemma kills_cascades: "kills_node r n \<Longrightarrow> lives_in_node n o1 \<Longrightarrow> cascades r o1"
  by (cases r) (simp_all add: kills_node_def cascades_def)

lemma namespace_kill: "kills_node r n \<Longrightarrow> op_key r = ''ns:'' @ ns \<Longrightarrow> r = DeleteNamespace n ns"
  by (cases r) (simp_all add: kills_node_def)

lemma vanished_removed:
  assumes "planned current" "o1 \<in> set current" "op_key o1 \<notin> op_key ` set desired" "op_inverse o1 = Some r"
  shows "\<exists>r' \<in> set (initial_removals w current desired). op_key o1 = op_key r' \<or> cascades r' o1"
proof -
  let ?base = "base_removals w current desired"
  have r: "r \<in> set ?base" using assms vanished_in [of r] by (auto simp: base_removals_def)
  show ?thesis
  proof (cases "keep_removal (dying_nodes ?base) (dying_namespaces ?base) r")
    case True
    have "r \<in> set (?base @ map KillNodeProcesses (bm_keys (dying_nodes ?base)))" using r by simp
    from initial_removals_keeps [OF this True] op_inverse_key [OF assms(4)] show ?thesis by metis
  next
    case False
    from dropped_removal [OF assms(4) False] show ?thesis
    proof
      assume "\<exists>n. bm_contains (dying_nodes ?base) n \<and> lives_in_node n o1"
      then obtain n k where "lives_in_node n o1" "k \<in> set ?base" "kills_node k n"
        unfolding dying_nodes_iff by blast
      then show ?thesis using kill_executed [OF assms(1)] kills_cascades by metis
    next
      assume "\<exists>ns b c d e. bm_contains (dying_namespaces ?base) ns \<and> o1 = CreateBridge ns b c d e"
      then obtain ns b c d e n where o1: "o1 = CreateBridge ns b c d e" and k: "DeleteNamespace n ns \<in> set ?base"
        unfolding dying_namespaces_iff by blast
      have "kills_node (DeleteNamespace n ns :: ('a, 'b) op) n" by (simp add: kills_node_def)
      from kill_executed [OF assms(1) k this] obtain r' where
        r': "r' \<in> set (initial_removals w current desired)" "kills_node r' n"
        "op_key r' = op_key (DeleteNamespace n ns :: ('a, 'b) op)" by blast
      then have "cascades r' o1" using o1 namespace_kill [of r' n ns] by (auto simp: cascades_def)
      with r'(1) show ?thesis by blast
    qed
  qed
qed

lemma run_vanished:
  assumes "planned current" "planned desired" "o1 \<in> set current"
    and "op_key o1 \<notin> op_key ` set desired" "op_inverse o1 = Some r"
  shows "run_plan (plan_diff w current desired) (bm_get (plan_map current)) (op_key o1) = None"
proof -
  note inv = diff_loop_inv [of current w desired, unfolded loop_inv_def]
  have out: "op_key o1 \<notin> op_key ` set (ds_changes (diff_loop w current desired))"
    using inv assms(4) by blast
  have get: "bm_get (plan_map current) (op_key o1) = Some o1"
    using assms(1,3) by (simp add: planned_def plan_map_Some)
  have "\<exists>r' \<in> set (ds_removals (diff_loop w current desired)). op_key o1 = op_key r' \<or> cascades r' o1"
    using vanished_removed [OF assms(1,3,4,5)] inv by blast
  then show ?thesis unfolding run_outside_changes [OF assms(2) out] get by simp
qed

subsection \<open>Properties\<close>

text \<open>C2.
  The plan a diff produces: first removals only, later stages first, then creations only,
  taken from the desired plan, earlier stages first.
\<close>

theorem plan_diff_shape:
  assumes "planned desired"
  shows "\<exists>rs cs. plan_diff w current desired = rs @ cs \<and>
           (\<forall>r \<in> set rs. is_removal r) \<and> sorted_wrt (\<lambda>a b. op_stage b \<le> op_stage a) rs \<and>
           (\<forall>c \<in> set cs. \<not> is_removal c) \<and> sorted (map op_stage cs) \<and> set cs \<subseteq> set desired"
proof (intro exI conjI)
  show "plan_diff w current desired =
      reverse_stage_sort (ds_removals (diff_loop w current desired)) @
      sort_key op_stage (ds_changes (diff_loop w current desired))" by (rule plan_diff_parts)
  show "set (sort_key op_stage (ds_changes (diff_loop w current desired))) \<subseteq> set desired"
    using diff_loop_inv [of current w desired] by (simp add: loop_inv_def)
qed (use plan_diff_run [OF assms] sorted_reverse_stage_sort in auto)

theorem plan_diff_shape_witness:
  "\<exists>rs cs. plan_diff (\<lambda>_. []) [CreateNamespace ''a'' ''l-a'' :: (unit, unit) op] [CreateNamespace ''b'' ''l-b''] = rs @ cs \<and>
     (\<forall>r \<in> set rs. is_removal r) \<and> set cs \<subseteq> {CreateNamespace ''b'' ''l-b''}"
proof -
  have "planned [CreateNamespace ''b'' ''l-b'' :: (unit, unit) op]" by (simp add: planned_def is_removal_def)
  from plan_diff_shape [OF this, of "\<lambda>_. []" "[CreateNamespace ''a'' ''l-a'']"] show ?thesis by auto
qed

text \<open>
  A diff against itself: a plan with unique keys gives only the operations that are always
  re-run, in stage order; it holds no removal and no other work.
\<close>

theorem plan_diff_unchanged:
  assumes "planned p"
  shows "plan_diff w p p = sort_key op_stage (filter is_reconcile p) \<and>
         plan_work (plan_diff w p p) = [] \<and> (\<forall>o1 \<in> set (plan_diff w p p). \<not> is_removal o1)"
proof -
  have same: "\<forall>o1 \<in> set p. bm_get (plan_map p) (op_key o1) = Some o1"
    using assms by (simp add: planned_def plan_map_Some)
  have "diff_loop w p p = \<lparr>ds_removals = [], ds_changes = filter is_reconcile p, ds_restarted = {},
      ds_recreated = {}, ds_radios = {}\<rparr>"
    using same unfolding diff_loop_def Let_def initial_removals_same
    by (simp add: foldl_diff_step_same foldl_readd_same foldl_radio_same)
  then have "plan_diff w p p = sort_key op_stage (filter is_reconcile p)"
    by (simp add: plan_diff_parts reverse_stage_sort_def)
  then show ?thesis using is_reconcile_not_removal by (auto simp: plan_work_def filter_empty_conv)
qed

theorem plan_diff_unchanged_witness:
  "plan_diff (\<lambda>_. []) [CreateNamespace ''a'' ''l-a'', LinksUp ''a'' [''eth0''], DnsInject ''l''] [CreateNamespace ''a'' ''l-a'', LinksUp ''a'' [''eth0''], DnsInject ''l'' :: (unit, unit) op] =
     [LinksUp ''a'' [''eth0''], DnsInject ''l'']"
proof -
  have "planned [CreateNamespace ''a'' ''l-a'', LinksUp ''a'' [''eth0''], DnsInject ''l'' :: (unit, unit) op]"
    by (simp add: planned_def is_removal_def)
  from plan_diff_unchanged [OF this, of "\<lambda>_. []"] show ?thesis
    by (simp add: is_reconcile_def less_eq_stage_def)
qed

text \<open>C1.
  The diff converges. Running the plan on the resources of the current lab, where deleting a
  namespace or a container takes along what lives in the node, leaves every desired
  operation in place with its desired payload (the edits the code leaves alone on purpose
  excepted) and removes every resource that is no longer desired and has an inverse.
\<close>

theorem plan_diff_converges:
  assumes "planned current" "planned desired" "edit_ok w current desired"
  defines "final \<equiv> run_plan (plan_diff w current desired) (bm_get (plan_map current))"
  shows "(\<forall>o1 \<in> set desired.
            (\<forall>e. bm_get (plan_map current) (op_key o1) = Some e \<longrightarrow> e = o1 \<or> \<not> exempt e o1) \<longrightarrow>
            final (op_key o1) = Some o1) \<and>
         (\<forall>o1 \<in> set current. \<forall>r. op_key o1 \<notin> op_key ` set desired \<longrightarrow> op_inverse o1 = Some r \<longrightarrow>
            final (op_key o1) = None)"
  using run_desired [OF assms(1-3)] run_vanished [OF assms(1,2)] unfolding final_def by blast

theorem plan_diff_converges_witness:
  "run_plan (plan_diff (\<lambda>_. []) [CreateNamespace ''a'' ''l-a'' :: (unit, unit) op]
      [CreateNamespace ''b'' ''l-b'', Sysctls ''b'' bm_empty])
     (bm_get (plan_map [CreateNamespace ''a'' ''l-a''])) ''sysctls:b'' = Some (Sysctls ''b'' bm_empty)"
proof -
  let ?cur = "[CreateNamespace ''a'' ''l-a'' :: (unit, unit) op]"
  let ?des = "[CreateNamespace ''b'' ''l-b'', Sysctls ''b'' bm_empty :: (unit, unit) op]"
  have p: "planned ?cur" "planned ?des" by (simp_all add: planned_def is_removal_def)
  have "r \<notin> set (dropped_wireguard (\<lambda>_. []) ?cur ?des)" for r
    using dropped_wireguard_in by (fastforce simp: wireguard_ifnames_def split: option.splits)
  moreover have "r = DeleteNamespace ''a'' ''l-a''" if "r \<in> set (vanished ?cur ?des)" for r
    using that by (auto simp: vanished_in op_inverse_def)
  moreover have "\<not> cascades (DeleteNamespace ''a'' ''l-a'') o1" if "o1 \<in> set ?des" for o1
    using that by (auto simp: cascades_def lives_in_node_def)
  moreover have "e = o1" if "e \<in> set ?cur" "o1 \<in> set ?des" "op_key e = op_key o1" for e o1
    using that by auto
  ultimately have ok: "edit_ok (\<lambda>_. []) ?cur ?des" unfolding edit_ok_def by blast
  have "bm_get (plan_map ?cur) ''sysctls:b'' = None"
    using plan_map_in [of ?cur "''sysctls:b''"] by (cases "bm_get (plan_map ?cur) ''sysctls:b''") auto
  with plan_diff_converges [OF p ok] show ?thesis by simp
qed

text \<open>C3.
  A node that leaves the lab: its processes are stopped before its namespace or container is
  taken away, although the deletion itself kills nothing.
\<close>

theorem plan_diff_kills_first:
  assumes "planned current" "o1 \<in> set current" "op_key o1 \<notin> op_key ` set desired"
    and "op_inverse o1 = Some r" "kills_node r n"
  shows "\<exists>i j. i < j \<and> j < length (plan_diff w current desired) \<and>
           plan_diff w current desired ! i = KillNodeProcesses n \<and>
           kills_node (plan_diff w current desired ! j) n \<and>
           op_key (plan_diff w current desired ! j) = op_key o1"
proof -
  let ?base = "base_removals w current desired"
  let ?rs = "reverse_stage_sort (ds_removals (diff_loop w current desired))"
  have inv: "set (initial_removals w current desired) \<subseteq> set ?rs"
    using diff_loop_inv [of current w desired] by (simp add: loop_inv_def)
  have r: "r \<in> set ?base" using assms vanished_in [of r] by (auto simp: base_removals_def)
  obtain d where d: "d \<in> set ?rs" "kills_node d n" "op_key d = op_key o1"
    using kill_executed [OF assms(1) r assms(5)] inv op_inverse_key [OF assms(4)] by (metis subsetD)
  have "bm_contains (dying_nodes ?base) n" using r assms(5) dying_nodes_iff by blast
  then have "KillNodeProcesses n \<in> set (?base @ map KillNodeProcesses (bm_keys (dying_nodes ?base)))"
    by auto
  from initial_removals_keeps [OF this] obtain k where
    k: "k \<in> set (initial_removals w current desired)"
      "op_key k = op_key (KillNodeProcesses n :: ('a, 'b) op)" by (auto simp: keep_removal_def)
  have "k = KillNodeProcesses n"
    using k(2) initial_removals_removal [OF k(1)] by (cases k) (simp_all add: is_removal_def)
  with k inv have kin: "KillNodeProcesses n \<in> set ?rs" by blast
  obtain i j where i: "i < length ?rs" "?rs ! i = KillNodeProcesses n" and j: "j < length ?rs" "?rs ! j = d"
    using kin d(1) by (metis in_set_conv_nth)
  have "op_stage d = Namespaces" using d(2) by (cases d) (simp_all add: kills_node_def)
  have "i < j"
  proof (rule ccontr)
    assume "\<not> i < j"
    moreover have "i \<noteq> j" using i j d(2) by (auto simp: kills_node_def)
    ultimately have "j < i" by simp
    from sorted_wrt_nth_less [OF sorted_reverse_stage_sort this i(1)] have "op_stage (?rs ! i) \<le> op_stage (?rs ! j)" .
    with i(2) j(2) \<open>op_stage d = Namespaces\<close> show False by (simp add: less_eq_stage_def)
  qed
  then show ?thesis using i j d by (intro exI [of _ i] exI [of _ j]) (simp add: plan_diff_parts nth_append)
qed

theorem plan_diff_kills_first_witness:
  "\<exists>i j. i < j \<and> plan_diff (\<lambda>_. []) [CreateNamespace ''a'' ''l-a'' :: (unit, unit) op] [] ! i = KillNodeProcesses ''a'' \<and>
     kills_node (plan_diff (\<lambda>_. []) [CreateNamespace ''a'' ''l-a'' :: (unit, unit) op] [] ! j) ''a''"
proof -
  have "planned [CreateNamespace ''a'' ''l-a'' :: (unit, unit) op]" by (simp add: planned_def is_removal_def)
  moreover have "op_inverse (CreateNamespace ''a'' ''l-a'' :: (unit, unit) op) = Some (DeleteNamespace ''a'' ''l-a'')"
    "kills_node (DeleteNamespace ''a'' ''l-a'' :: (unit, unit) op) ''a''"
    by (simp_all add: op_inverse_def kills_node_def)
  ultimately show ?thesis
    using plan_diff_kills_first [of "[CreateNamespace ''a'' ''l-a'' :: (unit, unit) op]" "CreateNamespace ''a'' ''l-a''"
        "[]" "DeleteNamespace ''a'' ''l-a''" "''a''" "\<lambda>_. []"] by auto
qed

subsection \<open>A node that changes its kind\<close>

text \<open>
  A lab of two nodes and one link, and the same lab with one node turned into a container.
\<close>

definition switch_opts :: create_opts where
  "switch_opts = \<lparr>opt_cmd = None, opt_env = bm_empty, opt_volumes = [], opt_cpu = None, opt_memory = None,
     opt_privileged = False, opt_cap_add = [], opt_cap_drop = [], opt_entrypoint = None,
     opt_hostname = None, opt_workdir = None, opt_labels = [], opt_extra_hosts = [], opt_configs = [],
     opt_env_file = None, opt_overlay = None\<rparr>"

definition switch_link :: "(unit, unit) op" where
  "switch_link = CreateVeth \<lparr>ep_node = ''a'', ep_iface = ''eth0''\<rparr> \<lparr>ep_node = ''b'', ep_iface = ''eth0''\<rparr> None"

definition switch_current :: "(unit, unit) plan" where
  "switch_current = [CreateNamespace ''a'' ''l-a'', CreateNamespace ''b'' ''l-b'', switch_link]"

definition switch_desired :: "(unit, unit) plan" where
  "switch_desired = [CreateContainer ''a'' ''l-a'' ''alpine'' None switch_opts, CreateNamespace ''b'' ''l-b'', switch_link]"


end
