(* ===== verification/Topology_Diff.thy ===== *)
theory Topology_Diff
  imports Topology_Ops "HOL-Library.Product_Lexorder"
begin

text \<open>
  The topology diff, \<open>crates/nlink-lab/src/diff.rs\<close>: what \<open>nlink-lab diff\<close> prints and \<open>apply --check\<close>
  counts. \<open>diff_topologies\<close> compares two topologies section by section; \<open>is_empty\<close> and
  \<open>change_count\<close> read the result. The textual rendering and \<open>LayeredDiff\<close>, which bundles
  diffs of the nlink crate, are not modelled.

  \<open>changed_fields\<close> compares the serialised forms of two structs key by key. The derived
  serialisation of the types compared here writes each field under its name, and different
  values differently, so the model compares the fields themselves; the one field that is not
  serialised (\<open>directional_impairments\<close>) is in no table.
\<close>

subsection \<open>The change lists\<close>

record fields_change =
  fc_name :: string
  fc_fields :: "string list"

record nftables_change =
  nc_node :: string
  nc_firewall :: "firewall_config option"
  nc_nat :: "nat_config option"
  nc_was_present :: bool

record rate_limit_change =
  rlc_endpoint :: string
  rlc_desired :: "rate_limit option"
  rlc_was_present :: bool

record qdisc_change =
  qc_endpoint :: string
  qc_desired :: "qdisc_config option"
  qc_was_present :: bool

record route_change =
  rc_node :: string
  rc_dest :: string
  rc_desired :: "route_config option"
  rc_was_present :: bool

record sysctl_change =
  sc_node :: string
  sc_added :: "(string \<times> string) list"
  sc_changed :: "(string \<times> string \<times> string) list"
  sc_removed :: "string list"

record impairment_change =
  ic_endpoint :: string
  ic_old :: impairment
  ic_new :: impairment

record network_impairer_change =
  nic_network :: string
  nic_src_node :: string
  nic_desired :: "network_impairment list option"

record topology_diff =
  nodes_added :: "string list"
  nodes_removed :: "string list"
  links_added :: "link list"
  links_removed :: "link list"
  impairments_changed :: "impairment_change list"
  impairments_added :: "(string \<times> impairment) list"
  impairments_removed :: "string list"
  network_impairs_changed :: "network_impairer_change list"
  routes_changed :: "route_change list"
  sysctls_changed :: "sysctl_change list"
  rate_limits_changed :: "rate_limit_change list"
  qdiscs_changed :: "qdisc_change list"
  nftables_changed :: "nftables_change list"
  networks_added :: "string list"
  networks_removed :: "string list"
  networks_changed :: "fields_change list"
  links_changed :: "fields_change list"
  nodes_changed :: "fields_change list"
  lab_changed :: "string list"
  sections_changed :: "string list"

definition diff_is_empty :: "topology_diff \<Rightarrow> bool" where
  "diff_is_empty d \<longleftrightarrow>
     nodes_added d = [] \<and> nodes_removed d = [] \<and> links_added d = [] \<and> links_removed d = [] \<and>
     impairments_changed d = [] \<and> impairments_added d = [] \<and> impairments_removed d = [] \<and>
     network_impairs_changed d = [] \<and> routes_changed d = [] \<and> sysctls_changed d = [] \<and>
     rate_limits_changed d = [] \<and> qdiscs_changed d = [] \<and> nftables_changed d = [] \<and>
     networks_added d = [] \<and> networks_removed d = [] \<and> networks_changed d = [] \<and>
     links_changed d = [] \<and> nodes_changed d = [] \<and> lab_changed d = [] \<and> sections_changed d = []"

definition change_count :: "topology_diff \<Rightarrow> nat" where
  "change_count d =
     length (nodes_added d) + length (nodes_removed d) + length (links_added d) +
     length (links_removed d) + length (impairments_changed d) + length (impairments_added d) +
     length (impairments_removed d) + length (network_impairs_changed d) +
     length (routes_changed d) + length (sysctls_changed d) + length (rate_limits_changed d) +
     length (qdiscs_changed d) + length (nftables_changed d) + length (networks_added d) +
     length (networks_removed d) + length (networks_changed d) + length (links_changed d) +
     length (nodes_changed d) + length (lab_changed d) + length (sections_changed d)"

definition sysctl_change_is_empty :: "sysctl_change \<Rightarrow> bool" where
  "sysctl_change_is_empty c \<longleftrightarrow> sc_added c = [] \<and> sc_changed c = [] \<and> sc_removed c = []"

subsection \<open>Fields by name\<close>

type_synonym 'a field_table = "(string \<times> ('a \<Rightarrow> 'a \<Rightarrow> bool)) list"

definition field :: "string \<Rightarrow> ('a \<Rightarrow> 'b) \<Rightarrow> string \<times> ('a \<Rightarrow> 'a \<Rightarrow> bool)" where
  "field name sel = (name, \<lambda>a b. sel a = sel b)"

definition changed_fields :: "'a field_table \<Rightarrow> 'a \<Rightarrow> 'a \<Rightarrow> string list \<Rightarrow> string list" where
  "changed_fields table a b skip =
     map fst (filter (\<lambda>(k, same). k \<notin> set skip \<and> \<not> same a b) (sort_key fst table))"

definition network_fields :: "network field_table" where
  "network_fields =
     [field ''kind'' network_kind, field ''vlan_filtering'' network_vlan_filtering,
      field ''mtu'' network_mtu, field ''subnet'' network_subnet, field ''members'' network_members,
      field ''vlans'' network_vlans, field ''ports'' network_ports,
      field ''impairments'' network_impairments]"

definition link_fields :: "link field_table" where
  "link_fields =
     [field ''endpoints'' link_endpoints, field ''addresses'' link_addresses, field ''mtu'' link_mtu]"

definition node_fields :: "node field_table" where
  "node_fields =
     [field ''profiles'' node_profiles, field ''image'' node_image, field ''cmd'' node_cmd,
      field ''env'' node_env, field ''volumes'' node_volumes, field ''cpu'' node_cpu,
      field ''memory'' node_memory, field ''privileged'' node_privileged,
      field ''cap_add'' node_cap_add, field ''cap_drop'' node_cap_drop,
      field ''entrypoint'' node_entrypoint, field ''hostname'' node_hostname,
      field ''workdir'' node_workdir, field ''labels'' node_labels, field ''pull'' node_pull,
      field ''container_exec'' node_container_exec, field ''healthcheck'' node_healthcheck,
      field ''healthcheck_interval'' node_healthcheck_interval,
      field ''healthcheck_timeout'' node_healthcheck_timeout,
      field ''healthcheck_retries'' node_healthcheck_retries,
      field ''startup_delay'' node_startup_delay, field ''env_file'' node_env_file,
      field ''configs'' node_configs, field ''overlay'' node_overlay,
      field ''depends_on'' node_depends_on, field ''frr'' node_frr, field ''sysctls'' node_sysctls,
      field ''interfaces'' node_interfaces, field ''routes'' node_routes,
      field ''firewall'' node_firewall, field ''nat'' node_nat, field ''exec'' node_exec,
      field ''vrfs'' node_vrfs, field ''wireguard'' node_wireguard, field ''macvlans'' node_macvlans,
      field ''ipvlans'' node_ipvlans, field ''wifi'' node_wifi, field ''foreign'' node_foreign]"

definition lab_fields :: "lab_config field_table" where
  "lab_fields =
     [field ''name'' lab_name, field ''description'' lab_description, field ''prefix'' lab_prefix,
      field ''runtime'' lab_runtime, field ''version'' lab_version, field ''author'' lab_author,
      field ''tags'' lab_tags, field ''mgmt_subnet'' lab_mgmt_subnet,
      field ''mgmt_host_reachable'' lab_mgmt_host_reachable, field ''dns'' lab_dns,
      field ''routing'' lab_routing, field ''frr'' lab_frr, field ''seed'' lab_seed]"

definition topology_fields :: "topology field_table" where
  "topology_fields =
     [field ''lab'' topo_lab, field ''profiles'' topo_profiles, field ''nodes'' topo_nodes,
      field ''links'' topo_links, field ''networks'' topo_networks,
      field ''impairments'' topo_impairments, field ''rate_limits'' topo_rate_limits,
      field ''qdiscs'' topo_qdiscs, field ''assertions'' topo_assertions,
      field ''assertion_retries'' topo_assertion_retries,
      field ''assertion_interval'' topo_assertion_interval, field ''scenarios'' topo_scenarios,
      field ''benchmarks'' topo_benchmarks, field ''sites'' topo_sites,
      field ''source_dir'' topo_source_dir]"

subsection \<open>The comparison\<close>

text \<open>
  The loop shared by routes, rate limits and qdiscs: every desired entry that is new or
  different, then every current key that is gone, with the desired value and whether the key
  was present.
\<close>

definition map_changes ::
  "('k :: linorder, 'v) btree_map \<Rightarrow> ('k, 'v) btree_map \<Rightarrow> ('k \<times> 'v option \<times> bool) list" where
  "map_changes current desired =
     List.map_filter
       (\<lambda>(k, new). case bm_get current k of
                      None \<Rightarrow> Some (k, Some new, False)
                    | Some old \<Rightarrow> if old \<noteq> new then Some (k, Some new, True) else None)
       (bm_entries desired) @
     map (\<lambda>k. (k, None, True)) (filter (\<lambda>k. \<not> bm_contains desired k) (bm_keys current))"

definition keys_missing :: "('k :: linorder, 'v) btree_map \<Rightarrow> ('k, 'w) btree_map \<Rightarrow> 'k list" where
  "keys_missing m n = filter (\<lambda>k. \<not> bm_contains n k) (bm_keys m)"

text \<open>The nodes on both sides, in name order, as the loops over \<open>desired.nodes\<close> visit them.\<close>

definition common_nodes :: "topology \<Rightarrow> topology \<Rightarrow> (string \<times> node \<times> node) list" where
  "common_nodes current desired =
     List.map_filter (\<lambda>(name, new). map_option (\<lambda>old. (name, old, new)) (bm_get (topo_nodes current) name))
       (bm_entries (topo_nodes desired))"

type_synonym rules_by_src = "(string \<times> string, network_impairment list) btree_map"

definition rules_in :: "rules_by_src \<Rightarrow> string \<times> string \<Rightarrow> network_impairment list" where
  "rules_in m key = (case bm_get m key of Some r \<Rightarrow> r | None \<Rightarrow> [])"

definition add_rule :: "string \<Rightarrow> rules_by_src \<Rightarrow> network_impairment \<Rightarrow> rules_by_src" where
  "add_rule net_name out imp =
     bm_insert (net_name, ni_src imp) (rules_in out (net_name, ni_src imp) @ [imp]) out"

definition group_by_src :: "topology \<Rightarrow> rules_by_src" where
  "group_by_src t =
     foldl (\<lambda>out (net_name, net). foldl (add_rule net_name) out (network_impairments net))
       bm_empty (bm_entries (topo_networks t))"

definition diff_links_added :: "topology \<Rightarrow> topology \<Rightarrow> link list" where
  "diff_links_added current desired =
     filter (\<lambda>l. link_endpoints l \<notin> link_endpoints ` set (topo_links current)) (topo_links desired)"

definition diff_impairments_added :: "topology \<Rightarrow> topology \<Rightarrow> (string \<times> impairment) list" where
  "diff_impairments_added current desired =
     filter (\<lambda>(ep, _). \<not> bm_contains (topo_impairments current) ep) (bm_entries (topo_impairments desired))"

definition diff_impairments_changed :: "topology \<Rightarrow> topology \<Rightarrow> impairment_change list" where
  "diff_impairments_changed current desired =
     List.map_filter
       (\<lambda>(ep, new). case bm_get (topo_impairments current) ep of
                       Some old \<Rightarrow> if old \<noteq> new then Some \<lparr>ic_endpoint = ep, ic_old = old, ic_new = new\<rparr> else None
                     | None \<Rightarrow> None)
       (bm_entries (topo_impairments desired))"

definition diff_network_impairs :: "topology \<Rightarrow> topology \<Rightarrow> network_impairer_change list" where
  "diff_network_impairs current desired =
     map (\<lambda>((net, src), rules, _). \<lparr>nic_network = net, nic_src_node = src, nic_desired = rules\<rparr>)
       (map_changes (group_by_src current) (group_by_src desired))"

definition diff_routes :: "topology \<Rightarrow> topology \<Rightarrow> route_change list" where
  "diff_routes current desired =
     concat (map (\<lambda>(name, old, new).
         map (\<lambda>(dest, r, was). \<lparr>rc_node = name, rc_dest = dest, rc_desired = r, rc_was_present = was\<rparr>)
           (map_changes (node_routes old) (node_routes new)))
       (common_nodes current desired))"

definition sysctl_change_of :: "string \<Rightarrow> node \<Rightarrow> node \<Rightarrow> sysctl_change" where
  "sysctl_change_of name old new =
     \<lparr>sc_node = name,
      sc_added = filter (\<lambda>(k, _). \<not> bm_contains (node_sysctls old) k) (bm_entries (node_sysctls new)),
      sc_changed = List.map_filter
        (\<lambda>(k, v). case bm_get (node_sysctls old) k of
                     Some w \<Rightarrow> if w \<noteq> v then Some (k, w, v) else None
                   | None \<Rightarrow> None) (bm_entries (node_sysctls new)),
      sc_removed = keys_missing (node_sysctls old) (node_sysctls new)\<rparr>"

definition diff_sysctls :: "topology \<Rightarrow> topology \<Rightarrow> sysctl_change list" where
  "diff_sysctls current desired =
     map (\<lambda>c. c\<lparr>sc_added := sort (sc_added c), sc_changed := sort (sc_changed c),
               sc_removed := sort (sc_removed c)\<rparr>)
       (filter (\<lambda>c. \<not> sysctl_change_is_empty c)
         (map (\<lambda>(name, old, new). sysctl_change_of name old new) (common_nodes current desired)))"

definition diff_rate_limits :: "topology \<Rightarrow> topology \<Rightarrow> rate_limit_change list" where
  "diff_rate_limits current desired =
     map (\<lambda>(ep, r, was). \<lparr>rlc_endpoint = ep, rlc_desired = r, rlc_was_present = was\<rparr>)
       (map_changes (topo_rate_limits current) (topo_rate_limits desired))"

definition diff_qdiscs :: "topology \<Rightarrow> topology \<Rightarrow> qdisc_change list" where
  "diff_qdiscs current desired =
     map (\<lambda>(ep, q, was). \<lparr>qc_endpoint = ep, qc_desired = q, qc_was_present = was\<rparr>)
       (map_changes (topo_qdiscs current) (topo_qdiscs desired))"

definition diff_nftables :: "topology \<Rightarrow> topology \<Rightarrow> nftables_change list" where
  "diff_nftables current desired =
     List.map_filter
       (\<lambda>(name, old, new).
          let current_fw = effective_firewall current old; desired_fw = effective_firewall desired new in
          if current_fw = desired_fw \<and> node_nat old = node_nat new then None
          else Some \<lparr>nc_node = name, nc_firewall = desired_fw, nc_nat = node_nat new,
                     nc_was_present = (current_fw \<noteq> None \<or> node_nat old \<noteq> None)\<rparr>)
       (common_nodes current desired)"

definition diff_networks_changed :: "topology \<Rightarrow> topology \<Rightarrow> fields_change list" where
  "diff_networks_changed current desired =
     List.map_filter
       (\<lambda>(name, net). case bm_get (topo_networks current) name of
          None \<Rightarrow> None
        | Some old \<Rightarrow>
            let fields = changed_fields network_fields old net [''impairments''] in
            if fields \<noteq> [] then Some \<lparr>fc_name = name, fc_fields = fields\<rparr> else None)
       (bm_entries (topo_networks desired))"

definition diff_links_changed :: "topology \<Rightarrow> topology \<Rightarrow> fields_change list" where
  "diff_links_changed current desired =
     List.map_filter
       (\<lambda>l. case find (\<lambda>x. link_endpoints x = link_endpoints l) (topo_links current) of
          None \<Rightarrow> None
        | Some old \<Rightarrow>
            let fields = changed_fields link_fields old l [''endpoints''] in
            if fields \<noteq> []
            then Some \<lparr>fc_name = fst (link_endpoints l) @ '' -- '' @ snd (link_endpoints l), fc_fields = fields\<rparr>
            else None)
       (topo_links desired)"

definition diff_nodes_changed :: "topology \<Rightarrow> topology \<Rightarrow> fields_change list" where
  "diff_nodes_changed current desired =
     List.map_filter
       (\<lambda>(name, old, new).
          let fields = changed_fields node_fields old new [''routes'', ''sysctls'', ''firewall'', ''nat''] in
          if fields \<noteq> [] then Some \<lparr>fc_name = name, fc_fields = fields\<rparr> else None)
       (common_nodes current desired)"

definition diff_topologies :: "topology \<Rightarrow> topology \<Rightarrow> topology_diff" where
  "diff_topologies current desired =
     \<lparr>nodes_added = sort (keys_missing (topo_nodes desired) (topo_nodes current)),
      nodes_removed = sort (keys_missing (topo_nodes current) (topo_nodes desired)),
      links_added = diff_links_added current desired,
      links_removed = diff_links_added desired current,
      impairments_changed = diff_impairments_changed current desired,
      impairments_added = diff_impairments_added current desired,
      impairments_removed = sort (keys_missing (topo_impairments current) (topo_impairments desired)),
      network_impairs_changed =
        sort_key (\<lambda>c. (nic_network c, nic_src_node c)) (diff_network_impairs current desired),
      routes_changed = sort_key (\<lambda>c. (rc_node c, rc_dest c)) (diff_routes current desired),
      sysctls_changed = sort_key sc_node (diff_sysctls current desired),
      rate_limits_changed = sort_key rlc_endpoint (diff_rate_limits current desired),
      qdiscs_changed = sort_key qc_endpoint (diff_qdiscs current desired),
      nftables_changed = sort_key nc_node (diff_nftables current desired),
      networks_added = keys_missing (topo_networks desired) (topo_networks current),
      networks_removed = keys_missing (topo_networks current) (topo_networks desired),
      networks_changed = diff_networks_changed current desired,
      links_changed = diff_links_changed current desired,
      nodes_changed = diff_nodes_changed current desired,
      lab_changed = changed_fields lab_fields (topo_lab current) (topo_lab desired) [],
      sections_changed = changed_fields topology_fields current desired
        [''lab'', ''nodes'', ''links'', ''networks'', ''impairments'', ''rate_limits'', ''qdiscs'']\<rparr>"

subsection \<open>When a list of changes is empty\<close>

named_theorems diff_simps \<open>when a section of the diff is empty\<close>

lemma map_filter_Nil [diff_simps]: "List.map_filter f xs = [] \<longleftrightarrow> (\<forall>x \<in> set xs. f x = None)"
  by (induction xs) (auto simp: List.map_filter_simps split: option.splits)

lemma sort_key_Nil [diff_simps]: "sort_key f xs = [] \<longleftrightarrow> xs = []"
  by (metis length_0_conv length_sort)

lemma keys_missing_Nil [diff_simps]: "keys_missing m n = [] \<longleftrightarrow> dom (bm_get m) \<subseteq> dom (bm_get n)"
  by (auto simp: keys_missing_def filter_empty_conv)

lemma bex_bm_entries: "(\<exists>x \<in> set (bm_entries m). P x) \<longleftrightarrow> (\<exists>k v. bm_get m k = Some v \<and> P (k, v))"
  by (force simp: in_bm_entries [symmetric])

lemma ball_bm_entries: "(\<forall>x \<in> set (bm_entries m). P x) \<longleftrightarrow> (\<forall>k v. bm_get m k = Some v \<longrightarrow> P (k, v))"
  using bex_bm_entries [of m "\<lambda>x. \<not> P x"] by auto

lemma map_changes_spec:
  "(k, v, was) \<in> set (map_changes c d) \<longleftrightarrow>
     bm_get d k = v \<and> (was \<longleftrightarrow> bm_get c k \<noteq> None) \<and> bm_get c k \<noteq> v"
proof -
  let ?f = "\<lambda>(k, new). case bm_get c k of None \<Rightarrow> Some (k, Some new, False)
              | Some old \<Rightarrow> if old \<noteq> new then Some (k, Some new, True) else None"
  have "(k, v, was) \<in> set (List.map_filter ?f (bm_entries d)) \<longleftrightarrow>
      (\<exists>w. bm_get d k = Some w \<and> ?f (k, w) = Some (k, v, was))"
    unfolding set_map_filter bex_bm_entries mem_Collect_eq
  proof
    assume "\<exists>k' w. bm_get d k' = Some w \<and> ?f (k', w) = Some (k, v, was)"
    then obtain k' w where w: "bm_get d k' = Some w" "?f (k', w) = Some (k, v, was)" by blast
    then have "k' = k" by (cases "bm_get c k'") (simp_all split: if_splits)
    with w show "\<exists>w. bm_get d k = Some w \<and> ?f (k, w) = Some (k, v, was)" by blast
  qed blast
  also have "\<dots> \<longleftrightarrow> bm_get d k \<noteq> None \<and> bm_get d k = v \<and> (was \<longleftrightarrow> bm_get c k \<noteq> None) \<and> bm_get c k \<noteq> v"
    by (cases "bm_get d k"; cases "bm_get c k") auto
  finally have new: "(k, v, was) \<in> set (List.map_filter ?f (bm_entries d)) \<longleftrightarrow>
      bm_get d k \<noteq> None \<and> bm_get d k = v \<and> (was \<longleftrightarrow> bm_get c k \<noteq> None) \<and> bm_get c k \<noteq> v" .
  have gone: "(k, v, was) \<in> set (map (\<lambda>k. (k, None, True)) (filter (\<lambda>k. \<not> bm_contains d k) (bm_keys c))) \<longleftrightarrow>
      v = None \<and> was \<and> bm_get c k \<noteq> None \<and> bm_get d k = None"
    by auto
  show ?thesis
    unfolding map_changes_def set_append Un_iff new gone by (cases "bm_get d k") auto
qed

lemma map_changes_Nil [diff_simps]: "map_changes c d = [] \<longleftrightarrow> c = d"
proof
  assume "map_changes c d = []"
  then have "bm_get c k = bm_get d k" for k
    using map_changes_spec [of k "bm_get d k" "bm_get c k \<noteq> None" c d] by auto
  then show "c = d" by (rule bm_ext)
next
  assume "c = d"
  then have "x \<notin> set (map_changes c d)" for x
    using map_changes_spec [of "fst x" "fst (snd x)" "snd (snd x)" c d] by auto
  then show "map_changes c d = []" by (cases "map_changes c d") auto
qed

lemma changed_fields_Nil:
  "changed_fields table a b skip = [] \<longleftrightarrow> (\<forall>(k, same) \<in> set table. k \<notin> set skip \<longrightarrow> same a b)"
  by (auto simp: changed_fields_def filter_empty_conv)

lemma lab_changed_Nil [diff_simps]: "changed_fields lab_fields a b [] = [] \<longleftrightarrow> a = b"
  by (cases a, cases b) (auto simp: changed_fields_Nil lab_fields_def field_def)

lemma network_changed_Nil [diff_simps]:
  "changed_fields network_fields a b [''impairments''] = [] \<longleftrightarrow>
     a\<lparr>network_impairments := network_impairments b\<rparr> = b"
  by (cases a, cases b) (auto simp: changed_fields_Nil network_fields_def field_def)

lemma link_changed_Nil:
  "link_endpoints a = link_endpoints b \<Longrightarrow> changed_fields link_fields a b [''endpoints''] = [] \<longleftrightarrow> a = b"
  by (cases a, cases b) (auto simp: changed_fields_Nil link_fields_def field_def)

lemma node_changed_Nil [diff_simps]:
  "changed_fields node_fields a b [''routes'', ''sysctls'', ''firewall'', ''nat''] = [] \<longleftrightarrow>
     a\<lparr>node_routes := node_routes b, node_sysctls := node_sysctls b, node_firewall := node_firewall b,
       node_nat := node_nat b\<rparr> = b"
  by (cases a, cases b) (auto simp: changed_fields_Nil node_fields_def field_def)

lemma sections_changed_Nil [diff_simps]:
  "changed_fields topology_fields a b
     [''lab'', ''nodes'', ''links'', ''networks'', ''impairments'', ''rate_limits'', ''qdiscs''] = [] \<longleftrightarrow>
   topo_profiles a = topo_profiles b \<and> topo_assertions a = topo_assertions b \<and>
   topo_assertion_retries a = topo_assertion_retries b \<and>
   topo_assertion_interval a = topo_assertion_interval b \<and> topo_scenarios a = topo_scenarios b \<and>
   topo_benchmarks a = topo_benchmarks b \<and> topo_sites a = topo_sites b \<and>
   topo_source_dir a = topo_source_dir b"
  by (simp add: changed_fields_Nil topology_fields_def field_def)

lemma set_common_nodes:
  "(name, old, new) \<in> set (common_nodes c d) \<longleftrightarrow>
     bm_get (topo_nodes c) name = Some old \<and> bm_get (topo_nodes d) name = Some new"
  by (auto simp: common_nodes_def set_map_filter bex_bm_entries)

subsection \<open>Per-pair impairments\<close>

text \<open>The rules of one source on one network, in declaration order: what the reconciler of that source gets.\<close>

definition rules_of :: "topology \<Rightarrow> string \<Rightarrow> string \<Rightarrow> network_impairment list" where
  "rules_of t net src =
     (case bm_get (topo_networks t) net of
        Some n \<Rightarrow> filter (\<lambda>i. ni_src i = src) (network_impairments n) | None \<Rightarrow> [])"

lemma add_rules:
  "bm_get (foldl (add_rule net) out imps) (m, src) =
     (if m = net \<and> filter (\<lambda>i. ni_src i = src) imps \<noteq> []
      then Some (rules_in out (m, src) @ filter (\<lambda>i. ni_src i = src) imps) else bm_get out (m, src))"
proof (induction imps arbitrary: out)
  case (Cons i imps)
  then show ?case by (cases "m = net"; cases "ni_src i = src") (auto simp: add_rule_def rules_in_def)
qed simp

lemma group_by_src_fold:
  assumes "distinct (map fst xs)"
  shows "bm_get (foldl (\<lambda>out (net, n). foldl (add_rule net) out (network_impairments n)) out xs) (net, src) =
    (case map_of xs net of
       None \<Rightarrow> bm_get out (net, src)
     | Some n \<Rightarrow> bm_get (foldl (add_rule net) out (network_impairments n)) (net, src))"
  using assms
proof (induction xs arbitrary: out)
  case (Cons x xs)
  obtain m n where x: "x = (m, n)" by fastforce
  show ?case
  proof (cases "m = net")
    case True
    then have "map_of xs net = None" using Cons.prems x by (auto simp: map_of_eq_None_iff)
    then show ?thesis using Cons.IH Cons.prems x True by simp
  next
    case False
    then have same: "bm_get (foldl (add_rule m) out (network_impairments n)) (net, src) = bm_get out (net, src)"
      and "rules_in (foldl (add_rule m) out (network_impairments n)) (net, src) = rules_in out (net, src)"
      by (simp_all add: add_rules rules_in_def)
    then show ?thesis using Cons.IH Cons.prems x False by (simp add: add_rules split: option.splits)
  qed
qed simp

lemma bm_get_group_by_src:
  "bm_get (group_by_src t) (net, src) = (if rules_of t net src = [] then None else Some (rules_of t net src))"
  unfolding group_by_src_def group_by_src_fold [OF bm_entries_distinct] bm_get_entries [symmetric]
  by (simp add: add_rules rules_of_def rules_in_def split: option.splits)

lemma group_by_src_eq_iff [diff_simps]:
  "group_by_src c = group_by_src d \<longleftrightarrow> (\<forall>net src. rules_of c net src = rules_of d net src)"
proof
  assume eq: "group_by_src c = group_by_src d"
  have "rules_of c net src = rules_of d net src" for net src
    using arg_cong [OF eq, of "\<lambda>m. bm_get m (net, src)"] unfolding bm_get_group_by_src
    by (simp split: if_splits)
  then show "\<forall>net src. rules_of c net src = rules_of d net src" by blast
next
  assume eq: "\<forall>net src. rules_of c net src = rules_of d net src"
  show "group_by_src c = group_by_src d"
  proof (rule bm_ext)
    show "bm_get (group_by_src c) key = bm_get (group_by_src d) key" for key
      by (cases key) (simp add: bm_get_group_by_src eq)
  qed
qed

subsection \<open>An empty diff\<close>

lemma diff_routes_Nil [diff_simps]:
  "diff_routes c d = [] \<longleftrightarrow> (\<forall>(name, old, new) \<in> set (common_nodes c d). node_routes old = node_routes new)"
  by (auto simp: diff_routes_def diff_simps)

lemma added_changed_removed_Nil:
  "filter (\<lambda>(k, _). \<not> bm_contains m k) (bm_entries n) = [] \<and>
   List.map_filter (\<lambda>(k, v). case bm_get m k of Some w \<Rightarrow> if w \<noteq> v then Some (g k w v) else None
                             | None \<Rightarrow> None) (bm_entries n) = [] \<and>
   keys_missing m n = [] \<longleftrightarrow> m = n" (is "?added \<and> ?changed \<and> ?removed \<longleftrightarrow> _")
proof -
  have "?added \<longleftrightarrow> (\<forall>k v. bm_get n k = Some v \<longrightarrow> bm_get m k \<noteq> None)"
    unfolding filter_empty_conv ball_bm_entries by (auto simp: dom_def)
  moreover have "?changed \<longleftrightarrow> (\<forall>k v. bm_get n k = Some v \<longrightarrow> bm_get m k \<noteq> None \<longrightarrow> bm_get m k = Some v)"
    unfolding map_filter_Nil ball_bm_entries
    by (intro all_cong1 imp_cong refl) (auto split: option.splits)
  moreover have "?removed \<longleftrightarrow> (\<forall>k. bm_get n k = None \<longrightarrow> bm_get m k = None)"
    unfolding keys_missing_Nil by (auto simp: dom_def)
  moreover have "bm_get m k = bm_get n k \<longleftrightarrow>
      (\<forall>v. bm_get n k = Some v \<longrightarrow> bm_get m k \<noteq> None) \<and>
      (\<forall>v. bm_get n k = Some v \<longrightarrow> bm_get m k \<noteq> None \<longrightarrow> bm_get m k = Some v) \<and>
      (bm_get n k = None \<longrightarrow> bm_get m k = None)" for k
    by (cases "bm_get n k") auto
  ultimately have "?added \<and> ?changed \<and> ?removed \<longleftrightarrow> (\<forall>k. bm_get m k = bm_get n k)"
    by (simp only: all_conj_distrib)
  also have "\<dots> \<longleftrightarrow> m = n" by (auto intro: bm_ext)
  finally show ?thesis .
qed

lemma sysctl_change_empty:
  "sysctl_change_is_empty (sysctl_change_of name old new) \<longleftrightarrow> node_sysctls old = node_sysctls new"
  using added_changed_removed_Nil [of "node_sysctls old" "node_sysctls new" "\<lambda>k w v. (k, w, v)"]
  by (simp add: sysctl_change_is_empty_def sysctl_change_of_def)

lemma diff_sysctls_Nil [diff_simps]:
  "diff_sysctls c d = [] \<longleftrightarrow> (\<forall>(name, old, new) \<in> set (common_nodes c d). node_sysctls old = node_sysctls new)"
  by (auto simp: diff_sysctls_def filter_empty_conv sysctl_change_empty)

lemma diff_maps_Nil [diff_simps]:
  "diff_rate_limits c d = [] \<longleftrightarrow> topo_rate_limits c = topo_rate_limits d"
  "diff_qdiscs c d = [] \<longleftrightarrow> topo_qdiscs c = topo_qdiscs d"
  "diff_network_impairs c d = [] \<longleftrightarrow> (\<forall>net src. rules_of c net src = rules_of d net src)"
  by (simp_all add: diff_rate_limits_def diff_qdiscs_def diff_network_impairs_def diff_simps)

lemma diff_impairments_Nil:
  "diff_impairments_added c d = [] \<and> diff_impairments_changed c d = [] \<and>
     keys_missing (topo_impairments c) (topo_impairments d) = [] \<longleftrightarrow> topo_impairments c = topo_impairments d"
  unfolding diff_impairments_added_def diff_impairments_changed_def
  by (rule added_changed_removed_Nil)

lemma diff_nftables_Nil [diff_simps]:
  "diff_nftables c d = [] \<longleftrightarrow>
     (\<forall>(name, old, new) \<in> set (common_nodes c d).
        effective_firewall c old = effective_firewall d new \<and> node_nat old = node_nat new)"
  by (auto simp: diff_nftables_def diff_simps Let_def split: if_splits)

lemma diff_nodes_changed_Nil [diff_simps]:
  "diff_nodes_changed c d = [] \<longleftrightarrow>
     (\<forall>(name, old, new) \<in> set (common_nodes c d).
        old\<lparr>node_routes := node_routes new, node_sysctls := node_sysctls new,
            node_firewall := node_firewall new, node_nat := node_nat new\<rparr> = new)"
  by (auto simp: diff_nodes_changed_def map_filter_Nil node_changed_Nil Let_def split: if_splits)

lemma equal_but_firewall:
  fixes old new :: node
  shows "old\<lparr>node_firewall := node_firewall new\<rparr> = new \<longleftrightarrow>
    node_routes old = node_routes new \<and> node_sysctls old = node_sysctls new \<and> node_nat old = node_nat new \<and>
    old\<lparr>node_routes := node_routes new, node_sysctls := node_sysctls new,
        node_firewall := node_firewall new, node_nat := node_nat new\<rparr> = new"
  by (cases old, cases new) auto

lemma diff_networks_changed_Nil [diff_simps]:
  "diff_networks_changed c d = [] \<longleftrightarrow>
     (\<forall>name old new. bm_get (topo_networks c) name = Some old \<longrightarrow> bm_get (topo_networks d) name = Some new \<longrightarrow>
        old\<lparr>network_impairments := network_impairments new\<rparr> = new)"
  by (auto simp: diff_networks_changed_def map_filter_Nil network_changed_Nil ball_bm_entries Let_def
      split: if_splits option.splits)

lemma diff_links_Nil:
  "diff_links_added c d = [] \<and> diff_links_changed c d = [] \<longleftrightarrow>
     (\<forall>l \<in> set (topo_links d). find (\<lambda>x. link_endpoints x = link_endpoints l) (topo_links c) = Some l)"
proof -
  have "diff_links_added c d = [] \<longleftrightarrow>
      (\<forall>l \<in> set (topo_links d). find (\<lambda>x. link_endpoints x = link_endpoints l) (topo_links c) \<noteq> None)"
    by (simp add: diff_links_added_def filter_empty_conv find_None_iff image_iff) metis
  moreover have "diff_links_changed c d = [] \<longleftrightarrow>
      (\<forall>l \<in> set (topo_links d). \<forall>old. find (\<lambda>x. link_endpoints x = link_endpoints l) (topo_links c) = Some old \<longrightarrow> old = l)"
    unfolding diff_links_changed_def map_filter_Nil
  proof (rule ball_cong [OF refl])
    fix l :: link
    let ?find = "find (\<lambda>x. link_endpoints x = link_endpoints l) (topo_links c)"
    have "link_endpoints old = link_endpoints l" if "?find = Some old" for old
      using that by (auto simp: find_Some_iff)
    then show "(case ?find of None \<Rightarrow> None
        | Some old \<Rightarrow> let fields = changed_fields link_fields old l [''endpoints''] in
            if fields \<noteq> []
            then Some \<lparr>fc_name = fst (link_endpoints l) @ '' -- '' @ snd (link_endpoints l), fc_fields = fields\<rparr>
            else None) = None \<longleftrightarrow> (\<forall>old. ?find = Some old \<longrightarrow> old = l)"
      by (cases ?find) (simp_all add: Let_def link_changed_Nil)
  qed
  ultimately show ?thesis by auto
qed

text \<open>C5.
  The diff of two topologies is empty exactly when nothing that a deployment reads differs:
  the lab settings and sections are equal; the same nodes, each equal but for the way its
  firewall is declared, with the same effective firewall; every link of one is the first link
  with its endpoints in the other; the same networks, equal up to how the
  rules of different sources are interleaved. The order of links is not compared.
\<close>

theorem diff_topologies_empty_iff:
  "diff_is_empty (diff_topologies c d) \<longleftrightarrow>
     topo_lab c = topo_lab d \<and> topo_profiles c = topo_profiles d \<and>
     topo_impairments c = topo_impairments d \<and> topo_rate_limits c = topo_rate_limits d \<and>
     topo_qdiscs c = topo_qdiscs d \<and> topo_assertions c = topo_assertions d \<and>
     topo_assertion_retries c = topo_assertion_retries d \<and>
     topo_assertion_interval c = topo_assertion_interval d \<and> topo_scenarios c = topo_scenarios d \<and>
     topo_benchmarks c = topo_benchmarks d \<and> topo_sites c = topo_sites d \<and>
     topo_source_dir c = topo_source_dir d \<and>
     dom (bm_get (topo_nodes c)) = dom (bm_get (topo_nodes d)) \<and>
     (\<forall>name old new. bm_get (topo_nodes c) name = Some old \<longrightarrow> bm_get (topo_nodes d) name = Some new \<longrightarrow>
        old\<lparr>node_firewall := node_firewall new\<rparr> = new \<and>
        effective_firewall c old = effective_firewall d new) \<and>
     (\<forall>l \<in> set (topo_links d). find (\<lambda>x. link_endpoints x = link_endpoints l) (topo_links c) = Some l) \<and>
     link_endpoints ` set (topo_links c) \<subseteq> link_endpoints ` set (topo_links d) \<and>
     dom (bm_get (topo_networks c)) = dom (bm_get (topo_networks d)) \<and>
     (\<forall>name old new. bm_get (topo_networks c) name = Some old \<longrightarrow> bm_get (topo_networks d) name = Some new \<longrightarrow>
        old\<lparr>network_impairments := network_impairments new\<rparr> = new) \<and>
     (\<forall>net src. rules_of c net src = rules_of d net src)"
proof -
  define common where "common = (\<lambda>P. \<forall>(name, old, new) \<in> set (common_nodes c d). P old new)"
  have common: "(\<forall>name old new. bm_get (topo_nodes c) name = Some old \<longrightarrow>
      bm_get (topo_nodes d) name = Some new \<longrightarrow> P old new) \<longleftrightarrow> common P" for P
    unfolding common_def by (force simp: set_common_nodes)
  have conj: "common (\<lambda>old new. P old new \<and> Q old new) \<longleftrightarrow> common P \<and> common Q" for P Q
    unfolding common_def by auto
  have node: "common (\<lambda>old new. old\<lparr>node_firewall := node_firewall new\<rparr> = new \<and>
        effective_firewall c old = effective_firewall d new) \<longleftrightarrow>
      common (\<lambda>old new. node_routes old = node_routes new) \<and>
      common (\<lambda>old new. node_sysctls old = node_sysctls new) \<and>
      common (\<lambda>old new. effective_firewall c old = effective_firewall d new \<and> node_nat old = node_nat new) \<and>
      common (\<lambda>old new. old\<lparr>node_routes := node_routes new, node_sysctls := node_sysctls new,
            node_firewall := node_firewall new, node_nat := node_nat new\<rparr> = new)"
    unfolding conj [symmetric] equal_but_firewall
    by (rule arg_cong [where f = common], intro ext) blast
  have removed: "diff_links_added d c = [] \<longleftrightarrow>
      link_endpoints ` set (topo_links c) \<subseteq> link_endpoints ` set (topo_links d)"
    by (auto simp: diff_links_added_def filter_empty_conv)
  show ?thesis
    unfolding common node diff_links_Nil [symmetric] diff_impairments_Nil [symmetric] removed [symmetric]
      diff_is_empty_def diff_topologies_def topology_diff.simps
    unfolding common_def diff_simps set_eq_subset
    by (intro iffI; elim conjE; intro conjI; assumption)
qed

theorem diff_topologies_empty_iff_witness:
  "diff_is_empty (diff_topologies
     (topology_default\<lparr>topo_links := [\<lparr>link_endpoints = (''a:e0'', ''b:e0''), link_addresses = None, link_mtu = None\<rparr>,
        \<lparr>link_endpoints = (''a:e1'', ''b:e1''), link_addresses = None, link_mtu = Some 9000\<rparr>]\<rparr>)
     (topology_default\<lparr>topo_links := [\<lparr>link_endpoints = (''a:e1'', ''b:e1''), link_addresses = None, link_mtu = Some 9000\<rparr>,
        \<lparr>link_endpoints = (''a:e0'', ''b:e0''), link_addresses = None, link_mtu = None\<rparr>]\<rparr>))"
  by (subst diff_topologies_empty_iff) (simp add: topology_default_def rules_of_def)

subsection \<open>Replaying the changes\<close>

text \<open>What applying a list of changes does to a map: a value is written, \<open>None\<close> deletes.\<close>

definition patch_step :: "('k :: linorder, 'v) btree_map \<Rightarrow> 'k \<times> 'v option \<Rightarrow> ('k, 'v) btree_map" where
  "patch_step m kv = (case snd kv of Some v \<Rightarrow> bm_insert (fst kv) v m | None \<Rightarrow> bm_remove (fst kv) m)"

definition patch :: "('k :: linorder, 'v) btree_map \<Rightarrow> ('k \<times> 'v option) list \<Rightarrow> ('k, 'v) btree_map" where
  "patch m changes = foldl patch_step m changes"

lemma bm_get_patch_step: "bm_get (patch_step m (k, v)) x = (if x = k then v else bm_get m x)"
  by (cases v) (auto simp: patch_step_def)

text \<open>A list of correct values that has every difference leads to the desired map, in any order.\<close>

lemma patch_reaches:
  assumes "\<And>k v. (k, v) \<in> set xs \<Longrightarrow> bm_get d k = v"
    and "\<And>k. bm_get c k \<noteq> bm_get d k \<Longrightarrow> k \<in> fst ` set xs"
  shows "patch c xs = d"
proof -
  have "bm_get (foldl patch_step c xs) k = (if k \<in> fst ` set xs then bm_get d k else bm_get c k)" for k
    using assms(1)
  proof (induction xs arbitrary: c)
    case (Cons x xs)
    obtain j v where x: "x = (j, v)" by fastforce
    then have "bm_get d j = v" using Cons.prems by simp
    then show ?case using Cons x by (auto simp: bm_get_patch_step)
  qed simp
  then show ?thesis unfolding patch_def using assms(2) by (intro bm_ext) metis
qed

lemma patch_map_changes:
  assumes "set xs = set (map (\<lambda>(k, v, _). (k, v)) (map_changes c d))"
  shows "patch c xs = d"
proof (rule patch_reaches)
  show "bm_get d k = v" if "(k, v) \<in> set xs" for k v
    using that assms by (auto simp: map_changes_spec)
  show "k \<in> fst ` set xs" if "bm_get c k \<noteq> bm_get d k" for k
  proof -
    have "(k, bm_get d k, bm_get c k \<noteq> None) \<in> set (map_changes c d)"
      using that by (simp add: map_changes_spec)
    then show ?thesis unfolding assms by force
  qed
qed

lemma patch_rate_limits:
  "patch (topo_rate_limits c) (map (\<lambda>r. (rlc_endpoint r, rlc_desired r)) (rate_limits_changed (diff_topologies c d))) =
     topo_rate_limits d"
  by (rule patch_map_changes) (simp add: diff_topologies_def diff_rate_limits_def image_image split_def)

lemma patch_qdiscs:
  "patch (topo_qdiscs c) (map (\<lambda>q. (qc_endpoint q, qc_desired q)) (qdiscs_changed (diff_topologies c d))) =
     topo_qdiscs d"
  by (rule patch_map_changes) (simp add: diff_topologies_def diff_qdiscs_def image_image split_def)

lemma set_changed:
  "set (List.map_filter (\<lambda>(k, v). case bm_get m k of Some w \<Rightarrow> if w \<noteq> v then Some (g k w v) else None
                                 | None \<Rightarrow> None) (bm_entries n)) =
     {g k w v | k w v. bm_get m k = Some w \<and> bm_get n k = Some v \<and> w \<noteq> v}" (is "?l = ?r")
proof (rule set_eqI)
  fix y
  have "y \<in> ?l \<longleftrightarrow> (\<exists>k v. bm_get n k = Some v \<and>
      (case bm_get m k of Some w \<Rightarrow> if w \<noteq> v then Some (g k w v) else None | None \<Rightarrow> None) = Some y)"
    unfolding set_map_filter bex_bm_entries by simp
  also have "\<dots> \<longleftrightarrow> (\<exists>k v w. bm_get n k = Some v \<and> bm_get m k = Some w \<and> w \<noteq> v \<and> y = g k w v)"
    by (intro ex_cong1 conj_cong refl) (auto split: option.splits)
  finally show "y \<in> ?l \<longleftrightarrow> y \<in> ?r" by blast
qed

lemma patch_added_changed_removed:
  assumes "\<And>k v. (k, v) \<in> set added \<longleftrightarrow> bm_get m k = None \<and> bm_get n k = Some v"
    and "\<And>k v. (k, v) \<in> set changed \<longleftrightarrow> (\<exists>w. bm_get m k = Some w \<and> bm_get n k = Some v \<and> w \<noteq> v)"
    and "set removed = dom (bm_get m) - dom (bm_get n)"
  shows "patch m (map (\<lambda>(k, v). (k, Some v)) added @ map (\<lambda>(k, v). (k, Some v)) changed @
    map (\<lambda>k. (k, None)) removed) = n" (is "patch m ?xs = n")
proof (rule patch_reaches)
  show "bm_get n k = v" if "(k, v) \<in> set ?xs" for k v
    using that assms by auto
  show "k \<in> fst ` set ?xs" if "bm_get m k \<noteq> bm_get n k" for k
  proof -
    have "k \<in> fst ` set added \<or> k \<in> fst ` set changed \<or> k \<in> set removed"
    proof (cases "bm_get n k")
      case None
      then show ?thesis using that assms(3) by auto
    next
      case (Some v)
      then have "(k, v) \<in> set added \<or> (k, v) \<in> set changed"
        using that assms(1,2) by (cases "bm_get m k") auto
      then show ?thesis by force
    qed
    then show ?thesis unfolding set_append set_map image_Un image_image by (auto simp: split_def)
  qed
qed

lemma patch_impairments:
  "patch (topo_impairments c)
     (map (\<lambda>(ep, i). (ep, Some i)) (impairments_added (diff_topologies c d)) @
      map (\<lambda>(ep, i). (ep, Some i)) (map (\<lambda>i. (ic_endpoint i, ic_new i)) (impairments_changed (diff_topologies c d))) @
      map (\<lambda>ep. (ep, None)) (impairments_removed (diff_topologies c d))) = topo_impairments d"
proof (rule patch_added_changed_removed)
  show "(k, v) \<in> set (map (\<lambda>i. (ic_endpoint i, ic_new i)) (impairments_changed (diff_topologies c d))) \<longleftrightarrow>
      (\<exists>w. bm_get (topo_impairments c) k = Some w \<and> bm_get (topo_impairments d) k = Some v \<and> w \<noteq> v)" for k v
    unfolding diff_topologies_def topology_diff.simps diff_impairments_changed_def set_map set_changed
    by (auto simp: image_iff) force
qed (auto simp: diff_topologies_def diff_impairments_added_def in_bm_entries keys_missing_def)

lemma set_diff_sysctls:
  "s \<in> set (sysctls_changed (diff_topologies c d)) \<longleftrightarrow>
     (\<exists>name old new. (name, old, new) \<in> set (common_nodes c d) \<and>
        \<not> sysctl_change_is_empty (sysctl_change_of name old new) \<and>
        s = (let ch = sysctl_change_of name old new in
             ch\<lparr>sc_added := sort (sc_added ch), sc_changed := sort (sc_changed ch),
                sc_removed := sort (sc_removed ch)\<rparr>))"
  unfolding diff_topologies_def topology_diff.simps diff_sysctls_def Let_def
  by (auto simp: image_iff)

lemma patch_sysctls:
  assumes "bm_get (topo_nodes c) name = Some old" "bm_get (topo_nodes d) name = Some new"
    and "s \<in> set (sysctls_changed (diff_topologies c d))" "sc_node s = name"
  shows "patch (node_sysctls old)
     (map (\<lambda>(k, v). (k, Some v)) (sc_added s) @
      map (\<lambda>(k, v). (k, Some v)) (map (\<lambda>(k, _, v). (k, v)) (sc_changed s)) @
      map (\<lambda>k. (k, None)) (sc_removed s)) = node_sysctls new"
proof -
  have "set (sc_added s) = set (sc_added (sysctl_change_of name old new))"
    "set (sc_changed s) = set (sc_changed (sysctl_change_of name old new))"
    "set (sc_removed s) = set (sc_removed (sysctl_change_of name old new))"
    using assms by (auto simp: set_diff_sysctls set_common_nodes Let_def sysctl_change_of_def)
  note sets = this [unfolded sysctl_change_of_def sysctl_change.simps]
  show ?thesis
  proof (rule patch_added_changed_removed)
    show "(k, v) \<in> set (map (\<lambda>(k, _, v). (k, v)) (sc_changed s)) \<longleftrightarrow>
        (\<exists>w. bm_get (node_sysctls old) k = Some w \<and> bm_get (node_sysctls new) k = Some v \<and> w \<noteq> v)" for k v
      unfolding set_map sets(2) set_changed by (auto simp: image_iff)
  qed (auto simp: sets(1,3) in_bm_entries keys_missing_def)
qed

lemma set_diff_routes:
  "r \<in> set (routes_changed (diff_topologies c d)) \<longleftrightarrow>
     (\<exists>old new. bm_get (topo_nodes c) (rc_node r) = Some old \<and> bm_get (topo_nodes d) (rc_node r) = Some new \<and>
        (rc_dest r, rc_desired r, rc_was_present r) \<in> set (map_changes (node_routes old) (node_routes new)))"
  unfolding diff_topologies_def topology_diff.simps set_sort diff_routes_def
  by (cases r) (force simp: set_common_nodes)

lemma patch_routes:
  assumes "bm_get (topo_nodes c) name = Some old" "bm_get (topo_nodes d) name = Some new"
  shows "patch (node_routes old) (map (\<lambda>r. (rc_dest r, rc_desired r))
     (filter (\<lambda>r. rc_node r = name) (routes_changed (diff_topologies c d)))) = node_routes new"
proof (rule patch_map_changes, rule set_eqI)
  fix x
  show "x \<in> set (map (\<lambda>r. (rc_dest r, rc_desired r)) (filter (\<lambda>r. rc_node r = name) (routes_changed (diff_topologies c d)))) \<longleftrightarrow>
    x \<in> set (map (\<lambda>(k, v, _). (k, v)) (map_changes (node_routes old) (node_routes new)))"
  proof
    assume "x \<in> set (map (\<lambda>(k, v, _). (k, v)) (map_changes (node_routes old) (node_routes new)))"
    then obtain k v was where "(k, v, was) \<in> set (map_changes (node_routes old) (node_routes new))" "x = (k, v)"
      by auto
    then have "\<lparr>rc_node = name, rc_dest = k, rc_desired = v, rc_was_present = was\<rparr> \<in>
        set (routes_changed (diff_topologies c d))"
      using assms by (simp add: set_diff_routes)
    then show "x \<in> set (map (\<lambda>r. (rc_dest r, rc_desired r)) (filter (\<lambda>r. rc_node r = name) (routes_changed (diff_topologies c d))))"
      using \<open>x = (k, v)\<close> by force
  qed (use assms in \<open>force simp: set_diff_routes\<close>)
qed

lemma replay_sets:
  "dom (bm_get (topo_nodes c)) - set (nodes_removed (diff_topologies c d)) \<union>
     set (nodes_added (diff_topologies c d)) = dom (bm_get (topo_nodes d))"
  "dom (bm_get (topo_networks c)) - set (networks_removed (diff_topologies c d)) \<union>
     set (networks_added (diff_topologies c d)) = dom (bm_get (topo_networks d))"
  "link_endpoints ` set (topo_links c) - link_endpoints ` set (links_removed (diff_topologies c d)) \<union>
     link_endpoints ` set (links_added (diff_topologies c d)) = link_endpoints ` set (topo_links d)"
  by (auto simp: diff_topologies_def keys_missing_def diff_links_added_def)

lemma sysctls_changed_iff:
  assumes "bm_get (topo_nodes c) name = Some old" "bm_get (topo_nodes d) name = Some new"
  shows "(\<exists>s \<in> set (sysctls_changed (diff_topologies c d)). sc_node s = name) \<longleftrightarrow>
    node_sysctls old \<noteq> node_sysctls new"
proof -
  let ?sorted = "\<lambda>ch :: sysctl_change. ch\<lparr>sc_added := sort (sc_added ch), sc_changed := sort (sc_changed ch),
                sc_removed := sort (sc_removed ch)\<rparr>"
  have node: "sc_node (?sorted (sysctl_change_of n x y)) = n" for n x y by (simp add: sysctl_change_of_def)
  have "(\<exists>s \<in> set (sysctls_changed (diff_topologies c d)). sc_node s = name) \<longleftrightarrow>
      (\<exists>n x y. (n, x, y) \<in> set (common_nodes c d) \<and> \<not> sysctl_change_is_empty (sysctl_change_of n x y) \<and>
         sc_node (?sorted (sysctl_change_of n x y)) = name)"
    unfolding Bex_def set_diff_sysctls Let_def by blast
  also have "\<dots> \<longleftrightarrow> \<not> sysctl_change_is_empty (sysctl_change_of name old new)"
    unfolding node set_common_nodes using assms by auto
  finally show ?thesis by (simp add: sysctl_change_empty)
qed



end
