(* ===== verification/Lease_Table.thy ===== *)
theory Lease_Table
  imports Prelude
begin

text \<open>
  The contract the two host-wide registries share, \<open>subnet_pool.rs\<close> and \<open>host_registry.rs\<close>: labs
  acquire resources and release them, and no resource is ever held by two labs. The
  registries are files under a lock, so their operations are atomic steps on the file's
  content; a step may also fail, and then changes nothing. The outcome of the file
  operations of one call (taking the lock, reading, writing) is a value of \<open>io_outcome\<close>, an
  argument of the call.
\<close>

record io_outcome =
  io_lock :: bool
  io_load :: bool
  io_save :: bool

definition io_fine :: io_outcome where
  "io_fine = \<lparr>io_lock = True, io_load = True, io_save = True\<rparr>"

locale lease_table =
  fixes holds :: "'st \<Rightarrow> 'lab \<Rightarrow> 'res \<Rightarrow> bool"
    and good :: "'st \<Rightarrow> bool"
    and start :: "'st"
    and acquire :: "'st \<Rightarrow> 'lab \<Rightarrow> 'st \<Rightarrow> bool"
    and give_back :: "'st \<Rightarrow> 'lab \<Rightarrow> 'st \<Rightarrow> bool"
  assumes start_good: "good start"
    and start_empty: "\<not> holds start l r"
    and acquire_good: "good s \<Longrightarrow> acquire s l s' \<Longrightarrow> good s'"
    and acquire_fresh: "good s \<Longrightarrow> acquire s l s' \<Longrightarrow> holds s' l r \<Longrightarrow> holds s l' r \<Longrightarrow> l' \<noteq> l \<Longrightarrow> holds s l r"
    and acquire_frame: "good s \<Longrightarrow> acquire s l s' \<Longrightarrow> l' \<noteq> l \<Longrightarrow> holds s' l' r \<longleftrightarrow> holds s l' r"
    and give_back_good: "good s \<Longrightarrow> give_back s l s' \<Longrightarrow> good s'"
    and give_back_drops: "good s \<Longrightarrow> give_back s l s' \<Longrightarrow> \<not> holds s' l r"
    and give_back_frame: "good s \<Longrightarrow> give_back s l s' \<Longrightarrow> l' \<noteq> l \<Longrightarrow> holds s' l' r \<longleftrightarrow> holds s l' r"
begin

lemma acquire_exclusive:
  assumes "good s" "\<forall>l l' r. holds s l r \<longrightarrow> holds s l' r \<longrightarrow> l = l'" "acquire s l s'"
  shows "\<forall>a b r. holds s' a r \<longrightarrow> holds s' b r \<longrightarrow> a = b"
proof (intro allI impI)
  fix a b r
  assume h: "holds s' a r" "holds s' b r"
  consider "a = l" "b = l" | "a = l" "b \<noteq> l" | "a \<noteq> l" "b = l" | "a \<noteq> l" "b \<noteq> l" by blast
  then show "a = b"
  proof cases
    case 2
    then show ?thesis using h assms acquire_fresh [OF assms(1,3)] acquire_frame [OF assms(1,3)] by metis
  next
    case 3
    then show ?thesis using h assms acquire_fresh [OF assms(1,3)] acquire_frame [OF assms(1,3)] by metis
  next
    case 4
    then show ?thesis using h assms(2) acquire_frame [OF assms(1,3)] by metis
  qed simp
qed

lemma give_back_exclusive:
  assumes "good s" "\<forall>l l' r. holds s l r \<longrightarrow> holds s l' r \<longrightarrow> l = l'" "give_back s l s'"
  shows "\<forall>a b r. holds s' a r \<longrightarrow> holds s' b r \<longrightarrow> a = b"
  using assms give_back_drops [OF assms(1,3)] give_back_frame [OF assms(1,3)] by metis

text \<open>In every state the labs' steps lead to, no resource has two holders.\<close>

lemma reachable_exclusive:
  assumes "(\<lambda>s s'. \<exists>l. acquire s l s' \<or> give_back s l s')\<^sup>*\<^sup>* start s"
  shows "good s \<and> (\<forall>a b r. holds s a r \<longrightarrow> holds s b r \<longrightarrow> a = b)"
  using assms
proof (induction rule: rtranclp_induct)
  case base
  then show ?case using start_good start_empty by simp
next
  case (step s s')
  have good: "good s" and excl: "\<forall>a b r. holds s a r \<longrightarrow> holds s b r \<longrightarrow> a = b"
    using step.IH by simp_all
  from step obtain l where "acquire s l s' \<or> give_back s l s'" by blast
  then show ?case
  proof
    assume a: "acquire s l s'"
    show ?thesis using acquire_good [OF good a] acquire_exclusive [OF good excl a] by (rule conjI)
  next
    assume g: "give_back s l s'"
    show ?thesis using give_back_good [OF good g] give_back_exclusive [OF good excl g] by (rule conjI)
  qed
qed

text \<open>A lab that gives back holds nothing until it acquires again.\<close>

lemma released_until_acquired:
  assumes "good s" "give_back s l s'" "(\<lambda>s s'. \<exists>l'. l' \<noteq> l \<and> (acquire s l' s' \<or> give_back s l' s'))\<^sup>*\<^sup>* s' t"
  shows "good t \<and> \<not> holds t l r"
  using assms(3)
proof (induction rule: rtranclp_induct)
  case base
  then show ?case using give_back_good [OF assms(1,2)] give_back_drops [OF assms(1,2)] by simp
next
  case (step t t')
  then obtain l' where "l' \<noteq> l" "acquire t l' t' \<or> give_back t l' t'" by blast
  then show ?case
    using step.IH acquire_good give_back_good acquire_frame give_back_frame by metis
qed

end

end
