(* ===== verification/Subnet_Assign.thy ===== *)
theory Subnet_Assign
  imports Topology_Ops
begin

text \<open>
  The automatic addresses of a bridge network's members, \<open>subnet_auto_assign\<close> of
  \<open>crates/nlink-lab/src/parser/nll/lower.rs\<close>: for each member without an explicit address the
  next host address that no explicit port holds. The inner \<open>loop\<close> counts \<open>host_num\<close> up until it
  passes the end of the block, which is its termination measure.
\<close>

datatype assign_error = Bad_Subnet helper_error | Too_Many_Members nat | Assign_Panic

definition increment_ip :: "ip_addr \<Rightarrow> nat \<Rightarrow> ip_addr" where
  "increment_ip base off = (case ip_offset base (of_nat off) of Some ip \<Rightarrow> ip | None \<Rightarrow> base)"

text \<open>The inner loop: the next address not in \<open>used\<close> and the counter after it.\<close>

function next_host :: "ip_addr \<Rightarrow> nat \<Rightarrow> ip_addr set \<Rightarrow> nat \<Rightarrow> (ip_addr \<times> nat) option" where
  "next_host base max_host used host_num =
     (if max_host < host_num \<or> 4294967295 < host_num then None
      else let ip = increment_ip base host_num in
           if ip \<notin> used then Some (ip, host_num + 1)
           else next_host base max_host used (host_num + 1))"
  by pat_completeness auto
termination
  by (relation "measure (\<lambda>(_, max_host, _, host_num). Suc max_host - host_num)") auto

declare next_host.simps [simp del]

fun assign_members ::
  "ip_addr \<Rightarrow> nat \<Rightarrow> nat \<Rightarrow> ip_addr set \<Rightarrow> (string, string list) btree_map \<Rightarrow> nat \<Rightarrow> string list \<Rightarrow>
     (string, string) btree_map \<Rightarrow> (assign_error, (string, string) btree_map) result" where
  "assign_members base p max_host used explicit host_num [] acc = Inr acc"
| "assign_members base p max_host used explicit host_num (m # ms) acc =
     (if bm_contains explicit m then assign_members base p max_host used explicit host_num ms acc
      else (case next_host base max_host used host_num of
              None \<Rightarrow> Inl (Too_Many_Members max_host)
            | Some (ip, n) \<Rightarrow>
                assign_members base p max_host used explicit n ms
                  (bm_insert m (show_ip ip @ ''/'' @ show_nat p) acc)))"

definition max_host_of :: "nat \<Rightarrow> nat" where
  "max_host_of host_bits = (if 63 \<le> host_bits then u64_max else 2 ^ host_bits - 2)"

definition used_addresses :: "(string, string list) btree_map \<Rightarrow> ip_addr list" where
  "used_addresses explicit =
     List.map_filter (\<lambda>a. parse_ip (hd (split_char CHR ''/'' a))) (concat (bm_values explicit))"

definition subnet_auto_assign ::
  "string \<Rightarrow> string list \<Rightarrow> (string, string list) btree_map \<Rightarrow>
     (assign_error, (string, string) btree_map option) result" where
  "subnet_auto_assign subnet members explicit =
     (if prefix ''auto'' subnet \<or> sublist ''${'' subnet then Inr None
      else
        and_then (case parse_cidr subnet of Inl e \<Rightarrow> Inl (Bad_Subnet e) | Inr x \<Rightarrow> Inr x) (\<lambda>(ip, p).
        and_then (ok_or (network_address ip p) Assign_Panic) (\<lambda>base.
          let host_bits = (if is_ipv4 base then 32 else 128) - p;
              max_host = max_host_of host_bits;
              used = set (used_addresses explicit)
          in map_sum id Some (assign_members base p max_host used explicit 1 members bm_empty))))"

subsection \<open>The inner loop\<close>

lemma next_host_Some:
  "next_host base mx used n = Some (ip, k) \<Longrightarrow>
     n < k \<and> k \<le> Suc mx \<and> k \<le> 4294967296 \<and> ip = increment_ip base (k - 1) \<and> ip \<notin> used"
proof (induction base mx used n rule: next_host.induct)
  case (1 base mx used n)
  from 1(2) have n: "n \<le> mx" "n \<le> 4294967295"
    by (auto simp: next_host.simps [of base mx used n] split: if_splits)
  show ?case
  proof (cases "increment_ip base n \<in> used")
    case False
    with 1(2) n show ?thesis by (auto simp: next_host.simps [of base mx used n])
  next
    case True
    with 1(2) n have rec: "next_host base mx used (n + 1) = Some (ip, k)"
      by (simp add: next_host.simps [of base mx used n])
    have "n + 1 < k \<and> k \<le> Suc mx \<and> k \<le> 4294967296 \<and> ip = increment_ip base (k - 1) \<and> ip \<notin> used"
      by (rule 1(1) [OF _ refl _ rec]) (use n True in simp_all)
    then show ?thesis using add_lessD1 by blast
  qed
qed

text \<open>The loop gives up only when every remaining host address is in use.\<close>

lemma next_host_None:
  "next_host base mx used n = None \<Longrightarrow>
     \<forall>k. n \<le> k \<longrightarrow> k \<le> mx \<longrightarrow> k \<le> 4294967295 \<longrightarrow> increment_ip base k \<in> used"
proof (induction base mx used n rule: next_host.induct)
  case (1 base mx used n)
  show ?case
  proof (intro allI impI)
    fix k
    assume k: "n \<le> k" "k \<le> mx" "k \<le> 4294967295"
    with 1(2) have "increment_ip base n \<in> used" "next_host base mx used (n + 1) = None"
      by (auto simp: next_host.simps [of base mx used n] Let_def split: if_splits)
    with 1(1) [OF _ refl] k show "increment_ip base k \<in> used"
      by (cases "k = n") auto
  qed
qed

subsection \<open>All members\<close>

text \<open>
  The members assigned so far have pairwise different host numbers below the counter, inside
  the block and not in use.
\<close>

definition assigned_by ::
  "(string \<Rightarrow> nat) \<Rightarrow> ip_addr \<Rightarrow> nat \<Rightarrow> nat \<Rightarrow> ip_addr set \<Rightarrow> nat \<Rightarrow> (string, string) btree_map \<Rightarrow> bool" where
  "assigned_by f base p mx used n m \<longleftrightarrow>
     inj_on f (dom (bm_get m)) \<and>
     (\<forall>x v. bm_get m x = Some v \<longrightarrow>
        1 \<le> f x \<and> f x < n \<and> f x \<le> mx \<and> f x \<le> 4294967295 \<and>
        v = show_cidr (increment_ip base (f x)) p \<and> increment_ip base (f x) \<notin> used)"

lemma assigned_by_insert:
  assumes "assigned_by f base p mx used n m" "next_host base mx used n = Some (ip, k)" "1 \<le> n"
  shows "assigned_by (f(x := k - 1)) base p mx used k (bm_insert x (show_cidr ip p) m)"
proof -
  note k = next_host_Some [OF assms(2)]
  have old: "f y < n" if "y \<in> dom (bm_get m)" for y using assms(1) that by (auto simp: assigned_by_def)
  have "inj_on (f(x := k - 1)) (insert x (dom (bm_get m)))"
  proof -
    have "k - 1 \<notin> f ` dom (bm_get m)" using old k by fastforce
    moreover have "inj_on f (dom (bm_get m))" using assms(1) by (simp add: assigned_by_def)
    ultimately show ?thesis by (auto intro: inj_on_fun_updI)
  qed
  moreover have "1 \<le> (f(x := k - 1)) y \<and> (f(x := k - 1)) y < k \<and> (f(x := k - 1)) y \<le> mx \<and>
      (f(x := k - 1)) y \<le> 4294967295 \<and> v = show_cidr (increment_ip base ((f(x := k - 1)) y)) p \<and>
      increment_ip base ((f(x := k - 1)) y) \<notin> used"
    if "bm_get (bm_insert x (show_cidr ip p) m) y = Some v" for y v
  proof (cases "y = x")
    case True
    then show ?thesis using that k assms(3) by auto
  next
    case False
    then have "bm_get m y = Some v" using that by simp
    then have "f y < n" using old by blast
    then have "f y < k" using k by linarith
    then show ?thesis using \<open>bm_get m y = Some v\<close> False assms(1) by (simp add: assigned_by_def)
  qed
  ultimately show ?thesis unfolding assigned_by_def by simp
qed

lemma assign_members_ok:
  assumes "assign_members base p mx used explicit n ms acc = Inr m" "1 \<le> n"
    and "assigned_by f base p mx used n acc"
  shows "\<exists>g k. assigned_by g base p mx used k m \<and>
           dom (bm_get m) = dom (bm_get acc) \<union> {x \<in> set ms. \<not> bm_contains explicit x}"
  using assms
proof (induction ms arbitrary: n acc f)
  case Nil
  then show ?case by auto
next
  case (Cons x ms)
  show ?case
  proof (cases "bm_contains explicit x")
    case True
    then show ?thesis using Cons.IH [OF _ Cons.prems(2,3)] Cons.prems(1) by auto
  next
    case False
    then obtain ip k where nh: "next_host base mx used n = Some (ip, k)"
      and rec: "assign_members base p mx used explicit k ms (bm_insert x (show_cidr ip p) acc) = Inr m"
      using Cons.prems(1) by (auto simp: show_cidr_def split: option.splits)
    have "1 \<le> k" using next_host_Some [OF nh] by linarith
    from Cons.IH [OF rec this assigned_by_insert [OF Cons.prems(3) nh Cons.prems(2)]]
    obtain g k' where g: "assigned_by g base p mx used k' m"
      "dom (bm_get m) = dom (bm_get (bm_insert x (show_cidr ip p) acc)) \<union>
         {x \<in> set ms. \<not> bm_contains explicit x}" by blast
    have "dom (bm_get m) = dom (bm_get acc) \<union> {y \<in> set (x # ms). \<not> bm_contains explicit y}"
      unfolding g(2) bm_get_insert dom_fun_upd using False by auto
    with g(1) show ?thesis by blast
  qed
qed

lemma host_number_in_block:
  assumes "p \<le> addr_bits ip" "k \<le> max_host_of (addr_bits ip - p)" "k \<le> 4294967295" "1 \<le> k"
  shows "k < 2 ^ (addr_bits ip - p) - 1"
proof (cases "63 \<le> addr_bits ip - p")
  case True
  then have "(2 :: nat) ^ 63 \<le> 2 ^ (addr_bits ip - p)" by (intro power_increasing) auto
  with assms(3) show ?thesis by simp
next
  case False
  with assms(2,4) show ?thesis by (simp add: max_host_of_def)
qed

lemma increment_ip_in_block:
  assumes net: "network_address ip p = Some base" and k: "k < 2 ^ (addr_bits ip - p)" "k \<le> 4294967295"
  shows "ip_num (increment_ip base k) = ip_num base + k" "is_ipv4 (increment_ip base k) = is_ipv4 ip"
    "ip_in_subnet (increment_ip base k) ip p"
    "ip_num (increment_ip base k) mod 2 ^ (addr_bits ip - p) = k"
proof -
  have p: "p \<le> addr_bits ip" using net network_address_eq_None [of ip p] by fastforce
  have u: "unat (of_nat k :: 128 word) = k" using k(2) by (simp add: unat_of_nat)
  obtain r where r: "ip_offset base (of_nat k) = Some r" "is_ipv4 r = is_ipv4 ip"
    "ip_num r = ip_num base + k" "ip_in_subnet r base p"
    using offset_in_block [OF net, of "of_nat k"] k(1) u by metis
  have inc: "increment_ip base k = r" using r(1) by (simp add: increment_ip_def)
  note num = network_address_Some [OF net]
  show "ip_num (increment_ip base k) = ip_num base + k" "is_ipv4 (increment_ip base k) = is_ipv4 ip"
    using r inc by simp_all
  show "ip_in_subnet (increment_ip base k) ip p"
    using r(4) inc p num addr_bits_cong [of base ip] by (simp add: ip_in_subnet_iff)
  show "ip_num (increment_ip base k) mod 2 ^ (addr_bits ip - p) = k"
    unfolding inc r(3) num(2) using k(1) by simp
qed

lemma subnet_auto_assign_Inr:
  assumes "subnet_auto_assign subnet members explicit = Inr (Some m)"
  obtains ip p base f n where "parse_cidr subnet = Inr (ip, p)" "network_address ip p = Some base"
    "assigned_by f base p (max_host_of (addr_bits ip - p)) (set (used_addresses explicit)) n m"
    "dom (bm_get m) = {x \<in> set members. \<not> bm_contains explicit x}"
proof -
  obtain ip p where cidr: "parse_cidr subnet = Inr (ip, p)"
    using assms by (auto simp: subnet_auto_assign_def split: if_splits sum.splits)
  obtain base where net: "network_address ip p = Some base"
    using network_address_exists [OF parse_cidr_Inr [OF cidr]] ..
  have w: "(if is_ipv4 base then 32 else 128) = addr_bits ip"
    using network_address_Some(1) [OF net] by (simp add: addr_bits_def)
  have run: "assign_members base p (max_host_of (addr_bits ip - p)) (set (used_addresses explicit)) explicit 1
      members bm_empty = Inr m"
    using assms cidr net
    by (auto simp: subnet_auto_assign_def w [simplified] Let_def map_sum_def split: if_splits sum.splits)
  have "assigned_by (\<lambda>_. 0) base p (max_host_of (addr_bits ip - p)) (set (used_addresses explicit)) 1 bm_empty"
    by (simp add: assigned_by_def dom_def)
  from assign_members_ok [OF run _ this] show thesis using that [OF cidr net] by auto
qed

subsection \<open>Properties\<close>

text \<open>C30.
  Addresses that are assigned automatically: exactly the members without an explicit address
  get one; each is printed with the subnet's prefix, lies in the subnet, is neither its
  network address nor its last one, is no address an explicit port holds, and no two members
  share one.
\<close>

theorem subnet_auto_assign_correct:
  assumes "subnet_auto_assign subnet members explicit = Inr (Some m)"
  shows "\<exists>ip p addr. parse_cidr subnet = Inr (ip, p) \<and>
    dom (bm_get m) = {x \<in> set members. \<not> bm_contains explicit x} \<and>
    inj_on addr (dom (bm_get m)) \<and>
    (\<forall>x v. bm_get m x = Some v \<longrightarrow>
       v = show_cidr (addr x) p \<and> parse_cidr v = Inr (addr x, p) \<and> ip_in_subnet (addr x) ip p \<and>
       addr x \<notin> set (used_addresses explicit) \<and>
       0 < ip_num (addr x) mod 2 ^ (addr_bits ip - p) \<and>
       ip_num (addr x) mod 2 ^ (addr_bits ip - p) < 2 ^ (addr_bits ip - p) - 1)"
proof -
  obtain ip p base f n where cidr: "parse_cidr subnet = Inr (ip, p)"
    and net: "network_address ip p = Some base"
    and f: "assigned_by f base p (max_host_of (addr_bits ip - p)) (set (used_addresses explicit)) n m"
    and dom: "dom (bm_get m) = {x \<in> set members. \<not> bm_contains explicit x}"
    using subnet_auto_assign_Inr [OF assms] by blast
  have p: "p \<le> addr_bits ip" using cidr by (rule parse_cidr_Inr)
  define addr where "addr x = increment_ip base (f x)" for x
  have fx: "1 \<le> f x" "f x < 2 ^ (addr_bits ip - p) - 1" "f x \<le> 4294967295"
    "v = show_cidr (addr x) p" "addr x \<notin> set (used_addresses explicit)"
    if "bm_get m x = Some v" for x v
    using that f host_number_in_block [OF p, of "f x"] by (auto simp: assigned_by_def addr_def)
  have blk: "ip_in_subnet (addr x) ip p" "ip_num (addr x) mod 2 ^ (addr_bits ip - p) = f x"
    "is_ipv4 (addr x) = is_ipv4 ip" if "bm_get m x = Some v" for x v
    using increment_ip_in_block [OF net, of "f x"] fx(2,3) [OF that] unfolding addr_def by auto
  have "inj_on addr (dom (bm_get m))"
  proof (rule inj_onI)
    fix x y
    assume xy: "x \<in> dom (bm_get m)" "y \<in> dom (bm_get m)" "addr x = addr y"
    then have "f x = f y" using blk(2) by (metis domD)
    with xy f show "x = y" by (auto simp: assigned_by_def inj_on_def)
  qed
  moreover have "parse_cidr v = Inr (addr x, p)" if "bm_get m x = Some v" for x v
    using fx(4) [OF that] parse_cidr_show [of p "addr x"] p addr_bits_cong [OF blk(3) [OF that]] by simp
  moreover have "0 < ip_num (addr x) mod 2 ^ (addr_bits ip - p) \<and>
      ip_num (addr x) mod 2 ^ (addr_bits ip - p) < 2 ^ (addr_bits ip - p) - 1"
    if "bm_get m x = Some v" for x v
    using fx(1,2) [OF that] blk(2) [OF that] by simp
  ultimately show ?thesis using cidr dom fx(4,5) blk(1) by blast
qed

theorem subnet_auto_assign_correct_witness:
  "\<exists>m. subnet_auto_assign ''10.7.3.0/24'' [''a:eth0'', ''b:eth0''] bm_empty = Inr (Some m) \<and>
     dom (bm_get m) = {''a:eth0'', ''b:eth0''}"
proof -
  have cidr: "parse_cidr ''10.7.3.0/24'' = Inr (V4 0x0A070300, 24)" by code_simp
  have net: "network_address (V4 0x0A070300) 24 = Some (V4 0x0A070300)" by code_simp
  have "\<exists>m. subnet_auto_assign ''10.7.3.0/24'' [''a:eth0'', ''b:eth0''] bm_empty = Inr (Some m)"
  proof -
    have "\<not> prefix ''auto'' ''10.7.3.0/24'' \<and> \<not> sublist ''${'' ''10.7.3.0/24''" by code_simp
    moreover have "used_addresses bm_empty = []" by code_simp
    moreover have "next_host b 254 {} 1 = Some (increment_ip b 1, 2)"
      "next_host b 254 {} 2 = Some (increment_ip b 2, 3)" for b
      by (subst next_host.simps, simp)+
    ultimately show ?thesis
      by (simp add: subnet_auto_assign_def cidr net Let_def max_host_of_def bm_contains_def)
  qed
  then obtain m where m: "subnet_auto_assign ''10.7.3.0/24'' [''a:eth0'', ''b:eth0''] bm_empty = Inr (Some m)" ..
  from subnet_auto_assign_correct [OF m] m show ?thesis by (auto simp: bm_contains_def)
qed

end
