(* ===== verification/Subnet_Pool.thy ===== *)
theory Subnet_Pool
  imports Lease_Table Subnet_Assign
begin

text \<open>
  The host-wide pool of \<open>/24\<close> subnets for \<open>subnet auto/24\<close> placeholders,
  \<open>crates/nlink-lab/src/subnet_pool.rs\<close>: allocation, release, adoption from an older pool, and the
  substitution of the placeholders in a topology. The pool file is the state; every
  operation is one read-modify-write under the pool's lock. The pool is an instance of the
  lease contract: no address is ever in the subnets of two labs.
\<close>

record pool =
  in_use :: "(string, string) btree_map"
  next_offset :: u32

definition pool_default :: pool where
  "pool_default = \<lparr>in_use = bm_empty, next_offset = 0\<rparr>"

datatype pool_error =
    Pool_Io
  | Prefix_Unsupported nat
  | Pool_Exhausted
  | Assign_Failed assign_error
  | No_Running_Subnet string

definition slot :: "nat \<Rightarrow> nat \<Rightarrow> string" where
  "slot x y = ''10.'' @ show_nat x @ ''.'' @ show_nat y @ ''.0/24''"

definition next_free_24 :: "pool \<Rightarrow> string option" where
  "next_free_24 p =
     first_some (\<lambda>x. find (\<lambda>cidr. \<not> bm_contains (in_use p) cidr) (map (slot x) [0..<256])) [0..<256]"

definition allocate :: "io_outcome \<Rightarrow> string \<Rightarrow> nat \<Rightarrow> pool \<Rightarrow> (pool_error, string) result \<times> pool" where
  "allocate io lab pfx p =
     (if pfx \<noteq> 24 then (Inl (Prefix_Unsupported pfx), p)
      else if \<not> io_lock io \<or> \<not> io_load io then (Inl Pool_Io, p)
      else (case next_free_24 p of
              None \<Rightarrow> (Inl Pool_Exhausted, p)
            | Some cidr \<Rightarrow>
                if io_save io then (Inr cidr, p\<lparr>in_use := bm_insert cidr lab (in_use p)\<rparr>)
                else (Inl Pool_Io, p)))"

definition free_for_lab :: "io_outcome \<Rightarrow> string \<Rightarrow> pool \<Rightarrow> (pool_error, string list) result \<times> pool" where
  "free_for_lab io lab p =
     (if \<not> io_lock io \<or> \<not> io_load io then (Inl Pool_Io, p)
      else
        let to_remove = map fst (filter (\<lambda>(_, owner). owner = lab) (bm_entries (in_use p)));
            p' = p\<lparr>in_use := fold bm_remove to_remove (in_use p)\<rparr>
        in if to_remove = [] then (Inr to_remove, p)
           else if io_save io then (Inr to_remove, p') else (Inl Pool_Io, p))"

text \<open>The loop over the other pool's entries of the lab.\<close>

fun adopt_entries :: "(string \<times> string) list \<Rightarrow> (string, string) btree_map \<Rightarrow> string list \<Rightarrow>
    (string, string) btree_map \<times> string list" where
  "adopt_entries [] m adopted = (m, adopted)"
| "adopt_entries ((cidr, owner) # es) m adopted =
     (if (case bm_get m cidr of Some other \<Rightarrow> other \<noteq> owner | None \<Rightarrow> False)
      then adopt_entries es m adopted
      else adopt_entries es (bm_insert cidr owner m) (adopted @ [cidr]))"

definition adopt_from ::
  "io_outcome \<Rightarrow> pool \<Rightarrow> string \<Rightarrow> pool \<Rightarrow> (pool_error, string list) result \<times> pool" where
  "adopt_from io theirs lab p =
     (if \<not> io_lock io \<or> \<not> io_load io then (Inl Pool_Io, p)
      else
        case adopt_entries (filter (\<lambda>(_, o1). o1 = lab) (bm_entries (in_use theirs))) (in_use p) [] of
          (m, adopted) \<Rightarrow>
            if adopted = [] then (Inr adopted, p)
            else if io_save io then (Inr adopted, p\<lparr>in_use := m\<rparr>) else (Inl Pool_Io, p))"

subsection \<open>Placeholders in a topology\<close>

definition parse_auto_placeholder :: "string \<Rightarrow> nat option" where
  "parse_auto_placeholder s =
     (if s = ''auto'' then Some 24
      else Option.bind (strip_prefix_str ''auto/'' s) parse_u8)"

definition port_default :: port_config where
  "port_default = \<lparr>port_interface = None, port_vlans = [], port_tagged = None, port_pvid = None,
     port_untagged = None, port_addresses = []\<rparr>"

definition push_address :: "string \<Rightarrow> string \<Rightarrow> (string, port_config) btree_map \<Rightarrow> (string, port_config) btree_map" where
  "push_address member addr ports =
     (let port = (case bm_get ports member of Some q \<Rightarrow> q | None \<Rightarrow> port_default)
      in bm_insert member (port\<lparr>port_addresses := port_addresses port @ [addr]\<rparr>) ports)"

definition set_subnet :: "string \<Rightarrow> network \<Rightarrow> (pool_error, network) result" where
  "set_subnet cidr net =
     (let explicit = bm_map (\<lambda>_. port_addresses) (bm_retain (\<lambda>_ q. port_addresses q \<noteq> []) (network_ports net))
      in case subnet_auto_assign cidr (network_members net) explicit of
           Inl e \<Rightarrow> Inl (Assign_Failed e)
         | Inr assigned \<Rightarrow>
             let es = (case assigned of Some m \<Rightarrow> bm_entries m | None \<Rightarrow> [])
             in Inr (net\<lparr>network_ports := foldl (\<lambda>ps (m, a). push_address m a ps) (network_ports net) es,
                         network_subnet := Some cidr\<rparr>))"

text \<open>
  The loop over the networks. The allocator is stateful: it takes and returns the state \<open>'s\<close>
  (for a deploy, the pool). The networks already substituted stay in the map on an error.
\<close>

fun substitute_loop ::
  "('s \<Rightarrow> nat \<Rightarrow> (pool_error, string) result \<times> 's) \<Rightarrow> (string \<times> network) list \<Rightarrow> string list \<Rightarrow>
     (string, network) btree_map \<Rightarrow> 's \<Rightarrow>
     (pool_error, string list) result \<times> (string, network) btree_map \<times> 's" where
  "substitute_loop alloc [] allocated nets s = (Inr allocated, nets, s)"
| "substitute_loop alloc ((name, net) # rest) allocated nets s =
     (case Option.bind (network_subnet net) parse_auto_placeholder of
        None \<Rightarrow> substitute_loop alloc rest allocated nets s
      | Some pfx \<Rightarrow>
          (case alloc s pfx of
             (Inl e, s') \<Rightarrow> (Inl e, nets, s')
           | (Inr cidr, s') \<Rightarrow>
               (case set_subnet cidr net of
                  Inl e \<Rightarrow> (Inl e, nets, s')
                | Inr net' \<Rightarrow>
                    substitute_loop alloc rest (allocated @ [cidr]) (bm_insert name net' nets) s')))"

definition substitute_auto_subnets ::
  "('s \<Rightarrow> nat \<Rightarrow> (pool_error, string) result \<times> 's) \<Rightarrow> topology \<Rightarrow> 's \<Rightarrow>
     (pool_error, string list) result \<times> topology \<times> 's" where
  "substitute_auto_subnets alloc t s =
     (case substitute_loop alloc (bm_entries (topo_networks t)) [] (topo_networks t) s of
        (r, nets, s') \<Rightarrow> (r, t\<lparr>topo_networks := nets\<rparr>, s'))"

fun resolve_loop ::
  "topology \<Rightarrow> (string \<times> network) list \<Rightarrow> (string, network) btree_map \<Rightarrow>
     (pool_error, (string, network) btree_map) result" where
  "resolve_loop running [] nets = Inr nets"
| "resolve_loop running ((name, net) # rest) nets =
     (case Option.bind (network_subnet net) parse_auto_placeholder of
        None \<Rightarrow> resolve_loop running rest nets
      | Some _ \<Rightarrow>
          (case Option.bind (bm_get (topo_networks running) name) network_subnet of
             None \<Rightarrow> Inl (No_Running_Subnet name)
           | Some have1 \<Rightarrow>
               if parse_auto_placeholder have1 \<noteq> None then Inl (No_Running_Subnet name)
               else and_then (set_subnet have1 net) (\<lambda>net'. resolve_loop running rest (bm_insert name net' nets))))"

definition resolve_auto_subnets :: "topology \<Rightarrow> topology \<Rightarrow> (pool_error, topology) result" where
  "resolve_auto_subnets running desired =
     and_then (resolve_loop running (bm_entries (topo_networks desired)) (topo_networks desired))
       (\<lambda>nets. Inr (desired\<lparr>topo_networks := nets\<rparr>))"

subsection \<open>Slots\<close>

lemma unat_of_nat_32: "n < 4294967296 \<Longrightarrow> unat (of_nat n :: 32 word) = n"
  by (simp add: unat_of_nat)

lemma slot_show_cidr:
  assumes "x < 256" "y < 256"
  shows "slot x y = show_cidr (V4 (of_nat (167772160 + x * 65536 + y * 256))) 24"
proof -
  let ?n = "167772160 + x * 65536 + y * 256"
  have n: "unat (of_nat ?n :: 32 word) = ?n" using assms by (intro unat_of_nat_32) simp
  have "show_nat 10 = ''10''" "show_nat 0 = ''0''" "show_nat 24 = ''24''" by code_simp+
  moreover have low: "(256 * a + b) mod 256 = b" if "b < 256" for a b :: nat using that by simp
  have "?n div 65536 = 256 * 10 + x" by (rule div_nat_eqI) (use assms in simp_all)
  then have "?n div 65536 mod 256 = x" using low [OF assms(1)] by (simp only:)
  moreover have "?n div 256 = 256 * (2560 + x) + y" by (rule div_nat_eqI) (use assms in simp_all)
  then have "?n div 256 mod 256 = y" using low [OF assms(2)] by (simp only:)
  moreover have "?n div 16777216 = 10" by (rule div_nat_eqI) (use assms in simp_all)
  moreover have "?n mod 256 = 0" by (rule mod_nat_eqI) simp_all
  ultimately show ?thesis unfolding slot_def show_cidr_def show_ip.simps n show_quad_def using assms by simp
qed

lemma slot_subnet:
  assumes "x < 256" "y < 256"
  obtains net where "parse_cidr (slot x y) = Inr (net, 24)"
    "\<And>ip. ip_in_subnet ip net 24 \<longleftrightarrow> is_ipv4 ip \<and> ip_num ip div 256 = 655360 + x * 256 + y"
proof -
  let ?n = "167772160 + x * 65536 + y * 256"
  let ?net = "V4 (of_nat ?n)"
  have w: "addr_bits ?net = 32" by (simp add: addr_bits_def)
  have n: "unat (of_nat ?n :: 32 word) = ?n" using assms by (intro unat_of_nat_32) simp
  have "parse_cidr (slot x y) = Inr (?net, 24)"
    unfolding slot_show_cidr [OF assms] by (rule parse_cidr_show) (unfold w, simp)
  moreover have "?n div 256 = 655360 + x * 256 + y" by simp
  then have "ip_in_subnet ip ?net 24 \<longleftrightarrow> is_ipv4 ip \<and> ip_num ip div 256 = 655360 + x * 256 + y" for ip
    by (subst ip_in_subnet_iff) (simp_all only: w n ip_num_simps is_ipv4.simps, simp_all add: mult.commute)
  ultimately show thesis by (rule that)
qed

definition pool_good :: "pool \<Rightarrow> bool" where
  "pool_good p \<longleftrightarrow> (\<forall>cidr \<in> dom (bm_get (in_use p)). \<exists>x y. x < 256 \<and> y < 256 \<and> cidr = slot x y)"

definition cidr_has :: "string \<Rightarrow> ip_addr \<Rightarrow> bool" where
  "cidr_has cidr ip \<longleftrightarrow> (\<exists>net p. parse_cidr cidr = Inr (net, p) \<and> ip_in_subnet ip net p)"

definition pool_holds :: "pool \<Rightarrow> string \<Rightarrow> ip_addr \<Rightarrow> bool" where
  "pool_holds p lab ip \<longleftrightarrow> (\<exists>cidr. bm_get (in_use p) cidr = Some lab \<and> cidr_has cidr ip)"

lemma slots_disjoint:
  assumes "x < 256" "y < 256" "x' < 256" "y' < 256" "cidr_has (slot x y) ip" "cidr_has (slot x' y') ip"
  shows "slot x y = slot x' y'"
proof -
  have "ip_num ip div 256 = 655360 + x * 256 + y"
    using assms(5) slot_subnet [OF assms(1,2)] unfolding cidr_has_def by (metis Pair_inject sum.inject(2))
  moreover have "ip_num ip div 256 = 655360 + x' * 256 + y'"
    using assms(6) slot_subnet [OF assms(3,4)] unfolding cidr_has_def by (metis Pair_inject sum.inject(2))
  ultimately have "x * 256 + y = x' * 256 + y'" by simp
  then have "(x * 256 + y) div 256 = (x' * 256 + y') div 256" "(x * 256 + y) mod 256 = (x' * 256 + y') mod 256"
    by simp_all
  then have "x = x'" "y = y'" using assms(2,4) by simp_all
  then show ?thesis by simp
qed

lemma good_disjoint:
  assumes "pool_good p" "bm_get (in_use p) c = Some a" "bm_get (in_use p) d = Some b"
    "cidr_has c ip" "cidr_has d ip"
  shows "c = d"
proof -
  obtain x y where "x < 256" "y < 256" "c = slot x y" using assms(1,2) unfolding pool_good_def by blast
  moreover obtain x' y' where "x' < 256" "y' < 256" "d = slot x' y'"
    using assms(1,3) unfolding pool_good_def by blast
  ultimately show ?thesis using slots_disjoint assms(4,5) by metis
qed

lemma first_some_Some: "first_some f xs = Some y \<Longrightarrow> \<exists>x \<in> set xs. f x = Some y"
  by (induction xs) (auto split: option.splits)

lemma first_some_None: "first_some f xs = None \<longleftrightarrow> (\<forall>x \<in> set xs. f x = None)"
  by (induction xs) (auto split: option.splits)

lemma next_free_24_Some:
  "next_free_24 p = Some cidr \<Longrightarrow>
     (\<exists>x y. x < 256 \<and> y < 256 \<and> cidr = slot x y) \<and> bm_get (in_use p) cidr = None"
  unfolding next_free_24_def
  by (drule first_some_Some) (auto simp: find_Some_iff bm_contains_def split: option.splits, blast)

lemma next_free_24_None:
  "next_free_24 p = None \<longleftrightarrow> (\<forall>x y. x < 256 \<longrightarrow> y < 256 \<longrightarrow> bm_contains (in_use p) (slot x y))"
  unfolding next_free_24_def first_some_None find_None_iff by (auto simp del: bm_contains_iff)

lemma allocate_Inr:
  "allocate io lab pfx p = (Inr cidr, p') \<longleftrightarrow>
     pfx = 24 \<and> io_lock io \<and> io_load io \<and> io_save io \<and> next_free_24 p = Some cidr \<and>
     p' = p\<lparr>in_use := bm_insert cidr lab (in_use p)\<rparr>"
  by (auto simp: allocate_def split: option.splits)

lemma fold_bm_remove: "bm_get (fold bm_remove ks m) k = (if k \<in> set ks then None else bm_get m k)"
  by (induction ks arbitrary: m) auto

lemma free_for_lab_Inr:
  assumes "free_for_lab io lab p = (Inr freed, p')"
  shows "set freed = {cidr. bm_get (in_use p) cidr = Some lab}"
    "bm_get (in_use p') cidr = (if bm_get (in_use p) cidr = Some lab then None else bm_get (in_use p) cidr)"
proof -
  let ?rm = "map fst (filter (\<lambda>(_, owner). owner = lab) (bm_entries (in_use p)))"
  have rm: "set ?rm = {cidr. bm_get (in_use p) cidr = Some lab}"
    by (force simp: in_bm_entries)
  have f: "freed = ?rm" using assms by (auto simp: free_for_lab_def Let_def split: if_splits)
  then show "set freed = {cidr. bm_get (in_use p) cidr = Some lab}" using rm by blast
  show "bm_get (in_use p') cidr = (if bm_get (in_use p) cidr = Some lab then None else bm_get (in_use p) cidr)"
  proof (cases "?rm = []")
    case True
    then have "\<nexists>c. bm_get (in_use p) c = Some lab" using rm by auto
    moreover have "p' = p" using assms True by (simp add: free_for_lab_def split: if_splits)
    ultimately show ?thesis by simp
  next
    case False
    then have "p' = p\<lparr>in_use := fold bm_remove ?rm (in_use p)\<rparr>"
      using assms unfolding free_for_lab_def Let_def by (simp only: if_False split: if_splits) auto
    then show ?thesis using rm by (simp add: fold_bm_remove)
  qed
qed

lemma adopt_entries_get:
  "\<forall>(c, o1) \<in> set es. o1 = lab \<Longrightarrow> adopt_entries es m ad = (m', ad') \<Longrightarrow>
     bm_get m' c = (if c \<in> fst ` set es \<and> bm_get m c = None then Some lab else bm_get m c)"
proof (induction es m ad arbitrary: rule: adopt_entries.induct)
  case (2 cidr owner es m ad)
  then show ?case by (auto split: if_splits option.splits)
qed simp

lemma adopt_entries_Nil: "adopt_entries es m ad = (m', ad') \<Longrightarrow> length ad \<le> length ad' \<and> (length ad' = length ad \<longrightarrow> m' = m)"
proof (induction es m ad rule: adopt_entries.induct)
  case (2 cidr owner es m ad)
  then show ?case by (auto split: if_splits)
qed simp

subsection \<open>The pool is a lease table\<close>

definition pool_acquire :: "pool \<Rightarrow> string \<Rightarrow> pool \<Rightarrow> bool" where
  "pool_acquire p lab p' \<longleftrightarrow>
     (\<exists>io pfx cidr. allocate io lab pfx p = (Inr cidr, p')) \<or>
     (\<exists>io theirs cidrs. pool_good theirs \<and> adopt_from io theirs lab p = (Inr cidrs, p'))"

definition pool_release :: "pool \<Rightarrow> string \<Rightarrow> pool \<Rightarrow> bool" where
  "pool_release p lab p' \<longleftrightarrow> (\<exists>io cidrs. free_for_lab io lab p = (Inr cidrs, p'))"

text \<open>Both ways of acquiring give free slots to the lab and leave the rest as it was.\<close>

lemma adopt_from_get:
  assumes "adopt_from io theirs lab p = (Inr cidrs, p')"
  shows "bm_get (in_use p') c = (if bm_get (in_use theirs) c = Some lab \<and> bm_get (in_use p) c = None
           then Some lab else bm_get (in_use p) c)"
proof -
  let ?es = "filter (\<lambda>(_, o1). o1 = lab) (bm_entries (in_use theirs))"
  obtain m ad where ad: "adopt_entries ?es (in_use p) [] = (m, ad)" by fastforce
  have es: "c \<in> fst ` set ?es \<longleftrightarrow> bm_get (in_use theirs) c = Some lab" by (force simp: in_bm_entries)
  have m: "bm_get m c = (if bm_get (in_use theirs) c = Some lab \<and> bm_get (in_use p) c = None
      then Some lab else bm_get (in_use p) c)"
    using adopt_entries_get [OF _ ad, of lab c] es by auto
  show ?thesis
  proof (cases "ad = []")
    case True
    have "m = in_use p" using adopt_entries_Nil [OF ad] True by simp
    moreover have "p' = p" using assms ad True by (auto simp: adopt_from_def split: if_splits)
    ultimately show ?thesis using m by simp
  next
    case False
    then have "p' = p\<lparr>in_use := m\<rparr>" using assms ad by (auto simp: adopt_from_def split: if_splits)
    then show ?thesis using m by simp
  qed
qed

lemma pool_acquire_get:
  assumes "pool_good p" "pool_acquire p lab p'" "bm_get (in_use p') c = Some o1"
  shows "bm_get (in_use p) c = Some o1 \<or>
         o1 = lab \<and> bm_get (in_use p) c = None \<and> (\<exists>x y. x < 256 \<and> y < 256 \<and> c = slot x y)"
  using assms(2) unfolding pool_acquire_def
proof (elim disjE exE conjE)
  fix io pfx cidr
  assume "allocate io lab pfx p = (Inr cidr, p')"
  then show ?thesis using assms(3) next_free_24_Some by (auto simp: allocate_Inr split: if_splits)
next
  fix io theirs cidrs
  assume "pool_good theirs" "adopt_from io theirs lab p = (Inr cidrs, p')"
  then show ?thesis using assms(3) adopt_from_get [of io theirs lab p cidrs p' c]
    by (auto simp: pool_good_def split: if_splits)
qed

lemma pool_acquire_keeps:
  "pool_acquire p lab p' \<Longrightarrow> bm_get (in_use p) c = Some o1 \<Longrightarrow> bm_get (in_use p') c = Some o1"
  unfolding pool_acquire_def
  using next_free_24_Some adopt_from_get by (fastforce simp: allocate_Inr)

lemma pool_acquire_good: "pool_good p \<Longrightarrow> pool_acquire p lab p' \<Longrightarrow> pool_good p'"
  using pool_acquire_get [of p lab p'] unfolding pool_good_def by blast

interpretation pool: lease_table pool_holds pool_good pool_default pool_acquire pool_release
proof
  fix p p' :: pool and l l' :: string and r :: ip_addr
  assume good: "pool_good p"
  {
    assume acq: "pool_acquire p l p'"
    then show good': "pool_good p'" using good pool_acquire_good by blast
    {
      assume "pool_holds p' l r" "pool_holds p l' r" "l' \<noteq> l"
      then obtain c d where c: "bm_get (in_use p') c = Some l" "cidr_has c r"
        and d: "bm_get (in_use p) d = Some l'" "cidr_has d r" unfolding pool_holds_def by blast
      have "c = d" using good_disjoint [OF good' c(1) pool_acquire_keeps [OF acq d(1)] c(2) d(2)] .
      with c(1) pool_acquire_keeps [OF acq d(1)] \<open>l' \<noteq> l\<close> show "pool_holds p l r" by simp
    }
    {
      assume "l' \<noteq> l"
      then show "pool_holds p' l' r \<longleftrightarrow> pool_holds p l' r"
        using pool_acquire_get [OF good acq] pool_acquire_keeps [OF acq] unfolding pool_holds_def by metis
    }
  }
  {
    assume rel: "pool_release p l p'"
    then obtain io cidrs where f: "free_for_lab io l p = (Inr cidrs, p')" by (auto simp: pool_release_def)
    note get = free_for_lab_Inr(2) [OF f]
    have "dom (bm_get (in_use p')) \<subseteq> dom (bm_get (in_use p))" by (auto simp: get split: if_splits)
    then show "pool_good p'" using good unfolding pool_good_def by blast
    show "\<not> pool_holds p' l r" by (simp add: pool_holds_def get)
    {
      assume "l' \<noteq> l"
      then show "pool_holds p' l' r \<longleftrightarrow> pool_holds p l' r"
        unfolding pool_holds_def get by (metis option.inject option.distinct(1))
    }
  }
qed (simp_all add: pool_good_def pool_default_def pool_holds_def)

lemma distinct_single: "distinct xs \<Longrightarrow> set xs = {c} \<Longrightarrow> xs = [c]"
  by (cases xs; cases "tl xs") auto

subsection \<open>Properties\<close>

text \<open>C12.
  No sequence of allocations, releases and adoptions, by any labs in any order, leads to a
  pool in which one address lies in subnets of two different labs.
\<close>

theorem pool_exclusive:
  assumes "(\<lambda>s s'. \<exists>lab. pool_acquire s lab s' \<or> pool_release s lab s')\<^sup>*\<^sup>* pool_default p"
    and "bm_get (in_use p) c = Some a" "bm_get (in_use p) d = Some b" "a \<noteq> b"
    and "parse_cidr c = Inr (nc, pc)" "parse_cidr d = Inr (nd, pd)"
  shows "\<not> (ip_in_subnet ip nc pc \<and> ip_in_subnet ip nd pd)"
proof
  assume "ip_in_subnet ip nc pc \<and> ip_in_subnet ip nd pd"
  then have "pool_holds p a ip" "pool_holds p b ip"
    using assms(2,3,5,6) unfolding pool_holds_def cidr_has_def by blast+
  then show False using pool.reachable_exclusive [OF assms(1)] assms(4) by blast
qed

theorem pool_exclusive_witness:
  "\<not> (ip_in_subnet (V4 0x0A000005) (V4 0x0A000000) 24 \<and> ip_in_subnet (V4 0x0A000005) (V4 0x0A000100) 24)"
proof -
  let ?p1 = "pool_default\<lparr>in_use := bm_insert ''10.0.0.0/24'' ''a'' bm_empty\<rparr>"
  let ?p2 = "pool_default\<lparr>in_use := bm_insert ''10.0.1.0/24'' ''b'' (bm_insert ''10.0.0.0/24'' ''a'' bm_empty)\<rparr>"
  define R where "R = (\<lambda>s s'. \<exists>lab. pool_acquire s lab s' \<or> pool_release s lab s')"
  have upt: "[0..<256] = 0 # 1 # [2..<256]" by (simp add: upt_rec)
  have slots: "slot 0 0 = ''10.0.0.0/24''" "slot 0 1 = ''10.0.1.0/24''" by code_simp+
  have "next_free_24 pool_default = Some ''10.0.0.0/24''"
    unfolding next_free_24_def upt by (simp add: slots pool_default_def bm_contains_def)
  then have "allocate io_fine ''a'' 24 pool_default = (Inr ''10.0.0.0/24'', ?p1)"
    by (simp add: allocate_Inr io_fine_def pool_default_def)
  then have 1: "R pool_default ?p1" unfolding R_def pool_acquire_def by blast
  have "next_free_24 ?p1 = Some ''10.0.1.0/24''"
    unfolding next_free_24_def upt by (simp add: slots [simplified] bm_contains_def)
  then have "allocate io_fine ''b'' 24 ?p1 = (Inr ''10.0.1.0/24'', ?p2)"
    by (simp add: allocate_Inr io_fine_def)
  then have 2: "R ?p1 ?p2" unfolding R_def pool_acquire_def by blast
  have reach: "R\<^sup>*\<^sup>* pool_default ?p2"
    by (rule rtranclp_trans [OF r_into_rtranclp [of R, OF 1] r_into_rtranclp [of R, OF 2]])
  have "parse_cidr ''10.0.0.0/24'' = Inr (V4 0x0A000000, 24)" "parse_cidr ''10.0.1.0/24'' = Inr (V4 0x0A000100, 24)"
    by code_simp+
  moreover have "bm_get (in_use ?p2) ''10.0.0.0/24'' = Some ''a''" "bm_get (in_use ?p2) ''10.0.1.0/24'' = Some ''b''"
    "''a'' \<noteq> ''b''" by simp_all
  ultimately show ?thesis using pool_exclusive [OF reach [unfolded R_def]] by blast
qed

text \<open>
  An allocation for prefix 24, with working file operations, fails exactly when all 65536
  slots \<open>10.x.y.0/24\<close> are taken; otherwise it records for the lab a slot that was free.
  Freeing the lab afterwards gives the slot back, and when the lab held nothing before, the
  pool is the one before the allocation.
\<close>

theorem allocate_free_roundtrip:
  assumes "\<forall>cidr. bm_get (in_use p) cidr \<noteq> Some lab"
  shows "(fst (allocate io_fine lab 24 p) = Inl Pool_Exhausted \<longleftrightarrow>
            (\<forall>x y. x < 256 \<longrightarrow> y < 256 \<longrightarrow> bm_contains (in_use p) (slot x y))) \<and>
         (\<forall>cidr p'. allocate io_fine lab 24 p = (Inr cidr, p') \<longrightarrow>
            bm_get (in_use p) cidr = None \<and> bm_get (in_use p') cidr = Some lab \<and>
            free_for_lab io_fine lab p' = (Inr [cidr], p))"
proof (intro conjI allI impI)
  show "fst (allocate io_fine lab 24 p) = Inl Pool_Exhausted \<longleftrightarrow>
      (\<forall>x y. x < 256 \<longrightarrow> y < 256 \<longrightarrow> bm_contains (in_use p) (slot x y))"
    unfolding next_free_24_None [symmetric] by (simp add: allocate_def io_fine_def split: option.splits)
next
  fix cidr p'
  assume "allocate io_fine lab 24 p = (Inr cidr, p')"
  then have free: "bm_get (in_use p) cidr = None" and p': "p' = p\<lparr>in_use := bm_insert cidr lab (in_use p)\<rparr>"
    using next_free_24_Some by (auto simp: allocate_Inr)
  then show "bm_get (in_use p) cidr = None" "bm_get (in_use p') cidr = Some lab" by simp_all
  let ?rm = "map fst (filter (\<lambda>(_, owner). owner = lab) (bm_entries (in_use p')))"
  have "set ?rm = {c. bm_get (in_use p') c = Some lab}" by (force simp: in_bm_entries)
  also have "\<dots> = {cidr}" using assms p' by (auto split: if_splits)
  finally have rm: "set ?rm = {cidr}" .
  have "distinct ?rm" by (rule distinct_map_filter) simp
  then have rm1: "?rm = [cidr]" using rm by (rule distinct_single)
  have "fold bm_remove [cidr] (in_use p') = in_use p"
    using p' bm.delete_update [of cidr lab "in_use p"] bm.delete_absent [of "in_use p" cidr] free by simp
  then show "free_for_lab io_fine lab p' = (Inr [cidr], p)"
    unfolding free_for_lab_def Let_def rm1 using p' by (simp add: io_fine_def)
qed

theorem allocate_free_roundtrip_witness:
  "fst (allocate io_fine ''a'' 24 pool_default) \<noteq> Inl Pool_Exhausted"
proof -
  have "\<forall>cidr. bm_get (in_use pool_default) cidr \<noteq> Some ''a''" by (simp add: pool_default_def)
  from allocate_free_roundtrip [OF this]
  have "fst (allocate io_fine ''a'' 24 pool_default) = Inl Pool_Exhausted \<longleftrightarrow>
      (\<forall>x y. x < 256 \<longrightarrow> y < 256 \<longrightarrow> bm_contains (in_use pool_default) (slot x y))" by blast
  moreover have "\<not> bm_contains (in_use pool_default) (slot 0 0)" by (simp add: pool_default_def)
  ultimately show ?thesis by (metis zero_less_numeral)
qed

subsection \<open>A failed substitution keeps its allocation\<close>

lemma members_fit:
  assumes "subnet_auto_assign subnet members explicit = Inr (Some m)" "parse_cidr subnet = Inr (ip, p)"
  shows "card {x \<in> set members. \<not> bm_contains explicit x} \<le> max_host_of (addr_bits ip - p)"
proof -
  obtain base f n where
    f: "assigned_by f base p (max_host_of (addr_bits ip - p)) (set (used_addresses explicit)) n m"
    and dom: "dom (bm_get m) = {x \<in> set members. \<not> bm_contains explicit x}"
    using subnet_auto_assign_Inr [OF assms(1)] assms(2) by (metis Pair_inject sum.inject(2))
  have "f ` dom (bm_get m) \<subseteq> {1..max_host_of (addr_bits ip - p)}"
    using f by (auto simp: assigned_by_def)
  then have "card (dom (bm_get m)) \<le> card {1..max_host_of (addr_bits ip - p)}"
    using f by (intro card_inj_on_le) (auto simp: assigned_by_def)
  then show ?thesis using dom by simp
qed

text \<open>
  When the members do not fit the allocated subnet, the substitution fails after the
  allocation was recorded: the pool keeps a subnet for a lab that was never deployed, and
  the error does not carry the list of allocated subnets.
\<close>

theorem substitute_error_keeps_allocation:
  assumes "topo_networks t = bm_insert name net bm_empty" "network_subnet net = Some ''auto/24''"
    and "bm_entries (network_ports net) = []" "254 < card (set (network_members net))"
    and "next_free_24 p = Some cidr"
  shows "\<exists>e. substitute_auto_subnets (\<lambda>s pfx. allocate io_fine lab pfx s) t p =
    (Inl e, t, p\<lparr>in_use := bm_insert cidr lab (in_use p)\<rparr>)"
proof -
  obtain x y where xy: "x < 256" "y < 256" "cidr = slot x y" using next_free_24_Some [OF assms(5)] by blast
  obtain ip where cidr: "parse_cidr cidr = Inr (ip, 24)" and v4: "is_ipv4 ip"
  proof -
    have "parse_cidr cidr = Inr (V4 (of_nat (167772160 + x * 65536 + y * 256)), 24)"
      unfolding xy(3) slot_show_cidr [OF xy(1,2)] by (rule parse_cidr_show) (simp add: addr_bits_def)
    then show thesis using that by simp
  qed
  have noexp: "bm_map (\<lambda>_. port_addresses) (bm_retain (\<lambda>_ q. port_addresses q \<noteq> []) (network_ports net)) = bm_empty"
    using assms(3) by (intro bm_ext) (simp add: bm_get_entries [of "network_ports net"])
  have "\<nexists>m. subnet_auto_assign cidr (network_members net) bm_empty = Inr (Some m)"
    using members_fit [OF _ cidr, of "network_members net" bm_empty] assms(4) v4
    by (auto simp: max_host_of_def addr_bits_def)
  moreover have "subnet_auto_assign cidr (network_members net) bm_empty \<noteq> Inr None"
  proof -
    have "\<not> prefix ''auto'' cidr" by (simp add: xy(3) slot_def)
    moreover have "CHR ''$'' \<notin> set cidr"
      using show_radix_is_digit [of 10 "CHR ''$''"] by (auto simp: xy(3) slot_def is_radix_digit_def radix_val_def digit_val_def)
    then have "\<not> sublist ''${'' cidr" using set_mono_sublist by fastforce
    ultimately show ?thesis by (auto simp: subnet_auto_assign_def Let_def map_sum_def split: sum.splits)
  qed
  ultimately obtain e where "subnet_auto_assign cidr (network_members net) bm_empty = Inl e"
    by (metis option.exhaust sum.exhaust)
  then have set: "set_subnet cidr net = Inl (Assign_Failed e)" by (simp add: set_subnet_def noexp)
  have "parse_auto_placeholder ''auto/24'' = Some 24" by code_simp
  moreover have "bm_entries (bm_insert name net bm_empty) = [(name, net)]"
    by (simp add: bm_insert.rep_eq bm_empty.rep_eq)
  moreover have "allocate io_fine lab 24 p = (Inr cidr, p\<lparr>in_use := bm_insert cidr lab (in_use p)\<rparr>)"
    using assms(5) by (simp add: allocate_Inr io_fine_def)
  ultimately show ?thesis using assms(1,2) set by (simp add: substitute_auto_subnets_def)
qed

definition crowded_network :: network where
  "crowded_network = \<lparr>network_kind = None, network_vlan_filtering = None, network_mtu = None,
     network_subnet = Some ''auto/24'', network_members = map (\<lambda>i. ''n'' @ show_nat i @ '':eth0'') [0..<255],
     network_vlans = bm_empty, network_ports = bm_empty, network_impairments = []\<rparr>"

theorem substitute_error_keeps_allocation_witness:
  "\<exists>e. substitute_auto_subnets (\<lambda>s pfx. allocate io_fine ''l'' pfx s)
     (topology_default\<lparr>topo_networks := bm_insert ''lan'' crowded_network bm_empty\<rparr>) pool_default =
     (Inl e, topology_default\<lparr>topo_networks := bm_insert ''lan'' crowded_network bm_empty\<rparr>,
      pool_default\<lparr>in_use := bm_insert ''10.0.0.0/24'' ''l'' bm_empty\<rparr>)"
proof -
  let ?t = "topology_default\<lparr>topo_networks := bm_insert ''lan'' crowded_network bm_empty\<rparr>"
  have "inj (\<lambda>i. ''n'' @ show_nat i @ '':eth0'')" by (rule injI) (simp add: show_nat_inject)
  then have "card (set (network_members crowded_network)) = 255"
    by (simp add: crowded_network_def card_image inj_on_subset)
  then have many: "254 < card (set (network_members crowded_network))" by simp
  have upt: "[0..<256] = 0 # [1..<256]" by (simp add: upt_rec)
  have slots: "slot 0 0 = ''10.0.0.0/24''" by code_simp
  have free: "next_free_24 pool_default = Some ''10.0.0.0/24''"
    unfolding next_free_24_def upt by (simp add: slots pool_default_def bm_contains_def)
  have "topo_networks ?t = bm_insert ''lan'' crowded_network bm_empty"
    "network_subnet crowded_network = Some ''auto/24''" "bm_entries (network_ports crowded_network) = []"
    by (simp_all add: crowded_network_def bm_empty.rep_eq)
  from substitute_error_keeps_allocation [OF this many free, of "''l''"] show ?thesis
    by (simp add: pool_default_def)
qed

end
