(* ===== verification/Host_Registry.thy ===== *)
theory Host_Registry
  imports Lease_Table Topology_Ops
begin

text \<open>
  What labs claim in the host's own network namespace, \<open>crates/nlink-lab/src/host_registry.rs\<close>:
  a registry of one claim per lab (a management subnet and bridge names), with \<open>claim\<close>,
  \<open>release\<close>, \<open>all\<close>, \<open>stale\<close> and \<open>rebuild\<close>. The registry file is the state; an absent file is the
  empty registry. The registry is an instance of the lease contract: no address and no
  bridge is ever claimed by two labs.
\<close>

record claims =
  claim_mgmt :: "string option"
  claim_bridges :: "string list"

type_synonym registry = "(string, claims) btree_map"

definition tap_bridges :: "topology \<Rightarrow> string list" where
  "tap_bridges t =
     map (\<lambda>(name, _). tap_bridge_name (topo_lab t) name)
       (filter (\<lambda>(_, n). case node_foreign n of
                            Some f \<Rightarrow> (case foreign_target_of f of Tap _ \<Rightarrow> True | _ \<Rightarrow> False)
                          | None \<Rightarrow> False) (bm_entries (topo_nodes t)))"

definition claims_of :: "topology \<Rightarrow> claims option" where
  "claims_of t =
     (let mgmt = (if lab_mgmt_host_reachable (topo_lab t) then lab_mgmt_subnet (topo_lab t) else None);
          bridges = (case mgmt of Some _ \<Rightarrow> [mgmt_bridge_name (topo_lab t)] | None \<Rightarrow> []) @ tap_bridges t
      in if mgmt \<noteq> None \<or> bridges \<noteq> []
         then Some \<lparr>claim_mgmt = mgmt, claim_bridges = bridges\<rparr> else None)"

text \<open>Whether two CIDRs share an address; \<open>None\<close> is the prefix subtraction that would panic.\<close>

definition overlaps :: "string \<Rightarrow> string \<Rightarrow> bool option" where
  "overlaps a b =
     (case (parse_cidr a, parse_cidr b) of
        (Inr (ia, pa), Inr (ib, pb)) \<Rightarrow>
          if is_ipv4 ia \<noteq> is_ipv4 ib then Some False
          else let shorter = min pa pb in
               map_option (\<lambda>na. ip_in_subnet ib na shorter) (network_address ia shorter)
      | _ \<Rightarrow> Some False)"

datatype registry_error =
    Reg_Io
  | Mgmt_Overlap string string string
  | Bridge_Taken string string
  | Reg_Panic

text \<open>
  The loop over the other labs in name order: \<open>Inr None\<close> is no conflict, \<open>Inr (Some e)\<close> the first
  conflict.
\<close>

fun conflict_with :: "string \<Rightarrow> claims \<Rightarrow> (string \<times> claims) list \<Rightarrow>
    (registry_error, registry_error option) result" where
  "conflict_with lab c [] = Inr None"
| "conflict_with lab c ((other, theirs) # rest) =
     (if other = lab then conflict_with lab c rest
      else
        let subnets = (case (claim_mgmt c, claim_mgmt theirs) of
                         (Some mine, Some their) \<Rightarrow>
                           (case overlaps mine their of
                              None \<Rightarrow> Inl Reg_Panic
                            | Some True \<Rightarrow> Inr (Some (Mgmt_Overlap mine other their))
                            | Some False \<Rightarrow> Inr None)
                       | _ \<Rightarrow> Inr None) in
        and_then subnets (\<lambda>hit.
          case hit of
            Some e \<Rightarrow> Inr (Some e)
          | None \<Rightarrow>
              (case find (\<lambda>b. b \<in> set (claim_bridges theirs)) (claim_bridges c) of
                 Some b \<Rightarrow> Inr (Some (Bridge_Taken b other))
               | None \<Rightarrow> conflict_with lab c rest)))"

definition conflict :: "registry \<Rightarrow> string \<Rightarrow> claims \<Rightarrow> (registry_error, registry_error option) result" where
  "conflict reg lab c = conflict_with lab c (bm_entries reg)"

definition claim ::
  "io_outcome \<Rightarrow> string \<Rightarrow> claims \<Rightarrow> registry \<Rightarrow> (registry_error, unit) result \<times> registry" where
  "claim io lab c reg =
     (if \<not> io_lock io \<or> \<not> io_load io then (Inl Reg_Io, reg)
      else (case conflict reg lab c of
              Inl e \<Rightarrow> (Inl e, reg)
            | Inr (Some e) \<Rightarrow> (Inl e, reg)
            | Inr None \<Rightarrow> if io_save io then (Inr (), bm_insert lab c reg) else (Inl Reg_Io, reg)))"

definition release :: "io_outcome \<Rightarrow> string \<Rightarrow> registry \<Rightarrow> (registry_error, unit) result \<times> registry" where
  "release io lab reg =
     (if \<not> io_lock io \<or> \<not> io_load io then (Inl Reg_Io, reg)
      else if bm_contains reg lab
      then (if io_save io then (Inr (), bm_remove lab reg) else (Inl Reg_Io, reg))
      else (Inr (), reg))"

definition all_claims :: "io_outcome \<Rightarrow> registry \<Rightarrow> (registry_error, registry) result" where
  "all_claims io reg = (if io_lock io \<and> io_load io then Inr reg else Inl Reg_Io)"

text \<open>Whether a lab has state is a question to the state directory: the argument \<open>state_exists\<close>.\<close>

definition stale :: "(string \<Rightarrow> bool) \<Rightarrow> io_outcome \<Rightarrow> registry \<Rightarrow> (registry_error, string list) result" where
  "stale state_exists io reg =
     and_then (all_claims io reg) (\<lambda>m. Inr (filter (\<lambda>lab. \<not> state_exists lab) (bm_keys m)))"

definition rebuild ::
  "io_outcome \<Rightarrow> (string \<times> topology) list \<Rightarrow> registry \<Rightarrow> (registry_error, nat) result \<times> registry" where
  "rebuild io labs reg =
     (if \<not> io_lock io then (Inl Reg_Io, reg)
      else
        let m = bm_of_list (List.map_filter (\<lambda>(name, t). map_option (\<lambda>c. (name, c)) (claims_of t)) labs) in
        if io_save io then (Inr (length (bm_entries m)), m) else (Inl Reg_Io, reg))"

subsection \<open>Overlap means a shared address\<close>

lemma share_address_iff:
  assumes fam: "is_ipv4 ia = is_ipv4 ib" and pa: "pa \<le> addr_bits ia" and pb: "pb \<le> addr_bits ib"
  shows "ip_num ib div 2 ^ (addr_bits ia - min pa pb) = ip_num ia div 2 ^ (addr_bits ia - min pa pb) \<longleftrightarrow>
    (\<exists>ip. ip_in_subnet ip ia pa \<and> ip_in_subnet ip ib pb)" (is "?l \<longleftrightarrow> ?r")
proof
  let ?w = "addr_bits ia" and ?s = "min pa pb"
  have w: "addr_bits ib = ?w" using fam addr_bits_cong by metis
  {
    assume ?l
    have "ip_in_subnet ia ib pb \<or> ip_in_subnet ib ia pa"
      using \<open>?l\<close> fam pa pb w by (cases "pa \<le> pb") (auto simp: ip_in_subnet_iff min_def)
    moreover have "ip_in_subnet ia ia pa" "ip_in_subnet ib ib pb"
      using pa pb by (simp_all add: ip_in_subnet_iff)
    ultimately show ?r by blast
  next
    assume ?r
    then obtain ip where ip: "ip_num ip div 2 ^ (?w - pa) = ip_num ia div 2 ^ (?w - pa)"
      "ip_num ip div 2 ^ (?w - pb) = ip_num ib div 2 ^ (?w - pb)"
      using pa pb w by (auto simp: ip_in_subnet_iff)
    have up: "x div 2 ^ (?w - ?s) = x div 2 ^ (?w - q) div 2 ^ (q - ?s)" if "?s \<le> q" "q \<le> ?w" for x q :: nat
      using that by (simp add: div_mult2_eq [symmetric] power_add [symmetric])
    have "ip_num ip div 2 ^ (?w - ?s) = ip_num ia div 2 ^ (?w - ?s)"
      using up [of pa] pa ip(1) by simp
    moreover have "ip_num ip div 2 ^ (?w - ?s) = ip_num ib div 2 ^ (?w - ?s)"
      using up [of pb] pb w ip(2) by simp
    ultimately show ?l by simp
  }
qed

lemma overlaps_parsed:
  assumes "parse_cidr a = Inr (ia, pa)" "parse_cidr b = Inr (ib, pb)"
  shows "overlaps a b = Some (\<exists>ip. ip_in_subnet ip ia pa \<and> ip_in_subnet ip ib pb)"
proof -
  have pa: "pa \<le> addr_bits ia" and pb: "pb \<le> addr_bits ib"
    using assms by (auto intro: parse_cidr_Inr)
  show ?thesis
  proof (cases "is_ipv4 ia = is_ipv4 ib")
    case False
    then show ?thesis using assms pa pb by (auto simp: overlaps_def ip_in_subnet_iff)
  next
    case True
    let ?w = "addr_bits ia" and ?s = "min pa pb"
    have "?s \<le> ?w" using pa by simp
    then obtain na where na: "network_address ia ?s = Some na" using network_address_exists by blast
    note num = network_address_Some [OF na]
    have "ip_in_subnet ib na ?s \<longleftrightarrow> ip_num ib div 2 ^ (?w - ?s) = ip_num ia div 2 ^ (?w - ?s)"
      using num True pa addr_bits_cong [OF num(1)] by (simp add: ip_in_subnet_iff)
    also note share_address_iff [OF True pa pb]
    finally show ?thesis using assms True na by (simp add: overlaps_def Let_def)
  qed
qed

lemma overlaps_not_None: "overlaps a b \<noteq> None"
proof (cases "\<exists>x y. parse_cidr a = Inr x \<and> parse_cidr b = Inr y")
  case True
  then show ?thesis using overlaps_parsed by fastforce
next
  case False
  then show ?thesis by (auto simp: overlaps_def split: sum.splits)
qed

lemma overlaps_cases: "overlaps a b = Some True \<or> overlaps a b = Some False"
  using overlaps_not_None [of a b] by (cases "overlaps a b") auto

subsection \<open>Conflicts\<close>

lemma conflict_with_never_panics: "\<exists>x. conflict_with lab c es = Inr x"
proof (induction lab c es rule: conflict_with.induct)
  case (2 lab c other theirs rest)
  have ov: "\<exists>v. overlaps a b = Some v" for a b using overlaps_not_None by blast
  show ?case
  proof (cases "other = lab")
    case True
    then show ?thesis using 2(1) by simp
  next
    case False
    let ?sub = "(case (claim_mgmt c, claim_mgmt theirs) of
         (Some mine, Some their) \<Rightarrow>
           (case overlaps mine their of
              None \<Rightarrow> Inl Reg_Panic
            | Some True \<Rightarrow> Inr (Some (Mgmt_Overlap mine other their))
            | Some False \<Rightarrow> Inr None)
       | _ \<Rightarrow> Inr None)"
    have "\<exists>hit. ?sub = Inr hit"
      using ov by (cases "claim_mgmt c"; cases "claim_mgmt theirs") (auto split: option.splits bool.splits)
    then obtain hit where sub: "?sub = Inr hit" by blast
    show ?thesis
    proof (cases hit)
      case None
      then show ?thesis
        using False sub 2(2) by (simp add: Let_def split: option.splits)
    next
      case (Some e)
      then show ?thesis using False sub by (simp add: Let_def)
    qed
  qed
qed simp

lemma conflict_with_error: "conflict_with lab c es = Inr x \<Longrightarrow> x \<noteq> Some Reg_Panic"
  by (induction lab c es rule: conflict_with.induct)
    (auto simp: Let_def split: if_splits option.splits bool.splits)

text \<open>Two claims are compatible when their subnets share no address and they share no bridge.\<close>

definition compatible :: "claims \<Rightarrow> claims \<Rightarrow> bool" where
  "compatible c d \<longleftrightarrow>
     (\<forall>a b. claim_mgmt c = Some a \<longrightarrow> claim_mgmt d = Some b \<longrightarrow> overlaps a b \<noteq> Some True) \<and>
     set (claim_bridges c) \<inter> set (claim_bridges d) = {}"

lemma conflict_with_None:
  "conflict_with lab c es = Inr None \<longleftrightarrow> (\<forall>(other, d) \<in> set es. other \<noteq> lab \<longrightarrow> compatible c d)"
proof (induction lab c es rule: conflict_with.induct)
  case (2 lab c other theirs rest)
  have find: "find (\<lambda>b. b \<in> set ds) bs = None \<longleftrightarrow> set bs \<inter> set ds = {}" for bs ds :: "string list"
    by (auto simp: find_None_iff)
  show ?case
  proof (cases "other = lab")
    case True
    then show ?thesis using 2(1) by simp
  next
    case False
    show ?thesis
    proof (cases "\<exists>a b. claim_mgmt c = Some a \<and> claim_mgmt theirs = Some b \<and> overlaps a b = Some True")
      case True
      then show ?thesis using False by (auto simp: compatible_def Let_def)
    next
      case no: False
      have ov: "overlaps a b = Some False" if "claim_mgmt c = Some a" "claim_mgmt theirs = Some b" for a b
        using no that overlaps_cases by blast
      have sub: "(case (claim_mgmt c, claim_mgmt theirs) of
         (Some mine, Some their) \<Rightarrow>
           (case overlaps mine their of
              None \<Rightarrow> Inl Reg_Panic
            | Some True \<Rightarrow> Inr (Some (Mgmt_Overlap mine other their))
            | Some False \<Rightarrow> Inr None)
       | _ \<Rightarrow> Inr None) = Inr None"
        using ov by (auto split: option.splits)
      have comp: "compatible c theirs \<longleftrightarrow> set (claim_bridges c) \<inter> set (claim_bridges theirs) = {}"
        using no by (auto simp: compatible_def)
      show ?thesis
      proof (cases "find (\<lambda>b. b \<in> set (claim_bridges theirs)) (claim_bridges c)")
        case None
        then have "compatible c theirs" using find comp by blast
        then show ?thesis using False sub None 2(2) [OF False refl None] by (simp add: Let_def)
      next
        case (Some b)
        then have "\<not> compatible c theirs" using find [of "claim_bridges theirs" "claim_bridges c"] comp by auto
        then show ?thesis using False sub Some by (simp add: Let_def)
      qed
    qed
  qed
qed simp

subsection \<open>The registry is a lease table\<close>

datatype host_resource = Host_Address ip_addr | Host_Bridge string

fun claim_holds :: "claims \<Rightarrow> host_resource \<Rightarrow> bool" where
  "claim_holds c (Host_Address ip) =
     (\<exists>s net p. claim_mgmt c = Some s \<and> parse_cidr s = Inr (net, p) \<and> ip_in_subnet ip net p)"
| "claim_holds c (Host_Bridge b) \<longleftrightarrow> b \<in> set (claim_bridges c)"

definition reg_holds :: "registry \<Rightarrow> string \<Rightarrow> host_resource \<Rightarrow> bool" where
  "reg_holds reg lab r \<longleftrightarrow> (\<exists>c. bm_get reg lab = Some c \<and> claim_holds c r)"

definition reg_acquire :: "registry \<Rightarrow> string \<Rightarrow> registry \<Rightarrow> bool" where
  "reg_acquire reg lab reg' \<longleftrightarrow> (\<exists>io c. claim io lab c reg = (Inr (), reg'))"

definition reg_release :: "registry \<Rightarrow> string \<Rightarrow> registry \<Rightarrow> bool" where
  "reg_release reg lab reg' \<longleftrightarrow> (\<exists>io. release io lab reg = (Inr (), reg'))"

lemma compatible_holds: "compatible c d \<Longrightarrow> claim_holds c r \<Longrightarrow> claim_holds d r \<Longrightarrow> False"
  by (cases r) (auto simp: compatible_def overlaps_parsed)

lemma claim_Inr:
  "claim io lab c reg = (Inr (), reg') \<longleftrightarrow>
     io_lock io \<and> io_load io \<and> io_save io \<and> reg' = bm_insert lab c reg \<and>
     (\<forall>other d. bm_get reg other = Some d \<longrightarrow> other \<noteq> lab \<longrightarrow> compatible c d)"
proof -
  have "conflict reg lab c = Inr None \<longleftrightarrow>
      (\<forall>other d. bm_get reg other = Some d \<longrightarrow> other \<noteq> lab \<longrightarrow> compatible c d)"
    unfolding conflict_def conflict_with_None by (auto simp: in_bm_entries)
  then show ?thesis by (auto simp: claim_def split: sum.splits option.splits)
qed

lemma release_Inr:
  "release io lab reg = (Inr (), reg') \<longleftrightarrow>
     io_lock io \<and> io_load io \<and> (bm_contains reg lab \<longrightarrow> io_save io) \<and> reg' = bm_remove lab reg"
  using bm.delete_absent [of reg lab] by (auto simp: release_def split: if_splits)

interpretation reg: lease_table reg_holds "\<lambda>_. True" bm_empty reg_acquire reg_release
proof
  fix s s' :: registry and l l' :: string and r :: host_resource
  assume a: "reg_acquire s l s'" "reg_holds s' l r" "reg_holds s l' r" "l' \<noteq> l"
  then obtain io c where c: "claim io l c s = (Inr (), s')" by (auto simp: reg_acquire_def)
  then have "claim_holds c r" using a(2) by (auto simp: claim_Inr reg_holds_def)
  moreover obtain d where "bm_get s l' = Some d" "claim_holds d r" using a(3) by (auto simp: reg_holds_def)
  moreover from this have "compatible c d" using c a(4) by (auto simp: claim_Inr)
  ultimately show "reg_holds s l r" using compatible_holds by blast
qed (auto simp: reg_holds_def reg_acquire_def reg_release_def claim_Inr release_Inr)

subsection \<open>Properties\<close>

text \<open>C7.
  No sequence of successful claims and releases, by any labs in any order, leads to a
  registry in which two labs hold the same host address or the same bridge.
\<close>

theorem registry_exclusive:
  assumes "(\<lambda>s s'. \<exists>lab. (\<exists>io c. claim io lab c s = (Inr (), s')) \<or> (\<exists>io. release io lab s = (Inr (), s')))\<^sup>*\<^sup>* bm_empty reg"
    and "bm_get reg a = Some c" "bm_get reg b = Some d" "a \<noteq> b"
  shows "set (claim_bridges c) \<inter> set (claim_bridges d) = {} \<and>
         (\<forall>s t na pa nb pb ip. claim_mgmt c = Some s \<longrightarrow> claim_mgmt d = Some t \<longrightarrow>
            parse_cidr s = Inr (na, pa) \<longrightarrow> parse_cidr t = Inr (nb, pb) \<longrightarrow>
            \<not> (ip_in_subnet ip na pa \<and> ip_in_subnet ip nb pb))"
proof -
  have "(\<lambda>s s'. \<exists>l. reg_acquire s l s' \<or> reg_release s l s')\<^sup>*\<^sup>* bm_empty reg"
    using assms(1) by (simp add: reg_acquire_def reg_release_def)
  from reg.reachable_exclusive [OF this] have ex: "reg_holds reg x r \<Longrightarrow> reg_holds reg y r \<Longrightarrow> x = y" for x y r
    by blast
  have disj: "\<not> (claim_holds c r \<and> claim_holds d r)" for r
    using ex [of a r b] assms(2-4) by (auto simp: reg_holds_def)
  show ?thesis
  proof (intro conjI allI impI)
    show "set (claim_bridges c) \<inter> set (claim_bridges d) = {}" using disj [of "Host_Bridge x" for x] by auto
  next
    fix s t na pa nb pb ip
    assume "claim_mgmt c = Some s" "claim_mgmt d = Some t"
      "parse_cidr s = Inr (na, pa)" "parse_cidr t = Inr (nb, pb)"
    then show "\<not> (ip_in_subnet ip na pa \<and> ip_in_subnet ip nb pb)"
      using disj [of "Host_Address ip"] by auto
  qed
qed

theorem registry_exclusive_witness:
  "set (claim_bridges \<lparr>claim_mgmt = None, claim_bridges = [''nl1'']\<rparr>) \<inter>
   set (claim_bridges \<lparr>claim_mgmt = None, claim_bridges = [''nl2'']\<rparr>) = {}"
proof -
  let ?c = "\<lparr>claim_mgmt = None, claim_bridges = [''nl1'']\<rparr>"
  let ?d = "\<lparr>claim_mgmt = None, claim_bridges = [''nl2'']\<rparr>"
  define R where "R = (\<lambda>s s'. \<exists>lab. (\<exists>io c. claim io lab c s = (Inr (), s')) \<or> (\<exists>io. release io lab s = (Inr (), s')))"
  let ?s = "bm_insert ''a'' ?c bm_empty"
  have "claim io_fine ''a'' ?c bm_empty = (Inr (), ?s)" by (simp add: claim_Inr io_fine_def)
  then have 1: "R bm_empty ?s" unfolding R_def by blast
  have "claim io_fine ''b'' ?d ?s = (Inr (), bm_insert ''b'' ?d ?s)"
    by (simp add: claim_Inr io_fine_def compatible_def)
  then have 2: "R ?s (bm_insert ''b'' ?d ?s)" unfolding R_def by blast
  have reach: "R\<^sup>*\<^sup>* bm_empty (bm_insert ''b'' ?d ?s)" 
    by (rule rtranclp_trans [OF r_into_rtranclp [of R, OF 1] r_into_rtranclp [of R, OF 2]])
  have "bm_get (bm_insert ''b'' ?d ?s) ''a'' = Some ?c" "bm_get (bm_insert ''b'' ?d ?s) ''b'' = Some ?d"
    by simp_all
  from registry_exclusive [OF reach [unfolded R_def] this] show ?thesis by simp
qed

text \<open>
  A claim succeeds exactly when the lock, the read and the write do and no other lab's claim
  overlaps the subnet or names a bridge of it; then it replaces the lab's own earlier claim
  and leaves every other lab's as it was. A claim that fails changes nothing, and the
  overlap test itself never panics.
\<close>

theorem claim_correct:
  "(\<forall>reg'. claim io lab c reg = (Inr (), reg') \<longleftrightarrow>
      io_lock io \<and> io_load io \<and> io_save io \<and> reg' = bm_insert lab c reg \<and>
      (\<forall>other d. bm_get reg other = Some d \<longrightarrow> other \<noteq> lab \<longrightarrow>
         set (claim_bridges c) \<inter> set (claim_bridges d) = {} \<and>
         (\<forall>s t. claim_mgmt c = Some s \<longrightarrow> claim_mgmt d = Some t \<longrightarrow> overlaps s t \<noteq> Some True))) \<and>
   (\<forall>e reg'. claim io lab c reg = (Inl e, reg') \<longrightarrow> reg' = reg \<and> e \<noteq> Reg_Panic)"
proof (intro conjI allI impI)
  fix e reg'
  assume err: "claim io lab c reg = (Inl e, reg')"
  then show "reg' = reg" by (auto simp: claim_def split: if_splits sum.splits option.splits)
  obtain x where x: "conflict reg lab c = Inr x" using conflict_with_never_panics unfolding conflict_def by blast
  have "x \<noteq> Some Reg_Panic" using x conflict_with_error unfolding conflict_def by blast
  with err x show "e \<noteq> Reg_Panic" by (auto simp: claim_def split: if_splits option.splits)
qed (simp add: claim_Inr compatible_def, blast)

theorem claim_correct_witness:
  "claim io_fine ''b'' \<lparr>claim_mgmt = Some ''10.1.0.0/16'', claim_bridges = [''nl2'']\<rparr>
     (bm_insert ''a'' \<lparr>claim_mgmt = Some ''10.2.0.0/16'', claim_bridges = [''nl1'']\<rparr> bm_empty) =
   (Inr (), bm_insert ''b'' \<lparr>claim_mgmt = Some ''10.1.0.0/16'', claim_bridges = [''nl2'']\<rparr>
     (bm_insert ''a'' \<lparr>claim_mgmt = Some ''10.2.0.0/16'', claim_bridges = [''nl1'']\<rparr> bm_empty))"
proof -
  have "overlaps ''10.1.0.0/16'' ''10.2.0.0/16'' = Some False" by code_simp
  then show ?thesis
    by (subst claim_correct [THEN conjunct1, rule_format]) (auto simp: io_fine_def split: if_splits)
qed

end
