(* ===== verification/Start_Order.thy ===== *)
theory Start_Order
  imports Topology_Ops Deploy_Op
begin

text \<open>
  The planner helpers of the process stage, \<open>crates/nlink-lab/src/deploy/plan/process.rs\<close>: the
  create options of a container node and the order in which nodes start, a topological sort
  of \<open>depends_on\<close> by Kahn's algorithm over two \<open>BTreeMap\<close>s (the in-degrees and the dependents)
  and a \<open>Vec\<close> used as a stack.

  The decrement of an in-degree is unsigned; a decrement of zero is the outcome \<open>None\<close>, and the
  theorems show that it never happens, whatever the nodes depend on.
\<close>

subsection \<open>Create options\<close>

definition is_alnum :: "char \<Rightarrow> bool" where
  "is_alnum c \<longleftrightarrow> (CHR ''0'' \<le> c \<and> c \<le> CHR ''9'') \<or> (CHR ''a'' \<le> c \<and> c \<le> CHR ''z'') \<or>
     (CHR ''A'' \<le> c \<and> c \<le> CHR ''Z'')"

definition is_hostname :: "string \<Rightarrow> bool" where
  "is_hostname name \<longleftrightarrow> name \<noteq> [] \<and> length name \<le> 63 \<and> hd name \<noteq> CHR ''-'' \<and>
     last name \<noteq> CHR ''-'' \<and> list_all (\<lambda>b. is_alnum b \<or> b = CHR ''-'') name"

definition build_create_opts :: "string \<Rightarrow> node \<Rightarrow> string list \<Rightarrow> string option \<Rightarrow> create_opts" where
  "build_create_opts name n extra_hosts base =
     (let host = (\<lambda>p. case base of Some b \<Rightarrow> if path_is_absolute p then p else path_join b p
                                 | None \<Rightarrow> p) in
      \<lparr>opt_cmd = node_cmd n,
       opt_env = (case node_env n of Some e \<Rightarrow> e | None \<Rightarrow> bm_empty),
       opt_volumes = (case node_volumes n of Some v \<Rightarrow> v | None \<Rightarrow> []),
       opt_cpu = node_cpu n, opt_memory = node_memory n, opt_privileged = node_privileged n,
       opt_cap_add = node_cap_add n, opt_cap_drop = node_cap_drop n,
       opt_entrypoint = node_entrypoint n,
       opt_hostname = (case node_hostname n of Some h \<Rightarrow> Some h
                       | None \<Rightarrow> if is_hostname name then Some name else None),
       opt_workdir = node_workdir n, opt_labels = node_labels n, opt_extra_hosts = extra_hosts,
       opt_configs = map (\<lambda>(h, c). (host h, c)) (node_configs n),
       opt_env_file = map_option host (node_env_file n),
       opt_overlay = map_option host (node_overlay n)\<rparr>)"

subsection \<open>The sort\<close>

type_synonym degrees = "(string, nat) btree_map"
type_synonym adjacency = "(string, string list) btree_map"

definition or_insert :: "'k :: linorder \<Rightarrow> 'v \<Rightarrow> ('k, 'v) btree_map \<Rightarrow> 'v" where
  "or_insert k v m = (case bm_get m k of Some w \<Rightarrow> w | None \<Rightarrow> v)"

fun add_dep :: "string \<Rightarrow> string \<Rightarrow> degrees \<times> adjacency \<Rightarrow> degrees \<times> adjacency" where
  "add_dep name dep (deg, adj) =
     (bm_insert name (or_insert name 0 deg + 1) deg, bm_insert dep (or_insert dep [] adj @ [name]) adj)"

fun add_node :: "string \<times> node \<Rightarrow> degrees \<times> adjacency \<Rightarrow> degrees \<times> adjacency" where
  "add_node (name, n) (deg, adj) =
     fold (add_dep name) (node_depends_on n) (bm_insert name (or_insert name 0 deg) deg, adj)"

definition dependency_graph :: "(string, node) btree_map \<Rightarrow> degrees \<times> adjacency" where
  "dependency_graph nodes = fold add_node (bm_entries nodes) (bm_empty, bm_empty)"

text \<open>The loop over the dependents of a visited node, with the vector \<open>ready\<close>.\<close>

fun visit_dependents :: "string list \<Rightarrow> degrees \<Rightarrow> string list \<Rightarrow> (degrees \<times> string list) option" where
  "visit_dependents [] deg ready = Some (deg, ready)"
| "visit_dependents (dep # ds) deg ready =
     (case bm_get deg dep of
        None \<Rightarrow> visit_dependents ds deg ready
      | Some 0 \<Rightarrow> None
      | Some (Suc d) \<Rightarrow>
          visit_dependents ds (bm_insert dep d deg) (if d = 0 then ready @ [dep] else ready))"

definition degree_sum :: "degrees \<Rightarrow> nat" where
  "degree_sum deg = (\<Sum>k \<in> dom (bm_get deg). the (bm_get deg k))"

lemma degree_sum_pred:
  assumes "bm_get deg k = Some (Suc d)"
  shows "degree_sum deg = Suc (degree_sum (bm_insert k d deg))"
proof -
  have "k \<in> dom (bm_get deg)" using assms by blast
  then have "degree_sum deg = Suc d + (\<Sum>x \<in> dom (bm_get deg) - {k}. the (bm_get deg x))"
    and "degree_sum (bm_insert k d deg) = d + (\<Sum>x \<in> dom (bm_get deg) - {k}. the (bm_get (bm_insert k d deg) x))"
    using assms by (simp_all add: degree_sum_def sum.remove insert_absorb)
  moreover have "(\<Sum>x \<in> dom (bm_get deg) - {k}. the (bm_get (bm_insert k d deg) x)) =
      (\<Sum>x \<in> dom (bm_get deg) - {k}. the (bm_get deg x))"
    by (rule sum.cong) auto
  ultimately show ?thesis by simp
qed

lemma visit_dependents_decreases:
  "visit_dependents ds deg ready = Some (deg', ready') \<Longrightarrow>
     degree_sum deg' + length ready' \<le> degree_sum deg + length ready"
  by (induction ds deg ready rule: visit_dependents.induct)
    (fastforce dest: degree_sum_pred split: option.splits nat.splits if_splits)+

text \<open>The stack is a \<open>Vec\<close>: \<open>pop\<close> takes from the back.\<close>

function visit_all :: "adjacency \<Rightarrow> degrees \<Rightarrow> string list \<Rightarrow> string list \<Rightarrow> string list option" where
  "visit_all adj deg queue result =
     (if queue = [] then Some result
      else
        let n = last queue; queue = butlast queue; result = result @ [n] in
        case bm_get adj n of
          None \<Rightarrow> visit_all adj deg queue result
        | Some dependents \<Rightarrow>
            (case visit_dependents dependents deg [] of
               None \<Rightarrow> None
             | Some (deg', ready) \<Rightarrow> visit_all adj deg' (queue @ rev (sort ready)) result))"
  by pat_completeness auto
termination
  by (relation "measure (\<lambda>(adj, deg, queue, result). degree_sum deg + length queue)")
    (auto simp: length_greater_0_conv [symmetric] simp del: length_greater_0_conv
      dest!: visit_dependents_decreases)

declare visit_all.simps [simp del]

definition topo_sort_nodes :: "(string, node) btree_map \<Rightarrow> string list option" where
  "topo_sort_nodes nodes =
     (let (deg, adj) = dependency_graph nodes;
          queue = rev (sort (map fst (filter (\<lambda>(_, d). d = 0) (bm_entries deg)))) in
      map_option
        (\<lambda>result. foldl (\<lambda>res name. if name \<in> set res then res else res @ [name]) result (bm_keys nodes))
        (visit_all adj deg queue []))"

subsection \<open>The dependency graph\<close>

definition deps_of :: "(string, node) btree_map \<Rightarrow> string \<Rightarrow> string list" where
  "deps_of nodes n = (case bm_get nodes n of Some nd \<Rightarrow> node_depends_on nd | None \<Rightarrow> [])"

abbreviation dependents_of :: "adjacency \<Rightarrow> string \<Rightarrow> string list" where
  "dependents_of adj d \<equiv> or_insert d [] adj"

lemma or_insert_insert [simp]: "or_insert k v (bm_insert x w m) = (if k = x then w else or_insert k v m)"
  by (simp add: or_insert_def)

lemma add_deps:
  assumes "fold (add_dep name) ds (deg, adj) = (deg', adj')" "name \<in> dom (bm_get deg)"
  shows "bm_get deg' = (bm_get deg)(name \<mapsto> or_insert name 0 deg + length ds)"
    and "count_list (dependents_of adj' d) m =
           count_list (dependents_of adj d) m + (if m = name then count_list ds d else 0)"
proof -
  have "bm_get deg' = (bm_get deg)(name \<mapsto> or_insert name 0 deg + length ds) \<and>
      count_list (dependents_of adj' d) m =
        count_list (dependents_of adj d) m + (if m = name then count_list ds d else 0)"
    using assms
    by (induction ds arbitrary: deg adj) (auto simp: or_insert_def fun_eq_iff)
  then show "bm_get deg' = (bm_get deg)(name \<mapsto> or_insert name 0 deg + length ds)"
    "count_list (dependents_of adj' d) m =
       count_list (dependents_of adj d) m + (if m = name then count_list ds d else 0)"
    by auto
qed

lemma add_nodes:
  assumes "fold add_node xs (deg, adj) = (deg', adj')" "distinct (map fst xs)"
    and "fst ` set xs \<inter> dom (bm_get deg) = {}"
  shows "bm_get deg' = bm_get deg ++ (\<lambda>n. map_option (length \<circ> node_depends_on) (map_of xs n)) \<and>
    count_list (dependents_of adj' d) m = count_list (dependents_of adj d) m +
       (case map_of xs m of Some nd \<Rightarrow> count_list (node_depends_on nd) d | None \<Rightarrow> 0)"
  using assms
proof (induction xs arbitrary: deg adj)
  case (Cons x xs)
  obtain name nd where x: "x = (name, nd)" by fastforce
  obtain deg1 adj1 where step: "add_node x (deg, adj) = (deg1, adj1)" by fastforce
  have fresh: "bm_get deg name = None" "map_of xs name = None"
    using Cons.prems x by (auto simp: map_of_eq_None_iff)
  note one = add_deps [OF step [unfolded x add_node.simps]]
  have deg1: "bm_get deg1 = (bm_get deg)(name \<mapsto> length (node_depends_on nd))"
    using one(1) fresh by (simp add: or_insert_def)
  have "bm_get deg' = bm_get deg1 ++ (\<lambda>n. map_option (length \<circ> node_depends_on) (map_of xs n)) \<and>
    count_list (dependents_of adj' d) m = count_list (dependents_of adj1 d) m +
       (case map_of xs m of Some nd \<Rightarrow> count_list (node_depends_on nd) d | None \<Rightarrow> 0)"
  proof (rule Cons.IH)
    show "fold add_node xs (deg1, adj1) = (deg', adj')" using Cons.prems(1) step by simp
    show "distinct (map fst xs)" "fst ` set xs \<inter> dom (bm_get deg1) = {}"
      using Cons.prems(2,3) deg1 x by auto
  qed
  then show ?case
    using deg1 one(2) [of d m] fresh x by (auto simp: fun_eq_iff map_add_def split: option.splits)
qed simp

lemma dependency_graph:
  assumes "dependency_graph nodes = (deg, adj)"
  shows "bm_get deg n = map_option (length \<circ> node_depends_on) (bm_get nodes n)"
    and "count_list (dependents_of adj d) m = count_list (deps_of nodes m) d"
  using add_nodes [OF assms [unfolded dependency_graph_def]]
  by (auto simp: bm_get_entries [symmetric] map_add_def or_insert_def deps_of_def split: option.splits)

subsection \<open>The loop\<close>

lemma visit_dependents_spec:
  assumes "\<And>m. m \<in> set ds \<Longrightarrow> \<exists>d. bm_get deg m = Some d \<and> count_list ds m \<le> d"
    and "distinct ready" "\<And>m. m \<in> set ready \<Longrightarrow> bm_get deg m = Some 0"
  shows "\<exists>deg' ready'. visit_dependents ds deg ready = Some (deg', ready') \<and>
    (\<forall>m. bm_get deg' m = map_option (\<lambda>d. d - count_list ds m) (bm_get deg m)) \<and>
    distinct ready' \<and> set ready' = set ready \<union> {m \<in> set ds. bm_get deg m = Some (count_list ds m)}"
  using assms
proof (induction ds arbitrary: deg ready)
  case (Cons x ds)
  obtain d where d: "bm_get deg x = Some (Suc d)" "count_list ds x \<le> d"
    using Cons.prems(1) [of x] by (metis Suc_le_D count_list.simps(2) list.set_intros(1) Suc_eq_plus1 not_less_eq_eq)
  let ?deg = "bm_insert x d deg" and ?ready = "if d = 0 then ready @ [x] else ready"
  have "x \<notin> set ready" using Cons.prems(3) [of x] d by auto
  have "\<exists>deg' ready'. visit_dependents ds ?deg ?ready = Some (deg', ready') \<and>
    (\<forall>m. bm_get deg' m = map_option (\<lambda>d. d - count_list ds m) (bm_get ?deg m)) \<and>
    distinct ready' \<and> set ready' = set ?ready \<union> {m \<in> set ds. bm_get ?deg m = Some (count_list ds m)}"
  proof (rule Cons.IH)
    fix m assume "m \<in> set ds"
    then show "\<exists>e. bm_get ?deg m = Some e \<and> count_list ds m \<le> e"
      using Cons.prems(1) [of m] d by (auto split: if_splits)
  next
    show "distinct ?ready" using Cons.prems(2) \<open>x \<notin> set ready\<close> by simp
    show "bm_get ?deg m = Some 0" if "m \<in> set ?ready" for m
      using that Cons.prems(3) [of m] d(1) by (auto split: if_splits)
  qed
  then obtain deg' ready' where ih: "visit_dependents ds ?deg ?ready = Some (deg', ready')"
    "\<And>m. bm_get deg' m = map_option (\<lambda>d. d - count_list ds m) (bm_get ?deg m)"
    "distinct ready'" "set ready' = set ?ready \<union> {m \<in> set ds. bm_get ?deg m = Some (count_list ds m)}"
    by blast
  have "visit_dependents (x # ds) deg ready = Some (deg', ready')" using ih(1) d by simp
  moreover have "bm_get deg' m = map_option (\<lambda>e. e - count_list (x # ds) m) (bm_get deg m)" for m
    using ih(2) [of m] d by (cases "bm_get deg m") auto
  moreover have "set ready' = set ready \<union> {m \<in> set (x # ds). bm_get deg m = Some (count_list (x # ds) m)}"
  proof (rule set_eqI)
    show "m \<in> set ready' \<longleftrightarrow> m \<in> set ready \<union> {m \<in> set (x # ds). bm_get deg m = Some (count_list (x # ds) m)}" for m
      using ih(4) d count_list_0_iff [of ds x] by (cases "m = x") auto
  qed
  ultimately show ?case using ih(3) by blast
qed (simp add: option.map_ident)

text \<open>
  What holds before each visit: the in-degree of a node counts its dependencies not yet
  visited, the stack and the visited nodes are the nodes of in-degree zero, each once, and
  every visited node comes after all its dependencies.
\<close>

definition after_deps :: "(string, node) btree_map \<Rightarrow> string list \<Rightarrow> bool" where
  "after_deps nodes order \<longleftrightarrow> (\<forall>i < length order. set (deps_of nodes (order ! i)) \<subseteq> set (take i order))"

definition unmet :: "(string, node) btree_map \<Rightarrow> string list \<Rightarrow> string \<Rightarrow> string list" where
  "unmet nodes result n = filter (\<lambda>d. d \<notin> set result) (deps_of nodes n)"

definition sorting :: "(string, node) btree_map \<Rightarrow> degrees \<Rightarrow> string list \<Rightarrow> string list \<Rightarrow> bool" where
  "sorting nodes deg queue result \<longleftrightarrow>
     (\<forall>n. bm_get deg n = (if n \<in> dom (bm_get nodes) then Some (length (unmet nodes result n)) else None)) \<and>
     distinct (queue @ result) \<and> set (queue @ result) = {n. bm_get deg n = Some 0} \<and>
     after_deps nodes result"

lemma after_deps_snoc:
  "after_deps nodes (order @ [n]) \<longleftrightarrow> after_deps nodes order \<and> set (deps_of nodes n) \<subseteq> set order"
  unfolding after_deps_def by (auto simp: nth_append less_Suc_eq)

lemma length_unmet_snoc:
  "n \<notin> set result \<Longrightarrow>
     length (unmet nodes result m) = length (unmet nodes (result @ [n]) m) + count_list (deps_of nodes m) n"
proof -
  assume n: "n \<notin> set result"
  have "length (filter (\<lambda>d. d \<notin> set result) ds) =
      length (filter (\<lambda>d. d \<notin> set (result @ [n])) ds) + count_list ds n" for ds
    using n by (induction ds) auto
  then show ?thesis by (simp only: unmet_def)
qed

lemma sorting_visit:
  assumes inv: "sorting nodes deg (queue @ [n]) result"
    and adj: "\<And>m. count_list (dependents_of adj n) m = count_list (deps_of nodes m) n"
  obtains deg' ready where "visit_dependents (dependents_of adj n) deg [] = Some (deg', ready)"
    and "sorting nodes deg' (queue @ rev (sort ready)) (result @ [n])"
proof -
  let ?ds = "dependents_of adj n"
  have deg: "bm_get deg m = (if m \<in> dom (bm_get nodes) then Some (length (unmet nodes result m)) else None)" for m
    using inv by (simp add: sorting_def)
  have n: "n \<notin> set result" "n \<notin> set queue" "bm_get deg n = Some 0" "unmet nodes result n = []"
  proof -
    show 1: "n \<notin> set result" "n \<notin> set queue" using inv by (simp_all add: sorting_def)
    have "n \<in> {n. bm_get deg n = Some 0}" using inv unfolding sorting_def by (metis in_set_conv_decomp append_assoc append_Cons append_Nil)
    then show "bm_get deg n = Some 0" by simp
    then show "unmet nodes result n = []" using deg [of n] by (simp split: if_splits)
  qed
  have len: "length (unmet nodes result m) = length (unmet nodes (result @ [n]) m) + count_list ?ds m" for m
    using length_unmet_snoc n(1) adj by simp
  have "\<exists>deg' ready'. visit_dependents ?ds deg [] = Some (deg', ready') \<and>
    (\<forall>m. bm_get deg' m = map_option (\<lambda>d. d - count_list ?ds m) (bm_get deg m)) \<and>
    distinct ready' \<and> set ready' = set [] \<union> {m \<in> set ?ds. bm_get deg m = Some (count_list ?ds m)}"
  proof (rule visit_dependents_spec)
    fix m assume "m \<in> set ?ds"
    then have "count_list (deps_of nodes m) n \<noteq> 0" using adj [of m] by (metis count_list_0_iff)
    then have "m \<in> dom (bm_get nodes)" by (auto simp: deps_of_def split: option.splits)
    then show "\<exists>d. bm_get deg m = Some d \<and> count_list ?ds m \<le> d" using deg [of m] len [of m] by simp
  qed simp_all
  then obtain deg' ready where visit: "visit_dependents ?ds deg [] = Some (deg', ready)"
    and deg': "\<And>m. bm_get deg' m = map_option (\<lambda>d. d - count_list ?ds m) (bm_get deg m)"
    and ready: "distinct ready" "set ready = {m \<in> set ?ds. bm_get deg m = Some (count_list ?ds m)}"
    by auto
  have new: "bm_get deg' m = (if m \<in> dom (bm_get nodes) then Some (length (unmet nodes (result @ [n]) m)) else None)" for m
    using deg' [of m] deg [of m] len [of m] by simp
  have fresh: "m \<notin> set ready" if "bm_get deg m = Some 0" for m
    using that ready(2) by (auto simp: count_list_0_iff)
  have zero: "bm_get deg' m = Some 0 \<longleftrightarrow> bm_get deg m = Some 0 \<or> m \<in> set ready" for m
    using deg' [of m] deg [of m] len [of m] ready(2) count_list_0_iff [of ?ds m]
    by (auto simp: le_Suc_eq) 
  have old: "set (queue @ [n] @ result) = {m. bm_get deg m = Some 0}" "distinct (queue @ [n] @ result)"
    using inv by (simp_all add: sorting_def)
  have "sorting nodes deg' (queue @ rev (sort ready)) (result @ [n])"
    unfolding sorting_def
  proof (intro conjI)
    show "distinct ((queue @ rev (sort ready)) @ result @ [n])"
      using old ready(1) fresh by (auto simp: set_eq_iff)
    show "set ((queue @ rev (sort ready)) @ result @ [n]) = {m. bm_get deg' m = Some 0}"
      using old(1) zero by auto
    have "set (deps_of nodes n) \<subseteq> set result" using n(4) by (auto simp: unmet_def filter_empty_conv)
    then show "after_deps nodes (result @ [n])" using inv by (simp add: sorting_def after_deps_snoc)
  qed (use new in blast)
  with visit that show thesis by blast
qed

lemma visit_all_spec:
  assumes "\<And>n m. count_list (dependents_of adj n) m = count_list (deps_of nodes m) n"
    and "sorting nodes deg queue result"
  shows "\<exists>order deg'. visit_all adj deg queue result = Some order \<and> sorting nodes deg' [] order"
  using assms
proof (induction adj deg queue result rule: visit_all.induct [case_names step])
  case (step adj deg queue result)
  note adj = step.prems(1) and inv = step.prems(2)
  show ?case
  proof (cases "queue = []")
    case False
    let ?n = "last queue" and ?q = "butlast queue"
    have "queue = ?q @ [?n]" using False by simp
    then have "sorting nodes deg (?q @ [?n]) result" using inv by metis
    then obtain deg' ready where visit: "visit_dependents (dependents_of adj ?n) deg [] = Some (deg', ready)"
      and nxt: "sorting nodes deg' (?q @ rev (sort ready)) (result @ [?n])"
      using adj by (rule sorting_visit)
    show ?thesis
    proof (cases "bm_get adj ?n")
      case None
      then have "deg' = deg" "ready = []" using visit by (simp_all add: or_insert_def)
      then have "\<exists>order deg'. visit_all adj deg ?q (result @ [?n]) = Some order \<and> sorting nodes deg' [] order"
        using step.IH(1) [OF False refl refl refl None adj] nxt by simp
      then show ?thesis using False None by (simp add: visit_all.simps [of adj deg queue] Let_def)
    next
      case (Some ds)
      then have v: "visit_dependents ds deg [] = Some (deg', ready)" using visit by (simp add: or_insert_def)
      have "\<exists>order deg''. visit_all adj deg' (?q @ rev (sort ready)) (result @ [?n]) = Some order \<and>
          sorting nodes deg'' [] order"
        by (rule step.IH(2) [OF False refl refl refl Some v refl adj nxt])
      then show ?thesis using False Some v by (simp add: visit_all.simps [of adj deg queue] Let_def)
    qed
  qed (use inv in \<open>auto simp: visit_all.simps [of adj deg "[]"]\<close>)
qed

subsection \<open>The order\<close>

text \<open>The nodes whose dependencies can all be started first: no cycle and no unknown name below them.\<close>

inductive startable :: "(string, node) btree_map \<Rightarrow> string \<Rightarrow> bool" for nodes where
  start: "n \<in> dom (bm_get nodes) \<Longrightarrow> (\<And>d. d \<in> set (deps_of nodes n) \<Longrightarrow> startable nodes d) \<Longrightarrow> startable nodes n"

lemma sorting_initial:
  assumes "dependency_graph nodes = (deg, adj)"
  shows "sorting nodes deg (rev (sort (map fst (filter (\<lambda>(_, d). d = 0) (bm_entries deg))))) []"
proof -
  let ?zero = "map fst (filter (\<lambda>(_, d). d = 0) (bm_entries deg))"
  have "distinct ?zero" by (rule distinct_map_filter) simp
  moreover have "set ?zero = {n. bm_get deg n = Some 0}"
    by (force simp: in_bm_entries)
  ultimately show ?thesis
    using dependency_graph(1) [OF assms]
    by (auto simp: sorting_def unmet_def deps_of_def after_deps_def split: option.splits)
qed

lemma sorting_done:
  assumes "sorting nodes deg [] order"
  shows "set order = {n. startable nodes n}"
proof (intro set_eqI iffI CollectI)
  fix n assume "n \<in> set order"
  then obtain i where "i < length order" "n = order ! i" by (metis in_set_conv_nth)
  then show "startable nodes n"
  proof (induction i arbitrary: n rule: less_induct)
    case (less i)
    have "n \<in> {n. bm_get deg n = Some 0}"
      using assms less.prems nth_mem [of i order] by (auto simp: sorting_def)
    then have "n \<in> dom (bm_get nodes)" using assms by (auto simp: sorting_def split: if_splits)
    moreover have "startable nodes d" if "d \<in> set (deps_of nodes n)" for d
    proof -
      have "d \<in> set (take i order)" using assms less.prems that by (auto simp: sorting_def after_deps_def)
      then obtain j where "j < i" "order ! j = d" by (auto simp: in_set_conv_nth)
      then show ?thesis using less.IH [of j d] less.prems by simp
    qed
    ultimately show ?case by (rule startable.start)
  qed
next
  fix n assume "n \<in> {n. startable nodes n}"
  then have "startable nodes n" by simp
  then show "n \<in> set order"
  proof (induction rule: startable.induct)
    case (start n)
    then have "unmet nodes order n = []" by (auto simp: unmet_def filter_empty_conv)
    moreover have "bm_get deg n = Some (length (unmet nodes order n))"
      using assms start(1) by (auto simp: sorting_def)
    ultimately have "n \<in> {n. bm_get deg n = Some 0}" by simp
    then show ?case using assms by (simp add: sorting_def)
  qed
qed

lemma append_missing:
  "distinct xs \<Longrightarrow> foldl (\<lambda>res x. if x \<in> set res then res else res @ [x]) res xs =
     res @ filter (\<lambda>x. x \<notin> set res) xs"
  by (induction xs arbitrary: res) (auto intro!: filter_cong)

lemma topo_sort_nodes_split:
  "\<exists>order. topo_sort_nodes nodes = Some (order @ filter (\<lambda>x. x \<notin> set order) (bm_keys nodes)) \<and>
     distinct order \<and> set order = {n. startable nodes n} \<and> after_deps nodes order"
proof -
  obtain deg adj where g: "dependency_graph nodes = (deg, adj)" by fastforce
  obtain order deg' where "visit_all adj deg (rev (sort (map fst (filter (\<lambda>(_, d). d = 0) (bm_entries deg))))) [] = Some order"
    and inv: "sorting nodes deg' [] order"
    using visit_all_spec [OF dependency_graph(2) [OF g] sorting_initial [OF g]] by blast
  then have "topo_sort_nodes nodes = Some (order @ filter (\<lambda>x. x \<notin> set order) (bm_keys nodes))"
    by (simp add: topo_sort_nodes_def g append_missing)
  moreover have "distinct order" "after_deps nodes order" using inv by (simp_all add: sorting_def)
  ultimately show ?thesis using sorting_done [OF inv] by blast
qed

lemma startable_node: "startable nodes n \<Longrightarrow> n \<in> dom (bm_get nodes)"
  by (auto elim: startable.cases)

text \<open>C38.
  \<open>topo_sort_nodes\<close> always returns (no in-degree is decremented below zero and the loop
  ends), each node exactly once: first the nodes that can be started, every one after
  all its dependencies, then the others (nodes on or behind a cycle, or behind a name that is
  no node) in name order.
\<close>

theorem topo_sort_nodes_correct:
  "\<exists>order rest. topo_sort_nodes nodes = Some (order @ rest) \<and> distinct (order @ rest) \<and>
     set (order @ rest) = dom (bm_get nodes) \<and> set order = {n. startable nodes n} \<and> sorted rest \<and>
     (\<forall>i < length order. set (deps_of nodes (order ! i)) \<subseteq> set (take i order))"
proof -
  obtain order where "topo_sort_nodes nodes = Some (order @ filter (\<lambda>x. x \<notin> set order) (bm_keys nodes))"
    "distinct order" "set order = {n. startable nodes n}" "after_deps nodes order"
    using topo_sort_nodes_split by blast
  then show ?thesis
    by (intro exI [of _ order] exI [of _ "filter (\<lambda>x. x \<notin> set order) (bm_keys nodes)"])
      (auto simp: after_deps_def sorted_wrt_filter dest: startable_node)
qed

lemma startable_acyclic:
  assumes "acyclic {(d, n). d \<in> set (deps_of nodes n)}"
    and "\<And>n. set (deps_of nodes n) \<subseteq> dom (bm_get nodes)"
  shows "n \<in> dom (bm_get nodes) \<Longrightarrow> startable nodes n"
proof -
  let ?r = "{(d, n). d \<in> set (deps_of nodes n)}"
  have "n \<in> dom (bm_get nodes)" if "d \<in> set (deps_of nodes n)" for d n
    using that by (cases "bm_get nodes n") (auto simp: deps_of_def)
  then have "?r \<subseteq> dom (bm_get nodes) \<times> dom (bm_get nodes)"
    using assms(2) by blast
  then have "finite ?r" by (rule finite_subset) simp
  then have "wf ?r" using assms(1) by (rule finite_acyclic_wf)
  then show "n \<in> dom (bm_get nodes) \<Longrightarrow> startable nodes n"
  proof (induction n rule: wf_induct_rule)
    case (less n)
    have "startable nodes d" if "d \<in> set (deps_of nodes n)" for d
      using less.IH [of d] that assms(2) by blast
    then show ?case using less.prems by (rule startable.start [rotated])
  qed
qed

lemma topo_sort_nodes_acyclic:
  assumes "acyclic {(d, n). d \<in> set (deps_of nodes n)}"
    and "\<And>n. set (deps_of nodes n) \<subseteq> dom (bm_get nodes)"
  shows "\<exists>order. topo_sort_nodes nodes = Some order \<and> distinct order \<and> set order = dom (bm_get nodes) \<and>
    (\<forall>i < length order. set (deps_of nodes (order ! i)) \<subseteq> set (take i order))"
proof -
  obtain order where order: "topo_sort_nodes nodes = Some (order @ filter (\<lambda>x. x \<notin> set order) (bm_keys nodes))"
    "distinct order" "set order = {n. startable nodes n}" "after_deps nodes order"
    using topo_sort_nodes_split by blast
  have all: "set order = dom (bm_get nodes)"
    using order(3) startable_acyclic [OF assms] startable_node by blast
  then have "filter (\<lambda>x. x \<notin> set order) (bm_keys nodes) = []" by (simp add: filter_empty_conv)
  then show ?thesis using order all by (auto simp: after_deps_def)
qed

text \<open>
  When the dependencies form no cycle and all name nodes, every node comes after the
  nodes it depends on.
\<close>

theorem topo_sort_nodes_respects_depends_on:
  assumes "acyclic {(d, n). d \<in> set (deps_of nodes n)}"
    and "\<And>n. set (deps_of nodes n) \<subseteq> dom (bm_get nodes)"
  shows "\<exists>order. topo_sort_nodes nodes = Some order \<and> distinct order \<and> set order = dom (bm_get nodes) \<and>
    (\<forall>i < length order. set (deps_of nodes (order ! i)) \<subseteq> set (take i order))"
  using assms by (rule topo_sort_nodes_acyclic)

text \<open>Three nodes, \<open>web\<close> after \<open>db\<close> and \<open>auth\<close>, \<open>auth\<close> after \<open>db\<close>; and a node \<open>x\<close> that depends on itself.\<close>

definition sample_nodes :: "(string, node) btree_map" where
  "sample_nodes = bm_of_list
     [(''web'', node_default\<lparr>node_depends_on := [''db'', ''auth'']\<rparr>),
      (''auth'', node_default\<lparr>node_depends_on := [''db'']\<rparr>), (''db'', node_default)]"

definition cyclic_nodes :: "(string, node) btree_map" where
  "cyclic_nodes = bm_insert ''x'' (node_default\<lparr>node_depends_on := [''x'']\<rparr>) sample_nodes"

lemma deps_of_sample:
  "deps_of sample_nodes n =
     (if n = ''web'' then [''db'', ''auth''] else if n = ''auth'' then [''db''] else [])"
  by (simp add: deps_of_def sample_nodes_def bm_get_of_list node_default_def)

theorem topo_sort_nodes_correct_witness:
  "topo_sort_nodes cyclic_nodes = Some [''db'', ''auth'', ''web'', ''x''] \<and>
   (\<exists>order rest. [''db'', ''auth'', ''web'', ''x''] = order @ rest \<and>
      set order = {n. startable cyclic_nodes n} \<and>
      (\<forall>i < length order. set (deps_of cyclic_nodes (order ! i)) \<subseteq> set (take i order)))"
proof -
  have run: "topo_sort_nodes cyclic_nodes = Some [''db'', ''auth'', ''web'', ''x'']" by code_simp
  show ?thesis using topo_sort_nodes_correct [of cyclic_nodes] unfolding run by auto
qed

theorem topo_sort_nodes_respects_depends_on_witness:
  "\<exists>order. topo_sort_nodes sample_nodes = Some order \<and>
    (\<forall>i < length order. set (deps_of sample_nodes (order ! i)) \<subseteq> set (take i order))"
proof -
  have "{(d, n). d \<in> set (deps_of sample_nodes n)} =
      {(''db'', ''web''), (''auth'', ''web''), (''db'', ''auth'')}"
    by (auto simp: deps_of_sample split: if_splits)
  moreover have "acyclic {(''db'', ''web''), (''auth'', ''web''), (''db'', ''auth'')}"
    by (auto simp: acyclic_insert rtrancl_insert wf_acyclic)
  moreover have "set (deps_of sample_nodes n) \<subseteq> dom (bm_get sample_nodes)" for n
    by (simp add: deps_of_sample) (auto simp: sample_nodes_def bm_get_of_list dom_def)
  ultimately show ?thesis using topo_sort_nodes_respects_depends_on [of sample_nodes] by auto
qed

end
