(* ===== verification/Seed.thy ===== *)
theory Seed
  imports Topology_Ops
begin

unbundle bit_operations_syntax

text \<open>
  Netem seeds, \<open>crates/nlink-lab/src/seed.rs\<close>: parsing, the derivation of every qdisc's seed from
  the lab's, and how a deploy and an apply settle the lab's seed. What the environment variable holds, whether
  the kernel honours seeds and a freshly drawn seed are arguments; the kernel probe and its cache
  are not modelled.
\<close>

definition seed_max :: nat where
  "seed_max = 9223372036854775807"

datatype seed_error = Not_A_Seed | Seed_Too_Large

definition parse_seed :: "string \<Rightarrow> (seed_error, u64) result" where
  "parse_seed s =
     (case parse_uint (2 ^ 64 - 1) (trim s) of
        None \<Rightarrow> Inl Not_A_Seed
      | Some n \<Rightarrow> if n > seed_max then Inl Seed_Too_Large else Inr (of_nat n))"

definition fnv_step :: "u64 \<Rightarrow> char \<Rightarrow> u64" where
  "fnv_step h b = (h XOR of_nat (of_char b)) * 0x100000001B3"

definition derive :: "u64 \<Rightarrow> string \<Rightarrow> u64" where
  "derive seed key =
     (let h = foldl fnv_step (0xCBF29CE484222325 XOR seed) key;
          z = h + 0x9E3779B97F4A7C15;
          z = (z XOR drop_bit 30 z) * 0xBF58476D1CE4E5B9;
          z = (z XOR drop_bit 27 z) * 0x94D049BB133111EB
      in z XOR drop_bit 31 z)"

definition endpoint_key :: "string \<Rightarrow> string \<Rightarrow> string" where
  "endpoint_key nd iface = nd @ '':'' @ iface"

definition pair_key :: "string \<Rightarrow> string \<Rightarrow> string \<Rightarrow> string \<Rightarrow> string \<Rightarrow> string" where
  "pair_key net src dst nd iface = net @ ''/'' @ src @ ''->'' @ dst @ ''@'' @ nd @ '':'' @ iface"

definition netem_seed :: "topology \<Rightarrow> impairment \<Rightarrow> string \<Rightarrow> (seed_error, u64 option) result" where
  "netem_seed t imp key =
     (case lab_seed (topo_lab t) of
        None \<Rightarrow> Inr None
      | Some lab \<Rightarrow>
          (case imp_seed imp of
             Some own \<Rightarrow> and_then (parse_seed own) (\<lambda>s. Inr (Some s))
           | None \<Rightarrow> Inr (Some (derive lab key))))"

text \<open>\<open>draw\<close> masks eight random bytes, the argument.\<close>

definition draw :: "u64 \<Rightarrow> u64" where
  "draw bytes = bytes AND mask 53"

definition from_env :: "string option \<Rightarrow> (seed_error, u64 option) result" where
  "from_env var =
     (case var of
        Some v \<Rightarrow> if trim v \<noteq> [] then and_then (parse_seed v) (\<lambda>s. Inr (Some s)) else Inr None
      | None \<Rightarrow> Inr None)"

definition settle_for_deploy :: "string option \<Rightarrow> bool \<Rightarrow> u64 \<Rightarrow> topology \<Rightarrow> (seed_error, topology) result" where
  "settle_for_deploy var honoured bytes t =
     and_then (from_env var) (\<lambda>env.
       let set = (\<lambda>s. t\<lparr>topo_lab := (topo_lab t)\<lparr>lab_seed := s\<rparr>\<rparr>) in
       if \<not> honoured then Inr (set None)
       else if lab_seed (topo_lab t) = None
       then Inr (set (Some (case env of Some s \<Rightarrow> s | None \<Rightarrow> draw bytes)))
       else Inr t)"

definition settled_for_apply :: "bool \<Rightarrow> topology \<Rightarrow> topology \<Rightarrow> u64 option" where
  "settled_for_apply honoured desired running =
     (case (lab_seed (topo_lab desired), lab_seed (topo_lab running)) of
        (None, seed) \<Rightarrow> seed
      | (Some s, Some _) \<Rightarrow> Some s
      | (Some s, None) \<Rightarrow> if honoured then Some s else None)"

subsection \<open>Derived seeds separate lab seeds\<close>

lemma inj_times_unit:
  fixes a b :: "'a :: comm_ring_1"
  assumes "a * b = 1"
  shows "x * a = y * a \<longleftrightarrow> x = y"
  by (metis assms mult.assoc mult.right_neutral)

lemma odd_factors:
  "(x :: u64) * 0x100000001B3 = y * 0x100000001B3 \<longleftrightarrow> x = y"
  "(x :: u64) * 0xBF58476D1CE4E5B9 = y * 0xBF58476D1CE4E5B9 \<longleftrightarrow> x = y"
  "(x :: u64) * 0x94D049BB133111EB = y * 0x94D049BB133111EB \<longleftrightarrow> x = y"
  by (rule inj_times_unit [where b = "0xCE965057AFF6957B"], simp,
      rule inj_times_unit [where b = "0x96DE1B173F119089"], simp,
      rule inj_times_unit [where b = "0x319642B2D24D8EC3"], simp)

lemma xor_cancel: "(x :: u64) XOR a = y XOR a \<longleftrightarrow> x = y"
proof
  assume "x XOR a = y XOR a"
  then have "(x XOR a) XOR a = (y XOR a) XOR a" by (rule arg_cong)
  then show "x = y" by (simp add: xor.assoc)
qed simp

lemma xor_shift_inject:
  assumes "0 < k"
  shows "(x :: u64) XOR drop_bit k x = y XOR drop_bit k y \<longleftrightarrow> x = y"
proof
  assume eq: "x XOR drop_bit k x = y XOR drop_bit k y"
  let ?d = "x XOR y"
  have "?d = ((x XOR drop_bit k x) XOR (y XOR drop_bit k y)) XOR (drop_bit k x XOR drop_bit k y)"
    by (intro bit_eqI) (auto simp: bit_xor_iff)
  also have "\<dots> = drop_bit k ?d" by (simp add: eq drop_bit_xor)
  finally have "?d = drop_bit k ?d" .
  then have "unat ?d = unat ?d div 2 ^ k" by (metis unat_drop_bit_eq drop_bit_eq_div)
  moreover have "1 < (2 :: nat) ^ k" using assms by (rule one_less_power [rotated]) simp
  ultimately have "unat ?d = 0" using div_less_dividend [of "2 ^ k" "unat ?d"] by linarith
  then have "?d = 0" using unat_eq_zero by blast
  then have "x XOR y = y XOR y" by simp
  then show "x = y" by (simp only: xor_cancel)
qed simp

lemma foldl_fnv_inject: "foldl fnv_step g key = foldl fnv_step h key \<longleftrightarrow> g = h"
  by (induction key arbitrary: g h) (simp_all add: fnv_step_def odd_factors xor_cancel)

lemma derive_inject: "derive s key = derive s' key \<longleftrightarrow> s = s'"
  by (simp add: derive_def Let_def xor_shift_inject odd_factors foldl_fnv_inject xor.commute [of "0xCBF29CE484222325"] xor_cancel)

lemma parse_seed_Inr: "parse_seed s = Inr n \<Longrightarrow> unat n \<le> seed_max"
  by (auto simp: parse_seed_def seed_max_def unat_of_nat split: option.splits if_splits)

lemma unat_draw: "unat (draw bytes) < 2 ^ 53"
  unfolding draw_def take_bit_eq_mask [symmetric]
  by (metis take_bit_nat_less_exp unsigned_take_bit_eq)

text \<open>C35.
  A deploy on a kernel that honours seeds gives the lab a seed: its own, else the environment's,
  else a fresh one below \<open>2^53\<close>; nothing else of the topology changes, and a seed that is not the
  topology's own fits an \<open>i64\<close>. Redeploying the recorded topology, under any valid environment and
  any name suffix, gives every netem the same seed. At one place two lab seeds never derive the
  same netem seed, so different seeds are different runs. On a kernel that does not honour seeds
  nothing is seeded.
\<close>

theorem seeds_replay:
  assumes "settle_for_deploy var honoured bytes t = Inr t'"
  shows "(honoured \<longrightarrow> (\<exists>s. t' = t\<lparr>topo_lab := (topo_lab t)\<lparr>lab_seed := Some s\<rparr>\<rparr> \<and>
      (case lab_seed (topo_lab t) of
         Some own \<Rightarrow> s = own
       | None \<Rightarrow> from_env var = Inr (Some s) \<or> from_env var = Inr None \<and> unat s < 2 ^ 53) \<and>
      (lab_seed (topo_lab t) = None \<longrightarrow> unat s \<le> seed_max) \<and>
      (\<forall>var' bytes' sfx e imp key. from_env var' = Inr e \<longrightarrow>
         (\<exists>t''. settle_for_deploy var' True bytes' (t'\<lparr>topo_lab := add_suffix sfx (topo_lab t')\<rparr>) = Inr t'' \<and>
            netem_seed t'' imp key = netem_seed t' imp key)) \<and>
      (\<forall>u s' imp key. lab_seed (topo_lab u) = Some s' \<longrightarrow> imp_seed imp = None \<longrightarrow>
         (netem_seed u imp key = netem_seed t' imp key \<longleftrightarrow> s' = s)))) \<and>
    (\<not> honoured \<longrightarrow> (\<forall>imp key. netem_seed t' imp key = Inr None))"
proof -
  from assms obtain env where env: "from_env var = Inr env"
    by (auto simp: settle_for_deploy_def and_then_eq_Inr)
  show ?thesis
  proof (cases honoured)
    case False
    then have "lab_seed (topo_lab t') = None" using assms env by (auto simp: settle_for_deploy_def)
    with False show ?thesis by (simp add: netem_seed_def)
  next
    case True
    define s where "s = (case lab_seed (topo_lab t) of Some own \<Rightarrow> own | None \<Rightarrow> (case env of Some s \<Rightarrow> s | None \<Rightarrow> draw bytes))"
    have t': "t' = t\<lparr>topo_lab := (topo_lab t)\<lparr>lab_seed := Some s\<rparr>\<rparr>"
      using assms env True by (auto simp: settle_for_deploy_def s_def split: option.splits)
    have src: "case lab_seed (topo_lab t) of Some own \<Rightarrow> s = own
       | None \<Rightarrow> from_env var = Inr (Some s) \<or> from_env var = Inr None \<and> unat s < 2 ^ 53"
      using env unat_draw by (auto simp: s_def split: option.splits)
    have small: "lab_seed (topo_lab t) = None \<longrightarrow> unat s \<le> seed_max"
    proof
      assume "lab_seed (topo_lab t) = None"
      then consider "from_env var = Inr (Some s)" | "unat s < 2 ^ 53" using src by auto
      then show "unat s \<le> seed_max"
      proof cases
        case 1
        then show ?thesis by (auto simp: from_env_def and_then_eq_Inr split: option.splits if_splits intro: parse_seed_Inr)
      qed (simp add: seed_max_def)
    qed
    have again: "\<exists>t''. settle_for_deploy var' True bytes' (t'\<lparr>topo_lab := add_suffix sfx (topo_lab t')\<rparr>) = Inr t'' \<and>
        netem_seed t'' imp key = netem_seed t' imp key" if "from_env var' = Inr e" for var' bytes' sfx e imp key
      using that by (simp add: settle_for_deploy_def add_suffix_def netem_seed_def t')
    have apart: "netem_seed u imp key = netem_seed t' imp key \<longleftrightarrow> s' = s"
      if "lab_seed (topo_lab u) = Some s'" "imp_seed imp = None" for u s' imp key
      using that by (simp add: netem_seed_def t' derive_inject)
    show ?thesis
      by (rule conjI, rule impI, rule exI [of _ s]) (use True t' src small again apart in auto)
  qed
qed

definition seeded :: "u64 \<Rightarrow> topology" where
  "seeded s = topology_default\<lparr>topo_lab := lab_default\<lparr>lab_seed := Some s\<rparr>\<rparr>"

theorem seeds_replay_witness:
  "settle_for_deploy (Some '' 42'') True 7 topology_default = Inr (seeded 42) \<and>
   netem_seed (seeded 43) imp_default ''a:eth0'' \<noteq> netem_seed (seeded 42) imp_default ''a:eth0''"
proof -
  have settled: "settle_for_deploy (Some '' 42'') True 7 topology_default = Inr (seeded 42)" by code_simp
  from seeds_replay [OF settled] obtain s where
    s: "seeded 42 = topology_default\<lparr>topo_lab := (topo_lab topology_default)\<lparr>lab_seed := Some s\<rparr>\<rparr>" and
    apart: "\<forall>u s' imp key. lab_seed (topo_lab u) = Some s' \<longrightarrow> imp_seed imp = None \<longrightarrow>
      (netem_seed u imp key = netem_seed (seeded 42) imp key \<longleftrightarrow> s' = s)" by blast
  have "lab_seed (topo_lab (seeded 42)) = Some s" using s by simp
  then have "s = 42" by (simp add: seeded_def)
  moreover have "imp_seed imp_default = None" "lab_seed (topo_lab (seeded 43)) = Some 43"
    by (simp_all add: imp_default_def seeded_def)
  ultimately show ?thesis using settled apart by fastforce
qed

end
