(* ===== verification/Validator_Base.thy ===== *)
theory Validator_Base
  imports Start_Order
begin

text \<open>
  The frame of the topology validator, \<open>crates/nlink-lab/src/validator.rs\<close>: issues with their
  severity, rule and location, the rule registry, the severity overrides of \<open>validate\<close> on the
  command line, the verdict, and the table of every node's interfaces that the rules consult.

  A rule is a function from the topology to the issues it pushes, in order. The human-readable
  \<open>message\<close> of an issue is not modelled; severity, rule and location are.
\<close>

subsection \<open>Issues and rules\<close>

datatype severity = Error | Warning

record issue =
  iss_severity :: severity
  iss_rule :: string
  iss_location :: "string option"

definition err :: "string \<Rightarrow> string \<Rightarrow> issue" where
  "err r loc = \<lparr>iss_severity = Error, iss_rule = r, iss_location = Some loc\<rparr>"

definition warn :: "string \<Rightarrow> string \<Rightarrow> issue" where
  "warn r loc = \<lparr>iss_severity = Warning, iss_rule = r, iss_location = Some loc\<rparr>"

definition WARNING_RULE_IDS :: "string list" where
  "WARNING_RULE_IDS =
     [''frr-requires-forwarding'', ''mgmt-subnet-not-network-address'', ''unique-ips'',
      ''mtu-consistency'', ''route-reachability'', ''unreferenced-node'', ''empty-exec-cmd'',
      ''command-not-split'', ''loss-correlation-suppresses-loss'', ''firewall-iface-exists'',
      ''firewall-set-unused'', ''firewall-classify-no-effect'', ''wireguard-route-peer'',
      ''sysctl-host-global'', ''foreign-address-unmanaged'']"

definition RULE_IDS :: "string list" where
  "RULE_IDS =
     [''invalid-name'', ''unresolved-interpolation'', ''valid-cidr'', ''endpoint-format'',
      ''dangling-node-ref'', ''dangling-profile-ref'', ''interface-uniqueness'', ''vlan-range'',
      ''impairment-ref-valid'', ''network-impair-needs-subnet'', ''network-impair-self-pair'',
      ''network-impair-member'', ''network-impair-conflicts'', ''rate-limit-ref-valid'',
      ''qdisc-ref-valid'', ''qdisc-conflicts'', ''invalid-qdisc-value'', ''bond-member-exists'',
      ''vlan-parent-exists'', ''frr-requires-routing-frr'', ''frr-container-node'',
      ''frr-invalid-value'', ''bgp-neighbor-unresolved'', ''route-gateway-type'',
      ''interface-name-length'', ''wireguard-peer-exists'', ''wireguard-peer-settings'',
      ''vrf-table-unique'', ''duplicate-link-endpoint'', ''link-endpoints-same-subnet'',
      ''overlapping-subnets'', ''invalid-impairment-value'', ''invalid-nat-cidr'',
      ''invalid-route-dest'', ''nat-family-mismatch'', ''firewall-match-expr'', ''firewall-policy'',
      ''firewall-action'', ''firewall-chain-context'', ''firewall-set-undeclared'',
      ''firewall-set-type'', ''firewall-set-element'', ''firewall-statement'',
      ''assertion-counter-exists'', ''invalid-nat-match'', ''mgmt-subnet-capacity'',
      ''vxlan-vni-range'', ''vxlan-underlay-address'', ''wifi-channel-range'', ''wifi-mesh-id'',
      ''wifi-passphrase'', ''wifi-ssid'', ''wifi-mesh-channel'', ''macvlan-parent-set'',
      ''vrf-interface-exists'', ''assertion-node-exists'', ''assertion-endpoint-exists'',
      ''scenario-both-needs-link'', ''scenario-network-exists'', ''scenario-replay-trace'',
      ''container-requires-image'', ''empty-image'', ''container-pull'', ''depends-on-exists'',
      ''depends-on-cycle'', ''loss-model-excludes-correlation'', ''benchmark-metric'',
      ''interface-one-master'', ''wireguard-key'', ''foreign-unsupported-property'',
      ''foreign-link-needs-lab-side'', ''foreign-tap-link-only'', ''foreign-unmanaged-tc'',
      ''foreign-name-under-prefix'',
      ''frr-requires-forwarding'', ''mgmt-subnet-not-network-address'', ''unique-ips'',
      ''mtu-consistency'', ''route-reachability'', ''unreferenced-node'', ''empty-exec-cmd'',
      ''command-not-split'', ''loss-correlation-suppresses-loss'', ''firewall-iface-exists'',
      ''firewall-set-unused'', ''firewall-classify-no-effect'', ''wireguard-route-peer'',
      ''sysctl-host-global'', ''foreign-address-unmanaged'']"

definition rule_severity :: "string \<Rightarrow> severity option" where
  "rule_severity r =
     (if r \<in> set WARNING_RULE_IDS then Some Warning
      else if r \<in> set RULE_IDS then Some Error else None)"

definition report :: "bool \<Rightarrow> issue \<Rightarrow> issue list" where
  "report c i = (if c then [i] else [])"

lemma report_Nil [simp]: "report c i = [] \<longleftrightarrow> \<not> c"
  by (simp add: report_def)

lemma set_report [simp]: "set (report c i) = (if c then {i} else {})"
  by (simp add: report_def)

subsection \<open>Overrides and verdict\<close>

record rule_options =
  opt_strict :: bool
  opt_deny :: "string list"
  opt_allow :: "string list"

definition check_known :: "rule_options \<Rightarrow> (string list, unit) result" where
  "check_known opts =
     (let unknown = filter (\<lambda>r. rule_severity r = None) (opt_deny opts @ opt_allow opts)
      in if unknown = [] then Inr () else Inl unknown)"

definition apply_options :: "rule_options \<Rightarrow> issue \<Rightarrow> issue option" where
  "apply_options opts i =
     (if iss_severity i = Warning then
        if iss_rule i \<in> set (opt_allow opts) then None
        else if opt_strict opts \<or> iss_rule i \<in> set (opt_deny opts) then Some (i\<lparr>iss_severity := Error\<rparr>)
        else Some i
      else Some i)"

text \<open>\<open>validate_with\<close> on the issues of \<open>validate\<close>.\<close>

definition with_options :: "rule_options \<Rightarrow> issue list \<Rightarrow> issue list" where
  "with_options opts issues = List.map_filter (apply_options opts) issues"

definition errors :: "issue list \<Rightarrow> issue list" where
  "errors issues = filter (\<lambda>i. iss_severity i = Error) issues"

definition warnings :: "issue list \<Rightarrow> issue list" where
  "warnings issues = filter (\<lambda>i. iss_severity i = Warning) issues"

definition has_errors :: "issue list \<Rightarrow> bool" where
  "has_errors issues \<longleftrightarrow> list_ex (\<lambda>i. iss_severity i = Error) issues"

definition has_warnings :: "issue list \<Rightarrow> bool" where
  "has_warnings issues \<longleftrightarrow> list_ex (\<lambda>i. iss_severity i = Warning) issues"

definition bail :: "issue list \<Rightarrow> (issue list, unit) result" where
  "bail issues = (if has_errors issues then Inl (errors issues) else Inr ())"

subsection \<open>Locations and unresolved interpolations\<close>

abbreviation idx :: "string \<Rightarrow> nat \<Rightarrow> string" where
  "idx s k \<equiv> s @ ''['' @ show_nat k @ '']''"

abbreviation quoted :: "string \<Rightarrow> string" where
  "quoted s \<equiv> [CHR 0x22] @ s @ [CHR 0x22]"

fun contains_str :: "string \<Rightarrow> string \<Rightarrow> bool" where
  "contains_str p [] = (p = [])"
| "contains_str p (c # s) = (prefix p (c # s) \<or> contains_str p s)"

abbreviation unresolved :: "string \<Rightarrow> bool" where
  "unresolved s \<equiv> contains_str ''${'' s"

text \<open>\<open>check_unresolved\<close> followed by an early return when it reported.\<close>

definition unless_unresolved :: "string \<Rightarrow> string \<Rightarrow> issue list \<Rightarrow> issue list" where
  "unless_unresolved v loc rest = (if unresolved v then [err ''unresolved-interpolation'' loc] else rest)"

definition is_valid_name :: "string \<Rightarrow> bool" where
  "is_valid_name name =
     (case name of [] \<Rightarrow> False
      | c # cs \<Rightarrow> (is_alnum c \<or> c = CHR ''_'') \<and>
                  list_all (\<lambda>c. is_alnum c \<or> c = CHR ''_'' \<or> c = CHR ''.'' \<or> c = CHR ''-'') cs)"

subsection \<open>The interfaces of every node\<close>

datatype interface_source =
    Src_Explicit | Src_Link nat | Src_Network string | Src_Wireguard | Src_Macvlan | Src_Ipvlan
  | Src_Wifi | Src_Vrf | Src_Mgmt

type_synonym iface_decl = "string \<times> string \<times> interface_source"
type_synonym interfaces = "(string, (string, interface_source) btree_map) btree_map"

text \<open>
  The declarations in the order both loops over the topology visit them: each node's own
  devices, then link ends, then network members. \<open>validate_interface_uniqueness\<close> also counts
  \<open>mgmt0\<close> when there is a management network; \<open>collect_interfaces\<close> does not.
\<close>

definition node_decls :: "bool \<Rightarrow> string \<times> node \<Rightarrow> iface_decl list" where
  "node_decls with_mgmt = (\<lambda>(name, n).
     map (\<lambda>i. (name, i, Src_Explicit)) (bm_keys (node_interfaces n)) @
     map (\<lambda>i. (name, i, Src_Wireguard)) (bm_keys (node_wireguard n)) @
     map (\<lambda>mv. (name, mv_name mv, Src_Macvlan)) (node_macvlans n) @
     map (\<lambda>iv. (name, iv_name iv, Src_Ipvlan)) (node_ipvlans n) @
     map (\<lambda>w. (name, wifi_name w, Src_Wifi)) (node_wifi n) @
     map (\<lambda>v. (name, v, Src_Vrf)) (bm_keys (node_vrfs n)) @
     (if with_mgmt then [(name, ''mgmt0'', Src_Mgmt)] else []))"

definition endpoint_decl :: "interface_source \<Rightarrow> string \<Rightarrow> iface_decl list" where
  "endpoint_decl src ep =
     (case endpoint_parse ep of Some e \<Rightarrow> [(ep_node e, ep_iface e, src)] | None \<Rightarrow> [])"

definition link_ends :: "link \<Rightarrow> string list" where
  "link_ends l = [fst (link_endpoints l), snd (link_endpoints l)]"

definition interface_decls :: "bool \<Rightarrow> topology \<Rightarrow> iface_decl list" where
  "interface_decls with_mgmt t =
     concat (map (node_decls with_mgmt) (bm_entries (topo_nodes t))) @
     concat (map (\<lambda>(i, l). concat (map (endpoint_decl (Src_Link i)) (link_ends l)))
       (List.enumerate 0 (topo_links t))) @
     concat (map (\<lambda>(name, net). concat (map (endpoint_decl (Src_Network name)) (network_members net)))
       (bm_entries (topo_networks t)))"

definition entry_or :: "'v \<Rightarrow> ('k :: linorder, 'v) btree_map \<Rightarrow> 'k \<Rightarrow> 'v" where
  "entry_or v m k = (case bm_get m k of Some w \<Rightarrow> w | None \<Rightarrow> v)"

definition add_interface :: "interfaces \<Rightarrow> iface_decl \<Rightarrow> interfaces" where
  "add_interface m = (\<lambda>(n, i, src).
     let ifaces = entry_or bm_empty m n
     in bm_insert n (bm_insert i (entry_or src ifaces i) ifaces) m)"

definition collect_interfaces :: "topology \<Rightarrow> interfaces" where
  "collect_interfaces t =
     foldl add_interface (bm_map (\<lambda>_ _. bm_empty) (topo_nodes t)) (interface_decls False t)"

definition has_interface :: "interfaces \<Rightarrow> string \<Rightarrow> string \<Rightarrow> bool" where
  "has_interface m n i = (case bm_get m n of Some ifaces \<Rightarrow> bm_contains ifaces i | None \<Rightarrow> False)"

subsection \<open>When a rule is silent\<close>

named_theorems rule_simps \<open>when the issue list of a rule is empty\<close>

lemma concat_map_Nil [rule_simps]: "concat (map f xs) = [] \<longleftrightarrow> (\<forall>x \<in> set xs. f x = [])"
  by auto

lemma ball_enumerate [rule_simps]:
  "(\<forall>(i, x) \<in> set (List.enumerate k xs). P x) \<longleftrightarrow> (\<forall>x \<in> set xs. P x)"
  by (induction xs arbitrary: k) auto

lemma ball_entries [rule_simps]:
  "(\<forall>(k, v) \<in> set (bm_entries m). P k v) \<longleftrightarrow> (\<forall>k v. bm_get m k = Some v \<longrightarrow> P k v)"
  by (auto simp: in_bm_entries [symmetric])

lemma unless_unresolved_Nil [rule_simps]: "unless_unresolved v loc rest = [] \<longleftrightarrow> \<not> unresolved v \<and> rest = []"
  by (simp add: unless_unresolved_def)

lemma errors_append [rule_simps]: "errors (xs @ ys) = errors xs @ errors ys"
  by (simp add: errors_def)

lemma errors_concat [rule_simps]: "errors (concat xss) = concat (map errors xss)"
  by (induction xss) (simp_all add: errors_def)

lemma errors_report [rule_simps]: "errors (report c (err r l)) = report c (err r l)"
  by (simp add: errors_def report_def err_def)

lemma errors_warnings [rule_simps]: "errors (map (\<lambda>x. warn r (l x)) xs) = []"
  by (induction xs) (simp_all add: errors_def warn_def)

lemma errors_warn [rule_simps]: "errors (report c (warn r l)) = []"
  by (simp add: errors_def report_def warn_def)

subsection \<open>Lemmas\<close>

lemma has_errors_iff: "has_errors issues \<longleftrightarrow> (\<exists>i \<in> set issues. iss_severity i = Error)"
  by (auto simp: has_errors_def list_ex_iff)

lemma foldl_add_interface:
  "has_interface (foldl add_interface m ds) n i \<longleftrightarrow> has_interface m n i \<or> (n, i) \<in> (\<lambda>(n, i, _). (n, i)) ` set ds"
proof (induction ds arbitrary: m)
  case (Cons d ds)
  obtain a b s where d: "d = (a, b, s)" by (cases d)
  have "has_interface (add_interface m d) n i \<longleftrightarrow> has_interface m n i \<or> (n, i) = (a, b)"
    by (auto simp: d add_interface_def has_interface_def entry_or_def Let_def split: option.splits)
  then show ?case using Cons d by auto
qed simp

lemma dom_foldl_add_interface:
  "dom (bm_get (foldl add_interface m ds)) = dom (bm_get m) \<union> fst ` set ds"
  by (induction ds arbitrary: m) (auto simp: add_interface_def Let_def split: prod.splits)

lemma has_interface_collect:
  "has_interface (collect_interfaces t) n i \<longleftrightarrow> (\<exists>src. (n, i, src) \<in> set (interface_decls False t))"
  unfolding collect_interfaces_def foldl_add_interface
  by (force simp: has_interface_def split: option.splits)

lemma dom_collect_interfaces:
  "dom (bm_get (collect_interfaces t)) = dom (bm_get (topo_nodes t)) \<union> fst ` set (interface_decls False t)"
  unfolding collect_interfaces_def dom_foldl_add_interface by (auto simp: dom_def)

text \<open>
  Overrides never silence an error: every error of \<open>validate\<close> is an error under every
  combination of \<open>--strict\<close>, \<open>--deny\<close> and \<open>--allow\<close>, so a topology that fails without
  options fails with any. Without options nothing changes. With \<open>strict\<close> the topology passes
  exactly when every issue is a warning whose rule is allowed. A topology passes
  exactly when it has no error.
\<close>

theorem options_never_silence_errors:
  "set (errors issues) \<subseteq> set (errors (with_options opts issues)) \<and>
   (bail issues \<noteq> Inr () \<longrightarrow> bail (with_options opts issues) \<noteq> Inr ()) \<and>
   with_options \<lparr>opt_strict = False, opt_deny = [], opt_allow = []\<rparr> issues = issues \<and>
   (bail (with_options (opts\<lparr>opt_strict := True\<rparr>) issues) = Inr () \<longleftrightarrow>
      (\<forall>i \<in> set issues. iss_severity i = Warning \<and> iss_rule i \<in> set (opt_allow opts))) \<and>
   (bail issues = Inr () \<longleftrightarrow> errors issues = [])"
proof -
  have set_with: "i \<in> set (with_options o' issues) \<longleftrightarrow> (\<exists>j \<in> set issues. apply_options o' j = Some i)" for i o'
    unfolding with_options_def by (induction issues) (auto simp: List.map_filter_simps split: option.splits)
  have bail: "bail xs = Inr () \<longleftrightarrow> errors xs = []" for xs
    by (auto simp: bail_def has_errors_iff errors_def filter_empty_conv)
  have same: "apply_options opts i = Some i" if "iss_severity i = Error" for i
    using that by (simp add: apply_options_def)
  have keep: "set (errors issues) \<subseteq> set (errors (with_options opts issues))"
    unfolding errors_def set_filter set_with using same by blast
  have none: "with_options \<lparr>opt_strict = False, opt_deny = [], opt_allow = []\<rparr> issues = issues"
    unfolding with_options_def by (induction issues) (auto simp: List.map_filter_simps apply_options_def)
  let ?strict = "apply_options (opts\<lparr>opt_strict := True\<rparr>)"
  have none': "?strict i = None \<longleftrightarrow> iss_severity i = Warning \<and> iss_rule i \<in> set (opt_allow opts)" for i
    by (simp add: apply_options_def)
  have err: "iss_severity j = Error" if "?strict i = Some j" for i j
    using that by (cases "iss_severity i") (auto simp: apply_options_def split: if_splits)
  have "errors (with_options (opts\<lparr>opt_strict := True\<rparr>) issues) = [] \<longleftrightarrow>
      (\<forall>j. \<forall>i \<in> set issues. ?strict i = Some j \<longrightarrow> iss_severity j \<noteq> Error)"
    unfolding errors_def filter_empty_conv Ball_def set_with by blast
  also have "\<dots> \<longleftrightarrow> (\<forall>i \<in> set issues. ?strict i = None)"
    using err by (metis option.exhaust option.discI)
  finally have "errors (with_options (opts\<lparr>opt_strict := True\<rparr>) issues) = [] \<longleftrightarrow>
      (\<forall>i \<in> set issues. iss_severity i = Warning \<and> iss_rule i \<in> set (opt_allow opts))"
    unfolding none' .
  with keep none show ?thesis by (auto simp: bail)
qed

theorem options_never_silence_errors_witness:
  "bail (with_options \<lparr>opt_strict = False, opt_deny = [], opt_allow = [''valid-cidr'']\<rparr>
     [err ''valid-cidr'' ''lab.mgmt'', warn ''unique-ips'' ''links[0].addresses[0]'']) \<noteq> Inr ()"
proof -
  have "bail [err ''valid-cidr'' ''lab.mgmt'', warn ''unique-ips'' ''links[0].addresses[0]''] \<noteq> Inr ()"
    by code_simp
  then show ?thesis using options_never_silence_errors by blast
qed

end
