(* ===== verification/Rollback.thy ===== *)
theory Rollback
  imports Deploy_Op Host_Registry Subnet_Pool Seed Validator_Base
begin

text \<open>
  The undo journal, \<open>crates/nlink-lab/src/deploy/rollback.rs\<close>, and the transaction around a deploy,
  \<open>deploy_ctx\<close> of \<open>deploy/mod.rs\<close>. The host keeps the subnet pool, the host registry, the labs with a state
  file and one journal file per lab. Freeing subnets and releasing claims act on the models of
  those registries; every other undo is a call to the kernel, a container runtime or the file system, kept
  as the sequence of calls issued. Whether a file operation or connection succeeds is an argument, and
  so is what the executor \<open>deploy_inner\<close> did: the mutations it journaled, whether it wrote
  the state file, and whether it succeeded.
\<close>

subsection \<open>The journal\<close>

datatype undo =
    Free_Subnets string
  | Release_Host_Claims string
  | Undo_Namespace string
  | Undo_Container string string
  | Release_Hwsim string
  | Undo_Radio ns_ref string
  | Undo_Host_Link string
  | Undo_Link ns_ref string
  | Undo_Hosts string
  | Undo_Netns_Etc string
  | Kill_Process u32 "u64 option"
  | Undo_Dir string
  | Undo_Cgroups string
  | Cleanup_Wifi_Configs string

record journal =
  jn_lab :: string
  jn_persistent :: bool
  jn_entries :: "undo list"
  jn_armed :: bool

record host =
  h_pool :: pool
  h_registry :: registry
  h_states :: "string btree_set"
  h_journals :: "(string, undo list) btree_map"
  h_calls :: "undo list"

abbreviation state_exists :: "host \<Rightarrow> string \<Rightarrow> bool" where
  "state_exists h lab \<equiv> bm_contains (h_states h) lab"

definition journal_new :: "string \<Rightarrow> journal" where
  "journal_new lab = \<lparr>jn_lab = lab, jn_persistent = True, jn_entries = [], jn_armed = True\<rparr>"

definition journal_ephemeral :: "string \<Rightarrow> journal" where
  "journal_ephemeral lab = \<lparr>jn_lab = lab, jn_persistent = False, jn_entries = [], jn_armed = True\<rparr>"

definition load_pending :: "bool \<Rightarrow> string \<Rightarrow> host \<Rightarrow> journal option" where
  "load_pending ok lab h =
     (if ok then map_option (\<lambda>us. \<lparr>jn_lab = lab, jn_persistent = True, jn_entries = us, jn_armed = True\<rparr>)
        (bm_get (h_journals h) lab)
      else None)"

definition persist :: "bool \<Rightarrow> journal \<Rightarrow> host \<Rightarrow> host" where
  "persist ok j h =
     (if jn_persistent j \<and> ok then h\<lparr>h_journals := bm_insert (jn_lab j) (jn_entries j) (h_journals h)\<rparr> else h)"

definition record_undo :: "bool \<Rightarrow> undo \<Rightarrow> journal \<times> host \<Rightarrow> journal \<times> host" where
  "record_undo ok u = (\<lambda>(j, h). let j' = j\<lparr>jn_entries := jn_entries j @ [u]\<rparr> in (j', persist ok j' h))"

definition discard :: "bool \<Rightarrow> journal \<times> host \<Rightarrow> journal \<times> host" where
  "discard ok = (\<lambda>(j, h).
     (j\<lparr>jn_armed := False, jn_entries := []\<rparr>,
      if jn_persistent j \<and> ok then h\<lparr>h_journals := bm_remove (jn_lab j) (h_journals h)\<rparr> else h))"

subsection \<open>Unwinding\<close>

text \<open>
  The outcome of one undo: of its file operations, and of the netlink connection it needs. The root
  connection is opened once, before the loop.
\<close>

record undo_env =
  undo_io :: io_outcome
  undo_conn :: bool

definition issue_call :: "undo \<Rightarrow> host \<Rightarrow> host" where
  "issue_call u h = h\<lparr>h_calls := h_calls h @ [u]\<rparr>"

fun run_undo :: "bool \<Rightarrow> undo_env \<Rightarrow> undo \<Rightarrow> host \<Rightarrow> host" where
  "run_undo root e (Free_Subnets lab) h = h\<lparr>h_pool := snd (free_for_lab (undo_io e) lab (h_pool h))\<rparr>"
| "run_undo root e (Release_Host_Claims lab) h = h\<lparr>h_registry := snd (release (undo_io e) lab (h_registry h))\<rparr>"
| "run_undo root e (Release_Hwsim lab) h = h"
| "run_undo root e (Undo_Host_Link name) h = (if root then issue_call (Undo_Host_Link name) h else h)"
| "run_undo root e (Undo_Link ns i) h = (if undo_conn e then issue_call (Undo_Link ns i) h else h)"
| "run_undo root e u h = issue_call u h"

definition unwind :: "bool \<Rightarrow> (nat \<Rightarrow> undo_env) \<Rightarrow> bool \<Rightarrow> journal \<times> host \<Rightarrow> journal \<times> host" where
  "unwind root envs ok = (\<lambda>(j, h).
     if \<not> jn_armed j then (j, h)
     else discard ok (j, foldl (\<lambda>h (k, u). run_undo root (envs k) u h) h (List.enumerate 0 (rev (jn_entries j)))))"

text \<open>The destructor: the synchronous part of the entries; the file stays.\<close>

fun needs_connection :: "undo \<Rightarrow> bool" where
  "needs_connection (Undo_Host_Link _) = True"
| "needs_connection (Undo_Link _ _) = True"
| "needs_connection (Undo_Radio _ _) = True"
| "needs_connection _ = False"

definition drop_journal :: "(nat \<Rightarrow> undo_env) \<Rightarrow> journal \<Rightarrow> host \<Rightarrow> host" where
  "drop_journal envs j h =
     (if \<not> jn_armed j \<or> jn_entries j = [] then h
      else foldl (\<lambda>h (k, u). if needs_connection u then h else run_undo False (envs k) u h) h
             (List.enumerate 0 (rev (jn_entries j))))"

subsection \<open>The deploy transaction\<close>

datatype deploy_error =
    Invalid_Topology
  | Lab_Locked
  | Lab_Exists
  | Bad_Seed seed_error
  | No_Subnets pool_error
  | Foreign_Missing
  | Claim_Refused registry_error
  | Executor_Failed

record executed =
  ex_undos :: "undo list"
  ex_saved :: bool
  ex_ok :: bool

record deploy_env =
  d_issues :: "issue list"
  d_lock :: bool
  d_load :: bool
  d_seed_var :: "string option"
  d_honoured :: bool
  d_bytes :: u64
  d_alloc :: "pool \<Rightarrow> io_outcome"
  d_persist :: "undo \<Rightarrow> bool"
  d_preflight :: bool
  d_claim :: io_outcome
  d_inner :: executed
  d_root :: bool
  d_undo :: "nat \<Rightarrow> undo_env"
  d_discard :: bool
  d_remove :: bool

definition log_undo :: "deploy_env \<Rightarrow> undo \<Rightarrow> journal \<times> host \<Rightarrow> journal \<times> host" where
  "log_undo env u = record_undo (d_persist env u) u"

text \<open>Roll back, then remove the lab's directory unless its state file exists.\<close>

definition remove_lab_dir :: "bool \<Rightarrow> string \<Rightarrow> host \<Rightarrow> host" where
  "remove_lab_dir ok lab h =
     (if state_exists h lab \<or> \<not> ok then h else h\<lparr>h_journals := bm_remove lab (h_journals h)\<rparr>)"

definition abort :: "deploy_env \<Rightarrow> string \<Rightarrow> journal \<times> host \<Rightarrow> host" where
  "abort env lab jh =
     remove_lab_dir (d_remove env) lab (snd (unwind (d_root env) (d_undo env) (d_discard env) jh))"

definition run_inner :: "deploy_env \<Rightarrow> string \<Rightarrow> journal \<times> host \<Rightarrow> journal \<times> host" where
  "run_inner env lab jh =
     (case fold (log_undo env) (ex_undos (d_inner env)) jh of
        (j, h) \<Rightarrow> (j, if ex_saved (d_inner env) then h\<lparr>h_states := bm_insert lab () (h_states h)\<rparr> else h))"

definition deploy_execute :: "deploy_env \<Rightarrow> topology \<Rightarrow> journal \<times> host \<Rightarrow> (deploy_error, topology) result \<times> host" where
  "deploy_execute env t jh =
     (let lab = lab_name (topo_lab t); jh' = run_inner env lab jh in
      if ex_ok (d_inner env) then (Inr t, snd (discard (d_discard env) jh'))
      else (Inl Executor_Failed, abort env lab jh'))"

definition deploy_claim :: "deploy_env \<Rightarrow> topology \<Rightarrow> journal \<times> host \<Rightarrow> (deploy_error, topology) result \<times> host" where
  "deploy_claim env t jh =
     (let lab = lab_name (topo_lab t) in
      case claims_of t of
        None \<Rightarrow> deploy_execute env t jh
      | Some c \<Rightarrow>
          (case log_undo env (Release_Host_Claims lab) jh of
             (j, h) \<Rightarrow>
               (case claim (d_claim env) lab c (h_registry h) of
                  (Inl e, reg) \<Rightarrow> (Inl (Claim_Refused e), abort env lab (j, h\<lparr>h_registry := reg\<rparr>))
                | (Inr _, reg) \<Rightarrow> deploy_execute env t (j, h\<lparr>h_registry := reg\<rparr>))))"

definition deploy_journaled ::
  "deploy_env \<Rightarrow> topology \<Rightarrow> string list \<Rightarrow> host \<Rightarrow> (deploy_error, topology) result \<times> host" where
  "deploy_journaled env t allocated h =
     (let lab = lab_name (topo_lab t);
          jh = (if allocated = [] then (journal_new lab, h)
                else log_undo env (Free_Subnets lab) (journal_new lab, h)) in
      if list_ex is_foreign (bm_values (topo_nodes t)) \<and> \<not> d_preflight env
      then (Inl Foreign_Missing, abort env lab jh)
      else deploy_claim env t jh)"

definition deploy_ctx :: "deploy_env \<Rightarrow> topology \<Rightarrow> host \<Rightarrow> (deploy_error, topology) result \<times> host" where
  "deploy_ctx env t h =
     (let lab = lab_name (topo_lab t) in
      if has_errors (d_issues env) then (Inl Invalid_Topology, h)
      else if \<not> d_lock env then (Inl Lab_Locked, h)
      else if state_exists h lab then (Inl Lab_Exists, h)
      else
        let h1 = (case load_pending (d_load env) lab h of
                    Some j \<Rightarrow> snd (unwind (d_root env) (d_undo env) (d_discard env) (j, h))
                  | None \<Rightarrow> h) in
        case settle_for_deploy (d_seed_var env) (d_honoured env) (d_bytes env) t of
          Inl e \<Rightarrow> (Inl (Bad_Seed e), h1)
        | Inr t1 \<Rightarrow>
            (case substitute_auto_subnets (\<lambda>p pfx. allocate (d_alloc env p) lab pfx p) t1 (h_pool h1) of
               (Inl e, _, p) \<Rightarrow> (Inl (No_Subnets e), h1\<lparr>h_pool := p\<rparr>)
             | (Inr allocated, t2, p) \<Rightarrow> deploy_journaled env t2 allocated (h1\<lparr>h_pool := p\<rparr>)))"


subsection \<open>What unwinding does\<close>

fun executor_undo :: "undo \<Rightarrow> bool" where
  "executor_undo (Free_Subnets _) = False"
| "executor_undo (Release_Host_Claims _) = False"
| "executor_undo _ = True"

fun makes_call :: "undo \<Rightarrow> bool" where
  "makes_call (Release_Hwsim _) = False"
| "makes_call u = executor_undo u"

abbreviation undo_fine :: "undo_env \<Rightarrow> bool" where
  "undo_fine e \<equiv> undo_io e = io_fine \<and> undo_conn e"

definition undo_all :: "(nat \<Rightarrow> undo_env) \<Rightarrow> nat \<Rightarrow> undo list \<Rightarrow> host \<Rightarrow> host" where
  "undo_all envs k us h = foldl (\<lambda>h (k, u). run_undo True (envs k) u h) h (List.enumerate k us)"

lemma undo_all_simps [simp]:
  "undo_all envs k [] h = h"
  "undo_all envs k (u # us) h = undo_all envs (Suc k) us (run_undo True (envs k) u h)"
  by (simp_all add: undo_all_def)

lemma undo_all_append: "undo_all envs k (us @ vs) h = undo_all envs (k + length us) vs (undo_all envs k us h)"
  by (simp add: undo_all_def enumerate_append_eq)

lemma undo_all_calls:
  assumes "\<forall>u \<in> set us. executor_undo u" "\<forall>k. undo_fine (envs k)"
  shows "undo_all envs k us h = h\<lparr>h_calls := h_calls h @ filter makes_call us\<rparr>"
  using assms(1)
proof (induction us arbitrary: k h)
  case (Cons u us)
  have "run_undo True (envs k) u h = h\<lparr>h_calls := h_calls h @ filter makes_call [u]\<rparr>"
    using Cons.prems assms(2) by (cases u) (simp_all add: issue_call_def)
  with Cons show ?case by simp
qed simp

subsection \<open>Growing pools\<close>

definition grows :: "string \<Rightarrow> pool \<Rightarrow> pool \<Rightarrow> bool" where
  "grows lab p p' \<longleftrightarrow> next_offset p' = next_offset p \<and>
     (\<forall>cidr. bm_get (in_use p') cidr = bm_get (in_use p) cidr \<or>
        bm_get (in_use p) cidr = None \<and> bm_get (in_use p') cidr = Some lab)"

lemma grows_refl [simp]: "grows lab p p"
  by (simp add: grows_def)

lemma grows_trans: "grows lab p q \<Longrightarrow> grows lab q r \<Longrightarrow> grows lab p r"
  unfolding grows_def by metis

lemma allocate_grows: "allocate io lab pfx p = (Inr cidr, p') \<Longrightarrow> grows lab p p'"
  using next_free_24_Some [of p cidr] by (auto simp: allocate_Inr grows_def)

lemma substitute_grows:
  "substitute_loop (\<lambda>p pfx. allocate (io p) lab pfx p) es acc nets p = (Inr allocated, nets', p') \<Longrightarrow>
     grows lab p p' \<and> length acc \<le> length allocated \<and> (length allocated = length acc \<longrightarrow> p' = p)"
proof (induction "\<lambda>p pfx. allocate (io p) lab pfx p" es acc nets p rule: substitute_loop.induct)
  case (2 name net rest acc nets p)
  show ?case
  proof (cases "Option.bind (network_subnet net) parse_auto_placeholder")
    case None
    then show ?thesis using 2 by simp
  next
    case (Some pfx)
    with 2(3) obtain cidr q net' where alloc: "allocate (io p) lab pfx p = (Inr cidr, q)" "set_subnet cidr net = Inr net'"
      "substitute_loop (\<lambda>p pfx. allocate (io p) lab pfx p) rest (acc @ [cidr]) (bm_insert name net' nets) q = (Inr allocated, nets', p')"
      by (auto split: prod.splits sum.splits)
    from 2(2) [OF Some alloc(1) [symmetric] refl alloc(2,3)] show ?thesis
      using grows_trans [OF allocate_grows [OF alloc(1)]] by auto
  qed
qed simp

lemma free_after_growth:
  assumes "grows lab p p'" "\<forall>cidr. bm_get (in_use p) cidr \<noteq> Some lab"
  shows "snd (free_for_lab io_fine lab p') = p"
proof -
  obtain freed q where q: "free_for_lab io_fine lab p' = (Inr freed, q)"
    by (cases "free_for_lab io_fine lab p'") (auto simp: free_for_lab_def io_fine_def Let_def split: if_splits)
  have "bm_get (in_use q) cidr = bm_get (in_use p) cidr" for cidr
    using free_for_lab_Inr(2) [OF q] assms unfolding grows_def by metis
  then have "in_use q = in_use p" by (intro bm_ext) auto
  moreover have "next_offset q = next_offset p"
    using q assms(1) by (auto simp: free_for_lab_def io_fine_def grows_def Let_def split: if_splits)
  ultimately show ?thesis using q by simp
qed

lemma release_absent:
  assumes "bm_get reg lab = None" "\<forall>l. l \<noteq> lab \<longrightarrow> bm_get reg' l = bm_get reg l"
  shows "snd (release io_fine lab reg') = reg"
proof -
  have "bm_get (snd (release io_fine lab reg')) l = bm_get reg l" for l
    using assms by (cases "l = lab") (auto simp: release_def io_fine_def)
  then show ?thesis by (intro bm_ext) auto
qed


subsection \<open>A deploy that fails leaves nothing\<close>

definition lab_free :: "string \<Rightarrow> host \<Rightarrow> bool" where
  "lab_free lab h \<longleftrightarrow> (\<forall>cidr. bm_get (in_use (h_pool h)) cidr \<noteq> Some lab) \<and>
     bm_get (h_registry h) lab = None \<and> bm_get (h_journals h) lab = None"

definition owns :: "string \<Rightarrow> undo list \<Rightarrow> host \<Rightarrow> host \<Rightarrow> bool" where
  "owns lab taken h h1 \<longleftrightarrow>
     (if Free_Subnets lab \<in> set taken then grows lab (h_pool h) (h_pool h1) else h_pool h1 = h_pool h) \<and>
     (if Release_Host_Claims lab \<in> set taken then \<forall>l. l \<noteq> lab \<longrightarrow> bm_get (h_registry h1) l = bm_get (h_registry h) l
      else h_registry h1 = h_registry h)"

lemma owns_cong: "h_pool h2 = h_pool h1 \<Longrightarrow> h_registry h2 = h_registry h1 \<Longrightarrow> owns lab taken h h2 = owns lab taken h h1"
  by (simp add: owns_def)

definition deploying :: "string \<Rightarrow> host \<Rightarrow> undo list \<Rightarrow> undo list \<Rightarrow> journal \<times> host \<Rightarrow> bool" where
  "deploying lab h taken us = (\<lambda>(j, h1).
     jn_lab j = lab \<and> jn_persistent j \<and> jn_armed j \<and> jn_entries j = taken @ us \<and>
     owns lab taken h h1 \<and>
     (\<forall>l. l \<noteq> lab \<longrightarrow> bm_get (h_journals h1) l = bm_get (h_journals h) l) \<and>
     h_calls h1 = h_calls h)"

definition takings :: "string \<Rightarrow> undo list set" where
  "takings lab = {[], [Free_Subnets lab], [Release_Host_Claims lab], [Free_Subnets lab, Release_Host_Claims lab]}"

lemma log_undo_journals:
  assumes "log_undo env u (j, h) = (j', h')" "jn_lab j = lab"
  shows "\<exists>js. h' = h\<lparr>h_journals := js\<rparr> \<and> (\<forall>l. l \<noteq> lab \<longrightarrow> bm_get js l = bm_get (h_journals h) l)"
  using assms by (intro exI [of _ "h_journals h'"]) (auto simp: log_undo_def record_undo_def persist_def Let_def)

lemma deploying_log:
  assumes "deploying lab h taken us (j, h1)" "log_undo env u (j, h1) = (j', h2)"
  shows "deploying lab h taken (us @ [u]) (j', h2)"
proof -
  have j': "j' = j\<lparr>jn_entries := jn_entries j @ [u]\<rparr>"
    using assms(2) by (simp add: log_undo_def record_undo_def Let_def)
  from log_undo_journals [OF assms(2)] assms(1) obtain js where "h2 = h1\<lparr>h_journals := js\<rparr>"
    "\<forall>l. l \<noteq> lab \<longrightarrow> bm_get js l = bm_get (h_journals h1) l" by (auto simp: deploying_def)
  with assms(1) j' show ?thesis by (auto simp: deploying_def cong: owns_cong)
qed

lemma deploying_logs:
  "deploying lab h taken us jh \<Longrightarrow> deploying lab h taken (us @ vs) (fold (log_undo env) vs jh)"
proof (induction vs arbitrary: us jh)
  case (Cons v vs)
  obtain j' h2 where step: "log_undo env v jh = (j', h2)" by fastforce
  have "deploying lab h taken (us @ [v]) (j', h2)"
    using deploying_log Cons.prems step by (cases jh) blast
  from Cons.IH [OF this] show ?case by (simp add: step)
qed simp

lemma undo_taken:
  assumes "lab_free lab h" "owns lab taken h h1" "taken \<in> takings lab" "\<forall>k. undo_fine (envs k)"
  shows "undo_all envs k (rev taken) h1 =
    h1\<lparr>h_pool := h_pool h, h_registry := h_registry h\<rparr>"
  using assms free_after_growth [of lab "h_pool h" "h_pool h1"] release_absent [of "h_registry h" lab "h_registry h1"]
  unfolding takings_def owns_def lab_free_def
  by (auto split: if_splits)

lemma abort_restores:
  assumes free: "lab_free lab h" and dep: "deploying lab h taken us (j, h1)" and taken: "taken \<in> takings lab"
    and us: "\<forall>u \<in> set us. executor_undo u" and fine: "d_root env" "\<forall>k. undo_fine (d_undo env k)" "d_discard env"
  shows "abort env lab (j, h1) = h\<lparr>h_states := h_states h1, h_calls := h_calls h @ filter makes_call (rev us)\<rparr>"
proof -
  let ?h2 = "h1\<lparr>h_calls := h_calls h1 @ filter makes_call (rev us)\<rparr>"
  have j: "jn_armed j" "jn_persistent j" "jn_lab j = lab" "jn_entries j = taken @ us" "h_calls h1 = h_calls h"
    and js: "\<And>l. l \<noteq> lab \<Longrightarrow> bm_get (h_journals h1) l = bm_get (h_journals h) l"
    using dep by (auto simp: deploying_def)
  have "bm_remove lab (h_journals h1) = h_journals h"
  proof (rule bm_ext)
    fix l show "bm_get (bm_remove lab (h_journals h1)) l = bm_get (h_journals h) l"
      using js [of l] free by (cases "l = lab") (simp_all add: lab_free_def)
  qed
  moreover from this have "bm_remove lab (h_journals h) = h_journals h"
    using free by (intro bm_ext) (simp add: lab_free_def)
  moreover have "undo_all (d_undo env) 0 (rev (taken @ us)) h1 = ?h2\<lparr>h_pool := h_pool h, h_registry := h_registry h\<rparr>"
  proof -
    have calls: "undo_all (d_undo env) 0 (rev us) h1 = ?h2"
      using us fine(2) by (intro undo_all_calls) simp_all
    have "owns lab taken h ?h2" using dep by (simp add: deploying_def cong: owns_cong)
    then have "undo_all (d_undo env) (length us) (rev taken) ?h2 = ?h2\<lparr>h_pool := h_pool h, h_registry := h_registry h\<rparr>"
      by (rule undo_taken [OF free _ taken fine(2)])
    then show ?thesis by (simp add: undo_all_append calls)
  qed
  ultimately show ?thesis
    using j fine by (simp add: abort_def unwind_def discard_def remove_lab_dir_def undo_all_def)
qed


lemma log_undo_states: "h_states (snd (log_undo env u jh)) = h_states (snd jh)"
  by (cases jh) (simp add: log_undo_def record_undo_def persist_def Let_def)

lemma logs_states: "h_states (snd (fold (log_undo env) us jh)) = h_states (snd jh)"
  by (induction us arbitrary: jh) (simp_all add: log_undo_states)

definition undo_works :: "deploy_env \<Rightarrow> bool" where
  "undo_works env \<longleftrightarrow> d_root env \<and> (\<forall>k. undo_fine (d_undo env k)) \<and> d_discard env \<and>
     (\<forall>u \<in> set (ex_undos (d_inner env)). executor_undo u)"

text \<open>The host after a rollback: what the executor's undos issue, and a state file it may have left.\<close>

definition rolled_back :: "deploy_env \<Rightarrow> string \<Rightarrow> deploy_error \<Rightarrow> host \<Rightarrow> host" where
  "rolled_back env lab e h =
     (if e = Executor_Failed
      then h\<lparr>h_states := if ex_saved (d_inner env) then bm_insert lab () (h_states h) else h_states h,
             h_calls := h_calls h @ filter makes_call (rev (ex_undos (d_inner env)))\<rparr>
      else h)"

lemma abort_early:
  assumes "lab_free lab h" "deploying lab h taken [] jh" "taken \<in> takings lab" "undo_works env" "h_states (snd jh) = h_states h"
  shows "abort env lab jh = h"
  using abort_restores [of lab h taken "[]" "fst jh" "snd jh" env] assms by (simp add: undo_works_def)

lemma deploy_execute_error:
  assumes free: "lab_free lab h" and dep: "deploying lab h taken [] jh" and taken: "taken \<in> takings lab"
    and fine: "undo_works env" and lab: "lab = lab_name (topo_lab t)" and states: "h_states (snd jh) = h_states h"
    and err: "deploy_execute env t jh = (Inl e, h')"
  shows "h' = rolled_back env lab e h"
proof -
  let ?us = "ex_undos (d_inner env)"
  obtain j h1 where log: "fold (log_undo env) ?us jh = (j, h1)" by fastforce
  have h1: "h_states h1 = h_states h" using logs_states [of env ?us jh] states log by simp
  define h2 where "h2 = (if ex_saved (d_inner env) then h1\<lparr>h_states := bm_insert lab () (h_states h1)\<rparr> else h1)"
  have "deploying lab h taken ?us (j, h1)" using deploying_logs [OF dep, of ?us env] log by simp
  then have "deploying lab h taken ?us (j, h2)"
    by (simp add: deploying_def h2_def cong: owns_cong)
  then have "abort env lab (j, h2) = h\<lparr>h_states := h_states h2, h_calls := h_calls h @ filter makes_call (rev ?us)\<rparr>"
    using free taken fine by (intro abort_restores) (simp_all add: undo_works_def)
  moreover have "e = Executor_Failed \<and> h' = abort env lab (j, h2)"
    using err log lab by (auto simp: deploy_execute_def run_inner_def Let_def h2_def split: if_splits)
  ultimately show ?thesis using h1 by (simp add: rolled_back_def h2_def)
qed

lemma deploying_claims:
  assumes "deploying lab h taken [] (j, h1)" "taken \<in> {[], [Free_Subnets lab]}"
    "log_undo env (Release_Host_Claims lab) (j, h1) = (j', h2)" "\<forall>l. l \<noteq> lab \<longrightarrow> bm_get reg l = bm_get (h_registry h2) l"
  shows "deploying lab h (taken @ [Release_Host_Claims lab]) [] (j', h2\<lparr>h_registry := reg\<rparr>)"
proof -
  have "deploying lab h taken [Release_Host_Claims lab] (j', h2)"
    using deploying_log [OF assms(1,3)] by simp
  then show ?thesis using assms(2,4) by (auto simp: deploying_def owns_def)
qed

lemma claim_frame: "claim io lab c reg = (r, reg') \<Longrightarrow> l \<noteq> lab \<Longrightarrow> bm_get reg' l = bm_get reg l"
  by (auto simp: claim_def split: if_splits sum.splits option.splits)

lemma deploy_claim_error:
  assumes free: "lab_free lab h" and dep: "deploying lab h taken [] jh" and taken: "taken \<in> {[], [Free_Subnets lab]}"
    and fine: "undo_works env" and lab: "lab = lab_name (topo_lab t)" and states: "h_states (snd jh) = h_states h"
    and err: "deploy_claim env t jh = (Inl e, h')"
  shows "h' = rolled_back env lab e h"
proof (cases "claims_of t")
  case None
  then show ?thesis
    using deploy_execute_error [OF free dep _ fine lab states] taken err
    by (auto simp: deploy_claim_def takings_def)
next
  case (Some c)
  let ?taken = "taken @ [Release_Host_Claims lab]"
  obtain j h1 where jh: "jh = (j, h1)" by fastforce
  obtain j' h2 where log: "log_undo env (Release_Host_Claims lab) (j, h1) = (j', h2)" by fastforce
  obtain r reg where claim: "claim (d_claim env) lab c (h_registry h2) = (r, reg)" by fastforce
  have dep': "deploying lab h ?taken [] (j', h2\<lparr>h_registry := reg\<rparr>)"
    using deploying_claims [OF dep [unfolded jh] taken log] claim_frame [OF claim] by blast
  have taken': "?taken \<in> takings lab" using taken by (auto simp: takings_def)
  have states': "h_states (snd (j', h2\<lparr>h_registry := reg\<rparr>)) = h_states h"
    using log_undo_states [of env "Release_Host_Claims lab" jh] states jh log by simp
  show ?thesis
  proof (cases r)
    case (Inl re)
    then have "e = Claim_Refused re" "h' = abort env lab (j', h2\<lparr>h_registry := reg\<rparr>)"
      using err Some jh log claim lab by (simp_all add: deploy_claim_def)
    then show ?thesis
      using abort_early [OF free dep' taken' fine states'] by (simp add: rolled_back_def)
  next
    case (Inr x)
    then have "deploy_execute env t (j', h2\<lparr>h_registry := reg\<rparr>) = (Inl e, h')"
      using err Some jh log claim lab by (simp add: deploy_claim_def)
    then show ?thesis by (rule deploy_execute_error [OF free dep' taken' fine lab states'])
  qed
qed

lemma deploy_journaled_error:
  assumes free: "lab_free lab h" and grown: "grows lab (h_pool h) p" and alloc: "allocated = [] \<longrightarrow> p = h_pool h"
    and fine: "undo_works env" and lab: "lab = lab_name (topo_lab t)"
    and err: "deploy_journaled env t allocated (h\<lparr>h_pool := p\<rparr>) = (Inl e, h')"
  shows "h' = rolled_back env lab e h"
proof -
  let ?jh0 = "(journal_new lab, h\<lparr>h_pool := p\<rparr>)"
  define jh where "jh = (if allocated = [] then ?jh0 else log_undo env (Free_Subnets lab) ?jh0)"
  define taken where "taken = (if allocated = [] then [] else [Free_Subnets lab])"
  have dep: "deploying lab h taken [] jh"
  proof (cases "allocated = []")
    case False
    obtain j' h2 where log: "log_undo env (Free_Subnets lab) ?jh0 = (j', h2)" by fastforce
    from log_undo_journals [OF log] obtain js where "h2 = h\<lparr>h_pool := p, h_journals := js\<rparr>"
      "\<forall>l. l \<noteq> lab \<longrightarrow> bm_get js l = bm_get (h_journals h) l" by (auto simp: journal_new_def)
    moreover have "j' = (journal_new lab)\<lparr>jn_entries := [Free_Subnets lab]\<rparr>"
      using log by (simp add: log_undo_def record_undo_def Let_def journal_new_def)
    ultimately show ?thesis using False grown log
      by (simp add: deploying_def owns_def jh_def taken_def journal_new_def)
  qed (use alloc in \<open>simp add: deploying_def owns_def jh_def taken_def journal_new_def\<close>)
  have states: "h_states (snd jh) = h_states h" by (simp add: jh_def log_undo_states)
  have taken: "taken \<in> {[], [Free_Subnets lab]}" by (simp add: taken_def)
  then have taken': "taken \<in> takings lab" by (auto simp: takings_def)
  show ?thesis
  proof (cases "list_ex is_foreign (bm_values (topo_nodes t)) \<and> \<not> d_preflight env")
    case True
    then have "e = Foreign_Missing" "h' = abort env lab jh"
      using err lab by (auto simp: deploy_journaled_def jh_def Let_def)
    then show ?thesis using abort_early [OF free dep taken' fine states] by (simp add: rolled_back_def)
  next
    case False
    then have "deploy_claim env t jh = (Inl e, h')"
      using err lab by (auto simp: deploy_journaled_def jh_def Let_def)
    then show ?thesis by (rule deploy_claim_error [OF free dep taken fine lab states])
  qed
qed

lemma settle_lab_name:
  "settle_for_deploy var hon bytes t = Inr t1 \<Longrightarrow> lab_name (topo_lab t1) = lab_name (topo_lab t)"
  by (auto simp: settle_for_deploy_def and_then_eq_Inr Let_def split: if_splits)

lemma substitute_Inr:
  assumes "substitute_auto_subnets (\<lambda>p pfx. allocate (io p) lab pfx p) t p = (Inr allocated, t', p')"
  shows "topo_lab t' = topo_lab t \<and> grows lab p p' \<and> (allocated = [] \<longrightarrow> p' = p)"
proof -
  obtain r nets s' where loop: "substitute_loop (\<lambda>p pfx. allocate (io p) lab pfx p) (bm_entries (topo_networks t)) []
      (topo_networks t) p = (r, nets, s')" by (rule prod_cases3)
  with assms have eq: "r = Inr allocated" "t' = t\<lparr>topo_networks := nets\<rparr>" "s' = p'"
    by (simp_all add: substitute_auto_subnets_def)
  then show ?thesis using substitute_grows [OF loop [unfolded eq]] by simp
qed

lemma load_pending_None: "bm_get (h_journals h) lab = None \<Longrightarrow> load_pending ok lab h = None"
  by (simp add: load_pending_def)

text \<open>C8.
  A deploy that fails leaves nothing behind. Take a lab that holds no subnet, no claim and no
  journal, a rollback whose file operations and connections work, and an executor that journals
  only its own kinds of mutation. If the deploy fails for any reason but the allocation of subnets, then
  pool, registry and journal files are exactly as before; the kernel and runtime calls issued are
  the inverses of what the executor did, newest first, and none if it never ran. The states are as
  before too, except that a state file the failed executor already wrote stays: the lab then counts
  as existing.
\<close>

theorem failed_deploy_restores:
  assumes err: "deploy_ctx env t h = (Inl e, h')" and lab: "lab = lab_name (topo_lab t)"
    and free: "lab_free lab h" and fine: "undo_works env" and alloc: "\<forall>pe. e \<noteq> No_Subnets pe"
  shows "h_pool h' = h_pool h \<and> h_registry h' = h_registry h \<and> h_journals h' = h_journals h \<and>
    h_calls h' = h_calls h @ (if e = Executor_Failed then filter makes_call (rev (ex_undos (d_inner env))) else []) \<and>
    (\<forall>l. state_exists h' l \<longleftrightarrow> state_exists h l \<or> e = Executor_Failed \<and> ex_saved (d_inner env) \<and> l = lab)"
proof -
  have pending: "load_pending (d_load env) lab h = None" using free by (simp add: lab_free_def load_pending_None)
  have "h' = rolled_back env lab e h"
  proof (cases "has_errors (d_issues env) \<or> \<not> d_lock env \<or> state_exists h lab")
    case True
    then show ?thesis using err lab by (auto simp: deploy_ctx_def Let_def rolled_back_def split: if_splits)
  next
    case False
    show ?thesis
    proof (cases "settle_for_deploy (d_seed_var env) (d_honoured env) (d_bytes env) t")
      case (Inl se)
      then show ?thesis using err lab False pending by (auto simp: deploy_ctx_def Let_def rolled_back_def split: if_splits)
    next
      case (Inr t1)
      obtain r t2 p where sub: "substitute_auto_subnets (\<lambda>p pfx. allocate (d_alloc env p) lab pfx p) t1 (h_pool h) = (r, t2, p)"
        by (rule prod_cases3)
      have run: "(case r of Inl pe \<Rightarrow> (Inl (No_Subnets pe), h\<lparr>h_pool := p\<rparr>)
          | Inr allocated \<Rightarrow> deploy_journaled env t2 allocated (h\<lparr>h_pool := p\<rparr>)) = (Inl e, h')"
        using err lab False pending Inr sub by (simp add: deploy_ctx_def Let_def split: sum.splits)
      with alloc obtain allocated where r: "r = Inr allocated" by (cases r) auto
      note grown = substitute_Inr [OF sub [unfolded r]]
      have "lab = lab_name (topo_lab t2)" using grown settle_lab_name [OF Inr] lab by simp
      moreover have "deploy_journaled env t2 allocated (h\<lparr>h_pool := p\<rparr>) = (Inl e, h')" using run r by simp
      ultimately show ?thesis
        by (rule deploy_journaled_error [OF free grown [THEN conjunct2, THEN conjunct1] grown [THEN conjunct2, THEN conjunct2] fine])
    qed
  qed
  then show ?thesis by (auto simp: rolled_back_def)
qed

definition failing_env :: deploy_env where
  "failing_env = \<lparr>d_issues = [], d_lock = True, d_load = True, d_seed_var = None, d_honoured = True, d_bytes = 7,
     d_alloc = (\<lambda>_. io_fine), d_persist = (\<lambda>_. True), d_preflight = True, d_claim = io_fine,
     d_inner = \<lparr>ex_undos = [Undo_Namespace ''lab-a'', Undo_Link (Ns_Named ''lab-a'') ''eth0''], ex_saved = False, ex_ok = False\<rparr>,
     d_root = True, d_undo = (\<lambda>_. \<lparr>undo_io = io_fine, undo_conn = True\<rparr>), d_discard = True, d_remove = True\<rparr>"

definition mgmt_lab :: topology where
  "mgmt_lab = topology_default\<lparr>topo_lab := lab_default\<lparr>lab_name := ''lab'', lab_mgmt_subnet := Some ''10.9.0.0/24'',
     lab_mgmt_host_reachable := True\<rparr>, topo_nodes := bm_of_list [(''a'', node_default)]\<rparr>"

definition empty_host :: host where
  "empty_host = \<lparr>h_pool = pool_default, h_registry = bm_empty, h_states = bm_empty, h_journals = bm_empty, h_calls = []\<rparr>"

theorem failed_deploy_restores_witness:
  "\<exists>h'. deploy_ctx failing_env mgmt_lab empty_host = (Inl Executor_Failed, h') \<and> h_registry h' = bm_empty \<and>
     h_calls h' = [Undo_Link (Ns_Named ''lab-a'') ''eth0'', Undo_Namespace ''lab-a'']"
proof -
  obtain r h' where run: "deploy_ctx failing_env mgmt_lab empty_host = (r, h')" by fastforce
  have "fst (deploy_ctx failing_env mgmt_lab empty_host) = Inl Executor_Failed" by code_simp
  with run have r: "r = Inl Executor_Failed" by simp
  have lab: "''lab'' = lab_name (topo_lab mgmt_lab)" by (simp add: mgmt_lab_def)
  have free: "lab_free ''lab'' empty_host" by (simp add: lab_free_def empty_host_def pool_default_def)
  have fine: "undo_works failing_env" by (simp add: undo_works_def failing_env_def)
  show ?thesis
    using failed_deploy_restores [OF run [unfolded r] lab free fine] run r
    by (simp add: empty_host_def failing_env_def)
qed

subsection \<open>Crashes\<close>

text \<open>
  A process that makes mutations and journals each one after it succeeded. \<open>run_done\<close> holds the
  inverses of the mutations made so far; a mutation is recorded before the next one is made. The
  process may die at any point.
\<close>

record run =
  run_journal :: "journal option"
  run_host :: host
  run_done :: "undo list"

inductive run_step :: "run \<Rightarrow> run \<Rightarrow> bool" where
  Mutate: "run_journal r = Some j \<Longrightarrow> jn_entries j = run_done r \<Longrightarrow> run_step r (r\<lparr>run_done := run_done r @ [u]\<rparr>)"
| Record: "run_journal r = Some j \<Longrightarrow> run_done r = jn_entries j @ [u] \<Longrightarrow> record_undo True u (j, run_host r) = (j', h') \<Longrightarrow>
    run_step r (r\<lparr>run_journal := Some j', run_host := h'\<rparr>)"
| Die: "run_step r (r\<lparr>run_journal := None\<rparr>)"

definition run_start :: "string \<Rightarrow> host \<Rightarrow> run" where
  "run_start lab h = \<lparr>run_journal = Some (journal_new lab), run_host = h, run_done = []\<rparr>"

definition journaled :: "string \<Rightarrow> host \<Rightarrow> undo list" where
  "journaled lab h = (case bm_get (h_journals h) lab of Some us \<Rightarrow> us | None \<Rightarrow> [])"

definition run_inv :: "string \<Rightarrow> run \<Rightarrow> bool" where
  "run_inv lab r \<longleftrightarrow> (\<exists>us. journaled lab (run_host r) = us \<and> (run_done r = us \<or> (\<exists>u. run_done r = us @ [u])) \<and>
     (\<forall>j. run_journal r = Some j \<longrightarrow> jn_lab j = lab \<and> jn_persistent j \<and> jn_entries j = us))"

lemma run_step_inv: "run_step r r' \<Longrightarrow> run_inv lab r \<Longrightarrow> run_inv lab r'"
proof (induction rule: run_step.induct)
  case (Record r j u j' h')
  then show ?case by (auto simp: run_inv_def record_undo_def persist_def journaled_def Let_def)
qed (auto simp: run_inv_def)

lemma run_undo_journals [simp]: "h_journals (run_undo root e u h) = h_journals h"
  by (cases u) (simp_all add: issue_call_def)

lemma foldl_undo_journals:
  "h_journals (foldl (\<lambda>h (k, u). if skip u then h else run_undo root (envs k) u h) h kus) = h_journals h"
  by (induction kus arbitrary: h) (auto simp: split_def)

lemma undo_all_journals: "h_journals (undo_all envs k us h) = h_journals h"
  using foldl_undo_journals [of "\<lambda>_. False"] by (simp add: undo_all_def)

lemma drop_journals: "h_journals (drop_journal envs j h) = h_journals h"
  by (simp add: drop_journal_def foldl_undo_journals)

lemma load_pending_cong: "h_journals h' = h_journals h \<Longrightarrow> load_pending ok lab h' = load_pending ok lab h"
  by (simp add: load_pending_def)



end
