(* ===== verification/Job_Queue.thy ===== *)
theory Job_Queue
  imports Btree_Map
begin

text \<open>
  The daemon's queues of changes, \<open>bins/nlink-labd/src/jobs.rs\<close>: \<open>enqueue\<close>, \<open>spawn_queue\<close> and the loop of a queue's
  thread. Threads interleave freely: a step of the model is one critical section. Every queue ever
  started stays in a heap under its number, as a thread keeps its channel when the registry forgets it;
  the registry maps a lab to the queue that takes its work. A change is opaque here: what
  \<open>mutate::handle\<close> answers is the reply \<open>Answered\<close>. A thread may stop at any point (a panic, or a runtime that
  cannot be built), which drops its channel and the reply of everything in it; whether a thread can be spawned is an argument.
  The idle timeout is a step that is always possible while nothing runs.
\<close>

datatype reply = Answered | Queue_Stopped | Cannot_Start

record 'w queue =
  q_lab :: string
  q_alive :: bool
  q_waiting :: "'w list"
  q_running :: "'w option"
  q_pending :: nat

record 'w daemon =
  d_heap :: "(nat, 'w queue) btree_map"
  d_next :: nat
  d_queues :: "(string, nat) btree_map"
  d_answered :: "(string \<times> 'w \<times> reply) list"
  d_positions :: "('w \<times> nat) list"

definition daemon_new :: "'w daemon" where
  "daemon_new = \<lparr>d_heap = bm_empty, d_next = 0, d_queues = bm_empty, d_answered = [], d_positions = []\<rparr>"

definition put_queue :: "nat \<Rightarrow> 'w queue \<Rightarrow> 'w daemon \<Rightarrow> 'w daemon" where
  "put_queue i q s = s\<lparr>d_heap := bm_insert i q (d_heap s)\<rparr>"

definition answer :: "string \<Rightarrow> reply \<Rightarrow> 'w list \<Rightarrow> 'w daemon \<Rightarrow> 'w daemon" where
  "answer lab r ws s = s\<lparr>d_answered := d_answered s @ map (\<lambda>w. (lab, w, r)) ws\<rparr>"

definition spawn_queue :: "bool \<Rightarrow> string \<Rightarrow> 'w daemon \<Rightarrow> nat \<times> 'w daemon" where
  "spawn_queue spawned lab s =
     (let i = d_next s in
      (i, (put_queue i \<lparr>q_lab = lab, q_alive = spawned, q_waiting = [], q_running = None, q_pending = 0\<rparr> s)
        \<lparr>d_next := i + 1\<rparr>))"

text \<open>The queue that takes a lab's change, started if there is none.\<close>

definition find_queue :: "bool \<Rightarrow> string \<Rightarrow> 'w daemon \<Rightarrow> nat \<times> 'w daemon" where
  "find_queue spawned lab s =
     (case bm_get (d_queues s) lab of
        Some i \<Rightarrow> (i, s)
      | None \<Rightarrow> (case spawn_queue spawned lab s of (i, s) \<Rightarrow> (i, s\<lparr>d_queues := bm_insert lab i (d_queues s)\<rparr>)))"

text \<open>The two attempts of \<open>enqueue\<close>, under the lock of the registry.\<close>

fun enqueue_tries :: "bool list \<Rightarrow> string \<Rightarrow> 'w \<Rightarrow> 'w daemon \<Rightarrow> 'w daemon" where
  "enqueue_tries [] lab w s = answer lab Cannot_Start [w] s"
| "enqueue_tries (spawned # tries) lab w s =
     (case find_queue spawned lab s of
        (i, s) \<Rightarrow>
          (case bm_get (d_heap s) i of
             None \<Rightarrow> s
           | Some q \<Rightarrow>
               let position = q_pending q;
                   q = q\<lparr>q_pending := position + 1\<rparr>;
                   s = (if position > 0 then s\<lparr>d_positions := d_positions s @ [(w, position)]\<rparr> else s) in
               if q_alive q then put_queue i (q\<lparr>q_waiting := q_waiting q @ [w]\<rparr>) s
               else enqueue_tries tries lab w ((put_queue i q s)\<lparr>d_queues := bm_remove lab (d_queues s)\<rparr>)))"

definition enqueue :: "bool \<times> bool \<Rightarrow> string \<Rightarrow> 'w \<Rightarrow> 'w daemon \<Rightarrow> 'w daemon" where
  "enqueue spawned lab w s = enqueue_tries [fst spawned, snd spawned] lab w s"

text \<open>The steps of the thread of queue \<open>i\<close>.\<close>

definition take_work :: "nat \<Rightarrow> 'w daemon \<Rightarrow> 'w daemon option" where
  "take_work i s =
     (case bm_get (d_heap s) i of
        Some q \<Rightarrow>
          (case (q_alive q, q_running q, q_waiting q) of
             (True, None, w # ws) \<Rightarrow> Some (put_queue i (q\<lparr>q_running := Some w, q_waiting := ws\<rparr>) s)
           | _ \<Rightarrow> None)
      | None \<Rightarrow> None)"

definition finish_work :: "nat \<Rightarrow> 'w daemon \<Rightarrow> 'w daemon option" where
  "finish_work i s =
     (case bm_get (d_heap s) i of
        Some q \<Rightarrow>
          (case (q_alive q, q_running q) of
             (True, Some w) \<Rightarrow>
               Some (answer (q_lab q) Answered [w]
                 (put_queue i (q\<lparr>q_running := None, q_pending := q_pending q - 1\<rparr>) s))
           | _ \<Rightarrow> None)
      | None \<Rightarrow> None)"

definition leave_idle :: "nat \<Rightarrow> 'w daemon \<Rightarrow> 'w daemon option" where
  "leave_idle i s =
     (case bm_get (d_heap s) i of
        Some q \<Rightarrow>
          (case (q_alive q, q_running q, q_waiting q) of
             (True, None, []) \<Rightarrow>
               Some ((put_queue i (q\<lparr>q_alive := False\<rparr>) s)\<lparr>d_queues := bm_remove (q_lab q) (d_queues s)\<rparr>)
           | _ \<Rightarrow> None)
      | None \<Rightarrow> None)"

definition stop_thread :: "nat \<Rightarrow> 'w daemon \<Rightarrow> 'w daemon option" where
  "stop_thread i s =
     (case bm_get (d_heap s) i of
        Some q \<Rightarrow>
          (if q_alive q
           then Some (answer (q_lab q) Queue_Stopped (case q_running q of Some w \<Rightarrow> w # q_waiting q | None \<Rightarrow> q_waiting q)
                  (put_queue i (q\<lparr>q_alive := False, q_waiting := [], q_running := None\<rparr>) s))
           else None)
      | None \<Rightarrow> None)"

subsection \<open>The interleavings\<close>

text \<open>A step is labelled with the change it submits, if it submits one.\<close>

inductive thread_step :: "'w daemon \<Rightarrow> 'w daemon \<Rightarrow> bool" where
  Take: "take_work i s = Some s' \<Longrightarrow> thread_step s s'"
| Finish: "finish_work i s = Some s' \<Longrightarrow> thread_step s s'"
| Leave: "leave_idle i s = Some s' \<Longrightarrow> thread_step s s'"
| Stop: "stop_thread i s = Some s' \<Longrightarrow> thread_step s s'"

inductive daemon_run :: "(string \<times> 'w) list \<Rightarrow> 'w daemon \<Rightarrow> bool" where
  Start: "daemon_run [] daemon_new"
| Submit: "daemon_run subs s \<Longrightarrow> daemon_run (subs @ [(lab, w)]) (enqueue spawned lab w s)"
| Thread: "daemon_run subs s \<Longrightarrow> thread_step s s' \<Longrightarrow> daemon_run subs s'"


subsection \<open>The invariant\<close>

definition content :: "'w queue \<Rightarrow> 'w list" where
  "content q = (case q_running q of Some w \<Rightarrow> [w] | None \<Rightarrow> []) @ q_waiting q"

lemma content_alt: "content q = (case q_running q of Some w \<Rightarrow> w # q_waiting q | None \<Rightarrow> q_waiting q)"
  by (simp add: content_def split: option.splits)

definition queue_ok :: "'w daemon \<Rightarrow> nat \<Rightarrow> 'w queue \<Rightarrow> bool" where
  "queue_ok s i q \<longleftrightarrow> i < d_next s \<and>
     (if q_alive q then bm_get (d_queues s) (q_lab q) = Some i \<and> q_pending q = length (content q) else content q = [])"

definition daemon_inv :: "'w daemon \<Rightarrow> bool" where
  "daemon_inv s \<longleftrightarrow> (\<forall>i q. bm_get (d_heap s) i = Some q \<longrightarrow> queue_ok s i q) \<and>
     (\<forall>lab i. bm_get (d_queues s) lab = Some i \<longrightarrow> (\<exists>q. bm_get (d_heap s) i = Some q \<and> q_lab q = lab))"

definition in_queue :: "string \<Rightarrow> 'w daemon \<Rightarrow> 'w list" where
  "in_queue lab s =
     (case Option.bind (bm_get (d_queues s) lab) (bm_get (d_heap s)) of Some q \<Rightarrow> content q | None \<Rightarrow> [])"

definition answered_for :: "string \<Rightarrow> 'w daemon \<Rightarrow> 'w list" where
  "answered_for lab s = map (\<lambda>(_, w, _). w) (filter (\<lambda>(l, _). l = lab) (d_answered s))"

definition accounted :: "string \<Rightarrow> 'w daemon \<Rightarrow> 'w list" where
  "accounted lab s = answered_for lab s @ in_queue lab s"

lemma answered_for_answer: "answered_for lab (answer l r ws s) = answered_for lab s @ (if l = lab then ws else [])"
proof -
  have "map (\<lambda>(_, w, _). w) (filter (\<lambda>(k, _). k = lab) (map (\<lambda>w. (l, w, r)) ws)) = (if l = lab then ws else [])"
    by (induction ws) auto
  then show ?thesis by (simp add: answered_for_def answer_def)
qed

lemma answer_fields [simp]:
  "d_heap (answer l r ws s) = d_heap s" "d_queues (answer l r ws s) = d_queues s" "d_next (answer l r ws s) = d_next s"
  by (simp_all add: answer_def)

lemma put_queue_fields [simp]:
  "d_heap (put_queue i q s) = bm_insert i q (d_heap s)" "d_queues (put_queue i q s) = d_queues s"
  "d_next (put_queue i q s) = d_next s" "d_answered (put_queue i q s) = d_answered s"
  by (simp_all add: put_queue_def)

text \<open>
  A step on a live queue: it may keep the queue registered or leave the registry, and it may bring
  new changes \<open>ws\<close>.
\<close>

lemma queue_step:
  assumes inv: "daemon_inv s" and q: "bm_get (d_heap s) i = Some q" "q_alive q"
    and heap: "d_heap s' = bm_insert i q' (d_heap s)" and nxt: "d_next s' = d_next s" and lab: "q_lab q' = q_lab q"
    and reg: "d_queues s' = d_queues s \<or> \<not> q_alive q' \<and> d_queues s' = bm_remove (q_lab q) (d_queues s)"
    and q': "if q_alive q' then q_pending q' = length (content q') else content q' = []"
    and acc: "answered_for (q_lab q) s' @ content q' = answered_for (q_lab q) s @ content q @ ws"
    and frame: "\<And>l. l \<noteq> q_lab q \<Longrightarrow> answered_for l s' = answered_for l s"
  shows "daemon_inv s' \<and> accounted l s' = accounted l s @ (if l = q_lab q then ws else [])"
proof
  have ok: "queue_ok s i q" using inv q(1) by (simp add: daemon_inv_def)
  then have own: "bm_get (d_queues s) (q_lab q) = Some i" using q(2) by (simp add: queue_ok_def)
  have other: "i' \<noteq> i" if "bm_get (d_queues s) l' = Some i'" "l' \<noteq> q_lab q" for l' i'
    using that inv q(1) unfolding daemon_inv_def by (metis option.inject)
  have alive_own: "q_lab p \<noteq> q_lab q" if "bm_get (d_heap s) k = Some p" "q_alive p" "k \<noteq> i" for k p
  proof
    assume "q_lab p = q_lab q"
    moreover have "bm_get (d_queues s) (q_lab p) = Some k" using inv that by (auto simp: daemon_inv_def queue_ok_def)
    ultimately show False using own that(3) by simp
  qed
  show "daemon_inv s'"
    unfolding daemon_inv_def
  proof (intro conjI allI impI)
    fix k p assume k: "bm_get (d_heap s') k = Some p"
    show "queue_ok s' k p"
    proof (cases "k = i")
      case True
      then show ?thesis using k heap nxt reg q' lab own ok by (auto simp: queue_ok_def)
    next
      case False
      then have p: "bm_get (d_heap s) k = Some p" using k heap by simp
      then have "queue_ok s k p" using inv by (simp add: daemon_inv_def)
      then show ?thesis using alive_own [OF p _ False] reg nxt by (auto simp: queue_ok_def)
    qed
  next
    fix l' i' assume "bm_get (d_queues s') l' = Some i'"
    then have i': "bm_get (d_queues s) l' = Some i'" using reg by (auto split: if_splits)
    then obtain p where "bm_get (d_heap s) i' = Some p" "q_lab p = l'"
      using inv unfolding daemon_inv_def by blast
    then show "\<exists>q. bm_get (d_heap s') i' = Some q \<and> q_lab q = l'" using heap lab q(1) by (cases "i' = i") auto
  qed
  show "accounted l s' = accounted l s @ (if l = q_lab q then ws else [])"
  proof (cases "l = q_lab q")
    case True
    have "in_queue (q_lab q) s = content q" using own q(1) by (simp add: in_queue_def)
    moreover have "in_queue (q_lab q) s' = content q'" using own reg heap q' by (auto simp: in_queue_def)
    ultimately show ?thesis using acc True by (simp add: accounted_def)
  next
    case False
    have "bm_get (d_queues s') l = bm_get (d_queues s) l" using reg False by auto
    moreover have "bm_get (d_heap s') i' = bm_get (d_heap s) i'" if "bm_get (d_queues s) l = Some i'" for i'
      using other [OF that False] heap by simp
    ultimately have "in_queue l s' = in_queue l s" by (cases "bm_get (d_queues s) l") (simp_all add: in_queue_def)
    then show ?thesis using frame [OF False] False by (simp add: accounted_def)
  qed
qed

lemma answered_for_put [simp]: "answered_for l (put_queue i q s) = answered_for l s"
  by (simp add: answered_for_def)

lemmas own_step = queue_step [where ws = "[]", simplified]

lemma thread_step_inv:
  assumes "thread_step s s'" "daemon_inv s"
  shows "daemon_inv s' \<and> accounted l s' = accounted l s"
  using assms
proof (induction rule: thread_step.induct)
  case (Take i s s')
  then obtain q w ws where q: "bm_get (d_heap s) i = Some q" "q_alive q" "q_running q = None" "q_waiting q = w # ws"
    and s': "s' = put_queue i (q\<lparr>q_running := Some w, q_waiting := ws\<rparr>) s"
    by (auto simp: take_work_def split: option.splits bool.splits list.splits)
  have "q_pending q = length (content q)" using Take.prems q by (auto simp: daemon_inv_def queue_ok_def)
  then show ?case
    using q s' by (intro own_step [OF Take.prems q(1,2), where q' = "q\<lparr>q_running := Some w, q_waiting := ws\<rparr>"])
      (auto simp: content_def answered_for_def)
next
  case (Finish i s s')
  then obtain q w where q: "bm_get (d_heap s) i = Some q" "q_alive q" "q_running q = Some w"
    and s': "s' = answer (q_lab q) Answered [w] (put_queue i (q\<lparr>q_running := None, q_pending := q_pending q - 1\<rparr>) s)"
    by (auto simp: finish_work_def split: option.splits bool.splits)
  have "q_pending q = length (content q)" using Finish.prems q by (auto simp: daemon_inv_def queue_ok_def)
  then show ?case
    using q s' by (intro own_step [OF Finish.prems q(1,2), where q' = "q\<lparr>q_running := None, q_pending := q_pending q - 1\<rparr>"])
      (auto simp: content_def answered_for_answer)
next
  case (Leave i s s')
  then obtain q where q: "bm_get (d_heap s) i = Some q" "q_alive q" "q_running q = None" "q_waiting q = []"
    and s': "s' = (put_queue i (q\<lparr>q_alive := False\<rparr>) s)\<lparr>d_queues := bm_remove (q_lab q) (d_queues s)\<rparr>"
    by (auto simp: leave_idle_def split: option.splits bool.splits list.splits)
  then show ?case
    by (intro own_step [OF Leave.prems q(1,2), where q' = "q\<lparr>q_alive := False\<rparr>"])
      (auto simp: content_def answered_for_def)
next
  case (Stop i s s')
  then obtain q where q: "bm_get (d_heap s) i = Some q" "q_alive q"
    and s': "s' = answer (q_lab q) Queue_Stopped (content q)
      (put_queue i (q\<lparr>q_alive := False, q_waiting := [], q_running := None\<rparr>) s)"
    unfolding stop_thread_def content_alt [symmetric] by (auto split: option.splits if_splits)
  then show ?case
    by (intro own_step [OF Stop.prems q, where q' = "q\<lparr>q_alive := False, q_waiting := [], q_running := None\<rparr>"])
      (auto simp: content_def answered_for_answer)
qed

text \<open>Submitting a change appends it to what its lab accounts for, and touches no other lab.\<close>

lemma in_queue_absent: "bm_get (d_queues s) lab = None \<Longrightarrow> in_queue lab s = []"
  by (simp add: in_queue_def)

lemma spawn_inv:
  assumes inv: "daemon_inv s" and none: "bm_get (d_queues s) lab = None" and spawn: "spawn_queue spawned lab s = (i, s')"
  shows "daemon_inv (s'\<lparr>d_queues := bm_insert lab i (d_queues s')\<rparr>) \<and>
    accounted l (s'\<lparr>d_queues := bm_insert lab i (d_queues s')\<rparr>) = accounted l s"
proof -
  let ?q = "\<lparr>q_lab = lab, q_alive = spawned, q_waiting = [], q_running = None, q_pending = 0\<rparr>"
  have i: "i = d_next s" and heap: "d_heap s' = bm_insert i ?q (d_heap s)" and rest: "d_next s' = i + 1"
    "d_queues s' = d_queues s" "d_answered s' = d_answered s"
    using spawn by (auto simp: spawn_queue_def Let_def)
  have old: "k < i \<and> k \<noteq> i" if "bm_get (d_heap s) k = Some p" for k p
    using inv that i by (auto simp: daemon_inv_def queue_ok_def)
  let ?s'' = "s'\<lparr>d_queues := bm_insert lab i (d_queues s')\<rparr>"
  have "content ?q = []" by (simp add: content_def)
  moreover have "in_queue l (s'\<lparr>d_queues := bm_insert lab i (d_queues s')\<rparr>) = in_queue l s"
  proof (cases "l = lab")
    case True
    then show ?thesis using none heap by (simp add: in_queue_def content_def)
  next
    case False
    have "bm_get (d_heap s') k = bm_get (d_heap s) k" if reg: "bm_get (d_queues s) l = Some k" for k
    proof -
      obtain p where "bm_get (d_heap s) k = Some p" using inv reg unfolding daemon_inv_def by blast
      then show ?thesis using old heap by simp
    qed
    then show ?thesis using False rest by (cases "bm_get (d_queues s) l") (simp_all add: in_queue_def)
  qed
  ultimately have acc: "accounted l ?s'' = accounted l s"
    using rest by (simp add: accounted_def answered_for_def)
  have "queue_ok ?s'' k p" if k: "bm_get (d_heap ?s'') k = Some p" for k p
  proof (cases "k = i")
    case True
    then have "p = ?q" using k heap by simp
    then show ?thesis using True rest by (simp add: queue_ok_def content_def)
  next
    case False
    then have p: "bm_get (d_heap s) k = Some p" using k heap by simp
    then have ok: "queue_ok s k p" using inv by (simp add: daemon_inv_def)
    then have "q_alive p \<longrightarrow> q_lab p \<noteq> lab" using none by (auto simp: queue_ok_def)
    with ok rest i show ?thesis by (auto simp: queue_ok_def)
  qed
  moreover have "\<exists>p. bm_get (d_heap ?s'') k = Some p \<and> q_lab p = l'" if "bm_get (d_queues ?s'') l' = Some k" for l' k
  proof (cases "l' = lab")
    case True
    then show ?thesis using that heap by simp
  next
    case False
    then have "bm_get (d_queues s) l' = Some k" using that rest by simp
    then obtain p where p: "bm_get (d_heap s) k = Some p" "q_lab p = l'" using inv unfolding daemon_inv_def by blast
    then show ?thesis using old [OF p(1)] heap by simp
  qed
  ultimately have "daemon_inv ?s''" unfolding daemon_inv_def by blast
  then show ?thesis using acc ..
qed

lemma dead_step:
  assumes inv: "daemon_inv s" and reg: "bm_get (d_queues s) lab = Some i" and q: "bm_get (d_heap s) i = Some q" "\<not> q_alive q"
    and s': "d_heap s' = bm_insert i (q\<lparr>q_pending := n\<rparr>) (d_heap s)" "d_next s' = d_next s"
      "d_queues s' = bm_remove lab (d_queues s)" "d_answered s' = d_answered s"
  shows "daemon_inv s' \<and> accounted l s' = accounted l s"
proof
  have dead: "i < d_next s" "content q = []" using inv q by (auto simp: daemon_inv_def queue_ok_def)
  have lab: "q_lab q = lab" using inv reg q(1) unfolding daemon_inv_def by (metis option.inject)
  have "queue_ok s' k p" if k: "bm_get (d_heap s') k = Some p" for k p
  proof (cases "k = i")
    case True
    then have "p = q\<lparr>q_pending := n\<rparr>" using k s' by simp
    then show ?thesis using True dead q(2) s' by (simp add: queue_ok_def content_def)
  next
    case False
    then have p: "bm_get (d_heap s) k = Some p" using k s' by simp
    then have ok: "queue_ok s k p" using inv by (simp add: daemon_inv_def)
    then have "q_alive p \<longrightarrow> q_lab p \<noteq> lab" using reg False by (auto simp: queue_ok_def)
    with ok s' show ?thesis by (auto simp: queue_ok_def)
  qed
  moreover have "\<exists>p. bm_get (d_heap s') k = Some p \<and> q_lab p = l'" if r: "bm_get (d_queues s') l' = Some k" for l' k
  proof -
    have "bm_get (d_queues s) l' = Some k" "l' \<noteq> lab" using r s' by (auto split: if_splits)
    then obtain p where "bm_get (d_heap s) k = Some p" "q_lab p = l'" using inv unfolding daemon_inv_def by blast
    then show ?thesis using s' lab \<open>l' \<noteq> lab\<close> q(1) by (cases "k = i") auto
  qed
  ultimately show "daemon_inv s'" unfolding daemon_inv_def by blast
  have "in_queue l s' = in_queue l s"
  proof (cases "l = lab")
    case True
    then show ?thesis using s' reg q dead by (simp add: in_queue_def)
  next
    case False
    have "bm_get (d_heap s') k = bm_get (d_heap s) k" if r: "bm_get (d_queues s) l = Some k" for k
    proof -
      obtain p where "bm_get (d_heap s) k = Some p" "q_lab p = l" using inv r unfolding daemon_inv_def by blast
      then show ?thesis using s' False lab q(1) by (cases "k = i") auto
    qed
    then show ?thesis using False s' by (cases "bm_get (d_queues s) l") (simp_all add: in_queue_def)
  qed
  then show "accounted l s' = accounted l s" using s' by (simp add: accounted_def answered_for_def)
qed

lemma positions_fields [simp]:
  "daemon_inv (s\<lparr>d_positions := ps\<rparr>) = daemon_inv s" "accounted l (s\<lparr>d_positions := ps\<rparr>) = accounted l s"
  by (simp_all add: daemon_inv_def queue_ok_def accounted_def in_queue_def answered_for_def)

lemma find_queue_inv:
  assumes "daemon_inv s" "find_queue spawned lab s = (i, s')"
  shows "daemon_inv s'" "accounted l s' = accounted l s"
    "\<exists>q. bm_get (d_queues s') lab = Some i \<and> bm_get (d_heap s') i = Some q \<and> q_lab q = lab"
proof -
  have "daemon_inv s' \<and> accounted l s' = accounted l s \<and> bm_get (d_queues s') lab = Some i"
  proof (cases "bm_get (d_queues s) lab")
    case None
    obtain i0 s0 where "spawn_queue spawned lab s = (i0, s0)" by fastforce
    then show ?thesis using spawn_inv [OF assms(1) None, of spawned i0 s0] assms(2) None by (auto simp: find_queue_def)
  qed (use assms in \<open>auto simp: find_queue_def\<close>)
  then show "daemon_inv s'" "accounted l s' = accounted l s"
    "\<exists>q. bm_get (d_queues s') lab = Some i \<and> bm_get (d_heap s') i = Some q \<and> q_lab q = lab"
    unfolding daemon_inv_def by blast+
qed

lemma enqueue_tries_inv:
  assumes "daemon_inv s" "tries = [] \<longrightarrow> bm_get (d_queues s) lab = None"
  shows "daemon_inv (enqueue_tries tries lab w s) \<and>
    accounted l (enqueue_tries tries lab w s) = accounted l s @ (if l = lab then [w] else [])"
  using assms
proof (induction tries arbitrary: s)
  case Nil
  then have "in_queue lab s = []" by (simp add: in_queue_absent)
  moreover have "in_queue l (answer lab r ws s) = in_queue l s" for r ws by (simp add: in_queue_def)
  moreover have "daemon_inv (answer lab r ws s) = daemon_inv s" for r ws by (simp add: daemon_inv_def queue_ok_def)
  ultimately show ?case using Nil by (auto simp: accounted_def answered_for_answer)
next
  case (Cons spawned tries)
  obtain i s0 where found: "find_queue spawned lab s = (i, s0)" by fastforce
  note inv = find_queue_inv [OF Cons.prems(1) found]
  then obtain q where q: "bm_get (d_queues s0) lab = Some i" "bm_get (d_heap s0) i = Some q" "q_lab q = lab" by blast
  define s1 where "s1 = (if q_pending q > 0 then s0\<lparr>d_positions := d_positions s0 @ [(w, q_pending q)]\<rparr> else s0)"
  have s1: "daemon_inv s1" "accounted l s1 = accounted l s" "bm_get (d_queues s1) lab = Some i" "bm_get (d_heap s1) i = Some q"
    using inv q by (simp_all add: s1_def)
  let ?q = "q\<lparr>q_pending := q_pending q + 1\<rparr>"
  let ?dead = "(put_queue i ?q s1)\<lparr>d_queues := bm_remove lab (d_queues s1)\<rparr>"
  have run: "enqueue_tries (spawned # tries) lab w s =
      (if q_alive q then put_queue i (?q\<lparr>q_waiting := q_waiting q @ [w]\<rparr>) s1 else enqueue_tries tries lab w ?dead)"
    using found q by (simp add: s1_def Let_def)
  show ?case
  proof (cases "q_alive q")
    case True
    let ?s = "put_queue i (?q\<lparr>q_waiting := q_waiting q @ [w]\<rparr>) s1"
    have "q_pending q = length (content q)" using s1 True by (auto simp: daemon_inv_def queue_ok_def)
    then have "daemon_inv ?s \<and> accounted l ?s = accounted l s1 @ (if l = q_lab q then [w] else [])"
      using True by (intro queue_step [OF s1(1,4) True, where q' = "?q\<lparr>q_waiting := q_waiting q @ [w]\<rparr>"])
        (auto simp: content_def)
    then show ?thesis using True q(3) s1(2) unfolding run by simp
  next
    case False
    have "daemon_inv ?dead \<and> accounted l ?dead = accounted l s1"
      by (rule dead_step [OF s1(1,3,4) False]) simp_all
    then show ?thesis using False s1(2) Cons.IH [of ?dead] unfolding run by simp
  qed
qed


subsection \<open>Every run\<close>

definition submitted_for :: "string \<Rightarrow> (string \<times> 'w) list \<Rightarrow> 'w list" where
  "submitted_for lab subs = map snd (filter (\<lambda>(l, _). l = lab) subs)"

lemma daemon_run_inv: "daemon_run subs s \<Longrightarrow> daemon_inv s \<and> (\<forall>lab. accounted lab s = submitted_for lab subs)"
proof (induction rule: daemon_run.induct)
  case Start
  then show ?case
    by (simp add: daemon_inv_def daemon_new_def accounted_def answered_for_def in_queue_def submitted_for_def)
next
  case (Submit subs s lab w spawned)
  then show ?case
    using enqueue_tries_inv [of s "[fst spawned, snd spawned]" lab w] by (auto simp: enqueue_def submitted_for_def)
next
  case (Thread subs s s')
  then show ?case using thread_step_inv [of s s'] by simp
qed

text \<open>C10.
  The queues of a lab are one queue. However submissions, threads, idle timeouts and stopped threads
  interleave: per lab, the answered changes followed by the running and waiting ones are exactly the submitted
  changes in the order of their submission, so none is lost, run twice or overtaken; two changes of a
  lab never run at the same time; and the counter of a live queue is the number of its changes, so it
  never underflows and a position it reports is the number of changes ahead.
\<close>

theorem lab_changes_in_order:
  assumes "daemon_run subs s"
  shows "(\<forall>lab. answered_for lab s @ in_queue lab s = submitted_for lab subs) \<and>
    (\<forall>i j q p. bm_get (d_heap s) i = Some q \<longrightarrow> bm_get (d_heap s) j = Some p \<longrightarrow> q_lab q = q_lab p \<longrightarrow>
       q_running q \<noteq> None \<longrightarrow> q_running p \<noteq> None \<longrightarrow> i = j) \<and>
    (\<forall>i q. bm_get (d_heap s) i = Some q \<longrightarrow> q_alive q \<longrightarrow> q_pending q = length (in_queue (q_lab q) s)) \<and>
    (\<forall>i q. bm_get (d_heap s) i = Some q \<longrightarrow> \<not> q_alive q \<longrightarrow> q_waiting q = [] \<and> q_running q = None)"
proof -
  have inv: "daemon_inv s" and acc: "\<forall>lab. accounted lab s = submitted_for lab subs"
    using daemon_run_inv [OF assms] by blast+
  have ok: "queue_ok s i q" if "bm_get (d_heap s) i = Some q" for i q using inv that by (simp add: daemon_inv_def)
  have own: "bm_get (d_queues s) (q_lab q) = Some i \<and> q_pending q = length (content q)"
    if "bm_get (d_heap s) i = Some q" "q_alive q" for i q using ok [OF that(1)] that(2) by (simp add: queue_ok_def)
  have live: "q_alive q" if "bm_get (d_heap s) i = Some q" "q_running q \<noteq> None" for i q
    using ok [OF that(1)] that(2) by (auto simp: queue_ok_def content_def split: if_splits)
  have "i = j" if "bm_get (d_heap s) i = Some q" "bm_get (d_heap s) j = Some p" "q_lab q = q_lab p"
    "q_running q \<noteq> None" "q_running p \<noteq> None" for i j q p
    using own [OF that(1) live [OF that(1,4)]] own [OF that(2) live [OF that(2,5)]] that(3) by simp
  moreover have "q_pending q = length (in_queue (q_lab q) s)" if "bm_get (d_heap s) i = Some q" "q_alive q" for i q
    using own [OF that] that by (simp add: in_queue_def)
  moreover have "q_waiting q = [] \<and> q_running q = None" if "bm_get (d_heap s) i = Some q" "\<not> q_alive q" for i q
    using ok [OF that(1)] that(2) by (auto simp: queue_ok_def content_def split: option.splits)
  ultimately show ?thesis using acc unfolding accounted_def by blast
qed

definition two_changes :: "nat daemon" where
  "two_changes = enqueue (True, True) ''lab'' 2 (enqueue (True, True) ''lab'' 1 daemon_new)"

lemma two_changes_run: "daemon_run [(''lab'', 1), (''lab'', 2)] two_changes"
  using daemon_run.Submit [OF daemon_run.Submit [OF daemon_run.Start, of "''lab''" "1 :: nat" "(True, True)"], of "''lab''" 2 "(True, True)"]
  unfolding append.simps two_changes_def .

theorem lab_changes_in_order_witness: "in_queue ''lab'' two_changes = [1, 2] \<and> d_positions two_changes = [(2, 1)]"
proof -
  have "answered_for ''lab'' two_changes @ in_queue ''lab'' two_changes = submitted_for ''lab'' [(''lab'', 1), (''lab'', 2)]"
    using lab_changes_in_order [OF two_changes_run] by blast
  moreover have "d_answered two_changes = []" "d_positions two_changes = [(2, 1)]" by code_simp+
  ultimately show ?thesis by (simp add: answered_for_def submitted_for_def)
qed

subsection \<open>Progress\<close>

definition queue_weight :: "'w queue \<Rightarrow> nat" where
  "queue_weight q = (if q_alive q then 1 + 2 * length (q_waiting q) + (if q_running q = None then 0 else 1) else 0)"

definition weight :: "'w daemon \<Rightarrow> nat" where
  "weight s = (\<Sum>i \<in> dom (bm_get (d_heap s)). queue_weight (the (bm_get (d_heap s) i)))"

lemma weight_put:
  assumes "bm_get (d_heap s) i = Some q" "d_heap s' = bm_insert i q' (d_heap s)" "queue_weight q' < queue_weight q"
  shows "weight s' < weight s"
proof -
  let ?D = "dom (bm_get (d_heap s))"
  have i: "i \<in> ?D" and fin: "finite ?D" using assms(1) by auto
  have "dom (bm_get (d_heap s')) = ?D" using assms(2) i by auto
  then have "weight s' = (\<Sum>k \<in> ?D. queue_weight (the (bm_get (d_heap s') k)))" by (simp add: weight_def)
  also have "\<dots> = queue_weight q' + (\<Sum>k \<in> ?D - {i}. queue_weight (the (bm_get (d_heap s) k)))"
    using assms(2) sum.remove [OF fin i, of "\<lambda>k. queue_weight (the (bm_get (d_heap s') k))"] by simp
  also have "\<dots> < queue_weight q + (\<Sum>k \<in> ?D - {i}. queue_weight (the (bm_get (d_heap s) k)))"
    using assms(3) by simp
  also have "\<dots> = weight s"
    using assms(1) sum.remove [OF fin i, of "\<lambda>k. queue_weight (the (bm_get (d_heap s) k))"] by (simp add: weight_def)
  finally show ?thesis .
qed

lemma thread_step_weight: "thread_step s s' \<Longrightarrow> weight s' < weight s"
proof (induction rule: thread_step.induct)
  case (Take i s s')
  then obtain q w ws where "bm_get (d_heap s) i = Some q" "q_alive q" "q_running q = None" "q_waiting q = w # ws"
    and s': "s' = put_queue i (q\<lparr>q_running := Some w, q_waiting := ws\<rparr>) s"
    by (auto simp: take_work_def split: option.splits bool.splits list.splits)
  then show ?case by (intro weight_put [of s i q]) (auto simp: queue_weight_def)
next
  case (Finish i s s')
  then obtain q w where "bm_get (d_heap s) i = Some q" "q_alive q" "q_running q = Some w"
    and s': "s' = answer (q_lab q) Answered [w] (put_queue i (q\<lparr>q_running := None, q_pending := q_pending q - 1\<rparr>) s)"
    by (auto simp: finish_work_def split: option.splits bool.splits)
  then show ?case by (intro weight_put [of s i q]) (auto simp: queue_weight_def)
next
  case (Leave i s s')
  then obtain q where "bm_get (d_heap s) i = Some q" "q_alive q"
    and s': "s' = (put_queue i (q\<lparr>q_alive := False\<rparr>) s)\<lparr>d_queues := bm_remove (q_lab q) (d_queues s)\<rparr>"
    by (auto simp: leave_idle_def split: option.splits bool.splits list.splits)
  then show ?case by (intro weight_put [of s i q]) (auto simp: queue_weight_def)
next
  case (Stop i s s')
  then obtain q where "bm_get (d_heap s) i = Some q" "q_alive q"
    and s': "s' = answer (q_lab q) Queue_Stopped (content q)
      (put_queue i (q\<lparr>q_alive := False, q_waiting := [], q_running := None\<rparr>) s)"
    unfolding stop_thread_def content_alt [symmetric] by (auto split: option.splits if_splits)
  then show ?case by (intro weight_put [of s i q]) (auto simp: queue_weight_def)
qed

lemma work_enabled:
  assumes "daemon_inv s" "in_queue lab s \<noteq> []"
  shows "\<exists>i. take_work i s \<noteq> None \<or> finish_work i s \<noteq> None"
proof -
  obtain i q where q: "bm_get (d_queues s) lab = Some i" "bm_get (d_heap s) i = Some q" "content q \<noteq> []"
    using assms(2) by (cases "bm_get (d_queues s) lab") (auto simp: in_queue_def split: option.splits)
  then have "q_alive q" using assms(1) by (auto simp: daemon_inv_def queue_ok_def split: if_splits)
  with q have "take_work i s \<noteq> None \<or> finish_work i s \<noteq> None"
    by (cases "q_running q"; cases "q_waiting q") (simp_all add: take_work_def finish_work_def content_def)
  then show ?thesis by blast
qed

lemma no_infinite_run: "\<not> (\<exists>f. \<forall>n. thread_step (f n) (f (Suc n)))"
proof
  assume "\<exists>f. \<forall>n. thread_step (f n :: 'w daemon) (f (Suc n))"
  then obtain f where f: "\<forall>n. thread_step (f n :: 'w daemon) (f (Suc n))" by blast
  have "weight (f n) + n \<le> weight (f 0)" for n
  proof (induction n)
    case (Suc n)
    then show ?case using thread_step_weight [OF f [THEN spec, of n]] by simp
  qed simp
  from this [of "Suc (weight (f 0))"] show False by simp
qed

lemma drain:
  "daemon_run subs s \<Longrightarrow> \<exists>s'. thread_step\<^sup>*\<^sup>* s s' \<and> (\<forall>lab. in_queue lab s' = []) \<and> daemon_run subs s'"
proof (induction "weight s" arbitrary: s rule: less_induct)
  case less
  show ?case
  proof (cases "\<forall>lab. in_queue lab s = []")
    case True
    then show ?thesis using less.prems by blast
  next
    case False
    then obtain i s' where "take_work i s = Some s' \<or> finish_work i s = Some s'"
      using work_enabled daemon_run_inv [OF less.prems] by blast
    then have step: "thread_step s s'" using Take Finish by blast
    from less.hyps [OF thread_step_weight [OF step] daemon_run.Thread [OF less.prems step]] step show ?thesis
      by (meson converse_rtranclp_into_rtranclp)
  qed
qed

text \<open>C11.
  Every change is answered. While a lab has a change that is not, some thread can take or finish one; threads
  cannot run for ever without new submissions; so from every state they reach, in finitely many
  steps and on every schedule that does not stop early, one in which each lab's answers are its
  submissions, in order.
\<close>

theorem every_change_answered:
  assumes "daemon_run subs s"
  shows "(\<forall>lab. in_queue lab s \<noteq> [] \<longrightarrow> (\<exists>i. take_work i s \<noteq> None \<or> finish_work i s \<noteq> None)) \<and>
    \<not> (\<exists>f. f 0 = s \<and> (\<forall>n. thread_step (f n) (f (Suc n)))) \<and>
    (\<forall>s'. thread_step\<^sup>*\<^sup>* s s' \<longrightarrow> (\<forall>i. take_work i s' = None \<and> finish_work i s' = None) \<longrightarrow>
       (\<forall>lab. answered_for lab s' = submitted_for lab subs)) \<and>
    (\<exists>s'. thread_step\<^sup>*\<^sup>* s s' \<and> (\<forall>lab. answered_for lab s' = submitted_for lab subs))"
proof -
  have runs: "daemon_run subs s'" if "thread_step\<^sup>*\<^sup>* s s'" for s'
    using that assms by (induction rule: rtranclp_induct) (auto intro: daemon_run.Thread)
  have all: "answered_for lab s' = submitted_for lab subs" if "daemon_run subs s'" "in_queue lab s' = []" for s' lab
    using daemon_run_inv [OF that(1), THEN conjunct2, THEN spec, of lab] that(2) by (simp add: accounted_def)
  have enabled: "\<exists>i. take_work i s' \<noteq> None \<or> finish_work i s' \<noteq> None" if "daemon_run subs s'" "in_queue lab s' \<noteq> []" for s' lab
    using work_enabled daemon_run_inv that by blast
  have "answered_for lab s' = submitted_for lab subs"
    if "thread_step\<^sup>*\<^sup>* s s'" "\<forall>i. take_work i s' = None \<and> finish_work i s' = None" for s' lab
    using all [OF runs [OF that(1)], of lab] enabled [OF runs [OF that(1)], of lab] that(2) by auto
  moreover have "\<not> (\<exists>f. f 0 = s \<and> (\<forall>n. thread_step (f n) (f (Suc n))))" using no_infinite_run by blast
  moreover have "\<exists>s'. thread_step\<^sup>*\<^sup>* s s' \<and> (\<forall>lab. answered_for lab s' = submitted_for lab subs)"
    using drain [OF assms] all by blast
  ultimately show ?thesis using enabled [OF assms] by blast
qed

theorem every_change_answered_witness: "\<exists>s'. thread_step\<^sup>*\<^sup>* two_changes s' \<and> answered_for ''lab'' s' = [1, 2]"
proof -
  have "\<exists>s'. thread_step\<^sup>*\<^sup>* two_changes s' \<and> (\<forall>lab. answered_for lab s' = submitted_for lab [(''lab'', 1), (''lab'', 2)])"
    by (rule every_change_answered [OF two_changes_run, THEN conjunct2, THEN conjunct2, THEN conjunct2])
  then obtain s' where "thread_step\<^sup>*\<^sup>* two_changes s'" "answered_for ''lab'' s' = submitted_for ''lab'' [(''lab'', 1), (''lab'', 2)]"
    by blast
  then show ?thesis by (intro exI [of _ s']) (simp add: submitted_for_def)
qed

end
