(* ===== verification/Validator_Order.thy ===== *)
theory Validator_Order
  imports Validator_Base
begin

text \<open>
  The container and ordering rules of \<open>crates/nlink-lab/src/validator.rs\<close>
  (\<open>validate_container_fields\<close> and \<open>validate_depends_on_cycle\<close>). The cycle rule is a second
  implementation of Kahn's algorithm: it ignores names that are no nodes, pushes ready nodes
  directly onto its stack and only counts the visited ones. It is related here to the sort that
  orders the start of nodes (\<open>Start_Order\<close>).
\<close>

subsection \<open>Container fields\<close>

definition container_only :: "node \<Rightarrow> (string \<times> bool) list" where
  "container_only n =
     [(''cmd'', node_cmd n \<noteq> None), (''env'', node_env n \<noteq> None), (''volumes'', node_volumes n \<noteq> None),
      (''entrypoint'', node_entrypoint n \<noteq> None), (''hostname'', node_hostname n \<noteq> None),
      (''workdir'', node_workdir n \<noteq> None), (''privileged'', node_privileged n), (''pull'', node_pull n \<noteq> None),
      (''env-file'', node_env_file n \<noteq> None), (''overlay'', node_overlay n \<noteq> None),
      (''cap-add'', node_cap_add n \<noteq> []), (''cap-drop'', node_cap_drop n \<noteq> []), (''labels'', node_labels n \<noteq> []),
      (''exec'', node_container_exec n \<noteq> []), (''configs'', node_configs n \<noteq> [])]"

definition check_image :: "string \<Rightarrow> node \<Rightarrow> issue list" where
  "check_image name n =
     (case node_image n of
        None \<Rightarrow> concat (map (\<lambda>(prop, present). report present (err ''container-requires-image'' (''nodes.'' @ name @ ''.'' @ prop)))
                  (container_only n))
      | Some img \<Rightarrow> report (img = []) (err ''empty-image'' (''nodes.'' @ name @ ''.image'')))"

definition check_pull :: "string \<Rightarrow> node \<Rightarrow> issue list" where
  "check_pull name n =
     (case (node_image n, node_pull n) of
        (Some _, Some p) \<Rightarrow> report (p \<notin> {''always'', ''missing'', ''never''}) (err ''container-pull'' (''nodes.'' @ name @ ''.pull''))
      | _ \<Rightarrow> [])"

definition check_depends_on :: "topology \<Rightarrow> string \<Rightarrow> node \<Rightarrow> issue list" where
  "check_depends_on t name n =
     concat (map (\<lambda>dep. report (\<not> bm_contains (topo_nodes t) dep) (err ''depends-on-exists'' (''nodes.'' @ name @ ''.depends-on'')))
       (node_depends_on n))"

subsection \<open>Cycles\<close>

fun add_known_deps :: "(string, node) btree_map \<Rightarrow> string \<times> node \<Rightarrow> degrees \<times> adjacency \<Rightarrow> degrees \<times> adjacency" where
  "add_known_deps nodes (name, n) (deg, adj) =
     fold (\<lambda>dep g. if bm_contains nodes dep then add_dep name dep g else g) (node_depends_on n)
       (bm_insert name (or_insert name 0 deg) deg, adj)"

definition known_graph :: "(string, node) btree_map \<Rightarrow> degrees \<times> adjacency" where
  "known_graph nodes = fold (add_known_deps nodes) (bm_entries nodes) (bm_empty, bm_empty)"

text \<open>
  The inner loop is the one of the sort, with the stack itself in the place of \<open>ready\<close>. The
  result is the in-degrees and the number of visited nodes.
\<close>

function count_visited :: "adjacency \<Rightarrow> degrees \<Rightarrow> string list \<Rightarrow> nat \<Rightarrow> (degrees \<times> nat) option" where
  "count_visited adj deg queue visited =
     (if queue = [] then Some (deg, visited)
      else
        let n = last queue; queue = butlast queue in
        case bm_get adj n of
          None \<Rightarrow> count_visited adj deg queue (visited + 1)
        | Some dependents \<Rightarrow>
            (case visit_dependents dependents deg queue of
               None \<Rightarrow> None
             | Some (deg', queue') \<Rightarrow> count_visited adj deg' queue' (visited + 1)))"
  by pat_completeness auto
termination
  by (relation "measure (\<lambda>(adj, deg, queue, visited). degree_sum deg + length queue)")
    (auto simp: length_greater_0_conv [symmetric] simp del: length_greater_0_conv
      dest!: visit_dependents_decreases)

declare count_visited.simps [simp del]

definition validate_depends_on_cycle :: "topology \<Rightarrow> issue list option" where
  "validate_depends_on_cycle t =
     (let (deg, adj) = known_graph (topo_nodes t);
          queue = map fst (filter (\<lambda>(_, d). d = 0) (bm_entries deg)) in
      map_option (\<lambda>(_, visited). report (visited < length (bm_entries (topo_nodes t)))
          \<lparr>iss_severity = Error, iss_rule = ''depends-on-cycle'', iss_location = None\<rparr>)
        (count_visited adj deg queue 0))"

definition validate_container_fields :: "topology \<Rightarrow> issue list option" where
  "validate_container_fields t =
     map_option (\<lambda>cycle.
        concat (map (\<lambda>(name, n). check_image name n) (bm_entries (topo_nodes t))) @
        concat (map (\<lambda>(name, n). check_pull name n) (bm_entries (topo_nodes t))) @
        concat (map (\<lambda>(name, n). check_depends_on t name n) (bm_entries (topo_nodes t))) @ cycle)
       (validate_depends_on_cycle t)"

subsection \<open>The counting loop against the sort\<close>

definition known_deps :: "(string, node) btree_map \<Rightarrow> (string, node) btree_map" where
  "known_deps nodes = bm_map (\<lambda>_ n. n\<lparr>node_depends_on := filter (bm_contains nodes) (node_depends_on n)\<rparr>) nodes"

lemma fold_if_filter: "fold (\<lambda>x s. if P x then f x s else s) xs = fold f (filter P xs)"
  by (induction xs) (auto simp: fun_eq_iff)

lemma known_graph_eq: "known_graph nodes = dependency_graph (known_deps nodes)"
proof -
  have "fold (add_known_deps nodes) xs g =
      fold add_node (map (\<lambda>(name, n). (name, n\<lparr>node_depends_on := filter (bm_contains nodes) (node_depends_on n)\<rparr>)) xs) g" for xs g
    by (induction xs arbitrary: g) (auto simp: fold_if_filter simp del: bm_contains_iff split: prod.splits)
  then show ?thesis by (simp add: known_graph_def dependency_graph_def known_deps_def bm_map.rep_eq)
qed

lemma deps_of_known: "deps_of (known_deps nodes) n = filter (bm_contains nodes) (deps_of nodes n)"
  by (simp add: deps_of_def known_deps_def split: option.splits)

lemma dom_known_deps [simp]: "dom (bm_get (known_deps nodes)) = dom (bm_get nodes)"
  by (auto simp: known_deps_def)

lemma visit_dependents_stack:
  "visit_dependents ds deg (q @ r) = map_option (\<lambda>(d, r'). (d, q @ r')) (visit_dependents ds deg r)"
  by (induction ds deg r rule: visit_dependents.induct) (auto split: option.splits nat.splits)

lemma sorting_queue_cong:
  "set q = set q' \<Longrightarrow> distinct q = distinct q' \<Longrightarrow> sorting nodes deg q r \<longleftrightarrow> sorting nodes deg q' r"
  by (simp add: sorting_def)

lemma count_visited_spec:
  assumes "\<And>n m. count_list (dependents_of adj n) m = count_list (deps_of nodes m) n"
    and "sorting nodes deg queue result"
  shows "\<exists>order deg'. count_visited adj deg queue (length result) = Some (deg', length order) \<and> sorting nodes deg' [] order"
  using assms
proof (induction adj deg queue "length result" arbitrary: result rule: count_visited.induct [case_names step])
  case (step adj deg queue)
  note adj = step.prems(1) and inv = step.prems(2)
  show ?case
  proof (cases "queue = []")
    case False
    let ?n = "last queue" and ?q = "butlast queue"
    have "queue = ?q @ [?n]" using False by simp
    then have "sorting nodes deg (?q @ [?n]) result" using inv by metis
    then obtain deg' ready where visit: "visit_dependents (dependents_of adj ?n) deg [] = Some (deg', ready)"
      and nxt: "sorting nodes deg' (?q @ rev (sort ready)) (result @ [?n])"
      using adj by (rule sorting_visit)
    have nxt': "sorting nodes deg' (?q @ ready) (result @ [?n])"
      using nxt sorting_queue_cong [of "?q @ rev (sort ready)" "?q @ ready"] by simp
    have len: "length result + 1 = length (result @ [?n])" by simp
    show ?thesis
    proof (cases "bm_get adj ?n")
      case None
      then have "deg' = deg" "ready = []" using visit by (simp_all add: or_insert_def)
      then have "sorting nodes deg ?q (result @ [?n])" using nxt' by simp
      note step.hyps(1) [OF False refl refl None len adj this]
      then show ?thesis using False None by (simp add: count_visited.simps [of adj deg queue] Let_def)
    next
      case (Some ds)
      then have v: "visit_dependents ds deg ?q = Some (deg', ?q @ ready)"
        using visit visit_dependents_stack [of ds deg ?q "[]"] by (simp add: or_insert_def)
      note step.hyps(2) [OF False refl refl Some v refl len adj nxt']
      then show ?thesis using False Some v by (simp add: count_visited.simps [of adj deg queue] Let_def)
    qed
  qed (use inv in \<open>auto simp: count_visited.simps [of adj deg "[]"]\<close>)
qed

subsection \<open>What a silent cycle rule means\<close>

lemma startable_accp: "startable nodes n \<Longrightarrow> Wellfounded.accp (\<lambda>d n. d \<in> set (deps_of nodes n)) n"
  by (induction rule: startable.induct) (auto intro: accp.accI)

lemma all_startable_acyclic:
  assumes "\<And>n. n \<in> dom (bm_get nodes) \<Longrightarrow> startable nodes n"
  shows "acyclic {(d, n). d \<in> set (deps_of nodes n)}"
proof -
  have "Wellfounded.accp (\<lambda>d n. d \<in> set (deps_of nodes n)) n" for n
  proof (cases "n \<in> dom (bm_get nodes)")
    case False
    then have "deps_of nodes n = []" by (auto simp: deps_of_def split: option.splits)
    then show ?thesis by (auto intro: accp.accI)
  qed (use assms startable_accp in blast)
  then have "wfp (\<lambda>d n. d \<in> set (deps_of nodes n))" by (simp add: accp_wfpI)
  then have "wf {(d, n). d \<in> set (deps_of nodes n)}" by (simp add: wfp_def)
  then show ?thesis by (rule wf_acyclic)
qed

abbreviation known_dependencies :: "topology \<Rightarrow> (string \<times> string) set" where
  "known_dependencies t \<equiv>
     {(d, n). d \<in> set (deps_of (topo_nodes t) n) \<and> d \<in> dom (bm_get (topo_nodes t))}"

lemma depends_on_cycle_spec:
  "\<exists>issues. validate_depends_on_cycle t = Some issues \<and> (issues = [] \<longleftrightarrow> acyclic (known_dependencies t))"
proof -
  let ?nodes = "topo_nodes t" and ?known = "known_deps (topo_nodes t)"
  obtain deg adj where g: "known_graph ?nodes = (deg, adj)" by fastforce
  let ?queue = "map fst (filter (\<lambda>(_, d). d = 0) (bm_entries deg))"
  have graph: "dependency_graph ?known = (deg, adj)" using g by (simp add: known_graph_eq)
  have "sorting ?known deg ?queue []"
    using sorting_initial [OF graph] sorting_queue_cong [of "rev (sort ?queue)" ?queue] by simp
  from count_visited_spec [OF dependency_graph(2) [OF graph] this]
  obtain order deg' where run: "count_visited adj deg ?queue 0 = Some (deg', length order)"
    and fin: "sorting ?known deg' [] order" by auto
  have order: "set order = {n. startable ?known n}" "distinct order"
    using sorting_done [OF fin] fin by (auto simp: sorting_def)
  have len: "length (bm_entries ?nodes) = card (dom (bm_get ?nodes))"
    by (metis bm_keys_def distinct_bm_keys distinct_card length_map set_bm_keys)
  have sub: "set order \<subseteq> dom (bm_get ?nodes)"
    using order(1) startable_node [of ?known] by auto
  have "\<not> length order < card (dom (bm_get ?nodes)) \<longleftrightarrow> set order = dom (bm_get ?nodes)"
    using card_seteq [OF finite_dom_bm_get sub] distinct_card [OF order(2)] by (auto simp: not_less)
  also have "\<dots> \<longleftrightarrow> (\<forall>n \<in> dom (bm_get ?known). startable ?known n)"
    using sub order(1) by auto
  also have "\<dots> \<longleftrightarrow> acyclic {(d, n). d \<in> set (deps_of ?known n)}"
  proof
    assume "acyclic {(d, n). d \<in> set (deps_of ?known n)}"
    moreover have "set (deps_of ?known n) \<subseteq> dom (bm_get ?known)" for n by (auto simp: deps_of_known)
    ultimately show "\<forall>n \<in> dom (bm_get ?known). startable ?known n"
      using startable_acyclic [of ?known] by blast
  qed (use all_startable_acyclic [of ?known] in blast)
  also have "{(d, n). d \<in> set (deps_of ?known n)} = known_dependencies t"
    by (auto simp: deps_of_known)
  finally show ?thesis
    using run by (simp add: validate_depends_on_cycle_def g len)
qed

lemma check_depends_on_Nil:
  "concat (map (\<lambda>(name, n). check_depends_on t name n) (bm_entries (topo_nodes t))) = [] \<longleftrightarrow>
     (\<forall>n. set (deps_of (topo_nodes t) n) \<subseteq> dom (bm_get (topo_nodes t)))"
proof -
  have "concat (map (\<lambda>(name, n). check_depends_on t name n) (bm_entries (topo_nodes t))) = [] \<longleftrightarrow>
      (\<forall>(name, n) \<in> set (bm_entries (topo_nodes t)). set (node_depends_on n) \<subseteq> dom (bm_get (topo_nodes t)))"
    unfolding concat_map_Nil by (intro ball_cong refl) (auto simp: check_depends_on_def)
  also have "\<dots> \<longleftrightarrow> (\<forall>n. set (deps_of (topo_nodes t) n) \<subseteq> dom (bm_get (topo_nodes t)))"
    unfolding ball_entries
  proof (intro all_cong1)
    show "(\<forall>v. bm_get (topo_nodes t) k = Some v \<longrightarrow> set (node_depends_on v) \<subseteq> dom (bm_get (topo_nodes t))) \<longleftrightarrow>
        set (deps_of (topo_nodes t) k) \<subseteq> dom (bm_get (topo_nodes t))" for k
      by (cases "bm_get (topo_nodes t) k") (simp_all add: deps_of_def)
  qed
  finally show ?thesis .
qed

text \<open>
  The cycle rule ends, never decrements an in-degree below zero, and reports a cycle exactly
  when the dependencies between existing nodes have one; a dependency on an unknown name
  is not one.
\<close>

theorem depends_on_cycle_exact:
  "\<exists>issues. validate_depends_on_cycle t = Some issues \<and>
     (issues = [] \<longleftrightarrow>
        acyclic {(d, n). d \<in> set (deps_of (topo_nodes t) n) \<and> d \<in> dom (bm_get (topo_nodes t))})"
  by (rule depends_on_cycle_spec)

text \<open>C36.
  What the container rules promise to deployment: when they report nothing, the start order
  \<open>topo_sort_nodes\<close> computes lists every node once and each one after all nodes it depends on.
\<close>

theorem validated_start_order:
  assumes "validate_container_fields t = Some []"
  shows "\<exists>order. topo_sort_nodes (topo_nodes t) = Some order \<and> distinct order \<and>
    set order = dom (bm_get (topo_nodes t)) \<and>
    (\<forall>i < length order. set (deps_of (topo_nodes t) (order ! i)) \<subseteq> set (take i order))"
proof -
  let ?nodes = "topo_nodes t"
  obtain issues where issues: "validate_depends_on_cycle t = Some issues"
    "issues = [] \<longleftrightarrow> acyclic (known_dependencies t)" using depends_on_cycle_spec by blast
  have known: "set (deps_of ?nodes n) \<subseteq> dom (bm_get ?nodes)" for n
    using assms issues(1) check_depends_on_Nil [of t] by (simp add: validate_container_fields_def)
  have "acyclic (known_dependencies t)" using assms issues by (simp add: validate_container_fields_def)
  moreover have "known_dependencies t = {(d, n). d \<in> set (deps_of ?nodes n)}" using known by auto
  ultimately have "acyclic {(d, n). d \<in> set (deps_of ?nodes n)}" by simp
  from topo_sort_nodes_acyclic [OF this known] show ?thesis .
qed

theorem validated_start_order_witness:
  "\<exists>order. topo_sort_nodes sample_nodes = Some order \<and> set order = dom (bm_get sample_nodes)"
proof -
  have "validate_container_fields (topology_default\<lparr>topo_nodes := sample_nodes\<rparr>) = Some []" by code_simp
  from validated_start_order [OF this] show ?thesis by auto
qed

end
