(* ===== verification/Validator_Refs.thy ===== *)
theory Validator_Refs
  imports Validator_Base Host_Registry Subnet_Pool
begin

text \<open>
  The rules of \<open>crates/nlink-lab/src/validator.rs\<close> about names and references: what must be a
  valid name, a CIDR, an endpoint, an existing node, profile or interface, and what may be
  declared only once.
\<close>

subsection \<open>Names\<close>

definition check_name :: "string \<Rightarrow> string \<Rightarrow> issue list" where
  "check_name name loc =
     unless_unresolved name loc (report (\<not> is_valid_name name) (err ''invalid-name'' loc))"

definition validate_names :: "topology \<Rightarrow> interfaces \<Rightarrow> issue list" where
  "validate_names t interfaces =
     check_name (lab_name (topo_lab t)) ''lab.name'' @
     (case lab_prefix (topo_lab t) of Some p \<Rightarrow> check_name p ''lab.prefix'' | None \<Rightarrow> []) @
     concat (map (\<lambda>name. check_name name (''profiles.'' @ name)) (bm_keys (topo_profiles t))) @
     concat (map (\<lambda>(name, n). check_name name (''nodes.'' @ name) @
         concat (map (\<lambda>v. check_name v (''nodes.'' @ name @ ''.vrfs.'' @ v)) (bm_keys (node_vrfs n))))
       (bm_entries (topo_nodes t))) @
     concat (map (\<lambda>name. check_name name (''networks.'' @ name)) (bm_keys (topo_networks t))) @
     concat (map (\<lambda>(n, ifaces). concat (map (\<lambda>i. check_name i (''nodes.'' @ n @ ''.'' @ i)) (bm_keys ifaces)))
       (bm_entries interfaces))"

definition validate_interface_name_length :: "interfaces \<Rightarrow> issue list" where
  "validate_interface_name_length interfaces =
     concat (map (\<lambda>(n, ifaces). concat (map (\<lambda>i.
         report (validate_interface_name i \<noteq> Inr ()) (err ''interface-name-length'' (''nodes.'' @ n @ ''.'' @ i)))
       (bm_keys ifaces))) (bm_entries interfaces))"

subsection \<open>Addresses\<close>

definition is_cidr :: "string \<Rightarrow> bool" where
  "is_cidr s = (case parse_cidr s of Inr _ \<Rightarrow> True | Inl _ \<Rightarrow> False)"

definition check_cidrs :: "string \<Rightarrow> string list \<Rightarrow> issue list" where
  "check_cidrs loc addrs =
     concat (map (\<lambda>(k, a). report (\<not> is_cidr a) (err ''valid-cidr'' (idx (loc @ ''.addresses'') k)))
       (List.enumerate 0 addrs))"

text \<open>Macvlan, ipvlan and Wi-Fi interfaces in this order, each with its field, index, name and addresses.\<close>

definition host_attached :: "node \<Rightarrow> (string \<times> nat \<times> string \<times> string list) list" where
  "host_attached n =
     map (\<lambda>(i, mv). (''macvlans'', i, mv_name mv, mv_addresses mv)) (List.enumerate 0 (node_macvlans n)) @
     map (\<lambda>(i, iv). (''ipvlans'', i, iv_name iv, iv_addresses iv)) (List.enumerate 0 (node_ipvlans n)) @
     map (\<lambda>(i, w). (''wifi'', i, wifi_name w, wifi_addresses w)) (List.enumerate 0 (node_wifi n))"

definition link_address_list :: "link \<Rightarrow> string list" where
  "link_address_list l = (case link_addresses l of Some (a, b) \<Rightarrow> [a, b] | None \<Rightarrow> [])"

definition check_subnet :: "string \<Rightarrow> network \<Rightarrow> issue list" where
  "check_subnet name net =
     (case network_subnet net of
        None \<Rightarrow> []
      | Some s \<Rightarrow>
          (case parse_auto_placeholder s of
             Some p \<Rightarrow> report (p \<noteq> 24) (err ''valid-cidr'' (''networks.'' @ name @ ''.subnet''))
           | None \<Rightarrow> report (\<not> is_cidr s) (err ''valid-cidr'' (''networks.'' @ name @ ''.subnet''))))"

definition validate_cidrs :: "topology \<Rightarrow> issue list" where
  "validate_cidrs t =
     concat (map (\<lambda>(i, l). check_cidrs (idx ''links'' i) (link_address_list l))
       (List.enumerate 0 (topo_links t))) @
     concat (map (\<lambda>(name, n).
         concat (map (\<lambda>(i, c). check_cidrs (''nodes.'' @ name @ ''.interfaces.'' @ i) (if_addresses c))
           (bm_entries (node_interfaces n))) @
         concat (map (\<lambda>(w, c). check_cidrs (''nodes.'' @ name @ ''.wireguard.'' @ w) (wg_addresses c))
           (bm_entries (node_wireguard n))) @
         concat (map (\<lambda>(field, i, _, addrs). check_cidrs (idx (''nodes.'' @ name @ ''.'' @ field) i) addrs)
           (host_attached n)))
       (bm_entries (topo_nodes t))) @
     concat (map (\<lambda>(name, net).
         concat (map (\<lambda>(p, c). check_cidrs (''networks.'' @ name @ ''.ports.'' @ p) (port_addresses c))
           (bm_entries (network_ports net))) @
         check_subnet name net)
       (bm_entries (topo_networks t)))"

subsection \<open>Endpoints and nodes\<close>

definition bad_endpoint :: "string \<Rightarrow> string \<Rightarrow> issue list" where
  "bad_endpoint ep loc = report (endpoint_parse ep = None) (err ''endpoint-format'' loc)"

definition link_locations :: "topology \<Rightarrow> (string \<times> string) list" where
  "link_locations t =
     concat (map (\<lambda>(i, l). map (\<lambda>(j, ep). (ep, idx (idx ''links'' i @ ''.endpoints'') j))
       (List.enumerate 0 (link_ends l))) (List.enumerate 0 (topo_links t)))"

definition member_locations :: "topology \<Rightarrow> (string \<times> string) list" where
  "member_locations t =
     concat (map (\<lambda>(name, net). map (\<lambda>(k, m). (m, idx (''networks.'' @ name @ ''.members'') k))
       (List.enumerate 0 (network_members net))) (bm_entries (topo_networks t)))"

definition key_locations :: "string \<Rightarrow> (string, 'v) btree_map \<Rightarrow> (string \<times> string) list" where
  "key_locations section m = map (\<lambda>k. (k, section @ quoted k)) (bm_keys m)"

definition validate_endpoint_format :: "topology \<Rightarrow> issue list" where
  "validate_endpoint_format t =
     concat (map (\<lambda>(ep, loc). bad_endpoint ep loc)
       (link_locations t @ key_locations ''impairments.'' (topo_impairments t) @
        key_locations ''rate_limits.'' (topo_rate_limits t) @ member_locations t))"

definition dangling :: "topology \<Rightarrow> string \<Rightarrow> string \<Rightarrow> issue list" where
  "dangling t ep loc =
     (case endpoint_parse ep of
        Some e \<Rightarrow> report (\<not> bm_contains (topo_nodes t) (ep_node e)) (err ''dangling-node-ref'' loc)
      | None \<Rightarrow> [])"

definition port_owner :: "string \<Rightarrow> string" where
  "port_owner port = (case endpoint_parse port of Some e \<Rightarrow> ep_node e | None \<Rightarrow> port)"

definition validate_dangling_node_refs :: "topology \<Rightarrow> issue list" where
  "validate_dangling_node_refs t =
     concat (map (\<lambda>(ep, loc). dangling t ep loc)
       (link_locations t @ key_locations ''impairments.'' (topo_impairments t) @
        key_locations ''rate_limits.'' (topo_rate_limits t))) @
     concat (map (\<lambda>(name, net).
         concat (map (\<lambda>(k, m). dangling t m (idx (''networks.'' @ name @ ''.members'') k))
           (List.enumerate 0 (network_members net))) @
         concat (map (\<lambda>p. report (\<not> bm_contains (topo_nodes t) (port_owner p))
             (err ''dangling-node-ref'' (''networks.'' @ name @ ''.ports.'' @ p)))
           (bm_keys (network_ports net))))
       (bm_entries (topo_networks t)))"

definition validate_dangling_profile_refs :: "topology \<Rightarrow> issue list" where
  "validate_dangling_profile_refs t =
     concat (map (\<lambda>(name, n). concat (map (\<lambda>(k, p).
         report (\<not> bm_contains (topo_profiles t) p)
           (err ''dangling-profile-ref'' (idx (''nodes.'' @ name @ ''.profiles'') k)))
       (List.enumerate 0 (node_profiles n)))) (bm_entries (topo_nodes t)))"

subsection \<open>Uniqueness\<close>

type_synonym source_table = "(string, (string, interface_source list) btree_map) btree_map"

definition push_source :: "source_table \<Rightarrow> iface_decl \<Rightarrow> source_table" where
  "push_source m = (\<lambda>(n, i, src).
     let ifaces = entry_or bm_empty m n
     in bm_insert n (bm_insert i (entry_or [] ifaces i @ [src]) ifaces) m)"

definition validate_interface_uniqueness :: "topology \<Rightarrow> issue list" where
  "validate_interface_uniqueness t =
     (let node_ifaces = foldl push_source (bm_map (\<lambda>_ _. bm_empty) (topo_nodes t))
            (interface_decls (lab_mgmt_subnet (topo_lab t) \<noteq> None) t) in
      concat (map (\<lambda>(n, ifaces). concat (map (\<lambda>(i, sources).
          report (length sources > 1) (err ''interface-uniqueness'' (''nodes.'' @ n)))
        (bm_entries ifaces))) (bm_entries node_ifaces)))"

fun duplicate_endpoints :: "(string, nat) btree_map \<Rightarrow> (nat \<times> string) list \<Rightarrow> issue list" where
  "duplicate_endpoints seen [] = []"
| "duplicate_endpoints seen ((i, ep) # eps) =
     report (bm_contains seen ep) (err ''duplicate-link-endpoint'' (idx ''links'' i)) @
     duplicate_endpoints (bm_insert ep i seen) eps"

definition validate_duplicate_link_endpoints :: "topology \<Rightarrow> issue list" where
  "validate_duplicate_link_endpoints t =
     duplicate_endpoints bm_empty
       (concat (map (\<lambda>(i, l). map (\<lambda>ep. (i, ep)) (link_ends l)) (List.enumerate 0 (topo_links t))))"

fun shared_tables :: "string \<Rightarrow> (u32, string) btree_map \<Rightarrow> (string \<times> vrf_config) list \<Rightarrow> issue list" where
  "shared_tables n seen [] = []"
| "shared_tables n seen ((v, c) # vs) =
     report (bm_contains seen (vrf_table c)) (err ''vrf-table-unique'' (''nodes.'' @ n @ ''.vrfs.'' @ v)) @
     shared_tables n (bm_insert (vrf_table c) v seen) vs"

definition validate_vrf_table_unique :: "topology \<Rightarrow> issue list" where
  "validate_vrf_table_unique t =
     concat (map (\<lambda>(name, n). shared_tables name bm_empty (bm_entries (node_vrfs n))) (bm_entries (topo_nodes t)))"

subsection \<open>Interfaces that must exist\<close>

definition no_such_interface :: "interfaces \<Rightarrow> string \<Rightarrow> bool" where
  "no_such_interface interfaces ep =
     (case endpoint_parse ep of
        None \<Rightarrow> False
      | Some e \<Rightarrow> (case bm_get interfaces (ep_node e) of
                     None \<Rightarrow> False | Some ifaces \<Rightarrow> \<not> bm_contains ifaces (ep_iface e)))"

definition member_nodes :: "network \<Rightarrow> string list" where
  "member_nodes net = List.map_filter (\<lambda>m. map_option ep_node (endpoint_parse m)) (network_members net)"

definition check_pair_side :: "topology \<Rightarrow> network \<Rightarrow> string \<Rightarrow> string \<Rightarrow> issue list" where
  "check_pair_side t net who loc =
     (if \<not> bm_contains (topo_nodes t) who then [err ''dangling-node-ref'' loc]
      else report (who \<notin> set (member_nodes net)) (err ''network-impair-member'' loc))"

definition check_network_impairment ::
  "topology \<Rightarrow> string \<Rightarrow> network \<Rightarrow> nat \<Rightarrow> network_impairment \<Rightarrow> issue list" where
  "check_network_impairment t name net i imp =
     (let loc = idx (''networks.'' @ name @ ''.impairments'') i in
      if ni_src imp = ni_dst imp then [err ''network-impair-self-pair'' loc]
      else check_pair_side t net (ni_src imp) (loc @ ''.src'') @
           check_pair_side t net (ni_dst imp) (loc @ ''.dst''))"

definition check_impair_root :: "topology \<Rightarrow> string \<Rightarrow> network \<Rightarrow> string \<Rightarrow> issue list" where
  "check_impair_root t name net src =
     (case find (\<lambda>m. map_option ep_node (endpoint_parse m) = Some src) (network_members net) of
        None \<Rightarrow> []
      | Some ep \<Rightarrow> report (bm_contains (topo_qdiscs t) ep \<or> bm_contains (topo_rate_limits t) ep)
          (err ''network-impair-conflicts'' (''networks.'' @ name @ ''.impairments'')))"

definition validate_impairment_refs :: "topology \<Rightarrow> interfaces \<Rightarrow> issue list" where
  "validate_impairment_refs t interfaces =
     concat (map (\<lambda>k. report (no_such_interface interfaces k)
         (err ''impairment-ref-valid'' (''impairments.'' @ quoted k))) (bm_keys (topo_impairments t))) @
     concat (map (\<lambda>(name, net).
         report (network_impairments net \<noteq> [] \<and> network_subnet net = None)
           (err ''network-impair-needs-subnet'' (''networks.'' @ name @ ''.subnet'')) @
         concat (map (\<lambda>(i, imp). check_network_impairment t name net i imp)
           (List.enumerate 0 (network_impairments net))) @
         concat (map (check_impair_root t name net)
           (remdups_adj (sort (map ni_src (network_impairments net))))))
       (bm_entries (topo_networks t)))"

definition validate_rate_limit_refs :: "topology \<Rightarrow> interfaces \<Rightarrow> issue list" where
  "validate_rate_limit_refs t interfaces =
     concat (map (\<lambda>k. report (no_such_interface interfaces k)
         (err ''rate-limit-ref-valid'' (''rate_limits.'' @ quoted k))) (bm_keys (topo_rate_limits t)))"

text \<open>The endpoint half of \<open>validate_qdiscs\<close>; the parameter values are floating-point texts.\<close>

definition qdisc_endpoint_issues :: "topology \<Rightarrow> interfaces \<Rightarrow> string \<Rightarrow> issue list" where
  "qdisc_endpoint_issues t interfaces k =
     report (no_such_interface interfaces k) (err ''qdisc-ref-valid'' (''qdiscs.'' @ quoted k)) @
     report (bm_contains (topo_impairments t) k \<or> bm_contains (topo_rate_limits t) k)
       (err ''qdisc-conflicts'' (''qdiscs.'' @ quoted k))"

fun bond_members ::
  "interfaces \<Rightarrow> string \<Rightarrow> string \<Rightarrow> string list \<Rightarrow> (string, string) btree_map \<Rightarrow>
     issue list \<times> (string, string) btree_map" where
  "bond_members known n bond [] enslaved = ([], enslaved)"
| "bond_members known n bond (m # ms) enslaved =
     (let i = err ''bond-member-exists'' (''nodes.'' @ n @ ''.interfaces.'' @ bond @ ''.members'') in
      if m = bond \<or> \<not> has_interface known n m
      then apfst ((#) i) (bond_members known n bond ms enslaved)
      else apfst ((@) (report (bm_contains enslaved m) i))
             (bond_members known n bond ms (bm_insert m bond enslaved)))"

fun bond_and_vlan_issues ::
  "interfaces \<Rightarrow> string \<Rightarrow> (string \<times> interface_config) list \<Rightarrow> (string, string) btree_map \<Rightarrow> issue list" where
  "bond_and_vlan_issues known n [] enslaved = []"
| "bond_and_vlan_issues known n ((i, c) # ifs) enslaved =
     (case if_kind c of
        Some Kind_Bond \<Rightarrow>
          (let (issues, enslaved') = bond_members known n i (if_members c) enslaved
           in issues @ bond_and_vlan_issues known n ifs enslaved')
      | Some Kind_Vlan \<Rightarrow>
          (case if_parent c of
             Some p \<Rightarrow> report (p = i \<or> \<not> has_interface known n p)
               (err ''vlan-parent-exists'' (''nodes.'' @ n @ ''.interfaces.'' @ i @ ''.parent''))
           | None \<Rightarrow> []) @ bond_and_vlan_issues known n ifs enslaved
      | _ \<Rightarrow> bond_and_vlan_issues known n ifs enslaved)"

definition validate_bond_and_vlan_refs :: "topology \<Rightarrow> interfaces \<Rightarrow> issue list" where
  "validate_bond_and_vlan_refs t known =
     concat (map (\<lambda>(name, n). bond_and_vlan_issues known name (bm_entries (node_interfaces n)) bm_empty)
       (bm_entries (topo_nodes t)))"

text \<open>Who claims an interface as its port: VRFs in name order, then bonds in name order.\<close>

definition masters_of :: "node \<Rightarrow> (string \<times> string) list" where
  "masters_of n =
     concat (map (\<lambda>(v, c). map (\<lambda>i. (i, ''vrf '' @ v)) (vrf_interfaces c)) (bm_entries (node_vrfs n))) @
     concat (map (\<lambda>(b, c). if if_kind c = Some Kind_Bond then map (\<lambda>m. (m, ''bond '' @ b)) (if_members c) else [])
       (bm_entries (node_interfaces n)))"

definition validate_interface_masters :: "topology \<Rightarrow> issue list" where
  "validate_interface_masters t =
     concat (map (\<lambda>(name, n).
         let masters = foldl (\<lambda>m (i, who). bm_insert i (entry_or [] m i @ [who]) m) bm_empty (masters_of n) in
         concat (map (\<lambda>(_, claimed). report (length claimed > 1) (err ''interface-one-master'' (''nodes.'' @ name)))
           (bm_entries masters)))
       (bm_entries (topo_nodes t)))"

definition validate_vrf_interfaces :: "topology \<Rightarrow> interfaces \<Rightarrow> issue list" where
  "validate_vrf_interfaces t interfaces =
     concat (map (\<lambda>(name, n). concat (map (\<lambda>(v, c). concat (map (\<lambda>(i, ifc).
         let loc = idx (''nodes.'' @ name @ ''.vrfs.'' @ v @ ''.interfaces'') i in
         unless_unresolved ifc loc (report (\<not> has_interface interfaces name ifc) (err ''vrf-interface-exists'' loc)))
       (List.enumerate 0 (vrf_interfaces c)))) (bm_entries (node_vrfs n)))) (bm_entries (topo_nodes t)))"

definition validate_macvlan_parents :: "topology \<Rightarrow> issue list" where
  "validate_macvlan_parents t =
     concat (map (\<lambda>(name, n).
         concat (map (\<lambda>(field, i, parent).
             let loc = idx (''nodes.'' @ name @ ''.'' @ field) i @ ''.parent'' in
             unless_unresolved parent loc
               (report (parent = [] \<or> validate_interface_name parent \<noteq> Inr ()) (err ''macvlan-parent-set'' loc)))
           (map (\<lambda>(i, mv). (''macvlans'', i, mv_parent mv)) (List.enumerate 0 (node_macvlans n)) @
            map (\<lambda>(i, iv). (''ipvlans'', i, iv_parent iv)) (List.enumerate 0 (node_ipvlans n)))))
       (bm_entries (topo_nodes t)))"

definition validate_route_config :: "topology \<Rightarrow> issue list" where
  "validate_route_config t =
     concat (map (\<lambda>(name, n). concat (map (\<lambda>(dest, r).
         report (route_via r = None \<and> route_dev r = None)
           (err ''route-gateway-type'' (''nodes.'' @ name @ ''.routes.'' @ dest)))
       (bm_entries (node_routes n)))) (bm_entries (topo_nodes t)))"

subsection \<open>Reference integrity\<close>

lemma nil_pairs: "(case p of (a, b) \<Rightarrow> f a b) = [] \<longleftrightarrow> (case p of (a, b) \<Rightarrow> f a b = [])"
  by (cases p) simp

lemma ball_link_locations:
  "(\<forall>(ep, loc) \<in> set (link_locations t). P ep) \<longleftrightarrow> (\<forall>l \<in> set (topo_links t). \<forall>ep \<in> set (link_ends l). P ep)"
proof -
  have "(\<forall>(ep, loc) \<in> set (link_locations t). P ep) \<longleftrightarrow>
      (\<forall>(i, l) \<in> set (List.enumerate 0 (topo_links t)). \<forall>(j, ep) \<in> set (List.enumerate 0 (link_ends l)). P ep)"
    by (auto simp: link_locations_def split_def)
  then show ?thesis by (simp add: rule_simps)
qed

lemma ball_member_locations:
  "(\<forall>(ep, loc) \<in> set (member_locations t). P ep) \<longleftrightarrow>
     (\<forall>name net. bm_get (topo_networks t) name = Some net \<longrightarrow> (\<forall>ep \<in> set (network_members net). P ep))"
proof -
  have "(\<forall>(ep, loc) \<in> set (member_locations t). P ep) \<longleftrightarrow>
      (\<forall>(name, net) \<in> set (bm_entries (topo_networks t)).
         \<forall>(k, ep) \<in> set (List.enumerate 0 (network_members net)). P ep)"
    by (auto simp: member_locations_def split_def)
  then show ?thesis by (simp add: rule_simps)
qed

lemma ball_key_locations:
  "(\<forall>(ep, loc) \<in> set (key_locations s m). P ep) \<longleftrightarrow> (\<forall>ep \<in> dom (bm_get m). P ep)"
  by (auto simp: key_locations_def)

lemmas location_simps = ball_link_locations ball_member_locations ball_key_locations

lemma endpoint_format_Nil:
  "validate_endpoint_format t = [] \<longleftrightarrow>
     (\<forall>l \<in> set (topo_links t). \<forall>ep \<in> set (link_ends l). endpoint_parse ep \<noteq> None) \<and>
     (\<forall>ep \<in> dom (bm_get (topo_impairments t)). endpoint_parse ep \<noteq> None) \<and>
     (\<forall>ep \<in> dom (bm_get (topo_rate_limits t)). endpoint_parse ep \<noteq> None) \<and>
     (\<forall>name net. bm_get (topo_networks t) name = Some net \<longrightarrow>
        (\<forall>ep \<in> set (network_members net). endpoint_parse ep \<noteq> None))"
  unfolding validate_endpoint_format_def concat_map_Nil bad_endpoint_def nil_pairs report_Nil set_append ball_Un
    location_simps ..

lemma dangling_Nil:
  "dangling t ep loc = [] \<longleftrightarrow> (\<forall>e. endpoint_parse ep = Some e \<longrightarrow> ep_node e \<in> dom (bm_get (topo_nodes t)))"
  by (simp add: dangling_def split: option.splits)

lemma dangling_node_refs_Nil:
  "validate_dangling_node_refs t = [] \<longleftrightarrow>
     (let ok = (\<lambda>ep. \<forall>e. endpoint_parse ep = Some e \<longrightarrow> ep_node e \<in> dom (bm_get (topo_nodes t))) in
      (\<forall>l \<in> set (topo_links t). \<forall>ep \<in> set (link_ends l). ok ep) \<and>
      (\<forall>ep \<in> dom (bm_get (topo_impairments t)). ok ep) \<and> (\<forall>ep \<in> dom (bm_get (topo_rate_limits t)). ok ep) \<and>
      (\<forall>name net. bm_get (topo_networks t) name = Some net \<longrightarrow>
         (\<forall>ep \<in> set (network_members net). ok ep) \<and>
         (\<forall>p \<in> dom (bm_get (network_ports net)). port_owner p \<in> dom (bm_get (topo_nodes t)))))"
  unfolding validate_dangling_node_refs_def append_is_Nil_conv concat_map_Nil nil_pairs dangling_Nil set_append ball_Un
    location_simps ball_enumerate ball_entries report_Nil Let_def set_bm_keys bm_contains_iff not_not conj_assoc ..

lemma profile_refs_Nil:
  "validate_dangling_profile_refs t = [] \<longleftrightarrow>
     (\<forall>name n. bm_get (topo_nodes t) name = Some n \<longrightarrow> set (node_profiles n) \<subseteq> dom (bm_get (topo_profiles t)))"
  unfolding validate_dangling_profile_refs_def concat_map_Nil nil_pairs report_Nil ball_enumerate ball_entries
    bm_contains_iff not_not by blast

text \<open>With the node known, the interface rule means the interface is declared.\<close>

lemma no_such_interface_iff:
  assumes "endpoint_parse ep = Some e" "ep_node e \<in> dom (bm_get (topo_nodes t))"
  shows "no_such_interface (collect_interfaces t) ep \<longleftrightarrow>
    \<not> (\<exists>src. (ep_node e, ep_iface e, src) \<in> set (interface_decls False t))"
proof -
  have "ep_node e \<in> dom (bm_get (collect_interfaces t))" using assms(2) by (simp add: dom_collect_interfaces)
  then obtain ifaces where ifaces: "bm_get (collect_interfaces t) (ep_node e) = Some ifaces" by blast
  then have "no_such_interface (collect_interfaces t) ep \<longleftrightarrow> \<not> has_interface (collect_interfaces t) (ep_node e) (ep_iface e)"
    by (simp add: no_such_interface_def has_interface_def assms(1))
  then show ?thesis by (simp add: has_interface_collect)
qed

lemma check_pair_side_Nil:
  "check_pair_side t net who loc = [] \<longleftrightarrow> who \<in> dom (bm_get (topo_nodes t)) \<and> who \<in> set (member_nodes net)"
  by (simp add: check_pair_side_def)

lemma check_network_impairment_Nil:
  "check_network_impairment t name net i imp = [] \<longleftrightarrow>
     ni_src imp \<noteq> ni_dst imp \<and> {ni_src imp, ni_dst imp} \<subseteq> dom (bm_get (topo_nodes t)) \<inter> set (member_nodes net)"
  by (auto simp: check_network_impairment_def check_pair_side_Nil Let_def)

definition first_member :: "network \<Rightarrow> string \<Rightarrow> string option" where
  "first_member net src = find (\<lambda>m. map_option ep_node (endpoint_parse m) = Some src) (network_members net)"

lemma check_impair_root_Nil:
  "check_impair_root t name net src = [] \<longleftrightarrow>
     (\<forall>ep. first_member net src = Some ep \<longrightarrow> ep \<notin> dom (bm_get (topo_qdiscs t)) \<union> dom (bm_get (topo_rate_limits t)))"
  by (auto simp: check_impair_root_def first_member_def split: option.splits)

lemma impairment_refs_Nil:
  "validate_impairment_refs t interfaces = [] \<longleftrightarrow>
     (\<forall>k \<in> dom (bm_get (topo_impairments t)). \<not> no_such_interface interfaces k) \<and>
     (\<forall>name net. bm_get (topo_networks t) name = Some net \<longrightarrow>
        \<not> (network_impairments net \<noteq> [] \<and> network_subnet net = None) \<and>
        (\<forall>imp \<in> set (network_impairments net). ni_src imp \<noteq> ni_dst imp \<and>
           {ni_src imp, ni_dst imp} \<subseteq> dom (bm_get (topo_nodes t)) \<inter> set (member_nodes net)) \<and>
        (\<forall>src \<in> set (remdups_adj (sort (map ni_src (network_impairments net)))). \<forall>ep.
           first_member net src = Some ep \<longrightarrow> ep \<notin> dom (bm_get (topo_qdiscs t)) \<union> dom (bm_get (topo_rate_limits t))))"
  unfolding validate_impairment_refs_def append_is_Nil_conv concat_map_Nil nil_pairs report_Nil
    check_network_impairment_Nil check_impair_root_Nil ball_enumerate ball_entries set_bm_keys ..

lemma rate_limit_refs_Nil:
  "validate_rate_limit_refs t interfaces = [] \<longleftrightarrow>
     (\<forall>k \<in> dom (bm_get (topo_rate_limits t)). \<not> no_such_interface interfaces k)"
  unfolding validate_rate_limit_refs_def concat_map_Nil report_Nil set_bm_keys ..

text \<open>An endpoint that names a node of the topology, and one whose interface is declared there too.\<close>

definition resolves :: "topology \<Rightarrow> string \<Rightarrow> bool" where
  "resolves t ep \<longleftrightarrow> (\<exists>e. endpoint_parse ep = Some e \<and> ep_node e \<in> dom (bm_get (topo_nodes t)))"

definition declared :: "topology \<Rightarrow> string \<Rightarrow> bool" where
  "declared t ep \<longleftrightarrow> (\<exists>e src. endpoint_parse ep = Some e \<and> ep_node e \<in> dom (bm_get (topo_nodes t)) \<and>
     (ep_node e, ep_iface e, src) \<in> set (interface_decls False t))"

lemma resolves_iff:
  "resolves t ep \<longleftrightarrow> endpoint_parse ep \<noteq> None \<and>
     (\<forall>e. endpoint_parse ep = Some e \<longrightarrow> ep_node e \<in> dom (bm_get (topo_nodes t)))"
  by (cases "endpoint_parse ep") (simp_all add: resolves_def)

lemma declared_iff: "declared t ep \<longleftrightarrow> resolves t ep \<and> \<not> no_such_interface (collect_interfaces t) ep"
proof (cases "resolves t ep")
  case True
  then obtain e where "endpoint_parse ep = Some e" "ep_node e \<in> dom (bm_get (topo_nodes t))"
    unfolding resolves_def by blast
  then show ?thesis using True no_such_interface_iff [of ep e t] by (simp add: declared_def)
qed (auto simp: declared_def resolves_def)

lemma ball_merge:
  "((\<forall>l \<in> L. \<forall>ep \<in> E l. P ep) \<and> (\<forall>ep \<in> I. P ep) \<and> (\<forall>ep \<in> R. P ep) \<and> (\<forall>k n. N k n \<longrightarrow> (\<forall>ep \<in> M n. P ep))) \<and>
   (\<forall>l \<in> L. \<forall>ep \<in> E l. Q ep) \<and> (\<forall>ep \<in> I. Q ep) \<and> (\<forall>ep \<in> R. Q ep) \<and> (\<forall>k n. N k n \<longrightarrow> (\<forall>ep \<in> M n. Q ep) \<and> C n) \<longleftrightarrow>
   (\<forall>l \<in> L. \<forall>ep \<in> E l. P ep \<and> Q ep) \<and> (\<forall>ep \<in> I. P ep \<and> Q ep) \<and> (\<forall>ep \<in> R. P ep \<and> Q ep) \<and>
   (\<forall>k n. N k n \<longrightarrow> (\<forall>ep \<in> M n. P ep \<and> Q ep) \<and> C n)"
  by blast

lemma section_merge:
  assumes "\<And>n. M n \<Longrightarrow> Q n \<longleftrightarrow> Q' n"
  shows "(links \<and> ri \<and> rr \<and> (\<forall>k n. N k n \<longrightarrow> M n \<and> C n)) \<and> prof \<and> (ni \<and> (\<forall>k n. N k n \<longrightarrow> Q n)) \<and> nr \<longleftrightarrow>
    links \<and> ((ri \<and> rr) \<and> ni \<and> nr) \<and> (\<forall>k n. N k n \<longrightarrow> M n \<and> C n \<and> Q' n) \<and> prof"
  using assms by blast

lemma endpoint_rules_Nil:
  "validate_endpoint_format t = [] \<and> validate_dangling_node_refs t = [] \<longleftrightarrow>
     (\<forall>l \<in> set (topo_links t). \<forall>ep \<in> set (link_ends l). resolves t ep) \<and>
     (\<forall>ep \<in> dom (bm_get (topo_impairments t)). resolves t ep) \<and>
     (\<forall>ep \<in> dom (bm_get (topo_rate_limits t)). resolves t ep) \<and>
     (\<forall>name net. bm_get (topo_networks t) name = Some net \<longrightarrow>
        (\<forall>ep \<in> set (network_members net). resolves t ep) \<and>
        (\<forall>p \<in> dom (bm_get (network_ports net)). port_owner p \<in> dom (bm_get (topo_nodes t))))"
  unfolding endpoint_format_Nil dangling_node_refs_Nil Let_def resolves_iff by (rule ball_merge)

lemma member_nodes_resolve:
  "\<forall>ep \<in> set (network_members net). resolves t ep \<Longrightarrow> set (member_nodes net) \<subseteq> dom (bm_get (topo_nodes t))"
  by (induction "network_members net" arbitrary: net)
    (auto simp: member_nodes_def List.map_filter_def resolves_def)

text \<open>C31.
  The reference rules are exact. Together they report nothing exactly when every link end and
  network member is an endpoint of an existing node, every impaired or rate-limited endpoint
  is a declared interface of one, every port belongs to an existing node, every profile
  exists, and every per-pair impairment is between two different members of a network that has a
  subnet and starts at a member that has no qdisc and no rate limit of its own.
\<close>

theorem reference_rules_exact:
  "validate_endpoint_format t @ validate_dangling_node_refs t @ validate_dangling_profile_refs t @
   validate_impairment_refs t (collect_interfaces t) @ validate_rate_limit_refs t (collect_interfaces t) = [] \<longleftrightarrow>
   (\<forall>l \<in> set (topo_links t). \<forall>ep \<in> set (link_ends l). resolves t ep) \<and>
   (\<forall>ep \<in> dom (bm_get (topo_impairments t)) \<union> dom (bm_get (topo_rate_limits t)). declared t ep) \<and>
   (\<forall>name net. bm_get (topo_networks t) name = Some net \<longrightarrow>
      (\<forall>ep \<in> set (network_members net). resolves t ep) \<and>
      (\<forall>p \<in> dom (bm_get (network_ports net)). port_owner p \<in> dom (bm_get (topo_nodes t))) \<and>
      (network_impairments net \<noteq> [] \<longrightarrow> network_subnet net \<noteq> None) \<and>
      (\<forall>imp \<in> set (network_impairments net). ni_src imp \<noteq> ni_dst imp \<and>
         {ni_src imp, ni_dst imp} \<subseteq> set (member_nodes net) \<and>
         (\<forall>ep. first_member net (ni_src imp) = Some ep \<longrightarrow>
            ep \<notin> dom (bm_get (topo_qdiscs t)) \<union> dom (bm_get (topo_rate_limits t))))) \<and>
   (\<forall>name n. bm_get (topo_nodes t) name = Some n \<longrightarrow> set (node_profiles n) \<subseteq> dom (bm_get (topo_profiles t)))"
proof -
  have sources: "(\<forall>src \<in> set (remdups_adj (sort (map ni_src imps))). P src) \<longleftrightarrow> (\<forall>imp \<in> set imps. P (ni_src imp))" for imps P
    by simp
  let ?M = "\<lambda>net. \<forall>ep \<in> set (network_members net). resolves t ep"
  let ?root = "\<lambda>net src. \<forall>ep. first_member net src = Some ep \<longrightarrow>
            ep \<notin> dom (bm_get (topo_qdiscs t)) \<union> dom (bm_get (topo_rate_limits t))"
  let ?Q = "\<lambda>net. \<not> (network_impairments net \<noteq> [] \<and> network_subnet net = None) \<and>
        (\<forall>imp \<in> set (network_impairments net). ni_src imp \<noteq> ni_dst imp \<and>
           {ni_src imp, ni_dst imp} \<subseteq> dom (bm_get (topo_nodes t)) \<inter> set (member_nodes net)) \<and>
        (\<forall>imp \<in> set (network_impairments net). ?root net (ni_src imp))"
  let ?Q' = "\<lambda>net. (network_impairments net \<noteq> [] \<longrightarrow> network_subnet net \<noteq> None) \<and>
      (\<forall>imp \<in> set (network_impairments net). ni_src imp \<noteq> ni_dst imp \<and>
         {ni_src imp, ni_dst imp} \<subseteq> set (member_nodes net) \<and> ?root net (ni_src imp))"
  have nets: "?Q net \<longleftrightarrow> ?Q' net" if "?M net" for net
  proof -
    have sub: "{a, b} \<subseteq> dom (bm_get (topo_nodes t)) \<inter> set (member_nodes net) \<longleftrightarrow> {a, b} \<subseteq> set (member_nodes net)" for a b
      using member_nodes_resolve [OF that] by blast
    have merge: "\<not> (\<not> e \<and> n) \<and> (\<forall>i \<in> I. A i \<and> B i) \<and> (\<forall>i \<in> I. R i) \<longleftrightarrow> (\<not> e \<longrightarrow> \<not> n) \<and> (\<forall>i \<in> I. A i \<and> B i \<and> R i)"
      for e n and I :: "network_impairment set" and A B R
      by blast
    show ?thesis unfolding sub by (rule merge)
  qed
  have keys: "(\<forall>ep \<in> A \<union> B. declared t ep) \<longleftrightarrow> ((\<forall>ep \<in> A. resolves t ep) \<and> (\<forall>ep \<in> B. resolves t ep)) \<and>
      (\<forall>ep \<in> A. \<not> no_such_interface (collect_interfaces t) ep) \<and>
      (\<forall>ep \<in> B. \<not> no_such_interface (collect_interfaces t) ep)" for A B
    unfolding declared_iff by blast
  have split: "a @ b @ c @ d @ e = [] \<longleftrightarrow> (a = [] \<and> b = []) \<and> c = [] \<and> d = [] \<and> e = []" for a b c d e :: "issue list"
    by simp
  show ?thesis
    unfolding split endpoint_rules_Nil impairment_refs_Nil rate_limit_refs_Nil profile_refs_Nil sources keys
    by (rule section_merge [where M = ?M and Q = ?Q and Q' = ?Q', OF nets])
qed

definition two_nodes :: topology where
  "two_nodes = topology_default\<lparr>topo_nodes := bm_of_list [(''a'', node_default), (''b'', node_default)],
     topo_links := [\<lparr>link_endpoints = (''a:eth0'', ''b:eth0''), link_addresses = None, link_mtu = None\<rparr>],
     topo_impairments := bm_of_list [(''a:eth0'', imp_default)]\<rparr>"

theorem reference_rules_exact_witness:
  "declared two_nodes ''a:eth0'' \<and> \<not> declared two_nodes ''a:eth1''"
proof -
  have "validate_endpoint_format two_nodes @ validate_dangling_node_refs two_nodes @
      validate_dangling_profile_refs two_nodes @ validate_impairment_refs two_nodes (collect_interfaces two_nodes) @
      validate_rate_limit_refs two_nodes (collect_interfaces two_nodes) = []" by code_simp
  then have "\<forall>ep \<in> dom (bm_get (topo_impairments two_nodes)) \<union> dom (bm_get (topo_rate_limits two_nodes)). declared two_nodes ep"
    unfolding reference_rules_exact by (elim conjE)
  moreover have "''a:eth0'' \<in> dom (bm_get (topo_impairments two_nodes))"
    by (simp add: two_nodes_def dom_def bm_get_of_list)
  moreover have "no_such_interface (collect_interfaces two_nodes) ''a:eth1''" by code_simp
  ultimately show ?thesis by (auto simp: declared_iff)
qed

text \<open>
  No rule asks for the node of a \<open>qdisc\<close> endpoint: the topology with a qdisc on a node that
  does not exist, and no other content, passes the endpoint-format and dangling-reference rules and
  the endpoint half of the qdisc rule.
\<close>

theorem qdisc_on_missing_node_accepted:
  "\<exists>t. topo_nodes t = bm_empty \<and> bm_keys (topo_qdiscs t) = [''ghost:eth0''] \<and>
     \<not> resolves t ''ghost:eth0'' \<and>
     validate_endpoint_format t = [] \<and> validate_dangling_node_refs t = [] \<and>
     qdisc_endpoint_issues t (collect_interfaces t) ''ghost:eth0'' = []"
proof (intro exI conjI)
  let ?t = "topology_default\<lparr>topo_qdiscs := bm_of_list [(''ghost:eth0'', \<lparr>qdisc_kind_of = Prio None\<rparr>)]\<rparr>"
  show "topo_nodes ?t = bm_empty" by (simp add: topology_default_def)
  then show "\<not> resolves ?t ''ghost:eth0''" by (simp add: resolves_def)
  show "bm_keys (topo_qdiscs ?t) = [''ghost:eth0'']" by code_simp
  show "validate_endpoint_format ?t = []" "validate_dangling_node_refs ?t = []"
    "qdisc_endpoint_issues ?t (collect_interfaces ?t) ''ghost:eth0'' = []" by code_simp+
qed

subsection \<open>Uniqueness\<close>

definition sources_in :: "source_table \<Rightarrow> string \<Rightarrow> string \<Rightarrow> interface_source list" where
  "sources_in m n i = entry_or [] (entry_or bm_empty m n) i"

lemma sources_in_push: "sources_in (push_source m (a, b, s)) n i = sources_in m n i @ (if (n, i) = (a, b) then [s] else [])"
  by (auto simp: sources_in_def push_source_def entry_or_def Let_def split: option.splits)

lemma sources_in_foldl:
  "sources_in (foldl push_source m ds) n i = sources_in m n i @ map (\<lambda>(_, _, s). s) (filter (\<lambda>(a, b, _). (a, b) = (n, i)) ds)"
proof (induction ds arbitrary: m)
  case (Cons d ds)
  obtain a b s where "d = (a, b, s)" by (cases d)
  with Cons show ?case by (auto simp: sources_in_push)
qed simp

lemma distinct_iff_filter: "distinct xs \<longleftrightarrow> (\<forall>x. length (filter (\<lambda>y. y = x) xs) \<le> 1)"
proof (induction xs)
  case (Cons a xs)
  have "(\<forall>x. length (filter (\<lambda>y. y = x) (a # xs)) \<le> 1) \<longleftrightarrow>
      filter (\<lambda>y. y = a) xs = [] \<and> (\<forall>x. length (filter (\<lambda>y. y = x) xs) \<le> 1)"
    by (auto simp: le_Suc_eq) 
  then show ?case using Cons by (auto simp: filter_empty_conv)
qed simp

lemma unique_table_Nil:
  "(\<forall>(n, ifaces) \<in> set (bm_entries m). \<forall>(i, sources) \<in> set (bm_entries ifaces). \<not> length sources > 1) \<longleftrightarrow>
     (\<forall>n i. length (sources_in m n i) \<le> 1)"
  unfolding ball_entries
proof
  assume a: "\<forall>n ifaces. bm_get m n = Some ifaces \<longrightarrow> (\<forall>i sources. bm_get ifaces i = Some sources \<longrightarrow> \<not> 1 < length sources)"
  show "\<forall>n i. length (sources_in m n i) \<le> 1"
    using a by (auto simp: sources_in_def entry_or_def not_less split: option.splits)
next
  assume "\<forall>n i. length (sources_in m n i) \<le> 1"
  then show "\<forall>n ifaces. bm_get m n = Some ifaces \<longrightarrow> (\<forall>i sources. bm_get ifaces i = Some sources \<longrightarrow> \<not> 1 < length sources)"
    by (metis (mono_tags, lifting) entry_or_def not_less option.simps(5) sources_in_def)
qed

text \<open>
  The uniqueness rule is exact: it reports nothing exactly when no device of a node is
  declared twice, by whatever means (interface blocks, WireGuard, macvlan, ipvlan, Wi-Fi, VRFs,
  the management interface, link ends and network members).
\<close>

theorem interface_uniqueness_exact:
  "validate_interface_uniqueness t = [] \<longleftrightarrow>
     distinct (map (\<lambda>(n, i, _). (n, i)) (interface_decls (lab_mgmt_subnet (topo_lab t) \<noteq> None) t))"
proof -
  let ?ds = "interface_decls (lab_mgmt_subnet (topo_lab t) \<noteq> None) t"
  let ?m = "bm_map (\<lambda>_ _. bm_empty) (topo_nodes t) :: source_table"
  have "sources_in ?m n i = []" for n i
    by (cases "bm_get (topo_nodes t) n") (simp_all add: sources_in_def entry_or_def)
  then have len: "length (sources_in (foldl push_source ?m ?ds) n i) =
      length (filter (\<lambda>y. y = (n, i)) (map (\<lambda>(n, i, _). (n, i)) ?ds))" for n i
    unfolding sources_in_foldl by (simp add: filter_map comp_def split_def)
  have "validate_interface_uniqueness t = [] \<longleftrightarrow>
      (\<forall>n i. length (sources_in (foldl push_source ?m ?ds) n i) \<le> 1)"
    unfolding validate_interface_uniqueness_def Let_def concat_map_Nil nil_pairs report_Nil unique_table_Nil ..
  then show ?thesis unfolding len distinct_iff_filter by auto
qed

end
