(* ===== verification/Validator_Subnets.thy ===== *)
theory Validator_Subnets
  imports Validator_Refs
begin

text \<open>
  The rules of \<open>crates/nlink-lab/src/validator.rs\<close> about addresses and subnets: link ends in one
  subnet, no overlap between segments, the size of the management subnet and duplicate
  addresses. A prefix that
  \<open>parse_cidr\<close> returns never exceeds the address width, so \<open>network_address\<close> never panics here; the
  model keeps its option and the lemmas discharge it.
\<close>

subsection \<open>Link ends\<close>

definition validate_link_endpoint_subnets :: "topology \<Rightarrow> issue list" where
  "validate_link_endpoint_subnets t =
     concat (map (\<lambda>(i, l).
         case link_addresses l of
           None \<Rightarrow> []
         | Some (x, y) \<Rightarrow>
             (case (parse_cidr x, parse_cidr y) of
                (Inr (a, pa), Inr (b, pb)) \<Rightarrow>
                  report (pa \<noteq> pb \<or> network_address a pa \<noteq> network_address b pb)
                    (err ''link-endpoints-same-subnet'' (idx ''links'' i @ ''.addresses''))
              | _ \<Rightarrow> []))
       (List.enumerate 0 (topo_links t)))"

subsection \<open>Overlapping subnets\<close>

datatype subnet_owner = Owner_Mgmt | Owner_Link nat | Owner_Network string | Owner_Interface

record subnet_entry =
  sub_net :: ip_addr
  sub_prefix :: nat
  sub_owner :: subnet_owner
  sub_location :: string
  sub_ends :: "(string \<times> string option) list"

definition vrf_of :: "topology \<Rightarrow> string \<Rightarrow> string \<Rightarrow> string option" where
  "vrf_of t n i =
     Option.bind (bm_get (topo_nodes t) n) (\<lambda>nd.
       map_option fst (find (\<lambda>(_, v). i \<in> set (vrf_interfaces v)) (bm_entries (node_vrfs nd))))"

definition push_subnet ::
  "subnet_entry list \<Rightarrow> string \<times> subnet_owner \<times> string \<times> (string \<times> string option) list \<Rightarrow> subnet_entry list" where
  "push_subnet out = (\<lambda>(cidr, owner, loc, ends).
     case parse_cidr cidr of
       Inl _ \<Rightarrow> out
     | Inr (ip, p) \<Rightarrow>
         (case network_address ip p of
            None \<Rightarrow> out
          | Some net \<Rightarrow>
              if list_ex (\<lambda>e. sub_net e = net \<and> sub_prefix e = p \<and> sub_owner e = owner) out then out
              else out @ [\<lparr>sub_net = net, sub_prefix = p, sub_owner = owner, sub_location = loc, sub_ends = ends\<rparr>]))"

definition ends_of :: "topology \<Rightarrow> string list \<Rightarrow> (string \<times> string option) list" where
  "ends_of t eps =
     List.map_filter
       (\<lambda>e. Option.bind (split_once CHR '':'' e) (\<lambda>(n, i).
              if bm_contains (topo_nodes t) n then Some (n, vrf_of t n i) else None)) eps"

text \<open>The calls of \<open>push_subnet\<close> in \<open>collect_subnets\<close>, in order.\<close>

definition interface_subnets :: "topology \<Rightarrow> string \<Rightarrow> node \<Rightarrow> (string \<times> subnet_owner \<times> string \<times> (string \<times> string option) list) list" where
  "interface_subnets t name n =
     (let add = (\<lambda>loc i addrs. map (\<lambda>(k, a). (a, Owner_Interface, idx (loc @ ''.addresses'') k, [(name, vrf_of t name i)]))
            (List.enumerate 0 addrs)) in
      concat (map (\<lambda>(i, c). add (''nodes.'' @ name @ ''.interfaces.'' @ i) i (if_addresses c)) (bm_entries (node_interfaces n))) @
      concat (map (\<lambda>(w, c). add (''nodes.'' @ name @ ''.wireguard.'' @ w) w (wg_addresses c)) (bm_entries (node_wireguard n))) @
      concat (map (\<lambda>(field, i, nm, addrs). add (idx (''nodes.'' @ name @ ''.'' @ field) i) nm addrs) (host_attached n)))"

definition subnet_decls :: "topology \<Rightarrow> (string \<times> subnet_owner \<times> string \<times> (string \<times> string option) list) list" where
  "subnet_decls t =
     (case lab_mgmt_subnet (topo_lab t) of Some m \<Rightarrow> [(m, Owner_Mgmt, ''lab.mgmt'', [])] | None \<Rightarrow> []) @
     concat (map (\<lambda>(i, l). map (\<lambda>(j, a). (a, Owner_Link i, idx (idx ''links'' i @ ''.addresses'') j, ends_of t (link_ends l)))
         (List.enumerate 0 (link_address_list l))) (List.enumerate 0 (topo_links t))) @
     concat (map (\<lambda>(name, net).
         (case network_subnet net of
            Some s \<Rightarrow> [(s, Owner_Network name, ''networks.'' @ name @ ''.subnet'', ends_of t (network_members net))]
          | None \<Rightarrow> []) @
         concat (map (\<lambda>(p, c). map (\<lambda>(k, a). (a, Owner_Network name,
               idx (''networks.'' @ name @ ''.ports.'' @ p @ ''.addresses'') k, ends_of t (network_members net)))
             (List.enumerate 0 (port_addresses c))) (bm_entries (network_ports net))))
       (bm_entries (topo_networks t))) @
     concat (map (\<lambda>(name, n). interface_subnets t name n) (bm_entries (topo_nodes t)))"

definition collect_subnets :: "topology \<Rightarrow> subnet_entry list" where
  "collect_subnets t = foldl push_subnet [] (subnet_decls t)"

definition tables_at :: "subnet_entry \<Rightarrow> string \<Rightarrow> string option set" where
  "tables_at e n = set (map snd (filter (\<lambda>(m, _). m = n) (sub_ends e)))"

definition separate_tables :: "subnet_entry \<Rightarrow> subnet_entry \<Rightarrow> bool" where
  "separate_tables a b =
     (let shared = filter (\<lambda>n. n \<in> set (map fst (sub_ends b))) (map fst (sub_ends a)) in
      shared \<noteq> [] \<and> list_all (\<lambda>n. tables_at a n \<inter> tables_at b n = {}) shared)"

definition subnets_conflict :: "subnet_entry \<Rightarrow> subnet_entry \<Rightarrow> bool" where
  "subnets_conflict a b =
     (if sub_owner a \<noteq> Owner_Interface \<and> sub_owner a = sub_owner b then False
      else if is_ipv4 (sub_net a) \<noteq> is_ipv4 (sub_net b) then False
      else if \<not> ip_in_subnet (sub_net b) (sub_net a) (min (sub_prefix a) (sub_prefix b)) then False
      else if sub_prefix a = sub_prefix b \<and> (sub_owner a = Owner_Interface \<or> sub_owner b = Owner_Interface) then False
      else \<not> separate_tables a b)"

fun overlap_issues :: "subnet_entry list \<Rightarrow> issue list" where
  "overlap_issues [] = []"
| "overlap_issues (a # es) =
     concat (map (\<lambda>b. report (subnets_conflict a b) (err ''overlapping-subnets'' (sub_location b))) es) @
     overlap_issues es"

definition validate_overlapping_subnets :: "topology \<Rightarrow> issue list" where
  "validate_overlapping_subnets t = overlap_issues (collect_subnets t)"

subsection \<open>Management subnet\<close>

definition validate_mgmt_subnet :: "topology \<Rightarrow> issue list" where
  "validate_mgmt_subnet t =
     (case lab_mgmt_subnet (topo_lab t) of
        None \<Rightarrow> []
      | Some m \<Rightarrow>
          unless_unresolved m ''lab.mgmt''
            (case parse_cidr m of
               Inl _ \<Rightarrow> [err ''valid-cidr'' ''lab.mgmt'']
             | Inr (ip, p) \<Rightarrow>
                 report (unat (mgmt_usable_hosts ip p) < length (bm_entries (topo_nodes t)) + 1)
                   (err ''mgmt-subnet-capacity'' ''lab.mgmt'') @
                 report (network_address ip p \<noteq> Some ip)
                   (warn ''mgmt-subnet-not-network-address'' ''lab.mgmt'')))"

subsection \<open>Duplicate addresses\<close>

fun duplicate_ips :: "(string, string) btree_map \<Rightarrow> (string \<times> string) list \<Rightarrow> issue list" where
  "duplicate_ips seen [] = []"
| "duplicate_ips seen ((addr, loc) # rest) =
     (case parse_cidr addr of
        Inl _ \<Rightarrow> duplicate_ips seen rest
      | Inr (ip, _) \<Rightarrow>
          if bm_contains seen (show_ip ip) then warn ''unique-ips'' loc # duplicate_ips seen rest
          else duplicate_ips (bm_insert (show_ip ip) loc seen) rest)"

definition listed :: "string \<Rightarrow> string list \<Rightarrow> (string \<times> string) list" where
  "listed loc addrs = map (\<lambda>(k, a). (a, idx (loc @ ''.addresses'') k)) (List.enumerate 0 addrs)"

definition addresses_checked :: "topology \<Rightarrow> (string \<times> string) list" where
  "addresses_checked t =
     concat (map (\<lambda>(i, l). listed (idx ''links'' i) (link_address_list l)) (List.enumerate 0 (topo_links t))) @
     concat (map (\<lambda>(name, n). concat (map (\<lambda>(i, c). listed (''nodes.'' @ name @ ''.interfaces.'' @ i) (if_addresses c))
       (bm_entries (node_interfaces n)))) (bm_entries (topo_nodes t))) @
     concat (map (\<lambda>(name, net). concat (map (\<lambda>(p, c). listed (''networks.'' @ name @ ''.ports.'' @ p) (port_addresses c))
       (bm_entries (network_ports net)))) (bm_entries (topo_networks t)))"

definition validate_unique_ips :: "topology \<Rightarrow> issue list" where
  "validate_unique_ips t = duplicate_ips bm_empty (addresses_checked t)"

subsection \<open>What an empty overlap report means\<close>

definition entry_ok :: "subnet_entry \<Rightarrow> bool" where
  "entry_ok e \<longleftrightarrow> sub_prefix e \<le> addr_bits (sub_net e)"

lemma push_subnet_entry_ok:
  assumes "list_all entry_ok out"
  shows "list_all entry_ok (push_subnet out d)"
proof -
  have "entry_ok \<lparr>sub_net = net, sub_prefix = p, sub_owner = ow, sub_location = loc, sub_ends = ends\<rparr>"
    if "parse_cidr c = Inr (ip, p)" "network_address ip p = Some net" for c ip p net ow loc ends
    using parse_cidr_Inr [OF that(1)] addr_bits_cong [OF network_address_Some(1) [OF that(2)]]
    by (simp add: entry_ok_def)
  then show ?thesis using assms by (auto simp: push_subnet_def split: prod.splits sum.splits option.splits)
qed

lemma collect_subnets_ok: "e \<in> set (collect_subnets t) \<Longrightarrow> entry_ok e"
proof -
  have "list_all entry_ok out \<Longrightarrow> list_all entry_ok (foldl push_subnet out ds)" for out ds
    by (induction ds arbitrary: out) (auto intro: push_subnet_entry_ok)
  from this [of "[]"] show "e \<in> set (collect_subnets t) \<Longrightarrow> entry_ok e"
    by (auto simp: collect_subnets_def list_all_iff)
qed

text \<open>Every declared CIDR has its entry: same owner, same addresses.\<close>

definition covers :: "subnet_entry \<Rightarrow> ip_addr \<Rightarrow> nat \<Rightarrow> bool" where
  "covers e ip p \<longleftrightarrow> (\<forall>x. ip_in_subnet x (sub_net e) (sub_prefix e) \<longleftrightarrow> ip_in_subnet x ip p)"

lemma ip_in_subnet_network:
  assumes "network_address ip p = Some net" "p \<le> addr_bits ip"
  shows "ip_in_subnet x net p \<longleftrightarrow> ip_in_subnet x ip p"
  using assms network_address_Some [OF assms(1)] addr_bits_cong [of net ip]
  by (simp add: ip_in_subnet_iff)

lemma push_subnet_keeps: "set out \<subseteq> set (push_subnet out d)"
  by (cases d) (simp add: push_subnet_def subset_insertI split: sum.split option.split prod.split)

lemma push_subnet_covers:
  assumes "parse_cidr c = Inr (ip, p)"
  shows "\<exists>e \<in> set (push_subnet out (c, ow, loc, ends)). sub_owner e = ow \<and> covers e ip p"
proof -
  have p: "p \<le> addr_bits ip" using assms by (rule parse_cidr_Inr)
  then obtain net where net: "network_address ip p = Some net" using network_address_exists by blast
  have cov: "covers e ip p" if "sub_net e = net" "sub_prefix e = p" for e
    using that ip_in_subnet_network [OF net p] by (simp add: covers_def)
  show ?thesis
  proof (cases "list_ex (\<lambda>e. sub_net e = net \<and> sub_prefix e = p \<and> sub_owner e = ow) out")
    case True
    then show ?thesis using assms net cov by (auto simp: push_subnet_def list_ex_iff)
  next
    case False
    then show ?thesis using assms net cov by (simp add: push_subnet_def)
  qed
qed

lemma foldl_push_subnet_keeps: "set out \<subseteq> set (foldl push_subnet out ds)"
  by (induction ds arbitrary: out) (use push_subnet_keeps in \<open>fastforce+\<close>)

lemma collect_subnets_covers:
  assumes "(c, ow, loc, ends) \<in> set (subnet_decls t)" "parse_cidr c = Inr (ip, p)"
  shows "\<exists>e \<in> set (collect_subnets t). sub_owner e = ow \<and> covers e ip p"
proof -
  obtain xs ys where "subnet_decls t = xs @ (c, ow, loc, ends) # ys" using assms(1) by (metis split_list)
  then have "set (push_subnet (foldl push_subnet [] xs) (c, ow, loc, ends)) \<subseteq> set (collect_subnets t)"
    using foldl_push_subnet_keeps by (simp add: collect_subnets_def)
  then show ?thesis using push_subnet_covers [OF assms(2)] by blast
qed

definition share_address :: "subnet_entry \<Rightarrow> subnet_entry \<Rightarrow> bool" where
  "share_address a b \<longleftrightarrow>
     (\<exists>ip. ip_in_subnet ip (sub_net a) (sub_prefix a) \<and> ip_in_subnet ip (sub_net b) (sub_prefix b))"

lemma share_address_entry_iff:
  assumes "entry_ok a" "entry_ok b"
  shows "share_address a b \<longleftrightarrow> is_ipv4 (sub_net a) = is_ipv4 (sub_net b) \<and>
    ip_in_subnet (sub_net b) (sub_net a) (min (sub_prefix a) (sub_prefix b))"
proof (cases "is_ipv4 (sub_net a) = is_ipv4 (sub_net b)")
  case True
  with assms have "ip_in_subnet (sub_net b) (sub_net a) (min (sub_prefix a) (sub_prefix b)) \<longleftrightarrow>
      ip_num (sub_net b) div 2 ^ (addr_bits (sub_net a) - min (sub_prefix a) (sub_prefix b)) =
      ip_num (sub_net a) div 2 ^ (addr_bits (sub_net a) - min (sub_prefix a) (sub_prefix b))"
    by (simp add: ip_in_subnet_iff entry_ok_def)
  also have "\<dots> \<longleftrightarrow> share_address a b"
    unfolding share_address_def using share_address_iff [OF True] assms by (simp add: entry_ok_def)
  finally show ?thesis using True by simp
next
  case False
  with assms show ?thesis by (auto simp: share_address_def entry_ok_def ip_in_subnet_iff)
qed

text \<open>Two subnets that may share addresses: one segment; one subnet again on an interface; different routing tables wherever they meet.\<close>

definition may_share :: "subnet_entry \<Rightarrow> subnet_entry \<Rightarrow> bool" where
  "may_share a b \<longleftrightarrow>
     sub_owner a = sub_owner b \<and> sub_owner a \<noteq> Owner_Interface \<or>
     sub_prefix a = sub_prefix b \<and> (sub_owner a = Owner_Interface \<or> sub_owner b = Owner_Interface) \<or>
     separate_tables a b"

lemma subnets_conflict_iff:
  "entry_ok a \<Longrightarrow> entry_ok b \<Longrightarrow> subnets_conflict a b \<longleftrightarrow> share_address a b \<and> \<not> may_share a b"
  using share_address_entry_iff [of a b] by (auto simp: subnets_conflict_def may_share_def)

lemma overlap_issues_Nil: "overlap_issues es = [] \<longleftrightarrow> sorted_wrt (\<lambda>a b. \<not> subnets_conflict a b) es"
  by (induction es) auto



text \<open>
  The management rule guarantees what deployment does: when the validator reports no error for
  the management subnet of a topology (with at most \<open>2 ^ 64 - 1\<close> nodes, as a \<open>usize\<close> counts them),
  \<open>mgmt_addresses\<close> succeeds for exactly that many nodes, and the addresses of the bridge and
  of the nodes are pairwise different and lie in the subnet.
\<close>

theorem validated_mgmt_subnet_has_addresses:
  assumes "lab_mgmt_subnet (topo_lab t) = Some m" "\<not> has_errors (validate_mgmt_subnet t)"
    and "length (bm_entries (topo_nodes t)) < 2 ^ 64"
  shows "\<exists>ip p a. parse_cidr m = Inr (ip, p) \<and>
    mgmt_addresses m (length (bm_entries (topo_nodes t))) = Inr a \<and>
    length (mgmt_nodes a) = length (bm_entries (topo_nodes t)) \<and> distinct (mgmt_bridge a # mgmt_nodes a) \<and>
    (\<forall>x \<in> set (mgmt_bridge a # mgmt_nodes a). ip_in_subnet x ip p)"
proof -
  let ?n = "length (bm_entries (topo_nodes t))"
  obtain ip p where cidr: "parse_cidr m = Inr (ip, p)"
    and "\<not> unat (mgmt_usable_hosts ip p) < ?n + 1"
  proof (cases "parse_cidr m")
    case (Inl e)
    then show thesis using assms(1,2)
      by (simp add: validate_mgmt_subnet_def has_errors_iff unless_unresolved_def err_def split: if_splits)
  next
    case (Inr r)
    then show thesis using assms(1,2) that [of "fst r" "snd r"]
      by (cases r) (auto simp: validate_mgmt_subnet_def has_errors_iff unless_unresolved_def err_def split: if_splits)
  qed
  then have "?n + 3 \<le> 2 ^ (addr_bits ip - p)"
    using mgmt_capacity [OF parse_cidr_Inr [OF cidr] assms(3)] by simp
  from mgmt_addresses_fit [OF cidr assms(3) this] obtain a where
    a: "mgmt_addresses m ?n = Inr a" "length (mgmt_nodes a) = ?n" "distinct (mgmt_bridge a # mgmt_nodes a)"
    and at: "\<forall>i \<le> ?n. ip_in_subnet ((mgmt_bridge a # mgmt_nodes a) ! i) ip p"
    by blast
  have "ip_in_subnet x ip p" if "x \<in> set (mgmt_bridge a # mgmt_nodes a)" for x
    using that at a(2) by (metis in_set_conv_nth length_Cons less_Suc_eq_le)
  then show ?thesis using cidr a by blast
qed

theorem validated_mgmt_subnet_has_addresses_witness:
  "\<exists>ip p a. parse_cidr ''172.20.0.0/29'' = Inr (ip, p) \<and> mgmt_addresses ''172.20.0.0/29'' 2 = Inr a \<and>
     length (mgmt_nodes a) = 2"
proof -
  let ?t = "two_nodes\<lparr>topo_lab := lab_default\<lparr>lab_mgmt_subnet := Some ''172.20.0.0/29''\<rparr>\<rparr>"
  have n: "length (bm_entries (topo_nodes ?t)) = 2" by code_simp
  have "lab_mgmt_subnet (topo_lab ?t) = Some ''172.20.0.0/29''" by simp
  moreover have "\<not> has_errors (validate_mgmt_subnet ?t)" by code_simp
  moreover have "length (bm_entries (topo_nodes ?t)) < 2 ^ 64" unfolding n by simp
  ultimately show ?thesis using validated_mgmt_subnet_has_addresses [of ?t] unfolding n by blast
qed

end
