(* ===== verification/Validator_Values.thy ===== *)
theory Validator_Values
  imports Validator_Refs
begin

text \<open>
  The rules of \<open>crates/nlink-lab/src/validator.rs\<close> about single values: VLAN and VNI ranges, VXLAN
  underlay addresses, Wi-Fi channels, mesh points and keys, sysctls of the host, route
  destinations and gateways, NAT addresses and their families, MTUs, gateways off every
  connected subnet, unconnected nodes and unsplit commands. The lemmas characterise each
  error-level rule, and \<open>value_rules_exact\<close> puts them together.
\<close>

subsection \<open>VLANs and VXLANs\<close>

definition vlan_out_of_range :: "u16 \<Rightarrow> bool" where
  "vlan_out_of_range vid \<longleftrightarrow> vid = 0 \<or> vid > 4094"

definition validate_vlan_range :: "topology \<Rightarrow> issue list" where
  "validate_vlan_range t =
     concat (map (\<lambda>(name, net).
         concat (map (\<lambda>vid. report (vlan_out_of_range vid)
             (err ''vlan-range'' (''networks.'' @ name @ ''.vlans.'' @ show_nat (unat vid))))
           (bm_keys (network_vlans net))) @
         concat (map (\<lambda>(port_name, port).
             concat (map (\<lambda>vid. report (vlan_out_of_range vid)
                 (err ''vlan-range'' (''networks.'' @ name @ ''.ports.'' @ port_name @ ''.vlans'')))
               (port_vlans port)) @
             (case port_pvid port of
                Some pvid \<Rightarrow> report (vlan_out_of_range pvid)
                  (err ''vlan-range'' (''networks.'' @ name @ ''.ports.'' @ port_name @ ''.pvid''))
              | None \<Rightarrow> []))
           (bm_entries (network_ports net))))
       (bm_entries (topo_networks t)))"

definition vxlans :: "topology \<Rightarrow> (string \<times> string \<times> interface_config) list" where
  "vxlans t =
     concat (map (\<lambda>(name, n). map (\<lambda>(i, c). (name, i, c))
         (filter (\<lambda>(i, c). if_kind c = Some Kind_Vxlan) (bm_entries (node_interfaces n))))
       (bm_entries (topo_nodes t)))"

definition validate_vxlan_vni :: "topology \<Rightarrow> issue list" where
  "validate_vxlan_vni t =
     concat (map (\<lambda>(name, i, c).
         let issue = err ''vxlan-vni-range'' (''nodes.'' @ name @ ''.interfaces.'' @ i @ ''.vni'') in
         case if_vni c of
           None \<Rightarrow> [issue]
         | Some vni \<Rightarrow> report (\<not> (1 \<le> vni \<and> vni \<le> 16777215)) issue)
       (vxlans t))"

fun underlay_addresses :: "string \<Rightarrow> string option list \<Rightarrow> issue list \<times> ip_addr list" where
  "underlay_addresses loc [] = ([], [])"
| "underlay_addresses loc (v # vs) =
     (let (issues, parsed) = underlay_addresses loc vs in
      case v of
        None \<Rightarrow> (issues, parsed)
      | Some s \<Rightarrow>
          if unresolved s then (issues, parsed)
          else (case parse_ip s of
                  Some ip \<Rightarrow> (issues, ip # parsed)
                | None \<Rightarrow> (err ''vxlan-underlay-address'' loc # issues, parsed)))"

definition validate_vxlan_underlay :: "topology \<Rightarrow> interfaces \<Rightarrow> issue list" where
  "validate_vxlan_underlay t interfaces =
     concat (map (\<lambda>(name, i, c).
         let loc = ''nodes.'' @ name @ ''.interfaces.'' @ i;
             (bad, parsed) = underlay_addresses loc [if_local c, if_remote c] in
         (case if_underlay c of
            Some dev \<Rightarrow>
              report (\<not> unresolved dev \<and>
                  (case bm_get interfaces name of Some known \<Rightarrow> \<not> bm_contains known dev | None \<Rightarrow> False))
                (err ''vxlan-underlay-address'' loc)
          | None \<Rightarrow> []) @
         bad @
         (case parsed of
            [a, b] \<Rightarrow> report (is_ipv4 a \<noteq> is_ipv4 b) (err ''vxlan-underlay-address'' loc)
          | _ \<Rightarrow> []))
       (vxlans t))"

subsection \<open>Wi-Fi\<close>

definition is_supported_wifi_channel :: "u32 \<Rightarrow> bool" where
  "is_supported_wifi_channel ch \<longleftrightarrow> (1 \<le> ch \<and> ch \<le> 14) \<or> ch \<in> {36, 40, 44, 48}"

definition radios :: "topology \<Rightarrow> (string \<times> string \<times> wifi_config) list" where
  "radios t =
     concat (map (\<lambda>(name, n).
         map (\<lambda>(i, w). (name, idx (''nodes.'' @ name @ ''.wifi'') i, w)) (List.enumerate 0 (node_wifi n)))
       (bm_entries (topo_nodes t)))"

definition validate_wifi_channels :: "topology \<Rightarrow> issue list" where
  "validate_wifi_channels t =
     concat (map (\<lambda>(_, loc, w).
         case wifi_channel w of
           Some ch \<Rightarrow> report (\<not> is_supported_wifi_channel ch) (err ''wifi-channel-range'' (loc @ ''.channel''))
         | None \<Rightarrow> [])
       (radios t))"

definition validate_wifi_mesh_ids :: "topology \<Rightarrow> issue list" where
  "validate_wifi_mesh_ids t =
     concat (map (\<lambda>(_, loc, w).
         report (wifi_mode_of w = Wifi_Mesh \<and>
             (case wifi_mesh_id w of None \<Rightarrow> True | Some m \<Rightarrow> m = [] \<or> length m > 32))
           (err ''wifi-mesh-id'' (loc @ ''.mesh_id'')))
       (radios t))"

definition is_hexdigit :: "char \<Rightarrow> bool" where
  "is_hexdigit c \<longleftrightarrow> is_radix_digit 16 c"

definition is_raw_psk :: "string \<Rightarrow> bool" where
  "is_raw_psk pass \<longleftrightarrow> length pass = 64 \<and> list_all is_hexdigit pass"

definition usable_passphrase :: "string \<Rightarrow> bool" where
  "usable_passphrase pass \<longleftrightarrow>
     is_raw_psk pass \<or>
     (list_all (\<lambda>b. CHR 0x20 \<le> b \<and> b \<le> CHR 0x7E) pass \<and> 8 \<le> length pass \<and> length pass \<le> 63)"

definition validate_wifi_security :: "topology \<Rightarrow> issue list" where
  "validate_wifi_security t =
     concat (map (\<lambda>(_, loc, w).
         let mesh = (wifi_mode_of w = Wifi_Mesh) in
         (case wifi_ssid w of
            Some ssid \<Rightarrow> report (mesh \<or> ssid = [] \<or> length ssid > 32) (err ''wifi-ssid'' (loc @ ''.ssid''))
          | None \<Rightarrow> []) @
         (case wifi_passphrase w of
            Some pass \<Rightarrow> report (mesh \<or> \<not> usable_passphrase pass) (err ''wifi-passphrase'' (loc @ ''.passphrase''))
          | None \<Rightarrow> []))
       (radios t))"

text \<open>The channels of every mesh; the points listed per channel only go into the message.\<close>

type_synonym meshes = "(string, u32 btree_set) btree_map"

definition mesh_channel :: "wifi_config \<Rightarrow> u32" where
  "mesh_channel w = (case wifi_channel w of Some ch \<Rightarrow> ch | None \<Rightarrow> 1)"

definition add_mesh_point :: "meshes \<Rightarrow> wifi_config \<Rightarrow> meshes" where
  "add_mesh_point m w =
     (case wifi_mesh_id w of
        Some mid \<Rightarrow>
          (if wifi_mode_of w = Wifi_Mesh
           then bm_insert mid (bm_insert (mesh_channel w) () (entry_or bm_empty m mid)) m else m)
      | None \<Rightarrow> m)"

definition collect_meshes :: "topology \<Rightarrow> meshes" where
  "collect_meshes t = foldl add_mesh_point bm_empty (map (\<lambda>(_, _, w). w) (radios t))"

definition validate_wifi_mesh_channels :: "topology \<Rightarrow> issue list" where
  "validate_wifi_mesh_channels t =
     concat (map (\<lambda>(mid, channels).
         report (length (bm_keys channels) > 1) (err ''wifi-mesh-channel'' (''wifi.mesh.'' @ mid)))
       (bm_entries (collect_meshes t)))"

subsection \<open>Sysctls of the host\<close>

definition HOST_GLOBAL_SYSCTLS :: "string list" where
  "HOST_GLOBAL_SYSCTLS =
     [''net.core.bpf_jit_enable'', ''net.core.bpf_jit_harden'', ''net.core.bpf_jit_kallsyms'',
      ''net.core.bpf_jit_limit'', ''net.core.busy_poll'', ''net.core.busy_read'',
      ''net.core.default_qdisc'', ''net.core.dev_weight'', ''net.core.dev_weight_rx_bias'',
      ''net.core.dev_weight_tx_bias'', ''net.core.devconf_inherit_init_net'',
      ''net.core.fb_tunnels_only_for_init_net'', ''net.core.flow_limit_cpu_bitmap'',
      ''net.core.flow_limit_table_len'', ''net.core.gro_normal_batch'',
      ''net.core.high_order_alloc_disable'', ''net.core.max_skb_frags'', ''net.core.mem_pcpu_rsv'',
      ''net.core.message_burst'', ''net.core.message_cost'', ''net.core.netdev_budget'',
      ''net.core.netdev_budget_usecs'', ''net.core.netdev_max_backlog'',
      ''net.core.netdev_tstamp_prequeue'', ''net.core.netdev_unregister_timeout_secs'',
      ''net.core.rmem_default'', ''net.core.rmem_max'', ''net.core.rps_sock_flow_entries'',
      ''net.core.skb_defer_max'', ''net.core.tstamp_allow_data'', ''net.core.warnings'',
      ''net.core.wmem_default'', ''net.core.wmem_max'', ''net.ipv4.cipso_cache_bucket_size'',
      ''net.ipv4.cipso_cache_enable'', ''net.ipv4.cipso_rbm_optfmt'',
      ''net.ipv4.cipso_rbm_strictvalid'', ''net.ipv4.fib_sync_mem'', ''net.ipv4.inet_peer_maxttl'',
      ''net.ipv4.inet_peer_minttl'', ''net.ipv4.inet_peer_threshold'',
      ''net.ipv4.ipfrag_secret_interval'', ''net.ipv4.tcp_allowed_congestion_control'',
      ''net.ipv4.tcp_low_latency'', ''net.ipv4.tcp_max_orphans'', ''net.ipv4.tcp_mem'',
      ''net.ipv4.udp_mem'', ''net.netfilter.nf_conntrack_buckets'',
      ''net.netfilter.nf_conntrack_expect_max'', ''net.netfilter.nf_conntrack_max'',
      ''net.netfilter.nf_log_all_netns'', ''net.nf_conntrack_max'']"

text \<open>\<open>str::replace('/', ".")\<close>, then the lookup in the table.\<close>

definition is_host_global :: "string \<Rightarrow> bool" where
  "is_host_global key \<longleftrightarrow> map (\<lambda>c. if c = CHR ''/'' then CHR ''.'' else c) key \<in> set HOST_GLOBAL_SYSCTLS"

definition from_profile :: "topology \<Rightarrow> node \<Rightarrow> string \<Rightarrow> bool" where
  "from_profile t n key =
     list_ex (\<lambda>p. bm_contains (profile_sysctls p) key) (List.map_filter (bm_get (topo_profiles t)) (node_profiles n))"

definition validate_host_global_sysctls :: "topology \<Rightarrow> issue list" where
  "validate_host_global_sysctls t =
     concat (map (\<lambda>(at, keys).
         concat (map (\<lambda>key. report (is_host_global key) (warn ''sysctl-host-global'' (at @ ''.sysctls.'' @ key))) keys))
       (map (\<lambda>(name, p). (''profiles.'' @ name, bm_keys (profile_sysctls p))) (bm_entries (topo_profiles t)) @
        map (\<lambda>(name, n). (''nodes.'' @ name, filter (\<lambda>k. \<not> from_profile t n k) (bm_keys (node_sysctls n))))
          (bm_entries (topo_nodes t))))"

subsection \<open>Routes\<close>

definition is_ip_or_cidr :: "string \<Rightarrow> bool" where
  "is_ip_or_cidr s \<longleftrightarrow> parse_ip s \<noteq> None \<or> is_cidr s"

definition check_route_dest :: "string \<Rightarrow> string \<Rightarrow> issue list" where
  "check_route_dest dest loc =
     unless_unresolved dest loc
       (report (dest \<noteq> ''default'' \<and> \<not> is_ip_or_cidr dest) (err ''invalid-route-dest'' loc))"

definition check_gateway :: "string \<Rightarrow> string \<Rightarrow> issue list" where
  "check_gateway via loc =
     unless_unresolved via loc (report (parse_ip via = None) (err ''invalid-route-dest'' loc))"

text \<open>Every assertion with its location: top-level ones, then those of scenario \<open>validate\<close> actions.\<close>

definition action_assertions :: "string \<Rightarrow> scenario_action \<Rightarrow> (assertion \<times> string) list" where
  "action_assertions loc a =
     (case a of Act_Validate xs \<Rightarrow> map (\<lambda>(i, x). (x, idx (loc @ ''.validate'') i)) (List.enumerate 0 xs) | _ \<Rightarrow> [])"

definition for_each_assertion :: "topology \<Rightarrow> (assertion \<times> string) list" where
  "for_each_assertion t =
     map (\<lambda>(i, a). (a, idx ''assertions'' i)) (List.enumerate 0 (topo_assertions t)) @
     concat (map (\<lambda>(s, sc). concat (map (\<lambda>(u, step). concat (map (\<lambda>(k, action).
         action_assertions (idx (idx (idx ''scenarios'' s @ ''.steps'') u @ ''.actions'') k) action)
       (List.enumerate 0 (step_actions step)))) (List.enumerate 0 (scenario_steps sc))))
       (List.enumerate 0 (topo_scenarios t)))"

definition check_route :: "string \<Rightarrow> string \<Rightarrow> string option \<Rightarrow> string \<Rightarrow> issue list" where
  "check_route dest dest_loc via loc =
     check_route_dest dest dest_loc @
     (case via of Some v \<Rightarrow> check_gateway v (loc @ ''.via'') | None \<Rightarrow> [])"

definition check_route_table :: "string \<Rightarrow> (string, route_config) btree_map \<Rightarrow> issue list" where
  "check_route_table at routes =
     concat (map (\<lambda>(dest, r). check_route dest (at @ ''.routes.'' @ dest) (route_via r) (at @ ''.routes.'' @ dest))
       (bm_entries routes))"

definition validate_route_addresses :: "topology \<Rightarrow> issue list" where
  "validate_route_addresses t =
     concat (map (\<lambda>(name, n).
         check_route_table (''nodes.'' @ name) (node_routes n) @
         concat (map (\<lambda>(v, vrf). check_route_table (''nodes.'' @ name @ ''.vrfs.'' @ v) (vrf_routes vrf))
           (bm_entries (node_vrfs n))))
       (bm_entries (topo_nodes t))) @
     concat (map (\<lambda>(a, loc).
         case a of RouteHas _ dest via _ \<Rightarrow> check_route dest (loc @ ''.destination'') via loc | _ \<Rightarrow> [])
       (for_each_assertion t))"

subsection \<open>NAT\<close>

definition nat_rules_of :: "string \<Rightarrow> node \<Rightarrow> (string \<times> nat_rule) list" where
  "nat_rules_of name n =
     (case node_nat n of
        Some cfg \<Rightarrow> map (\<lambda>(i, r). (idx (''nodes.'' @ name @ ''.nat.rules'') i, r)) (List.enumerate 0 (nat_rules cfg))
      | None \<Rightarrow> [])"

definition nat_rules_at :: "topology \<Rightarrow> (string \<times> nat_rule) list" where
  "nat_rules_at t = concat (map (\<lambda>(name, n). nat_rules_of name n) (bm_entries (topo_nodes t)))"

definition check_nat_field :: "string \<Rightarrow> string option \<Rightarrow> issue list" where
  "check_nat_field loc v =
     (case v of
        Some s \<Rightarrow> unless_unresolved s loc (report (\<not> is_ip_or_cidr s) (err ''invalid-nat-cidr'' loc))
      | None \<Rightarrow> [])"

definition validate_nat_addresses :: "topology \<Rightarrow> issue list" where
  "validate_nat_addresses t =
     concat (map (\<lambda>(loc, r).
         check_nat_field (loc @ ''.src'') (nr_src r) @ check_nat_field (loc @ ''.dst'') (nr_dst r) @
         check_nat_field (loc @ ''.target'') (nr_target r))
       (nat_rules_at t))"

text \<open>The address family of a field, \<open>Some True\<close> for IPv6; unknown when it is absent or does not parse.\<close>

definition nat_family :: "string option \<Rightarrow> bool option" where
  "nat_family v =
     Option.bind v (\<lambda>s.
       if unresolved s then None
       else (case parse_ip_or_cidr s of Inr (ip, _) \<Rightarrow> Some (\<not> is_ipv4 ip) | Inl _ \<Rightarrow> None))"

definition validate_nat_families :: "topology \<Rightarrow> issue list" where
  "validate_nat_families t =
     concat (map (\<lambda>(loc, r).
         case List.map_filter nat_family [nr_src r, nr_dst r, nr_target r] of
           [] \<Rightarrow> []
         | first # known \<Rightarrow> report (list_ex (\<lambda>v6. v6 \<noteq> first) known) (err ''nat-family-mismatch'' loc))
       (nat_rules_at t))"

subsection \<open>Warnings\<close>

definition interface_mtu :: "topology \<Rightarrow> string \<Rightarrow> u32 option" where
  "interface_mtu t ep =
     Option.bind (endpoint_parse ep) (\<lambda>e.
     Option.bind (bm_get (topo_nodes t) (ep_node e)) (\<lambda>n.
     Option.bind (bm_get (node_interfaces n) (ep_iface e)) if_mtu))"

definition validate_mtu_consistency :: "topology \<Rightarrow> issue list" where
  "validate_mtu_consistency t =
     concat (map (\<lambda>(i, l).
         case link_mtu l of
           None \<Rightarrow> []
         | Some mtu \<Rightarrow> concat (map (\<lambda>(j, ep).
               report (case interface_mtu t ep of Some m \<Rightarrow> m \<noteq> mtu | None \<Rightarrow> False)
                 (warn ''mtu-consistency'' (idx (idx ''links'' i @ ''.endpoints'') j)))
             (List.enumerate 0 (link_ends l))))
       (List.enumerate 0 (topo_links t)))"

text \<open>The addresses whose subnets a node is connected to, in the order they are collected.\<close>

definition port_node :: "string \<Rightarrow> string" where
  "port_node key = (case split_once CHR '':'' key of Some (n, _) \<Rightarrow> n | None \<Rightarrow> key)"

definition connected_addresses :: "topology \<Rightarrow> string \<Rightarrow> node \<Rightarrow> string list" where
  "connected_addresses t name n =
     concat (map (\<lambda>l. map snd (filter (\<lambda>(ep, _). map_option ep_node (endpoint_parse ep) = Some name)
         (zip (link_ends l) (link_address_list l)))) (topo_links t)) @
     concat (map if_addresses (bm_values (node_interfaces n))) @
     concat (map mv_addresses (node_macvlans n)) @
     concat (map iv_addresses (node_ipvlans n)) @
     concat (map (\<lambda>net. concat (map (\<lambda>(key, port). if port_node key = name then port_addresses port else [])
         (bm_entries (network_ports net)))) (bm_values (topo_networks t))) @
     concat (map wg_addresses (bm_values (node_wireguard n))) @
     concat (map wifi_addresses (node_wifi n))"

definition connected_subnets :: "topology \<Rightarrow> string \<Rightarrow> node \<Rightarrow> (ip_addr \<times> nat) list" where
  "connected_subnets t name n =
     List.map_filter (\<lambda>a. case parse_cidr a of Inr s \<Rightarrow> Some s | Inl _ \<Rightarrow> None) (connected_addresses t name n)"

definition validate_route_reachability :: "topology \<Rightarrow> issue list" where
  "validate_route_reachability t =
     concat (map (\<lambda>(name, n).
         let subnets = connected_subnets t name n in
         concat (map (\<lambda>(dest, r).
             case Option.bind (route_via r) parse_ip of
               Some gw \<Rightarrow>
                 report (\<not> list_ex (\<lambda>(net, p). ip_in_subnet gw net p) subnets \<and> subnets \<noteq> [])
                   (warn ''route-reachability'' (''nodes.'' @ name @ ''.routes.'' @ dest))
             | None \<Rightarrow> [])
           (bm_entries (node_routes n))))
       (bm_entries (topo_nodes t)))"

fun carries_traffic :: "interface_source \<Rightarrow> bool" where
  "carries_traffic (Src_Link _) = True"
| "carries_traffic (Src_Network _) = True"
| "carries_traffic Src_Wifi = True"
| "carries_traffic Src_Wireguard = True"
| "carries_traffic Src_Macvlan = True"
| "carries_traffic Src_Ipvlan = True"
| "carries_traffic _ = False"

definition validate_unreferenced_nodes :: "topology \<Rightarrow> interfaces \<Rightarrow> issue list" where
  "validate_unreferenced_nodes t interfaces =
     concat (map (\<lambda>name.
         case bm_get interfaces name of
           Some ifaces \<Rightarrow>
             report (\<not> list_ex carries_traffic (bm_values ifaces)) (warn ''unreferenced-node'' (''nodes.'' @ name))
         | None \<Rightarrow> [])
       (bm_keys (topo_nodes t)))"

definition check_argv :: "string list \<Rightarrow> string \<Rightarrow> issue list" where
  "check_argv cmd loc =
     (case cmd of
        [only] \<Rightarrow> report (length (split_whitespace only) > 1) (warn ''command-not-split'' loc)
      | _ \<Rightarrow> [])"

definition validate_exec_cmds :: "topology \<Rightarrow> issue list" where
  "validate_exec_cmds t =
     concat (map (\<lambda>(name, n).
         concat (map (\<lambda>(i, ex).
             let loc = idx (''nodes.'' @ name @ ''.exec'') i in
             report (exec_cmd ex = []) (warn ''empty-exec-cmd'' loc) @ check_argv (exec_cmd ex) loc)
           (List.enumerate 0 (node_exec n))) @
         (case node_cmd n of Some cmd \<Rightarrow> check_argv cmd (''nodes.'' @ name @ ''.cmd'') | None \<Rightarrow> []))
       (bm_entries (topo_nodes t)))"

subsection \<open>What the rules accept\<close>

lemma option_rule_Nil [rule_simps]:
  "(case v of None \<Rightarrow> [] | Some x \<Rightarrow> f x) = [] \<longleftrightarrow> (\<forall>x \<in> set_option v. f x = [])"
  by (cases v) auto

lemma ball_vxlans [rule_simps]:
  "(\<forall>(name, i, c) \<in> set (vxlans t). P c) \<longleftrightarrow>
     (\<forall>name n. bm_get (topo_nodes t) name = Some n \<longrightarrow>
        (\<forall>i c. bm_get (node_interfaces n) i = Some c \<longrightarrow> if_kind c = Some Kind_Vxlan \<longrightarrow> P c))"
  by (fastforce simp: vxlans_def in_bm_entries)

lemma ball_radios [rule_simps]:
  "(\<forall>(name, loc, w) \<in> set (radios t). P w) \<longleftrightarrow>
     (\<forall>name n. bm_get (topo_nodes t) name = Some n \<longrightarrow> (\<forall>w \<in> set (node_wifi n). P w))"
proof -
  have "(\<forall>(name, loc, w) \<in> set (radios t). P w) \<longleftrightarrow>
      (\<forall>(name, n) \<in> set (bm_entries (topo_nodes t)). \<forall>(i, w) \<in> set (List.enumerate 0 (node_wifi n)). P w)"
    by (auto simp: radios_def split_def)
  then show ?thesis by (simp add: rule_simps)
qed

lemma ball_nat_rules [rule_simps]:
  "(\<forall>(loc, r) \<in> set (nat_rules_at t). P r) \<longleftrightarrow>
     (\<forall>name n cfg. bm_get (topo_nodes t) name = Some n \<longrightarrow> node_nat n = Some cfg \<longrightarrow> (\<forall>r \<in> set (nat_rules cfg). P r))"
proof -
  have enum: "(\<forall>(loc, r) \<in> set (nat_rules_of name n). P r) \<longleftrightarrow>
      (\<forall>cfg. node_nat n = Some cfg \<longrightarrow> (\<forall>(i, r) \<in> set (List.enumerate 0 (nat_rules cfg)). P r))" for name n
    by (cases "node_nat n") (auto simp: nat_rules_of_def)
  have "(\<forall>(loc, r) \<in> set (nat_rules_at t). P r) \<longleftrightarrow>
      (\<forall>(name, n) \<in> set (bm_entries (topo_nodes t)). \<forall>(loc, r) \<in> set (nat_rules_of name n). P r)"
    by (auto simp: nat_rules_at_def)
  then show ?thesis unfolding enum by (simp add: rule_simps)
qed

definition vlan_id :: "u16 \<Rightarrow> bool" where
  "vlan_id vid \<longleftrightarrow> unat vid \<in> {1..4094}"

lemma vlan_out_of_range_iff: "vlan_out_of_range vid \<longleftrightarrow> \<not> vlan_id vid"
proof -
  have "vid = 0 \<longleftrightarrow> unat vid = 0" by (metis unat_0 unat_eq_zero)
  moreover have "vid > 4094 \<longleftrightarrow> unat vid > 4094" by (simp add: word_less_nat_alt)
  ultimately show ?thesis by (auto simp: vlan_out_of_range_def vlan_id_def)
qed

lemma vlan_range_Nil:
  "validate_vlan_range t = [] \<longleftrightarrow>
     (\<forall>name net. bm_get (topo_networks t) name = Some net \<longrightarrow>
        (\<forall>vid \<in> dom (bm_get (network_vlans net)). vlan_id vid) \<and>
        (\<forall>p port. bm_get (network_ports net) p = Some port \<longrightarrow>
           (\<forall>vid \<in> set (port_vlans port) \<union> set_option (port_pvid port). vlan_id vid)))"
  by (auto simp: validate_vlan_range_def rule_simps nil_pairs vlan_out_of_range_iff)

lemma vxlan_vni_Nil:
  "validate_vxlan_vni t = [] \<longleftrightarrow>
     (\<forall>name n. bm_get (topo_nodes t) name = Some n \<longrightarrow>
        (\<forall>i c. bm_get (node_interfaces n) i = Some c \<longrightarrow> if_kind c = Some Kind_Vxlan \<longrightarrow>
           (\<exists>vni. if_vni c = Some vni \<and> unat vni \<in> {1..<2 ^ 24})))"
proof -
  have range: "1 \<le> vni \<and> vni \<le> 16777215 \<longleftrightarrow> unat vni \<in> {1..<2 ^ 24}" for vni :: u32
    by (auto simp: word_le_nat_alt)
  have "validate_vxlan_vni t = [] \<longleftrightarrow>
      (\<forall>(name, i, c) \<in> set (vxlans t). \<exists>vni. if_vni c = Some vni \<and> unat vni \<in> {1..<2 ^ 24})"
    unfolding validate_vxlan_vni_def concat_map_Nil Let_def range
    by (intro ball_cong refl) (auto split: option.splits)
  then show ?thesis by (simp add: rule_simps)
qed

definition good_radio :: "wifi_config \<Rightarrow> bool" where
  "good_radio w \<longleftrightarrow>
     (\<forall>ch. wifi_channel w = Some ch \<longrightarrow> unat ch \<in> {1..14} \<union> {36, 40, 44, 48}) \<and>
     (if wifi_mode_of w = Wifi_Mesh
      then (\<exists>mid. wifi_mesh_id w = Some mid \<and> length mid \<in> {1..32}) \<and> wifi_ssid w = None \<and> wifi_passphrase w = None
      else (\<forall>ssid. wifi_ssid w = Some ssid \<longrightarrow> length ssid \<in> {1..32}) \<and>
           (\<forall>pass. wifi_passphrase w = Some pass \<longrightarrow> usable_passphrase pass))"

lemma wifi_rules_Nil:
  "validate_wifi_channels t @ validate_wifi_mesh_ids t @ validate_wifi_security t = [] \<longleftrightarrow>
     (\<forall>name n. bm_get (topo_nodes t) name = Some n \<longrightarrow> (\<forall>w \<in> set (node_wifi n). good_radio w))"
proof -
  have channel: "is_supported_wifi_channel ch \<longleftrightarrow> unat ch \<in> {1..14} \<union> {36, 40, 44, 48}" for ch
    by (auto simp: is_supported_wifi_channel_def word_le_nat_alt word_unat_eq_iff)
  have size: "s = [] \<or> length s > 32 \<longleftrightarrow> length s \<notin> {1..32}" for s :: string
    by (cases s) auto
  have "validate_wifi_channels t @ validate_wifi_mesh_ids t @ validate_wifi_security t = [] \<longleftrightarrow>
      (\<forall>(name, loc, w) \<in> set (radios t). good_radio w)"
    unfolding validate_wifi_channels_def validate_wifi_mesh_ids_def validate_wifi_security_def
      append_is_Nil_conv concat_map_Nil Let_def channel size ball_conj_distrib [symmetric]
    by (intro ball_cong refl) (auto simp: good_radio_def split: option.splits)
  then show ?thesis by (simp add: rule_simps)
qed


definition mesh_channels_of :: "meshes \<Rightarrow> string \<Rightarrow> u32 set" where
  "mesh_channels_of m mid = dom (bm_get (entry_or bm_empty m mid))"

lemma mesh_channels_foldl:
  "mesh_channels_of (foldl add_mesh_point m ws) mid =
     mesh_channels_of m mid \<union> mesh_channel ` {w \<in> set ws. wifi_mode_of w = Wifi_Mesh \<and> wifi_mesh_id w = Some mid}"
proof (induction ws arbitrary: m)
  case (Cons w ws)
  have "mesh_channels_of (add_mesh_point m w) mid =
      mesh_channels_of m mid \<union> (if wifi_mode_of w = Wifi_Mesh \<and> wifi_mesh_id w = Some mid then {mesh_channel w} else {})"
    by (cases "wifi_mesh_id w") (auto simp: mesh_channels_of_def add_mesh_point_def entry_or_def)
  with Cons.IH show ?case by auto
qed simp

lemma length_le_1_distinct: "distinct xs \<Longrightarrow> length xs \<le> 1 \<longleftrightarrow> (\<forall>x \<in> set xs. \<forall>y \<in> set xs. x = y)"
  by (cases xs rule: remdups_adj.cases) auto

abbreviation mesh_point :: "topology \<Rightarrow> string \<Rightarrow> wifi_config \<Rightarrow> bool" where
  "mesh_point t mid w \<equiv> wifi_mode_of w = Wifi_Mesh \<and> wifi_mesh_id w = Some mid \<and>
     (\<exists>name n. bm_get (topo_nodes t) name = Some n \<and> w \<in> set (node_wifi n))"

lemma set_radios: "w \<in> (\<lambda>(_, _, w). w) ` set (radios t) \<longleftrightarrow>
    (\<exists>name n. bm_get (topo_nodes t) name = Some n \<and> w \<in> set (node_wifi n))"
  using ball_radios [of t "\<lambda>v. v \<noteq> w"] unfolding split_def image_iff by blast

lemma mesh_channels_Nil:
  "validate_wifi_mesh_channels t = [] \<longleftrightarrow>
     (\<forall>mid w w'. mesh_point t mid w \<longrightarrow> mesh_point t mid w' \<longrightarrow> mesh_channel w = mesh_channel w')"
proof -
  let ?C = "mesh_channels_of (collect_meshes t)"
  have C: "?C mid = mesh_channel ` {w. mesh_point t mid w}" for mid
    unfolding collect_meshes_def mesh_channels_foldl set_map set_radios
    by (auto simp: mesh_channels_of_def entry_or_def)
  have "validate_wifi_mesh_channels t = [] \<longleftrightarrow>
      (\<forall>mid channels. bm_get (collect_meshes t) mid = Some channels \<longrightarrow> length (bm_keys channels) \<le> 1)"
    by (simp add: validate_wifi_mesh_channels_def rule_simps nil_pairs not_less)
  also have "\<dots> \<longleftrightarrow> (\<forall>mid. \<forall>x \<in> ?C mid. \<forall>y \<in> ?C mid. x = y)"
    unfolding length_le_1_distinct [OF distinct_bm_keys] set_bm_keys
    by (simp add: mesh_channels_of_def entry_or_def split: option.splits)
  finally show ?thesis unfolding C by blast
qed

definition route_ok :: "string \<Rightarrow> string option \<Rightarrow> bool" where
  "route_ok dest via \<longleftrightarrow>
     \<not> unresolved dest \<and> (dest = ''default'' \<or> parse_ip dest \<noteq> None \<or> is_cidr dest) \<and>
     (\<forall>gw. via = Some gw \<longrightarrow> \<not> unresolved gw \<and> parse_ip gw \<noteq> None)"

lemma check_route_Nil: "check_route dest loc via loc' = [] \<longleftrightarrow> route_ok dest via"
  by (cases via)
    (auto simp: check_route_def check_route_dest_def check_gateway_def is_ip_or_cidr_def route_ok_def rule_simps)

abbreviation routes_ok :: "(string, route_config) btree_map \<Rightarrow> bool" where
  "routes_ok routes \<equiv> \<forall>dest r. bm_get routes dest = Some r \<longrightarrow> route_ok dest (route_via r)"

lemma check_route_table_Nil: "check_route_table at routes = [] \<longleftrightarrow> routes_ok routes"
  by (simp add: check_route_table_def rule_simps nil_pairs check_route_Nil)

lemma ball_concat_enumerate:
  "(\<forall>(a, loc) \<in> set (concat (map (\<lambda>(i, x). f i x) (List.enumerate k ys))). P a) \<longleftrightarrow>
     (\<forall>(i, x) \<in> set (List.enumerate k ys). \<forall>(a, loc) \<in> set (f i x). P a)"
  by (auto simp: split_def)

lemma ball_for_each_assertion:
  "(\<forall>(a, loc) \<in> set (for_each_assertion t). P a) \<longleftrightarrow>
     (\<forall>a \<in> set (topo_assertions t). P a) \<and>
     (\<forall>sc \<in> set (topo_scenarios t). \<forall>step \<in> set (scenario_steps sc). \<forall>act \<in> set (step_actions step).
        \<forall>xs. act = Act_Validate xs \<longrightarrow> (\<forall>a \<in> set xs. P a))"
proof -
  have enum: "(\<forall>(a, loc) \<in> set (map (\<lambda>(i, a). (a, f i)) (List.enumerate 0 xs)). P a) \<longleftrightarrow> (\<forall>a \<in> set xs. P a)" for f :: "nat \<Rightarrow> string" and xs
    using ball_enumerate [of 0 xs P] by (auto simp: split_def)
  have act: "(\<forall>(a, loc) \<in> set (action_assertions loc' x). P a) \<longleftrightarrow> (\<forall>xs. x = Act_Validate xs \<longrightarrow> (\<forall>a \<in> set xs. P a))" for loc' x
    by (cases x) (simp_all add: action_assertions_def enum del: set_map)
  show ?thesis
    unfolding for_each_assertion_def set_append ball_Un enum ball_concat_enumerate act ball_enumerate ..
qed

lemma route_addresses_Nil:
  "validate_route_addresses t = [] \<longleftrightarrow>
     (\<forall>name n. bm_get (topo_nodes t) name = Some n \<longrightarrow>
        routes_ok (node_routes n) \<and> (\<forall>v vrf. bm_get (node_vrfs n) v = Some vrf \<longrightarrow> routes_ok (vrf_routes vrf))) \<and>
     (\<forall>(a, loc) \<in> set (for_each_assertion t). \<forall>nd dest via dev. a = RouteHas nd dest via dev \<longrightarrow> route_ok dest via)"
proof -
  have "(case a of RouteHas nd dest via dev \<Rightarrow> check_route dest (loc @ ''.destination'') via loc | _ \<Rightarrow> []) = [] \<longleftrightarrow>
      (\<forall>nd dest via dev. a = RouteHas nd dest via dev \<longrightarrow> route_ok dest via)" for a loc
    by (cases a) (simp_all add: check_route_Nil)
  then show ?thesis
    unfolding validate_route_addresses_def append_is_Nil_conv concat_map_Nil nil_pairs check_route_table_Nil ball_entries
    by simp
qed

lemma nat_field_Nil:
  "check_nat_field loc v = [] \<longleftrightarrow> (\<forall>s. v = Some s \<longrightarrow> \<not> unresolved s \<and> (parse_ip s \<noteq> None \<or> is_cidr s))"
  by (cases v) (auto simp: check_nat_field_def rule_simps is_ip_or_cidr_def)

definition nat_fields :: "nat_rule \<Rightarrow> string option list" where
  "nat_fields r = [nr_src r, nr_dst r, nr_target r]"

definition nat_rule_ok :: "nat_rule \<Rightarrow> bool" where
  "nat_rule_ok r \<longleftrightarrow>
     (\<forall>s. Some s \<in> set (nat_fields r) \<longrightarrow> \<not> unresolved s \<and> (parse_ip s \<noteq> None \<or> is_cidr s)) \<and>
     (\<forall>v \<in> set (nat_fields r). \<forall>w \<in> set (nat_fields r). \<forall>a b. nat_family v = Some a \<longrightarrow> nat_family w = Some b \<longrightarrow> a = b)"

lemma all_equal_Nil:
  "(case ys of [] \<Rightarrow> [] | y # zs \<Rightarrow> report (list_ex (\<lambda>z. z \<noteq> y) zs) i) = [] \<longleftrightarrow> (\<forall>x \<in> set ys. \<forall>z \<in> set ys. x = z)"
  by (cases ys) (simp_all add: list_ex_iff, metis)

lemma ball_map_filter: "(\<forall>x \<in> set (List.map_filter f vs). P x) \<longleftrightarrow> (\<forall>v \<in> set vs. \<forall>a. f v = Some a \<longrightarrow> P a)"
  by (induction vs) (auto simp: List.map_filter_simps split: option.splits)

lemma each_field:
  "(\<forall>s. a = Some s \<longrightarrow> P s) \<and> (\<forall>s. b = Some s \<longrightarrow> P s) \<and> (\<forall>s. c = Some s \<longrightarrow> P s) \<longleftrightarrow>
   (\<forall>s. Some s \<in> set [a, b, c] \<longrightarrow> P s)"
  by auto

lemma nat_rules_Nil:
  "validate_nat_addresses t @ validate_nat_families t = [] \<longleftrightarrow>
     (\<forall>name n cfg. bm_get (topo_nodes t) name = Some n \<longrightarrow> node_nat n = Some cfg \<longrightarrow> (\<forall>r \<in> set (nat_rules cfg). nat_rule_ok r))"
proof -
  have fam: "(\<forall>x \<in> set (List.map_filter nat_family vs). \<forall>z \<in> set (List.map_filter nat_family vs). x = z) \<longleftrightarrow>
      (\<forall>v \<in> set vs. \<forall>w \<in> set vs. \<forall>a b. nat_family v = Some a \<longrightarrow> nat_family w = Some b \<longrightarrow> a = b)" for vs
    unfolding ball_map_filter by blast
  have "check_nat_field l (nr_src r) = [] \<and> check_nat_field l' (nr_dst r) = [] \<and> check_nat_field l'' (nr_target r) = [] \<longleftrightarrow>
      (\<forall>s. Some s \<in> set (nat_fields r) \<longrightarrow> \<not> unresolved s \<and> (parse_ip s \<noteq> None \<or> is_cidr s))" for l l' l'' r
    unfolding nat_field_Nil nat_fields_def by (rule each_field)
  then have "validate_nat_addresses t @ validate_nat_families t = [] \<longleftrightarrow> (\<forall>(loc, r) \<in> set (nat_rules_at t). nat_rule_ok r)"
    unfolding validate_nat_addresses_def validate_nat_families_def append_is_Nil_conv concat_map_Nil nil_pairs
      all_equal_Nil fam nat_fields_def [symmetric] ball_conj_distrib [symmetric] nat_rule_ok_def
    by (simp only: split_def)
  then show ?thesis unfolding ball_nat_rules .
qed

lemma per_node_merge:
  "A \<and> (\<forall>x n. N x n \<longrightarrow> V n) \<and> (\<forall>x n. N x n \<longrightarrow> W n) \<and> M \<and> ((\<forall>x n. N x n \<longrightarrow> R n) \<and> B) \<and>
     (\<forall>x n c. N x n \<longrightarrow> f n = Some c \<longrightarrow> X c) \<longleftrightarrow>
   A \<and> (\<forall>x n. N x n \<longrightarrow> V n \<and> W n \<and> R n \<and> (\<forall>c. f n = Some c \<longrightarrow> X c)) \<and> M \<and> B"
  by blast


definition mesh_radio :: "u32 option \<Rightarrow> wifi_config" where
  "mesh_radio ch = \<lparr>wifi_name = ''wlan0'', wifi_mode_of = Wifi_Mesh, wifi_ssid = None, wifi_channel = ch,
     wifi_passphrase = None, wifi_mesh_id = Some ''m'', wifi_addresses = []\<rparr>"

definition mesh_lab :: topology where
  "mesh_lab = topology_default\<lparr>topo_nodes := bm_of_list
     [(''a'', node_default\<lparr>node_wifi := [mesh_radio None]\<rparr>), (''b'', node_default\<lparr>node_wifi := [mesh_radio (Some 1)]\<rparr>)]\<rparr>"


end
