(* ===== verification/Validator_Foreign.thy ===== *)
theory Validator_Foreign
  imports Validator_Order Validator_Refs
begin

text \<open>
  \<open>validate_foreign_nodes\<close> of \<open>crates/nlink-lab/src/validator.rs\<close>: what a topology may ask of a node that
  nlink-lab did not create (an existing namespace, container or tap). With the container rule it leaves a
  foreign node nothing but links, addresses and routes.
\<close>

subsection \<open>The rule\<close>

definition foreign_of :: "topology \<Rightarrow> string \<Rightarrow> foreign option" where
  "foreign_of t name = Option.bind (bm_get (topo_nodes t) name) node_foreign"

definition foreign_unsupported :: "node \<Rightarrow> bool list" where
  "foreign_unsupported n =
     [node_image n \<noteq> None,
      node_profiles n \<noteq> [],
      node_exec n \<noteq> [],
      bm_keys (node_sysctls n) \<noteq> [],
      node_firewall n \<noteq> None,
      node_nat n \<noteq> None,
      node_frr n \<noteq> None,
      node_wifi n \<noteq> [],
      bm_keys (node_vrfs n) \<noteq> [],
      bm_keys (node_wireguard n) \<noteq> [],
      node_macvlans n \<noteq> [] \<or> node_ipvlans n \<noteq> [],
      list_ex (\<lambda>i. if_kind i \<noteq> None) (bm_values (node_interfaces n)),
      node_cpu n \<noteq> None \<or> node_memory n \<noteq> None,
      node_healthcheck n \<noteq> None,
      node_startup_delay n \<noteq> None,
      node_depends_on n \<noteq> []]"

definition is_tap :: "foreign_target \<Rightarrow> bool" where
  "is_tap f = (case f of Tap _ \<Rightarrow> True | _ \<Rightarrow> False)"

text \<open>
  The components of an absolute path: \<open>Path\<close> ignores empty pieces and \<open>.\<close>. The parent is
  \<open>/run/netns\<close> when exactly one component follows it, and \<open>file_name\<close> is that component unless it is \<open>..\<close>.
\<close>

definition path_components :: "string \<Rightarrow> string list" where
  "path_components p = filter (\<lambda>c. c \<noteq> [] \<and> c \<noteq> ''.'') (split_char CHR ''/'' p)"

definition name_under_run_netns :: "string \<Rightarrow> string option" where
  "name_under_run_netns p =
     (case (path_is_absolute p, path_components p) of
        (True, [a, b, name]) \<Rightarrow> if a = ''run'' \<and> b = ''netns'' \<and> name \<noteq> ''..'' then Some name else None
      | _ \<Rightarrow> None)"

definition under_prefix :: "topology \<Rightarrow> foreign_target \<Rightarrow> bool" where
  "under_prefix t f =
     (case Option.bind (foreign_netns_path f) name_under_run_netns of
        Some name \<Rightarrow> prefix (lab_effective_prefix (topo_lab t) @ ''-'') name
      | None \<Rightarrow> False)"

definition foreign_node_issues :: "topology \<Rightarrow> string \<Rightarrow> node \<Rightarrow> foreign \<Rightarrow> issue list" where
  "foreign_node_issues t name n f =
     (let at = ''nodes.'' @ name in
      concat (map (\<lambda>present. report present (err ''foreign-unsupported-property'' at)) (foreign_unsupported n)) @
      report (bm_keys (node_routes n) \<noteq> [] \<and> \<not> foreign_manage_addresses f)
        (err ''foreign-unsupported-property'' (at @ ''.routes'')) @
      report (is_tap (foreign_target_of f) \<and> (foreign_manage_addresses f \<or> foreign_manage_tc f))
        (err ''foreign-tap-link-only'' at) @
      report (under_prefix t (foreign_target_of f)) (err ''foreign-name-under-prefix'' at))"

definition endpoint_foreign :: "topology \<Rightarrow> string \<Rightarrow> foreign option" where
  "endpoint_foreign t ep = Option.bind (endpoint_parse ep) (\<lambda>e. foreign_of t (ep_node e))"

definition foreign_link_issues :: "topology \<Rightarrow> issue list" where
  "foreign_link_issues t =
     concat (map (\<lambda>(i, l).
         report (list_all (\<lambda>ep. endpoint_foreign t ep \<noteq> None) (link_ends l))
           (err ''foreign-link-needs-lab-side'' (idx ''links'' i)))
       (List.enumerate 0 (topo_links t)))"

definition foreign_network_issues :: "topology \<Rightarrow> issue list" where
  "foreign_network_issues t =
     concat (map (\<lambda>(name, net).
         concat (map (\<lambda>m.
             report (case endpoint_foreign t m of Some f \<Rightarrow> is_tap (foreign_target_of f) | None \<Rightarrow> False)
               (err ''foreign-tap-link-only'' (''networks.'' @ name @ ''.members'')))
           (network_members net)) @
         concat (map (\<lambda>imp.
             report (case foreign_of t (ni_src imp) of Some f \<Rightarrow> \<not> foreign_manage_tc f | None \<Rightarrow> False)
               (err ''foreign-unmanaged-tc'' (''networks.'' @ name @ ''.impairments'')))
           (network_impairments net)))
       (bm_entries (topo_networks t)))"

definition foreign_tc_issues :: "topology \<Rightarrow> issue list" where
  "foreign_tc_issues t =
     concat (map (\<lambda>key.
         report (case endpoint_foreign t key of Some f \<Rightarrow> \<not> foreign_manage_tc f | None \<Rightarrow> False)
           (err ''foreign-unmanaged-tc'' (''impairments.'' @ key)))
       (bm_keys (topo_impairments t) @ bm_keys (topo_rate_limits t) @ bm_keys (topo_qdiscs t)))"

text \<open>The nodes of the addresses that nobody will configure, in the order they are found.\<close>

definition unmanaged_address :: "foreign option \<Rightarrow> bool" where
  "unmanaged_address f = (case f of Some f \<Rightarrow> \<not> foreign_manage_addresses f | None \<Rightarrow> False)"

definition endpoint_owner :: "string \<Rightarrow> string" where
  "endpoint_owner ep = (case endpoint_parse ep of Some e \<Rightarrow> ep_node e | None \<Rightarrow> ep)"

definition unmanaged :: "topology \<Rightarrow> string list" where
  "unmanaged t =
     concat (map (\<lambda>l.
         case link_addresses l of
           Some (x, y) \<Rightarrow> map endpoint_owner (filter (\<lambda>ep. unmanaged_address (endpoint_foreign t ep)) (link_ends l))
         | None \<Rightarrow> [])
       (topo_links t)) @
     concat (map (\<lambda>(name, n).
         if unmanaged_address (node_foreign n)
         then concat (map (\<lambda>c. map (\<lambda>_. name) (if_addresses c)) (bm_values (node_interfaces n))) else [])
       (bm_entries (topo_nodes t))) @
     concat (map (\<lambda>net. concat (map (\<lambda>(key, port).
         if unmanaged_address (endpoint_foreign t key) then map (\<lambda>_. endpoint_owner key) (port_addresses port) else [])
       (bm_entries (network_ports net)))) (bm_values (topo_networks t)))"

definition validate_foreign_nodes :: "topology \<Rightarrow> issue list" where
  "validate_foreign_nodes t =
     concat (map (\<lambda>(name, n). case node_foreign n of Some f \<Rightarrow> foreign_node_issues t name n f | None \<Rightarrow> [])
       (bm_entries (topo_nodes t))) @
     foreign_link_issues t @
     foreign_network_issues t @
     foreign_tc_issues t @
     map (\<lambda>node. warn ''foreign-address-unmanaged'' (''nodes.'' @ node)) (unmanaged t)"

subsection \<open>What is left of a foreign node\<close>

lemma foreign_node_issues_errors: "errors (foreign_node_issues t name n f) = foreign_node_issues t name n f"
  by (simp add: foreign_node_issues_def Let_def rule_simps comp_def)

lemma foreign_section_errors:
  "errors (foreign_link_issues t) = foreign_link_issues t"
  "errors (foreign_network_issues t) = foreign_network_issues t"
  "errors (foreign_tc_issues t) = foreign_tc_issues t"
  by (simp_all add: foreign_link_issues_def foreign_network_issues_def foreign_tc_issues_def rule_simps comp_def split_def)

lemma bm_keys_Nil: "bm_keys m = [] \<longleftrightarrow> m = bm_empty"
proof
  assume "bm_keys m = []"
  then have "dom (bm_get m) = {}" using set_bm_keys [of m] by simp
  then show "m = bm_empty" by (intro bm_ext) simp
qed (simp add: bm_keys_def bm_empty.rep_eq)

lemma foreign_rule_errors:
  "errors (validate_foreign_nodes t) = [] \<longleftrightarrow>
     (\<forall>name n. bm_get (topo_nodes t) name = Some n \<longrightarrow> (\<forall>f. node_foreign n = Some f \<longrightarrow> foreign_node_issues t name n f = [])) \<and>
     foreign_link_issues t = [] \<and> foreign_network_issues t = [] \<and> foreign_tc_issues t = []"
proof -
  have node: "errors (case node_foreign n of Some f \<Rightarrow> foreign_node_issues t name n f | None \<Rightarrow> []) = [] \<longleftrightarrow>
      (\<forall>f. node_foreign n = Some f \<longrightarrow> foreign_node_issues t name n f = [])" for name n
    by (cases "node_foreign n") (simp_all add: foreign_node_issues_errors, simp add: errors_def)
  show ?thesis
    unfolding validate_foreign_nodes_def errors_append append_is_Nil_conv foreign_section_errors errors_warnings
      errors_concat map_map comp_def concat_map_Nil
    unfolding ball_entries [symmetric] split_def node by simp
qed

lemma foreign_node_issues_Nil:
  "foreign_node_issues t name n f = [] \<longleftrightarrow>
     list_all Not (foreign_unsupported n) \<and>
     (node_routes n = bm_empty \<or> foreign_manage_addresses f) \<and>
     (is_tap (foreign_target_of f) \<longrightarrow> \<not> foreign_manage_addresses f \<and> \<not> foreign_manage_tc f) \<and>
     \<not> under_prefix t (foreign_target_of f)"
  by (auto simp: foreign_node_issues_def Let_def rule_simps bm_keys_Nil list_all_iff)

definition foreign_shell :: "node \<Rightarrow> node" where
  "foreign_shell n = node_default\<lparr>node_interfaces := node_interfaces n, node_routes := node_routes n,
     node_healthcheck_interval := node_healthcheck_interval n, node_healthcheck_timeout := node_healthcheck_timeout n,
     node_healthcheck_retries := node_healthcheck_retries n, node_foreign := node_foreign n\<rparr>"

lemma foreign_shellI:
  assumes "list_all Not (foreign_unsupported n)" "check_image name n = []"
  shows "n = foreign_shell n"
proof -
  have "list_all (\<lambda>(_, present). \<not> present) (container_only n)"
    using assms by (simp add: check_image_def foreign_unsupported_def rule_simps list_all_iff split_def)
  with assms(1) show ?thesis
    by (intro node.equality)
      (simp_all add: foreign_shell_def node_default_def foreign_unsupported_def container_only_def bm_keys_Nil)
qed

lemma container_fields_Nil:
  assumes "validate_container_fields t = Some []" "bm_get (topo_nodes t) name = Some n"
  shows "check_image name n = []"
  using assms by (auto simp: validate_container_fields_def rule_simps nil_pairs)

lemma foreign_tc_Nil:
  "foreign_tc_issues t = [] \<longleftrightarrow>
     (\<forall>ep \<in> dom (bm_get (topo_impairments t)) \<union> dom (bm_get (topo_rate_limits t)) \<union> dom (bm_get (topo_qdiscs t)).
        \<forall>f. endpoint_foreign t ep = Some f \<longrightarrow> foreign_manage_tc f)"
  by (auto simp: foreign_tc_issues_def rule_simps split: option.splits)

lemma foreign_networks_Nil:
  "foreign_network_issues t = [] \<longleftrightarrow>
     (\<forall>name net. bm_get (topo_networks t) name = Some net \<longrightarrow>
        (\<forall>m \<in> set (network_members net). \<forall>f. endpoint_foreign t m = Some f \<longrightarrow> \<not> is_tap (foreign_target_of f)) \<and>
        (\<forall>imp \<in> set (network_impairments net). \<forall>f. foreign_of t (ni_src imp) = Some f \<longrightarrow> foreign_manage_tc f))"
proof -
  have flag: "(case v of Some f \<Rightarrow> P f | None \<Rightarrow> False) \<longleftrightarrow> \<not> (\<forall>f. v = Some f \<longrightarrow> \<not> P f)" for v :: "foreign option" and P
    by (cases v) auto
  show ?thesis
    unfolding foreign_network_issues_def concat_map_Nil nil_pairs append_is_Nil_conv report_Nil flag not_not ball_entries ..
qed

lemma foreign_links_Nil:
  "foreign_link_issues t = [] \<longleftrightarrow> (\<forall>l \<in> set (topo_links t). \<exists>ep \<in> set (link_ends l). endpoint_foreign t ep = None)"
  unfolding foreign_link_issues_def concat_map_Nil nil_pairs report_Nil ball_enumerate by (auto simp: list_all_iff)

text \<open>C33.
  nlink-lab changes nothing in a node it did not create except on request. In a topology without an
  error of the foreign and container rules, a foreign node declares interfaces, routes and otherwise nothing
  that would be run, created or configured in it: every other field but the health-check timing has its default, and
  no interface of it is a bond, VLAN or VXLAN. It has routes only under \<open>manage addresses\<close>, a tap takes no
  \<open>manage\<close> and joins no network, its namespace is not one that the lab's cleanup sweeps, and without \<open>manage tc\<close> no
  impairment, rate limit, qdisc or per-pair rule applies to an endpoint of it. Every link has an
  end that is not foreign.
\<close>

theorem foreign_nodes_untouched:
  assumes "errors (validate_foreign_nodes t) = []" "validate_container_fields t = Some []"
    and n: "bm_get (topo_nodes t) name = Some n" and f: "node_foreign n = Some f"
  shows "n = foreign_shell n \<and>
    (\<forall>i c. bm_get (node_interfaces n) i = Some c \<longrightarrow> if_kind c = None) \<and>
    (node_routes n = bm_empty \<or> foreign_manage_addresses f) \<and>
    (is_tap (foreign_target_of f) \<longrightarrow> \<not> foreign_manage_addresses f \<and> \<not> foreign_manage_tc f \<and>
       (\<forall>x net m i. bm_get (topo_networks t) x = Some net \<longrightarrow> m \<in> set (network_members net) \<longrightarrow>
          endpoint_parse m \<noteq> Some \<lparr>ep_node = name, ep_iface = i\<rparr>)) \<and>
    \<not> under_prefix t (foreign_target_of f) \<and>
    (foreign_manage_tc f \<or>
       (\<forall>ep \<in> dom (bm_get (topo_impairments t)) \<union> dom (bm_get (topo_rate_limits t)) \<union> dom (bm_get (topo_qdiscs t)).
          \<forall>i. endpoint_parse ep \<noteq> Some \<lparr>ep_node = name, ep_iface = i\<rparr>) \<and>
       (\<forall>x net imp. bm_get (topo_networks t) x = Some net \<longrightarrow> imp \<in> set (network_impairments net) \<longrightarrow> ni_src imp \<noteq> name)) \<and>
    (\<forall>l \<in> set (topo_links t). \<exists>ep \<in> set (link_ends l). endpoint_foreign t ep = None)"
proof -
  note rules = assms(1) [unfolded foreign_rule_errors foreign_node_issues_Nil foreign_tc_Nil foreign_networks_Nil foreign_links_Nil]
  have here: "foreign_of t name = Some f" using n f by (simp add: foreign_of_def)
  have ends: "endpoint_foreign t ep = Some f" if "endpoint_parse ep = Some \<lparr>ep_node = name, ep_iface = i\<rparr>" for ep i
    using that here by (simp add: endpoint_foreign_def)
  from rules n f have unsupported: "list_all Not (foreign_unsupported n)" by blast
  then have kinds: "\<forall>i c. bm_get (node_interfaces n) i = Some c \<longrightarrow> if_kind c = None"
    using set_bm_values [of "node_interfaces n"] by (force simp: foreign_unsupported_def list_ex_iff ran_def)
  have shell: "n = foreign_shell n"
    using foreign_shellI [OF unsupported container_fields_Nil [OF assms(2) n]] .
  show ?thesis
  proof (intro conjI)
    show "is_tap (foreign_target_of f) \<longrightarrow> \<not> foreign_manage_addresses f \<and> \<not> foreign_manage_tc f \<and>
       (\<forall>x net m i. bm_get (topo_networks t) x = Some net \<longrightarrow> m \<in> set (network_members net) \<longrightarrow>
          endpoint_parse m \<noteq> Some \<lparr>ep_node = name, ep_iface = i\<rparr>)"
      using rules n f ends by blast
    show "foreign_manage_tc f \<or>
       (\<forall>ep \<in> dom (bm_get (topo_impairments t)) \<union> dom (bm_get (topo_rate_limits t)) \<union> dom (bm_get (topo_qdiscs t)).
          \<forall>i. endpoint_parse ep \<noteq> Some \<lparr>ep_node = name, ep_iface = i\<rparr>) \<and>
       (\<forall>x net imp. bm_get (topo_networks t) x = Some net \<longrightarrow> imp \<in> set (network_impairments net) \<longrightarrow> ni_src imp \<noteq> name)"
      using rules here ends by blast
  qed (use rules n f shell kinds in blast)+
qed

definition outside :: node where
  "outside = node_default\<lparr>node_foreign := Some \<lparr>foreign_target_of = Netns ''uplink'',
     foreign_manage_addresses = False, foreign_manage_tc = False\<rparr>\<rparr>"

definition uplink_lab :: topology where
  "uplink_lab = topology_default\<lparr>topo_nodes := bm_of_list [(''a'', node_default), (''out'', outside)],
     topo_links := [\<lparr>link_endpoints = (''a:eth0'', ''out:eth0''), link_addresses = None, link_mtu = None\<rparr>],
     topo_impairments := bm_of_list [(''a:eth0'', imp_default)]\<rparr>"

theorem foreign_nodes_untouched_witness:
  "outside = foreign_shell outside \<and> \<not> under_prefix uplink_lab (Netns ''uplink'') \<and>
   (\<exists>ep \<in> {''a:eth0'', ''out:eth0''}. endpoint_foreign uplink_lab ep = None)"
proof -
  have rules: "errors (validate_foreign_nodes uplink_lab) = []" "validate_container_fields uplink_lab = Some []"
    by code_simp+
  have n: "bm_get (topo_nodes uplink_lab) ''out'' = Some outside"
    by (simp add: uplink_lab_def bm_get_of_list)
  have f: "node_foreign outside = Some \<lparr>foreign_target_of = Netns ''uplink'', foreign_manage_addresses = False, foreign_manage_tc = False\<rparr>"
    by (simp add: outside_def)
  note all = foreign_nodes_untouched [OF rules n f]
  have "outside = foreign_shell outside" by (rule all [THEN conjunct1])
  moreover have "\<not> under_prefix uplink_lab (Netns ''uplink'')"
    using all [THEN conjunct2, THEN conjunct2, THEN conjunct2, THEN conjunct2, THEN conjunct1] by simp
  moreover have "\<forall>l \<in> set (topo_links uplink_lab). \<exists>ep \<in> set (link_ends l). endpoint_foreign uplink_lab ep = None"
    by (rule all [THEN conjunct2, THEN conjunct2, THEN conjunct2, THEN conjunct2, THEN conjunct2, THEN conjunct2])
  ultimately show ?thesis by (simp add: uplink_lab_def link_ends_def)
qed

end
