(* ===== verification/Frr.thy ===== *)
theory Frr
  imports Start_Order Deploy_Op
begin

unbundle bit_operations_syntax

text \<open>
  FRR routing daemons, \<open>crates/nlink-lab/src/frr.rs\<close>: the pathspace and the paths of a node's
  daemons, the segments a node is attached to, the resolution of a BGP neighbour to an
  address and an AS number, and the configuration texts. \<open>locate\<close>, \<open>frr_ids\<close> and \<open>kill_daemons\<close>
  take what the file system and \<open>/proc\<close> hold as arguments. The lemmas say which addresses a
  neighbour can resolve to, what a successful \<open>build_spec\<close> contains and which interfaces
  the OSPF configuration has.
\<close>

subsection \<open>Text helpers of the standard library\<close>

text \<open>\<open>str::lines\<close>; \<open>str::split('/').next()\<close>; \<open>str::parse\<close> for \<open>Ipv4Addr\<close>.\<close>

abbreviation newline :: char where
  "newline \<equiv> CHR 0x0A"

definition ln :: "string \<Rightarrow> string" where
  "ln s = s @ [newline]"

definition strip_cr :: "string \<Rightarrow> string" where
  "strip_cr s = (if s \<noteq> [] \<and> last s = CHR 0x0D then butlast s else s)"

definition str_lines :: "string \<Rightarrow> string list" where
  "str_lines s =
     (let ps = split_char newline s in
      map strip_cr (butlast ps) @ (if last ps = [] then [] else [last ps]))"

definition before_slash :: "string \<Rightarrow> string" where
  "before_slash s = hd (split_char CHR ''/'' s)"

definition parse_ipv4 :: "string \<Rightarrow> 32 word option" where
  "parse_ipv4 s = (case read_ipv4 s of Some (v, r) \<Rightarrow> if r = [] then Some (of_nat v) else None | None \<Rightarrow> None)"

subsection \<open>Pathspaces and paths\<close>

definition DAEMON_DIRS :: "string list" where
  "DAEMON_DIRS = [''/usr/lib/frr'', ''/usr/libexec/frr'', ''/usr/local/sbin'']"

definition RUN_ROOT :: string where "RUN_ROOT = ''/var/run/frr''"
definition LIB_ROOT :: string where "LIB_ROOT = ''/var/lib/frr''"
definition FRR_USER :: string where "FRR_USER = ''frr''"

definition continuation_byte :: "char \<Rightarrow> bool" where
  "continuation_byte c \<longleftrightarrow> CHR 0x80 \<le> c \<and> c \<le> CHR 0xBF"

definition pathspace_char :: "char \<Rightarrow> bool" where
  "pathspace_char c \<longleftrightarrow> is_alnum c \<or> c = CHR ''-'' \<or> c = CHR ''_''"

text \<open>One character is its first byte and the continuation bytes after it.\<close>

definition cleaned :: "string \<Rightarrow> string" where
  "cleaned name = map (\<lambda>c. if pathspace_char c then c else CHR ''_'') (filter (\<lambda>c. \<not> continuation_byte c) name)"

definition pathspace_hash :: "string \<Rightarrow> 32 word" where
  "pathspace_hash name = foldl (\<lambda>h b. (h * 33) XOR of_nat (of_char b)) 5381 name"

definition pathspace :: "string \<Rightarrow> string" where
  "pathspace name =
     (let full = ''nl-'' @ cleaned name in
      if length full \<le> 60 then full
      else ''nl-'' @ show_hex8 (unat (pathspace_hash name)) @ ''-'' @ take 40 (cleaned name))"

definition run_dir :: "string \<Rightarrow> string" where
  "run_dir ps = path_join RUN_ROOT ps"

definition lib_dir :: "string \<Rightarrow> string" where
  "lib_dir ps = path_join LIB_ROOT ps"

definition lab_dir :: "string \<Rightarrow> string" where
  "lab_dir lab = path_join ''/run/nlink-lab/frr'' lab"

definition node_dir :: "string \<Rightarrow> string \<Rightarrow> string" where
  "node_dir lab node = path_join (lab_dir lab) node"

definition pidfile :: "string \<Rightarrow> string \<Rightarrow> daemon \<Rightarrow> string" where
  "pidfile lab node d = path_join (node_dir lab node) (daemon_name d @ ''.pid'')"

definition conf_path :: "string \<Rightarrow> string \<Rightarrow> daemon \<Rightarrow> string" where
  "conf_path lab node d = path_join (node_dir lab node) (daemon_name d @ ''.conf'')"

definition log_path :: "string \<Rightarrow> string \<Rightarrow> daemon \<Rightarrow> string" where
  "log_path lab node d = path_join (node_dir lab node) (daemon_name d @ ''.log'')"

definition runtime_dirs :: "string \<Rightarrow> string \<Rightarrow> string \<Rightarrow> string list" where
  "runtime_dirs lab node ps = [node_dir lab node, run_dir ps, lib_dir ps]"

subsection \<open>Finding the daemons\<close>

text \<open>\<open>is_file\<close> and the value of \<open>$PATH\<close> are arguments; an unset \<open>$PATH\<close> is the empty string.\<close>

definition locate :: "(string \<Rightarrow> bool) \<Rightarrow> string \<Rightarrow> string \<Rightarrow> string option" where
  "locate is_file path bin =
     find is_file (map (\<lambda>d. path_join d bin) (split_char CHR '':'' path @ DAEMON_DIRS))"

definition locate_daemon :: "(string \<Rightarrow> bool) \<Rightarrow> string \<Rightarrow> daemon \<Rightarrow> string option" where
  "locate_daemon is_file path d = locate is_file path (daemon_name d)"

definition locate_vtysh :: "(string \<Rightarrow> bool) \<Rightarrow> string \<Rightarrow> string option" where
  "locate_vtysh is_file path = locate is_file path ''vtysh''"

definition passwd_entry :: "string \<Rightarrow> (nat \<times> nat) option" where
  "passwd_entry line =
     (case split_char CHR '':'' line of
        name # pw # uid # gid # rest \<Rightarrow>
          if name \<noteq> FRR_USER then None
          else Option.bind (parse_u32 uid) (\<lambda>u. map_option (Pair u) (parse_u32 gid))
      | _ \<Rightarrow> None)"

definition frr_ids :: "string option \<Rightarrow> (nat \<times> nat) option" where
  "frr_ids passwd = Option.bind passwd (\<lambda>text. first_some passwd_entry (str_lines text))"

datatype daemon_error = Daemons_Missing "daemon list" | No_Frr_User

definition require_daemons ::
  "(string \<Rightarrow> bool) \<Rightarrow> string \<Rightarrow> string option \<Rightarrow> daemon btree_set \<Rightarrow>
   (daemon_error, (daemon, string) btree_map) result" where
  "require_daemons is_file path passwd needed =
     (let missing = filter (\<lambda>d. locate_daemon is_file path d = None) (bm_keys needed);
          found = bm_of_list (List.map_filter
            (\<lambda>d. map_option (Pair d) (locate_daemon is_file path d)) (bm_keys needed)) in
      if missing \<noteq> [] then Inl (Daemons_Missing missing)
      else if frr_ids passwd = None then Inl No_Frr_User
      else Inr found)"

subsection \<open>The segments of a node\<close>

record iface_addrs =
  ia_name :: string
  ia_addrs :: "string list"
  ia_peers :: "string list"
  ia_p2p :: bool

definition is_v4 :: "string \<Rightarrow> bool" where
  "is_v4 cidr = (case parse_ip (before_slash cidr) of Some ip \<Rightarrow> is_ipv4 ip | None \<Rightarrow> False)"

definition link_ifaces :: "string \<Rightarrow> link \<Rightarrow> iface_addrs list" where
  "link_ifaces me l =
     (case (link_addresses l, endpoint_parse (fst (link_endpoints l)), endpoint_parse (snd (link_endpoints l))) of
        (Some (x, y), Some a, Some b) \<Rightarrow>
          List.map_filter (\<lambda>(own, other, addr).
              if ep_node own = me \<and> is_v4 addr
              then Some \<lparr>ia_name = ep_iface own, ia_addrs = [addr], ia_peers = [ep_node other], ia_p2p = True\<rparr>
              else None)
            [(a, b, x), (b, a, y)]
      | _ \<Rightarrow> [])"

definition network_ifaces :: "string \<Rightarrow> network \<Rightarrow> iface_addrs list" where
  "network_ifaces me net =
     (let members = List.map_filter endpoint_parse (bm_keys (network_ports net)) in
      List.map_filter (\<lambda>(key, port).
          case endpoint_parse key of
            None \<Rightarrow> None
          | Some ep \<Rightarrow>
              let addrs = filter is_v4 (port_addresses port) in
              if ep_node ep \<noteq> me \<or> addrs = [] then None
              else Some \<lparr>ia_name = ep_iface ep, ia_addrs = addrs,
                         ia_peers = filter (\<lambda>n. n \<noteq> me) (map ep_node members), ia_p2p = False\<rparr>)
        (bm_entries (network_ports net)))"

definition segments_of :: "topology \<Rightarrow> string \<Rightarrow> iface_addrs list" where
  "segments_of t me =
     sort_key ia_name (concat (map (link_ifaces me) (topo_links t)) @
                       concat (map (network_ifaces me) (bm_values (topo_networks t))))"

definition frr_nodes :: "topology \<Rightarrow> string btree_set" where
  "frr_nodes t = bset_of_list (map fst (filter (\<lambda>(_, n). effective_frr t n \<noteq> None) (bm_entries (topo_nodes t))))"

subsection \<open>BGP neighbours\<close>

definition address_of :: "string \<Rightarrow> ip_addr option" where
  "address_of cidr = parse_ip (before_slash cidr)"

definition same_segment :: "iface_addrs \<Rightarrow> iface_addrs \<Rightarrow> bool" where
  "same_segment a b =
     list_ex (\<lambda>x. case parse_cidr x of
         Inl _ \<Rightarrow> False
       | Inr (net, p) \<Rightarrow>
           list_ex (\<lambda>y. case address_of y of Some ip \<Rightarrow> ip_in_subnet ip net p | None \<Rightarrow> False) (ia_addrs b))
       (ia_addrs a)"

definition candidates :: "topology \<Rightarrow> string \<Rightarrow> string \<Rightarrow> ip_addr list" where
  "candidates t me peer =
     concat (map (\<lambda>m.
         if peer \<notin> set (ia_peers m) then []
         else concat (map (\<lambda>x.
             if me \<in> set (ia_peers x) \<and> same_segment m x
             then List.map_filter address_of (ia_addrs x) else [])
           (segments_of t peer)))
       (segments_of t me))"

datatype neighbor_error =
    Not_A_Node | Neighbor_Is_Self | No_Bgp_As | Bad_Remote | No_Shared_Segment | Several_Segments

definition neighbor_as :: "topology \<Rightarrow> node \<Rightarrow> bgp_neighbor \<Rightarrow> u32 option" where
  "neighbor_as t peer nb =
     (case bn_remote_as nb of
        Some asn \<Rightarrow> Some asn
      | None \<Rightarrow> map_option bgp_asn (Option.bind (effective_frr t peer) frr_bgp))"

definition neighbor_address :: "topology \<Rightarrow> string \<Rightarrow> bgp_neighbor \<Rightarrow> (neighbor_error, ip_addr) result" where
  "neighbor_address t me nb =
     (case bn_remote nb of
        Some ip \<Rightarrow> ok_or (parse_ip ip) Bad_Remote
      | None \<Rightarrow>
          (case remdups_adj (candidates t me (bn_node nb)) of
             [a] \<Rightarrow> Inr a
           | [] \<Rightarrow> Inl No_Shared_Segment
           | _ \<Rightarrow> Inl Several_Segments))"

definition resolve_bgp_neighbor ::
  "topology \<Rightarrow> string \<Rightarrow> bgp_neighbor \<Rightarrow> (neighbor_error, ip_addr \<times> u32) result" where
  "resolve_bgp_neighbor t me nb =
     and_then (ok_or (bm_get (topo_nodes t) (bn_node nb)) Not_A_Node) (\<lambda>peer.
       if bn_node nb = me then Inl Neighbor_Is_Self
       else and_then (ok_or (neighbor_as t peer nb) No_Bgp_As) (\<lambda>asn.
            and_then (neighbor_address t me nb) (\<lambda>addr. Inr (addr, asn))))"

definition default_router_id :: "node \<Rightarrow> iface_addrs list \<Rightarrow> string option" where
  "default_router_id n ifaces =
     (case Option.bind (bm_get (node_interfaces n) ''lo'') (\<lambda>lo. find is_v4 (if_addresses lo)) of
        Some a \<Rightarrow> Some (before_slash a)
      | None \<Rightarrow>
          (case sort (List.map_filter (\<lambda>a. parse_ipv4 (before_slash a)) (concat (map ia_addrs ifaces))) of
             [] \<Rightarrow> None
           | ip # _ \<Rightarrow> Some (show_ip (V4 ip))))"

subsection \<open>Configuration texts\<close>

definition frr_header :: "string \<Rightarrow> string" where
  "frr_header hostname = ln ''frr defaults traditional'' @ ln (''hostname '' @ hostname) @ ln ''!''"

definition generate_zebra_conf :: "string \<Rightarrow> string" where
  "generate_zebra_conf hostname = frr_header hostname @ ln ''line vty''"

definition opt_line :: "string \<Rightarrow> string option \<Rightarrow> string" where
  "opt_line pre v = (case v of Some s \<Rightarrow> ln (pre @ s) | None \<Rightarrow> [])"

definition show_u32 :: "u32 \<Rightarrow> string" where
  "show_u32 w = show_nat (unat w)"

definition ospf_stanza :: "ospf_config \<Rightarrow> string \<times> bool \<times> bool \<Rightarrow> string" where
  "ospf_stanza ospf = (\<lambda>(name, passive, p2p).
     let area = (case ospf_area ospf of Some a \<Rightarrow> a | None \<Rightarrow> ''0.0.0.0'') in
     ln (''interface '' @ name) @ ln ('' ip ospf area '' @ area) @
     (if p2p then ln '' ip ospf network point-to-point'' else []) @
     (if passive then ln '' ip ospf passive'' else []) @
     opt_line '' ip ospf hello-interval '' (map_option show_u32 (ospf_hello ospf)) @
     opt_line '' ip ospf dead-interval '' (map_option show_u32 (ospf_dead ospf)) @
     ln ''!'')"

definition generate_ospfd_conf ::
  "string \<Rightarrow> (string \<times> bool \<times> bool) list \<Rightarrow> ospf_config \<Rightarrow> string option \<Rightarrow> string" where
  "generate_ospfd_conf hostname iface_lines ospf router_id =
     frr_header hostname @ concat (map (ospf_stanza ospf) iface_lines) @
     ln ''router ospf'' @ opt_line '' ospf router-id '' router_id @
     concat (map (\<lambda>r. ln ('' redistribute '' @ r)) (ospf_redistribute ospf)) @
     ln ''!'' @ ln ''line vty''"

definition bgp_family :: "string \<Rightarrow> bgp_config \<Rightarrow> string list \<Rightarrow> ip_addr list \<Rightarrow> string" where
  "bgp_family family bgp nets peers =
     ln '' !'' @ ln ('' address-family '' @ family @ '' unicast'') @
     concat (map (\<lambda>n. ln (''  network '' @ n)) nets) @
     concat (map (\<lambda>r. ln (''  redistribute '' @ r)) (bgp_redistribute bgp)) @
     concat (map (\<lambda>a. ln (''  neighbor '' @ show_ip a @ '' activate'')) peers) @
     ln '' exit-address-family''"

definition generate_bgpd_conf ::
  "string \<Rightarrow> bgp_config \<Rightarrow> (ip_addr \<times> u32) list \<Rightarrow> string option \<Rightarrow> string" where
  "generate_bgpd_conf hostname bgp neighbors router_id =
     (let v6_net = (\<lambda>n. CHR '':'' \<in> set n);
          nets6 = filter v6_net (bgp_networks bgp);
          nets4 = filter (\<lambda>n. \<not> v6_net n) (bgp_networks bgp);
          neighbors6 = filter (\<lambda>a. \<not> is_ipv4 a) (map fst neighbors) in
      frr_header hostname @ ln (''router bgp '' @ show_u32 (bgp_asn bgp)) @
      opt_line '' bgp router-id '' router_id @
      ln '' no bgp ebgp-requires-policy'' @
      (if bgp_networks bgp \<noteq> [] then ln '' no bgp network import-check'' else []) @
      concat (map (\<lambda>(a, asn). ln ('' neighbor '' @ show_ip a @ '' remote-as '' @ show_u32 asn)) neighbors) @
      bgp_family ''ipv4'' bgp nets4 (filter is_ipv4 (map fst neighbors)) @
      (if nets6 \<noteq> [] \<or> neighbors6 \<noteq> [] then bgp_family ''ipv6'' bgp nets6 neighbors6 else []) @
      ln ''!'' @ ln ''line vty'')"

definition integrated_line :: "string \<Rightarrow> bool" where
  "integrated_line l \<longleftrightarrow> \<not> (prefix ''frr defaults'' l \<or> prefix ''hostname '' l \<or> l = ''line vty'')"

definition generate_integrated :: "string \<Rightarrow> (daemon, string) btree_map \<Rightarrow> string" where
  "generate_integrated hostname confs =
     frr_header hostname @
     concat (map (\<lambda>(d, text). ln (''! ---- '' @ daemon_name d) @
         concat (map ln (filter integrated_line (str_lines text)))) (bm_entries confs)) @
     ln ''line vty''"

subsection \<open>The specification of a node\<close>

definition speaks_ospf :: "topology \<Rightarrow> string \<Rightarrow> bool" where
  "speaks_ospf t r =
     (case Option.bind (bm_get (topo_nodes t) r) (effective_frr t) of
        Some f \<Rightarrow> frr_ospf f \<noteq> None | None \<Rightarrow> False)"

definition ospf_peers :: "topology \<Rightarrow> iface_addrs \<Rightarrow> nat" where
  "ospf_peers t i =
     (let ospf_routers = filter (speaks_ospf t) (bm_keys (frr_nodes t)) in
      length (filter (\<lambda>p. p \<in> set ospf_routers) (ia_peers i)))"

definition segment_passive :: "topology \<Rightarrow> ospf_config \<Rightarrow> iface_addrs \<Rightarrow> bool" where
  "segment_passive t ospf i \<longleftrightarrow> ia_name i \<in> set (ospf_passive ospf) \<or> ospf_peers t i = 0"

definition expected_ospf :: "topology \<Rightarrow> ospf_config \<Rightarrow> iface_addrs list \<Rightarrow> nat" where
  "expected_ospf t ospf ifaces =
     sum_list (map (\<lambda>i. if segment_passive t ospf i then 0
                        else if ia_p2p i then ospf_peers t i else min (ospf_peers t i) 2) ifaces)"

text \<open>
  A node's own interfaces are visited in name order, each name once, so checking a name against
  the lines pushed so far is checking it against the lines of the segments.
\<close>

definition stub_iface :: "string \<Rightarrow> interface_config \<Rightarrow> bool" where
  "stub_iface name iface \<longleftrightarrow>
     name = ''lo'' \<or> if_kind iface = Some Kind_Dummy \<or> if_kind iface = Some Kind_Loopback"

definition own_line :: "ospf_config \<Rightarrow> string list \<Rightarrow> string \<times> interface_config \<Rightarrow> (string \<times> bool \<times> bool) option" where
  "own_line ospf seen = (\<lambda>(name, iface).
     if name \<in> set seen \<or> \<not> list_ex is_v4 (if_addresses iface) then None
     else Some (name, stub_iface name iface \<or> name \<in> set (ospf_passive ospf), False))"

definition own_lines :: "node \<Rightarrow> ospf_config \<Rightarrow> string list \<Rightarrow> (string \<times> bool \<times> bool) list" where
  "own_lines n ospf seen = List.map_filter (own_line ospf seen) (bm_entries (node_interfaces n))"

definition ospf_lines :: "topology \<Rightarrow> node \<Rightarrow> ospf_config \<Rightarrow> iface_addrs list \<Rightarrow> (string \<times> bool \<times> bool) list" where
  "ospf_lines t n ospf ifaces =
     map (\<lambda>i. (ia_name i, segment_passive t ospf i, ia_p2p i)) ifaces @
     own_lines n ospf (map ia_name ifaces)"

definition build_spec ::
  "topology \<Rightarrow> string \<Rightarrow> node \<Rightarrow> frr_config \<Rightarrow> (neighbor_error, frr_node_spec) result" where
  "build_spec t me n cfg =
     (let ps = pathspace (namespace_name t me);
          ifaces = segments_of t me;
          rid = default_router_id n ifaces;
          confs0 = bm_insert Zebra (generate_zebra_conf me) bm_empty;
          (ds1, confs1, exp_ospf) =
            (case frr_ospf cfg of
               Some ospf \<Rightarrow>
                 ([Ospfd],
                  bm_insert Ospfd (generate_ospfd_conf me (ospf_lines t n ospf ifaces) ospf
                    (or_else (ospf_router_id ospf) rid)) confs0,
                  expected_ospf t ospf ifaces)
             | None \<Rightarrow> ([], confs0, 0)) in
      and_then
        (case frr_bgp cfg of
           Some bgp \<Rightarrow>
             and_then (traverse (resolve_bgp_neighbor t me) (bgp_neighbors bgp)) (\<lambda>neighbors.
               Inr ([Bgpd],
                    bm_insert Bgpd (generate_bgpd_conf me bgp neighbors (or_else (bgp_router_id bgp) rid)) confs1,
                    length neighbors))
         | None \<Rightarrow> Inr ([], confs1, 0))
        (\<lambda>(ds2, confs, exp_bgp). Inr
           \<lparr>frr_pathspace = ps, frr_daemons = Zebra # ds1 @ ds2, frr_confs = confs,
            frr_integrated = generate_integrated me confs,
            frr_expected_ospf_neighbors = exp_ospf, frr_expected_bgp_peers = exp_bgp\<rparr>))"

subsection \<open>Removing daemons and directories\<close>

text \<open>
  A process is its directory name in \<open>/proc\<close> and its \<open>cmdline\<close>, if that can be read. The code
  compares lossily decoded arguments with ASCII names, which is comparing the bytes.
\<close>

definition daemon_of_lab :: "string btree_set \<Rightarrow> string \<Rightarrow> bool" where
  "daemon_of_lab wanted cmdline =
     (let args = split_char CHR 0x00 cmdline in
      last (split_char CHR ''/'' (hd args)) \<in> set (map daemon_name [Zebra, Ospfd, Bgpd]) \<and>
      list_ex (\<lambda>(a, b). a = ''-N'' \<and> bm_contains wanted b) (zip args (tl args)))"

definition kill_targets :: "topology \<Rightarrow> (string \<times> string option) list option \<Rightarrow> int list" where
  "kill_targets t procs =
     (let wanted = bset_of_list (map (\<lambda>n. pathspace (namespace_name t n)) (bm_keys (topo_nodes t))) in
      case procs of
        None \<Rightarrow> []
      | Some ps \<Rightarrow>
          List.map_filter (\<lambda>(dir, cmd).
              case (parse_i32 dir, cmd) of
                (Some pid, Some cmdline) \<Rightarrow> if daemon_of_lab wanted cmdline then Some pid else None
              | _ \<Rightarrow> None) ps)"

text \<open>How many of the targets could be signalled; \<open>kill\<close> is the system call.\<close>

definition kill_daemons :: "(int \<Rightarrow> bool) \<Rightarrow> topology \<Rightarrow> (string \<times> string option) list option \<Rightarrow> nat" where
  "kill_daemons kill t procs = length (filter kill (kill_targets t procs))"

text \<open>The directories removed, in order.\<close>

definition cleanup :: "topology \<Rightarrow> string list" where
  "cleanup t =
     concat (map (\<lambda>(name, n).
         if effective_frr t n = None then []
         else let ps = pathspace (namespace_name t name) in [run_dir ps, lib_dir ps])
       (bm_entries (topo_nodes t))) @ [lab_dir (lab_name (topo_lab t))]"

subsection \<open>Pathspaces\<close>

lemma pathspace_char_hex: "is_radix_digit 16 c \<Longrightarrow> pathspace_char c"
  by (auto simp: is_radix_digit_def radix_val_def digit_val_def pathspace_char_def is_alnum_def
      less_eq_char_def Let_def split: if_splits)

lemma show_hex8_digit: "c \<in> set (show_hex8 k) \<Longrightarrow> is_radix_digit 16 c"
proof -
  have z: "is_radix_digit 16 CHR ''0''" by (simp add: is_radix_digit_def radix_val_def digit_val_def)
  assume "c \<in> set (show_hex8 k)"
  then have "c = CHR ''0'' \<or> c \<in> set (show_radix 16 k)" by (auto simp: show_hex8_def Let_def)
  then show ?thesis using z show_radix_is_digit [of 16 c k] by auto
qed

lemma length_show_hex8: "length (show_hex8 (unat (w :: u32))) = 8"
proof -
  have "unat w < 16 ^ 8" using unsigned_less [of w, where 'a = nat] by simp
  then have "length (show_radix 16 (unat w)) \<le> 8" by (intro length_show_radix_le) auto
  then show ?thesis by (simp add: show_hex8_def Let_def)
qed

lemma cleaned_chars: "list_all pathspace_char (cleaned name)"
  by (auto simp: cleaned_def list_all_iff pathspace_char_def)

lemma cleaned_id: "list_all pathspace_char name \<Longrightarrow> cleaned name = name"
  by (induction name) (auto simp: cleaned_def pathspace_char_def is_alnum_def continuation_byte_def less_eq_char_def)

lemma pathspace_chars: "list_all pathspace_char (pathspace name)"
proof -
  have hex: "list_all pathspace_char (show_hex8 k)" for k
    using show_hex8_digit [of _ k] by (auto simp: list_all_iff intro: pathspace_char_hex)
  have pre: "list_all pathspace_char ''nl-''" by (simp add: pathspace_char_def is_alnum_def less_eq_char_def)
  have "list_all pathspace_char (take k (cleaned name))" for k
    using cleaned_chars [of name] by (auto simp: list_all_iff dest: in_set_takeD)
  then show ?thesis
    using cleaned_chars [of name] hex pre
    by (simp add: pathspace_def Let_def)
qed

lemma pathspace_length: "length (pathspace name) \<le> 60"
  using length_show_hex8 [of "pathspace_hash name"] by (auto simp: pathspace_def Let_def)

subsection \<open>Segments and neighbours\<close>

lemma remdups_adj_singleton: "remdups_adj xs = [a] \<longleftrightarrow> set xs = {a}"
proof
  assume "remdups_adj xs = [a]"
  then have "set (remdups_adj xs) = {a}" by simp
  then show "set xs = {a}" by simp
next
  assume s: "set xs = {a}"
  then have "xs = replicate (length xs) a" by (intro replicate_eqI) auto
  moreover have "length xs \<noteq> 0" using s by auto
  ultimately show "remdups_adj xs = [a]" by (metis remdups_adj_replicate)
qed

lemma segments_of_iff:
  "i \<in> set (segments_of t me) \<longleftrightarrow>
     (\<exists>l \<in> set (topo_links t). i \<in> set (link_ifaces me l)) \<or>
     (\<exists>net \<in> set (bm_values (topo_networks t)). i \<in> set (network_ifaces me net))"
  by (auto simp: segments_of_def)

lemma link_ifaces_v4: "i \<in> set (link_ifaces me l) \<Longrightarrow> a \<in> set (ia_addrs i) \<Longrightarrow> is_v4 a"
  by (auto simp: link_ifaces_def set_map_filter split: option.splits if_splits)

lemma network_ifaces_v4: "i \<in> set (network_ifaces me net) \<Longrightarrow> a \<in> set (ia_addrs i) \<Longrightarrow> is_v4 a"
  by (auto simp: network_ifaces_def set_map_filter Let_def split: option.splits if_splits)

lemma segments_of_v4: "i \<in> set (segments_of t me) \<Longrightarrow> a \<in> set (ia_addrs i) \<Longrightarrow> is_v4 a"
  by (auto simp: segments_of_iff dest: link_ifaces_v4 network_ifaces_v4)

text \<open>The addresses of the peer on the segments the two nodes share.\<close>

definition peer_addresses :: "topology \<Rightarrow> string \<Rightarrow> string \<Rightarrow> ip_addr set" where
  "peer_addresses t me peer =
     {ip. \<exists>m x a. m \<in> set (segments_of t me) \<and> x \<in> set (segments_of t peer) \<and>
          peer \<in> set (ia_peers m) \<and> me \<in> set (ia_peers x) \<and> same_segment m x \<and>
          a \<in> set (ia_addrs x) \<and> address_of a = Some ip}"

lemma set_candidates: "set (candidates t me peer) = peer_addresses t me peer"
  by (auto simp: candidates_def peer_addresses_def set_map_filter split: if_splits)

lemma neighbor_address_None:
  assumes "bn_remote nb = None"
  shows "neighbor_address t me nb = Inr a \<longleftrightarrow> peer_addresses t me (bn_node nb) = {a}"
proof -
  let ?c = "candidates t me (bn_node nb)"
  have "neighbor_address t me nb = Inr a \<longleftrightarrow> remdups_adj ?c = [a]"
    using assms by (auto simp: neighbor_address_def split: list.splits)
  then show ?thesis by (simp only: remdups_adj_singleton set_candidates)
qed

lemma neighbor_address_Some:
  "bn_remote nb = Some ip \<Longrightarrow> neighbor_address t me nb = Inr a \<longleftrightarrow> parse_ip ip = Some a"
  by (auto simp: neighbor_address_def)

lemma resolve_bgp_neighbor_Inr:
  "resolve_bgp_neighbor t me nb = Inr (a, asn) \<longleftrightarrow>
     (\<exists>peer. bm_get (topo_nodes t) (bn_node nb) = Some peer \<and> bn_node nb \<noteq> me \<and>
             neighbor_as t peer nb = Some asn \<and> neighbor_address t me nb = Inr a)"
  by (auto simp: resolve_bgp_neighbor_def split: if_splits)

subsection \<open>The parts of a specification\<close>

lemma daemon_less [simp]: "Zebra < Ospfd" "Zebra < Bgpd" "Ospfd < Bgpd" "\<not> Ospfd < Zebra" "\<not> Bgpd < Zebra" "\<not> Bgpd < Ospfd"
  by (simp_all add: less_daemon_def)

lemmas confs_simps = bm_insert.rep_eq bm_empty.rep_eq bm_keys_def

lemma build_spec_Inr:
  assumes "build_spec t me n cfg = Inr spec"
  obtains "frr_ospf cfg = None" "frr_bgp cfg = None" "frr_daemons spec = [Zebra]"
      "bm_entries (frr_confs spec) = [(Zebra, generate_zebra_conf me)]" "frr_expected_bgp_peers spec = 0"
  | neighbors bgp rid where "frr_ospf cfg = None" "frr_bgp cfg = Some bgp"
      "traverse (resolve_bgp_neighbor t me) (bgp_neighbors bgp) = Inr neighbors"
      "frr_daemons spec = [Zebra, Bgpd]"
      "bm_entries (frr_confs spec) =
         [(Zebra, generate_zebra_conf me), (Bgpd, generate_bgpd_conf me bgp neighbors rid)]"
      "frr_expected_bgp_peers spec = length neighbors"
  | ospf rid where "frr_ospf cfg = Some ospf" "frr_bgp cfg = None" "frr_daemons spec = [Zebra, Ospfd]"
      "bm_entries (frr_confs spec) =
         [(Zebra, generate_zebra_conf me),
          (Ospfd, generate_ospfd_conf me (ospf_lines t n ospf (segments_of t me)) ospf rid)]"
      "frr_expected_bgp_peers spec = 0"
  | ospf bgp neighbors rid rid' where "frr_ospf cfg = Some ospf" "frr_bgp cfg = Some bgp"
      "traverse (resolve_bgp_neighbor t me) (bgp_neighbors bgp) = Inr neighbors"
      "frr_daemons spec = [Zebra, Ospfd, Bgpd]"
      "bm_entries (frr_confs spec) =
         [(Zebra, generate_zebra_conf me),
          (Ospfd, generate_ospfd_conf me (ospf_lines t n ospf (segments_of t me)) ospf rid),
          (Bgpd, generate_bgpd_conf me bgp neighbors rid')]"
      "frr_expected_bgp_peers spec = length neighbors"
proof (cases "frr_ospf cfg"; cases "frr_bgp cfg")
  assume "frr_ospf cfg = None" "frr_bgp cfg = None"
  with assms that(1) show ?thesis by (auto simp: build_spec_def confs_simps Let_def)
next
  fix bgp
  assume c: "frr_ospf cfg = None" "frr_bgp cfg = Some bgp"
  with assms obtain nbs where "traverse (resolve_bgp_neighbor t me) (bgp_neighbors bgp) = Inr nbs"
    by (auto simp: build_spec_def Let_def)
  with c assms show ?thesis by (intro that(2)) (auto simp: build_spec_def confs_simps Let_def)
next
  fix ospf
  assume "frr_ospf cfg = Some ospf" "frr_bgp cfg = None"
  with assms show ?thesis by (intro that(3)) (auto simp: build_spec_def confs_simps Let_def)
next
  fix ospf bgp
  assume c: "frr_ospf cfg = Some ospf" "frr_bgp cfg = Some bgp"
  with assms obtain nbs where "traverse (resolve_bgp_neighbor t me) (bgp_neighbors bgp) = Inr nbs"
    by (auto simp: build_spec_def Let_def)
  with c assms show ?thesis by (intro that(4)) (auto simp: build_spec_def confs_simps Let_def)
qed

lemma traverse_length: "traverse f xs = Inr ys \<Longrightarrow> length ys = length xs"
  by (auto simp: traverse_eq_Inr_iff list_all2_lengthD)

lemma traverse_total: "(\<exists>ys. traverse f xs = Inr ys) \<longleftrightarrow> (\<forall>x \<in> set xs. \<exists>y. f x = Inr y)"
  by (induction xs) auto

lemma traverse_resolve_total:
  "(\<exists>ys. traverse f xs = Inr ys) \<longleftrightarrow> (\<forall>x \<in> set xs. \<exists>a b. f x = Inr (a, b))"
  by (simp add: traverse_total)

lemma build_spec_total:
  "(\<exists>spec. build_spec t me n cfg = Inr spec) \<longleftrightarrow>
     (\<forall>bgp. frr_bgp cfg = Some bgp \<longrightarrow>
        (\<forall>nb \<in> set (bgp_neighbors bgp). \<exists>r. resolve_bgp_neighbor t me nb = Inr r))"
  by (cases "frr_ospf cfg"; cases "frr_bgp cfg")
    (simp_all add: build_spec_def Let_def traverse_resolve_total)

lemma in_map_filterI: "x \<in> set xs \<Longrightarrow> f x = Some y \<Longrightarrow> y \<in> set (List.map_filter f xs)"
  by (auto simp: set_map_filter)

lemma own_lines_iff:
  assumes "bm_get (node_interfaces n) i = Some c" "i \<notin> set seen" "list_ex is_v4 (if_addresses c)"
  shows "(i, stub_iface i c \<or> i \<in> set (ospf_passive ospf), False) \<in> set (own_lines n ospf seen)"
proof -
  have "(i, c) \<in> set (bm_entries (node_interfaces n))" using assms(1) by (simp add: in_bm_entries)
  moreover have "own_line ospf seen (i, c) = Some (i, stub_iface i c \<or> i \<in> set (ospf_passive ospf), False)"
    using assms(2,3) by (simp add: own_line_def)
  ultimately show ?thesis unfolding own_lines_def by (rule in_map_filterI)
qed

lemma sublist_concat_map:
  assumes "x \<in> set xs"
  shows "sublist (f x) (concat (map f xs))"
proof -
  obtain ys zs where "xs = ys @ x # zs" using split_list [OF assms] by blast
  then have "concat (map f xs) = concat (map f ys) @ f x @ concat (map f zs)" by simp
  then show ?thesis unfolding sublist_def by blast
qed

lemma ospf_stanza_in_conf:
  assumes "l \<in> set ls"
  shows "sublist (ospf_stanza ospf l) (generate_ospfd_conf me ls ospf rid)"
proof -
  have "sublist (ospf_stanza ospf l) (concat (map (ospf_stanza ospf) ls))"
    using assms by (rule sublist_concat_map)
  then obtain us vs where "concat (map (ospf_stanza ospf) ls) = us @ ospf_stanza ospf l @ vs"
    unfolding sublist_def by blast
  then have "generate_ospfd_conf me ls ospf rid = (frr_header me @ us) @ ospf_stanza ospf l @
      (vs @ ln ''router ospf'' @ opt_line '' ospf router-id '' rid @
       concat (map (\<lambda>r. ln ('' redistribute '' @ r)) (ospf_redistribute ospf)) @ ln ''!'' @ ln ''line vty'')"
    unfolding generate_ospfd_conf_def by (simp only: append_assoc)
  then show ?thesis unfolding sublist_def by blast
qed

lemma namespace_clash:
  assumes "length p \<le> 53"
  shows "pathspace (p @ ''-r.1'') = pathspace (p @ ''-r_1'')"
proof -
  have eq: "cleaned (p @ ''-r.1'') = cleaned (p @ ''-r_1'')"
    by (simp add: cleaned_def pathspace_char_def is_alnum_def continuation_byte_def less_eq_char_def)
  have "length (cleaned (p @ ''-r_1'')) \<le> length (p @ ''-r_1'')"
    unfolding cleaned_def length_map by (rule length_filter_le)
  then have "length (''nl-'' @ cleaned (p @ ''-r_1'')) \<le> 60" using assms by simp
  with eq show ?thesis unfolding pathspace_def Let_def by (simp only: if_True)
qed

lemma pathspace_relative: "\<not> path_is_absolute (pathspace name)"
  by (simp add: pathspace_def Let_def path_is_absolute_def)

subsection \<open>Properties\<close>

text \<open>
  The pathspace of any namespace consists of ASCII letters, digits, \<open>-\<close> and \<open>_\<close>, and the longest
  socket path below it fits the 108 bytes of \<open>sun_path\<close>.
\<close>

theorem pathspace_safe:
  "list_all pathspace_char (pathspace ns) \<and> length (run_dir (pathspace ns) @ ''/mgmtd_be.sock'') < 108"
  using pathspace_chars [of ns] pathspace_length [of ns] pathspace_relative [of ns]
  by (simp add: run_dir_def path_join_def RUN_ROOT_def)

text \<open>
  The pathspace is not unique per lab and node: the node names \<open>r.1\<close> and \<open>r_1\<close> are both valid and
  have different namespaces, and the daemons of the two nodes share one pathspace, so one socket
  directory.
\<close>

theorem pathspaces_clash:
  assumes "length (lab_effective_prefix (topo_lab t)) \<le> 53"
  shows "namespace_name t ''r.1'' \<noteq> namespace_name t ''r_1'' \<and>
    pathspace (namespace_name t ''r.1'') = pathspace (namespace_name t ''r_1'')"
  using namespace_clash [OF assms] by (simp add: namespace_name_def)

lemma pathspaces_clash_witness:
  "pathspace (namespace_name topology_default ''r.1'') = pathspace (namespace_name topology_default ''r_1'')"
proof (rule pathspaces_clash [THEN conjunct2])
  show "length (lab_effective_prefix (topo_lab topology_default)) \<le> 53" by code_simp
qed

text \<open>Two routers on a link, with a loopback each, that speak OSPF and BGP to each other.\<close>

definition router_conf :: "string \<Rightarrow> u32 \<Rightarrow> frr_config" where
  "router_conf peer asn =
     \<lparr>frr_ospf = Some \<lparr>ospf_area = None, ospf_router_id = None, ospf_passive = [], ospf_hello = None,
                       ospf_dead = None, ospf_redistribute = []\<rparr>,
      frr_bgp = Some \<lparr>bgp_asn = asn, bgp_router_id = None,
                      bgp_neighbors = [\<lparr>bn_node = peer, bn_remote_as = None, bn_remote = None\<rparr>],
                      bgp_networks = [], bgp_redistribute = []\<rparr>\<rparr>"

definition router_lo :: "string \<Rightarrow> interface_config" where
  "router_lo addr =
     \<lparr>if_kind = Some Kind_Loopback, if_addresses = [addr], if_vni = None, if_local = None,
      if_remote = None, if_port = None, if_underlay = None, if_mtu = None, if_parent = None,
      if_members = [], if_bond = None, if_vlan_protocol = None\<rparr>"

definition router :: "string \<Rightarrow> string \<Rightarrow> u32 \<Rightarrow> node" where
  "router lo peer asn = node_default
     \<lparr>node_frr := Some (router_conf peer asn),
      node_sysctls := bm_of_list [(''net.ipv4.ip_forward'', ''1'')],
      node_interfaces := bm_of_list [(''lo'', router_lo lo)]\<rparr>"

definition routers_lab :: topology where
  "routers_lab = topology_default
     \<lparr>topo_lab := lab_default\<lparr>lab_name := ''rt'', lab_routing := Routing_Frr\<rparr>,
      topo_nodes := bm_of_list [(''a'', router ''1.1.1.1/32'' ''b'' 65001), (''b'', router ''1.1.1.2/32'' ''a'' 65002)],
      topo_links := [\<lparr>link_endpoints = (''a:eth0'', ''b:eth0''),
                      link_addresses = Some (''10.0.0.1/30'', ''10.0.0.2/30''), link_mtu = None\<rparr>]\<rparr>"

lemma routers_lab_builds: "\<exists>spec. build_spec routers_lab ''a'' (router ''1.1.1.1/32'' ''b'' 65001) (router_conf ''b'' 65001) = Inr spec"
proof -
  have "list_all (\<lambda>nb. \<not> isl (resolve_bgp_neighbor routers_lab ''a'' nb)) (bgp_neighbors (the (frr_bgp (router_conf ''b'' 65001))))"
    by code_simp
  then show ?thesis unfolding build_spec_total
    by (auto simp: list_all_iff router_conf_def isl_def) (metis old.sum.exhaust surj_pair)
qed


text \<open>
  A successful specification has a configuration for exactly the daemons it starts, zebra first,
  \<open>ospfd\<close> and \<open>bgpd\<close> where the configuration asks for them, and waits for every BGP peer.
\<close>

theorem build_spec_daemons:
  assumes "build_spec t me n cfg = Inr spec"
  shows "frr_daemons spec = bm_keys (frr_confs spec) \<and> hd (frr_daemons spec) = Zebra \<and>
    (Ospfd \<in> set (frr_daemons spec) \<longleftrightarrow> frr_ospf cfg \<noteq> None) \<and>
    (Bgpd \<in> set (frr_daemons spec) \<longleftrightarrow> frr_bgp cfg \<noteq> None) \<and>
    frr_expected_bgp_peers spec = (case frr_bgp cfg of Some b \<Rightarrow> length (bgp_neighbors b) | None \<Rightarrow> 0)"
  using assms by (rule build_spec_Inr) (simp_all add: bm_keys_def traverse_length)

lemma build_spec_daemons_witness:
  "\<exists>spec. build_spec routers_lab ''a'' (router ''1.1.1.1/32'' ''b'' 65001) (router_conf ''b'' 65001) = Inr spec \<and>
     frr_daemons spec = bm_keys (frr_confs spec) \<and> frr_expected_bgp_peers spec = 1"
proof -
  obtain spec where s: "build_spec routers_lab ''a'' (router ''1.1.1.1/32'' ''b'' 65001) (router_conf ''b'' 65001) = Inr spec"
    using routers_lab_builds by blast
  show ?thesis using s build_spec_daemons [OF s] by (auto simp: router_conf_def)
qed



end
