(* ===== verification/Validator_Frr.thy ===== *)
theory Validator_Frr
  imports Frr Validator_Refs
begin

text \<open>
  The rules of \<open>crates/nlink-lab/src/validator.rs\<close> about routing daemons and tunnels: \<open>validate_frr\<close>
  and \<open>validate_wireguard_peers\<close>. The main result connects the validator with the planner: in a
  topology without FRR errors the specification of every FRR node can be built.
\<close>

subsection \<open>FRR\<close>

definition ipv4_text :: "string \<Rightarrow> bool" where
  "ipv4_text s \<longleftrightarrow> parse_ipv4 s \<noteq> None"

definition bad_value :: "bool \<Rightarrow> string \<Rightarrow> string \<Rightarrow> issue list" where
  "bad_value b location field = report b (err ''frr-invalid-value'' (location @ field))"

definition check_ospf :: "string \<Rightarrow> ospf_config \<Rightarrow> issue list" where
  "check_ospf location o' =
     (case ospf_area o' of
        Some a \<Rightarrow> bad_value (\<not> ipv4_text a \<and> parse_u32 a = None) location ''.ospf.area'' | None \<Rightarrow> []) @
     (case ospf_router_id o' of
        Some i \<Rightarrow> bad_value (\<not> ipv4_text i) location ''.ospf.router_id'' | None \<Rightarrow> []) @
     (case (ospf_hello o', ospf_dead o') of
        (Some h, Some d) \<Rightarrow> bad_value (h \<ge> d) location ''.ospf.hello'' | _ \<Rightarrow> []) @
     concat (map (\<lambda>r. bad_value (r \<notin> set [''connected'', ''static'', ''bgp'', ''kernel'']) location ''.ospf.redistribute'')
       (ospf_redistribute o'))"

definition check_bgp :: "string \<Rightarrow> bgp_config \<Rightarrow> issue list" where
  "check_bgp location b =
     bad_value (bgp_asn b = 0) location ''.bgp.asn'' @
     (case bgp_router_id b of
        Some i \<Rightarrow> bad_value (\<not> ipv4_text i) location ''.bgp.router_id'' | None \<Rightarrow> []) @
     concat (map (\<lambda>n. bad_value (\<not> unresolved n \<and> \<not> is_cidr n) location ''.bgp.networks'') (bgp_networks b)) @
     concat (map (\<lambda>r. bad_value (r \<notin> set [''connected'', ''static'', ''ospf'', ''kernel'']) location ''.bgp.redistribute'')
       (bgp_redistribute b))"

definition check_frr_values :: "string \<Rightarrow> frr_config \<Rightarrow> issue list" where
  "check_frr_values location cfg =
     (case frr_ospf cfg of Some o' \<Rightarrow> check_ospf location o' | None \<Rightarrow> []) @
     (case frr_bgp cfg of Some b \<Rightarrow> check_bgp location b | None \<Rightarrow> [])"

definition frr_block :: "bool \<Rightarrow> string \<Rightarrow> frr_config option \<Rightarrow> issue list" where
  "frr_block frr_mode location cfg =
     (case cfg of
        None \<Rightarrow> []
      | Some c \<Rightarrow> report (\<not> frr_mode) (err ''frr-requires-routing-frr'' location) @ check_frr_values location c)"

definition frr_node_block :: "bool \<Rightarrow> string \<Rightarrow> node \<Rightarrow> issue list" where
  "frr_node_block frr_mode location n =
     (case node_frr n of
        None \<Rightarrow> []
      | Some c \<Rightarrow>
          report (\<not> frr_mode) (err ''frr-requires-routing-frr'' location) @
          report (is_container n) (err ''frr-container-node'' location) @
          check_frr_values location c)"

definition unresolved_neighbors :: "topology \<Rightarrow> string \<Rightarrow> string \<Rightarrow> frr_config \<Rightarrow> issue list" where
  "unresolved_neighbors t name location cfg =
     (case frr_bgp cfg of
        None \<Rightarrow> []
      | Some b \<Rightarrow> concat (map (\<lambda>nb. report (isl (resolve_bgp_neighbor t name nb))
            (err ''bgp-neighbor-unresolved'' (location @ ''.bgp.neighbors''))) (bgp_neighbors b)))"

definition frr_effective_issues :: "topology \<Rightarrow> string \<Rightarrow> string \<Rightarrow> node \<Rightarrow> issue list" where
  "frr_effective_issues t name location n =
     (case effective_frr t n of
        None \<Rightarrow> []
      | Some cfg \<Rightarrow>
          report (bm_get (effective_sysctls t n) ''net.ipv4.ip_forward'' \<noteq> Some ''1'')
            (warn ''frr-requires-forwarding'' location) @
          unresolved_neighbors t name location cfg)"

definition validate_frr :: "topology \<Rightarrow> issue list" where
  "validate_frr t =
     (let frr_mode = (lab_routing (topo_lab t) = Routing_Frr) in
      frr_block frr_mode ''lab.frr'' (lab_frr (topo_lab t)) @
      concat (map (\<lambda>(name, p). frr_block frr_mode (''profiles.'' @ name @ ''.frr'') (profile_frr p))
        (bm_entries (topo_profiles t))) @
      concat (map (\<lambda>(name, n).
          let location = ''nodes.'' @ name @ ''.frr'' in
          frr_node_block frr_mode location n @
          (if \<not> frr_mode then [] else frr_effective_issues t name location n))
        (bm_entries (topo_nodes t))))"

subsection \<open>WireGuard peers\<close>

text \<open>\<open>str::parse\<close> for \<open>SocketAddr\<close>: whether it succeeds.\<close>

definition read_char :: "char \<Rightarrow> unit reader" where
  "read_char c s = (case s of x # xs \<Rightarrow> if x = c then Some ((), xs) else None | [] \<Rightarrow> None)"

definition read_port :: "nat reader" where
  "read_port s = Option.bind (read_char CHR '':'' s) (\<lambda>(_, r). read_number 10 (length r) 65535 True r)"

definition read_scope_id :: "nat reader" where
  "read_scope_id s = Option.bind (read_char CHR ''%'' s) (\<lambda>(_, r). read_number 10 (length r) 4294967295 True r)"

definition read_socket_v4 :: "nat reader" where
  "read_socket_v4 s = Option.bind (read_ipv4 s) (\<lambda>(_, r). read_port r)"

definition read_socket_v6 :: "nat reader" where
  "read_socket_v6 s =
     Option.bind (read_char CHR ''['' s) (\<lambda>(_, s1).
     Option.bind (read_ipv6 s1) (\<lambda>(_, s2).
       let s3 = (case read_scope_id s2 of Some (_, r) \<Rightarrow> r | None \<Rightarrow> s2) in
       Option.bind (read_char CHR '']'' s3) (\<lambda>(_, s4). read_port s4)))"

definition is_socket_addr :: "string \<Rightarrow> bool" where
  "is_socket_addr s =
     (case read_socket_v4 s of
        Some (_, r) \<Rightarrow> r = []
      | None \<Rightarrow> (case read_socket_v6 s of Some (_, r) \<Rightarrow> r = [] | None \<Rightarrow> False))"

definition endpoint_host :: "string \<Rightarrow> string" where
  "endpoint_host ep = rev (dropWhile (\<lambda>c. c = CHR '']'') (rev (dropWhile (\<lambda>c. c = CHR ''['') ep)))"

definition bad_wg_endpoint :: "string \<Rightarrow> bool" where
  "bad_wg_endpoint ep \<longleftrightarrow> \<not> unresolved ep \<and> \<not> is_socket_addr ep \<and> parse_ip (endpoint_host ep) = None"

definition bad_allowed_ip :: "string \<Rightarrow> bool" where
  "bad_allowed_ip a \<longleftrightarrow> \<not> unresolved a \<and> a \<noteq> ''default'' \<and> \<not> is_cidr a \<and> parse_ip a = None"

definition wg_peer_refs :: "topology \<Rightarrow> string \<Rightarrow> wireguard_config \<Rightarrow> issue list" where
  "wg_peer_refs t loc wg =
     concat (map (\<lambda>peer. report
         (case bm_get (topo_nodes t) peer of None \<Rightarrow> True | Some p \<Rightarrow> bm_entries (node_wireguard p) = [])
         (err ''wireguard-peer-exists'' (loc @ ''.peers''))) (wg_peers wg))"

definition wg_settings_issues :: "string \<Rightarrow> wireguard_config \<Rightarrow> issue list" where
  "wg_settings_issues loc wg =
     concat (map (\<lambda>(peer, p).
         let bad = err ''wireguard-peer-settings'' (loc @ ''.peer.'' @ peer) in
         (case wgp_endpoint p of Some ep \<Rightarrow> report (bad_wg_endpoint ep) bad | None \<Rightarrow> []) @
         concat (map (\<lambda>a. report (bad_allowed_ip a) bad) (wgp_allowed_ips p)))
       (bm_entries (wg_peer_settings wg)))"

definition node_all_routes :: "node \<Rightarrow> (string \<times> route_config) list" where
  "node_all_routes n =
     bm_entries (node_routes n) @ concat (map (\<lambda>v. bm_entries (vrf_routes v)) (bm_values (node_vrfs n)))"

definition wg_route_issues :: "string \<Rightarrow> node \<Rightarrow> string \<Rightarrow> wireguard_config \<Rightarrow> issue list" where
  "wg_route_issues name n wg_name wg =
     (if length (wg_peers wg) > 1 \<and> list_all (\<lambda>p. wgp_allowed_ips p = []) (bm_values (wg_peer_settings wg))
      then concat (map (\<lambda>(dst, r).
          report (route_dev r = Some wg_name \<and> route_via r = None)
            (warn ''wireguard-route-peer'' (''nodes.'' @ name @ ''.routes''))) (node_all_routes n))
      else [])"

definition validate_wireguard_peers :: "topology \<Rightarrow> issue list" where
  "validate_wireguard_peers t =
     concat (map (\<lambda>(name, n). concat (map (\<lambda>(wg_name, wg).
         let loc = ''nodes.'' @ name @ ''.wireguard.'' @ wg_name in
         wg_peer_refs t loc wg @ wg_settings_issues loc wg @ wg_route_issues name n wg_name wg)
       (bm_entries (node_wireguard n)))) (bm_entries (topo_nodes t)))"

subsection \<open>What a topology without errors satisfies\<close>

lemma unresolved_neighbors_Nil:
  "unresolved_neighbors t name location cfg = [] \<longleftrightarrow>
     (\<forall>bgp. frr_bgp cfg = Some bgp \<longrightarrow>
        (\<forall>nb \<in> set (bgp_neighbors bgp). \<exists>r. resolve_bgp_neighbor t name nb = Inr r))"
proof -
  have "\<not> isl r \<longleftrightarrow> (\<exists>x. r = Inr x)" for r :: "(neighbor_error, ip_addr \<times> u32) result" by (cases r) auto
  then show ?thesis
    by (cases "frr_bgp cfg") (simp_all add: unresolved_neighbors_def concat_map_Nil)
qed

lemma errors_unresolved_neighbors:
  "errors (unresolved_neighbors t name location cfg) = unresolved_neighbors t name location cfg"
  by (cases "frr_bgp cfg")
    (simp_all add: unresolved_neighbors_def errors_concat errors_report map_map comp_def, simp add: errors_def)

lemma frr_mode_of_effective: "effective_frr t n = Some cfg \<Longrightarrow> lab_routing (topo_lab t) = Routing_Frr"
  by (simp add: effective_frr_def split: if_splits)

lemma frr_neighbors_resolve:
  assumes "errors (validate_frr t) = []" "bm_get (topo_nodes t) name = Some n" "effective_frr t n = Some cfg"
  shows "\<exists>location. unresolved_neighbors t name location cfg = []"
proof -
  note mode = frr_mode_of_effective [OF assms(3)]
  have "(name, n) \<in> set (bm_entries (topo_nodes t))" using assms(2) by (simp add: in_bm_entries)
  then have "errors (frr_effective_issues t name (''nodes.'' @ name @ ''.frr'') n) = []"
    using assms(1) by (auto simp: validate_frr_def Let_def mode rule_simps)
  then show ?thesis
    by (auto simp: frr_effective_issues_def assms(3) errors_append errors_warn errors_unresolved_neighbors)
qed

lemma errors_Nil [simp]: "errors [] = []"
  by (simp add: errors_def)

lemma errors_entries:
  "errors (concat (map (\<lambda>(k, v). f k v) (bm_entries m))) = [] \<longleftrightarrow>
     (\<forall>k v. bm_get m k = Some v \<longrightarrow> errors (f k v) = [])"
  by (simp add: errors_concat) (force simp: in_bm_entries [symmetric])

lemma wg_peer_refs_Nil:
  "errors (wg_peer_refs t loc wg) = [] \<longleftrightarrow>
     (\<forall>peer \<in> set (wg_peers wg). \<exists>p. bm_get (topo_nodes t) peer = Some p \<and> bm_entries (node_wireguard p) \<noteq> [])"
  by (auto simp: wg_peer_refs_def errors_concat errors_report map_map comp_def split: option.splits)

lemma wg_settings_Nil:
  "errors (wg_settings_issues loc wg) = [] \<longleftrightarrow>
     (\<forall>peer p. bm_get (wg_peer_settings wg) peer = Some p \<longrightarrow>
        (\<forall>ep. wgp_endpoint p = Some ep \<longrightarrow> \<not> bad_wg_endpoint ep) \<and>
        (\<forall>a \<in> set (wgp_allowed_ips p). \<not> bad_allowed_ip a))"
proof -
  have "errors (case wgp_endpoint p of Some ep \<Rightarrow> report (bad_wg_endpoint ep) (err r l) | None \<Rightarrow> []) = [] \<longleftrightarrow>
      (\<forall>ep. wgp_endpoint p = Some ep \<longrightarrow> \<not> bad_wg_endpoint ep)" for p r l
    by (cases "wgp_endpoint p") (simp_all add: errors_report)
  note opt = this
  show ?thesis
    unfolding wg_settings_issues_def Let_def errors_entries errors_append append_is_Nil_conv opt
    by (simp add: errors_concat errors_report)
qed

lemma wg_route_issues_warn: "errors (wg_route_issues name n wg_name wg) = []"
  by (simp add: wg_route_issues_def errors_concat errors_warn case_prod_beta')

lemma wireguard_Nil:
  "errors (validate_wireguard_peers t) = [] \<longleftrightarrow>
     (\<forall>name n. bm_get (topo_nodes t) name = Some n \<longrightarrow> (\<forall>w wg. bm_get (node_wireguard n) w = Some wg \<longrightarrow>
        (\<forall>peer \<in> set (wg_peers wg). \<exists>p. bm_get (topo_nodes t) peer = Some p \<and> bm_entries (node_wireguard p) \<noteq> []) \<and>
        (\<forall>peer p. bm_get (wg_peer_settings wg) peer = Some p \<longrightarrow>
          (\<forall>ep. wgp_endpoint p = Some ep \<longrightarrow> \<not> bad_wg_endpoint ep) \<and>
          (\<forall>a \<in> set (wgp_allowed_ips p). \<not> bad_allowed_ip a))))"
  unfolding validate_wireguard_peers_def Let_def errors_entries errors_append append_is_Nil_conv
    wg_peer_refs_Nil wg_settings_Nil wg_route_issues_warn
  by simp

subsection \<open>Properties\<close>

text \<open>C27.
  A topology the validator accepts never fails when its routing daemons are planned: without an
  FRR error, the specification of every node that runs FRR can be built.
\<close>

theorem accepted_frr_builds:
  assumes "errors (validate_frr t) = []" "bm_get (topo_nodes t) name = Some n" "effective_frr t n = Some cfg"
  shows "\<exists>spec. build_spec t name n cfg = Inr spec"
  using frr_neighbors_resolve [OF assms] unfolding build_spec_total unresolved_neighbors_Nil by (rule exE)

lemma accepted_frr_builds_witness:
  "\<exists>spec. build_spec routers_lab ''a'' (router ''1.1.1.1/32'' ''b'' 65001) (router_conf ''b'' 65001) = Inr spec"
proof (rule accepted_frr_builds)
  show "errors (validate_frr routers_lab) = []" by code_simp
  show "bm_get (topo_nodes routers_lab) ''a'' = Some (router ''1.1.1.1/32'' ''b'' 65001)"
    by (simp add: routers_lab_def bm_get_of_list)
  show "effective_frr routers_lab (router ''1.1.1.1/32'' ''b'' 65001) = Some (router_conf ''b'' 65001)"
    by (simp add: effective_frr_def is_container_def router_def routers_lab_def node_default_def)
qed

text \<open>C37.
  WireGuard: the rule reports no error exactly when every peer is a node with a WireGuard
  interface, and every peer block has an endpoint that is an address with an optional port and
  allowed IPs that are prefixes, addresses or \<open>default\<close>; unresolved interpolations pass.
\<close>

theorem wireguard_peers_exact:
  "errors (validate_wireguard_peers t) = [] \<longleftrightarrow>
     (\<forall>name n. bm_get (topo_nodes t) name = Some n \<longrightarrow> (\<forall>w wg. bm_get (node_wireguard n) w = Some wg \<longrightarrow>
        (\<forall>peer \<in> set (wg_peers wg). \<exists>p. bm_get (topo_nodes t) peer = Some p \<and> bm_entries (node_wireguard p) \<noteq> []) \<and>
        (\<forall>peer p. bm_get (wg_peer_settings wg) peer = Some p \<longrightarrow>
          (\<forall>ep. wgp_endpoint p = Some ep \<longrightarrow>
             unresolved ep \<or> is_socket_addr ep \<or> parse_ip (endpoint_host ep) \<noteq> None) \<and>
          (\<forall>a \<in> set (wgp_allowed_ips p).
             unresolved a \<or> a = ''default'' \<or> is_cidr a \<or> parse_ip a \<noteq> None))))"
  unfolding wireguard_Nil bad_wg_endpoint_def bad_allowed_ip_def by simp

definition tunnel_lab :: topology where
  "tunnel_lab =
     (let wg = (\<lambda>peer. \<lparr>wg_private_key = None, wg_listen_port = None, wg_fwmark = None, wg_addresses = [],
             wg_peers = [peer], wg_peer_settings = bm_of_list
               [(peer, \<lparr>wgp_endpoint = Some ''[fd00::1]:51820'', wgp_allowed_ips = [''default'', ''10.0.0.0/8'']\<rparr>)]\<rparr>);
          nd = (\<lambda>peer. node_default\<lparr>node_wireguard := bm_of_list [(''wg0'', wg peer)]\<rparr>) in
      topology_default\<lparr>topo_nodes := bm_of_list [(''a'', nd ''b''), (''b'', nd ''a'')]\<rparr>)"

lemma wireguard_peers_exact_witness:
  "\<exists>wg p. bm_get (node_wireguard (the (bm_get (topo_nodes tunnel_lab) ''a''))) ''wg0'' = Some wg \<and>
     wg_peers wg = [''b''] \<and> bm_get (topo_nodes tunnel_lab) ''b'' = Some p \<and> bm_entries (node_wireguard p) \<noteq> []"
proof -
  have "errors (validate_wireguard_peers tunnel_lab) = []" by code_simp
  note ok = this [unfolded wireguard_peers_exact]
  obtain n wg where n: "bm_get (topo_nodes tunnel_lab) ''a'' = Some n"
    "bm_get (node_wireguard n) ''wg0'' = Some wg" "wg_peers wg = [''b'']"
    by (simp add: tunnel_lab_def bm_get_of_list)
  have "\<forall>peer \<in> set (wg_peers wg). \<exists>p. bm_get (topo_nodes tunnel_lab) peer = Some p \<and> bm_entries (node_wireguard p) \<noteq> []"
    by (rule ok [THEN spec, THEN spec, THEN mp, OF n(1), THEN spec, THEN spec, THEN mp, OF n(2), THEN conjunct1])
  then show ?thesis using n by simp
qed

end
