(* ===== verification/Nll_Arith.thy ===== *)
theory Nll_Arith
  imports Ip_Func Btree_Map "HOL-Library.Signed_Division"
begin

text \<open>
  The arithmetic of NLL expressions, \<open>crates/nlink-lab/src/parser/nll/lower.rs\<close>:
  \<open>tokenize_arith\<close> with \<open>read_operand\<close>, and the recursive-descent evaluator \<open>parse_arith_expr\<close>,
  \<open>parse_arith_term\<close>, \<open>parse_arith_factor\<close> on \<open>i64\<close>. A number is an \<open>int\<close> that every operation
  checks against the range of \<open>i64\<close>; an overflow or a zero divisor makes the expression
  unevaluated. The evaluator's position is the list of tokens left.

  The main result says that an expression printed with its parentheses is evaluated to its
  value, and is unevaluated when that value does not exist.
\<close>

type_synonym vars = "(string, string) btree_map"

subsection \<open>Tokens\<close>

datatype arith_tok =
    T_Num int | T_Plus | T_Minus | T_Mul | T_Div | T_Mod | T_LParen | T_RParen

definition in_i64 :: "int \<Rightarrow> bool" where
  "in_i64 k \<longleftrightarrow> - 9223372036854775808 \<le> k \<and> k \<le> 9223372036854775807"

definition checked :: "int \<Rightarrow> int option" where
  "checked k = (if in_i64 k then Some k else None)"

definition checked_div :: "int \<Rightarrow> int \<Rightarrow> int option" where
  "checked_div a b = (if b = 0 then None else checked (a sdiv b))"

definition checked_rem :: "int \<Rightarrow> int \<Rightarrow> int option" where
  "checked_rem a b = (if b = 0 \<or> \<not> in_i64 (a sdiv b) then None else Some (a smod b))"

definition is_digit :: "char \<Rightarrow> bool" where
  "is_digit c \<longleftrightarrow> CHR ''0'' \<le> c \<and> c \<le> CHR ''9''"

definition is_letter :: "char \<Rightarrow> bool" where
  "is_letter c \<longleftrightarrow> (CHR ''a'' \<le> c \<and> c \<le> CHR ''z'') \<or> (CHR ''A'' \<le> c \<and> c \<le> CHR ''Z'')"

text \<open>
  The code's \<open>char::is_alphanumeric\<close> also takes letters outside ASCII into a name. Names of
  variables are ASCII, so such a name is unknown and the tokenizer gives up, as it does in
  the model at the first byte outside ASCII.
\<close>

definition word_char :: "char \<Rightarrow> bool" where
  "word_char c \<longleftrightarrow> is_digit c \<or> is_letter c \<or> c = CHR ''_'' \<or> c = CHR ''.''"

definition name_part :: "char \<Rightarrow> bool" where
  "name_part c \<longleftrightarrow> word_char c \<or> c = CHR ''-''"

definition lookup_num :: "vars \<Rightarrow> string \<Rightarrow> int option" where
  "lookup_num vars name = Option.bind (bm_get vars name) parse_i64"

definition read_operand :: "vars \<Rightarrow> string \<Rightarrow> (int \<times> string) option" where
  "read_operand vars s0 =
     (let s = dropWhile (\<lambda>c. c = CHR '' '') s0 in
      if s = [] then None
      else if is_digit (hd s) then
        map_option (\<lambda>n. (n, dropWhile is_digit s)) (parse_i64 (takeWhile is_digit s))
      else if is_letter (hd s) \<or> hd s = CHR ''_'' then
        map_option (\<lambda>n. (n, dropWhile word_char s)) (lookup_num vars (takeWhile word_char s))
      else None)"

fun is_operator :: "arith_tok \<Rightarrow> bool" where
  "is_operator (T_Num _) = False"
| "is_operator T_RParen = False"
| "is_operator _ = True"

definition unary_position :: "arith_tok list \<Rightarrow> bool" where
  "unary_position toks \<longleftrightarrow> toks = [] \<or> is_operator (last toks)"

lemma read_operand_shorter: "read_operand vars s = Some (n, r) \<Longrightarrow> length r \<le> length s"
  by (auto simp: read_operand_def Let_def split: if_splits intro: order_trans length_dropWhile_le)

text \<open>The tokens so far and the text left; giving up is the empty list.\<close>

function tokenize :: "vars \<Rightarrow> arith_tok list \<Rightarrow> string \<Rightarrow> arith_tok list" where
  "tokenize vars toks [] = toks"
| "tokenize vars toks (c # s) =
     (if c = CHR '' '' \<or> c = CHR 0x09 then tokenize vars toks s
      else if c = CHR ''+'' then tokenize vars (toks @ [T_Plus]) s
      else if c = CHR ''-'' then
        (if unary_position toks then
           (case read_operand vars s of
              None \<Rightarrow> []
            | Some (n, r) \<Rightarrow> (case checked (- n) of None \<Rightarrow> [] | Some k \<Rightarrow> tokenize vars (toks @ [T_Num k]) r))
         else tokenize vars (toks @ [T_Minus]) s)
      else if c = CHR ''*'' then tokenize vars (toks @ [T_Mul]) s
      else if c = CHR ''/'' then tokenize vars (toks @ [T_Div]) s
      else if c = CHR ''%'' then tokenize vars (toks @ [T_Mod]) s
      else if c = CHR ''('' then tokenize vars (toks @ [T_LParen]) s
      else if c = CHR '')'' then tokenize vars (toks @ [T_RParen]) s
      else if is_digit c then
        (case parse_i64 (takeWhile is_digit (c # s)) of
           None \<Rightarrow> []
         | Some n \<Rightarrow> tokenize vars (toks @ [T_Num n]) (dropWhile is_digit s))
      else if is_letter c \<or> c = CHR ''_'' then
        (case lookup_num vars (takeWhile name_part (c # s)) of
           None \<Rightarrow> []
         | Some n \<Rightarrow> tokenize vars (toks @ [T_Num n]) (dropWhile name_part s))
      else [])"
  by pat_completeness auto
termination
  by (relation "measure (\<lambda>(_, _, s). length s)")
    (auto simp: le_imp_less_Suc length_dropWhile_le dest!: read_operand_shorter)

declare tokenize.simps(2) [simp del]

lemma tokenize_chars [simp]:
  "tokenize vars toks (CHR '' '' # s) = tokenize vars toks s"
  "tokenize vars toks (CHR ''('' # s) = tokenize vars (toks @ [T_LParen]) s"
  "tokenize vars toks (CHR '')'' # s) = tokenize vars (toks @ [T_RParen]) s"
  by (simp_all add: tokenize.simps(2))

definition tokenize_arith :: "string \<Rightarrow> vars \<Rightarrow> arith_tok list" where
  "tokenize_arith e vars = tokenize vars [] e"

subsection \<open>Evaluation\<close>

text \<open>The value read and the tokens left; \<open>None\<close> is the error.\<close>

fun skip_rparen :: "arith_tok list \<Rightarrow> arith_tok list" where
  "skip_rparen (T_RParen # r) = r"
| "skip_rparen r = r"

lemma skip_rparen_length: "length (skip_rparen r) \<le> length r"
  by (induction r rule: skip_rparen.induct) auto

function (sequential) parse_arith_expr :: "arith_tok list \<Rightarrow> (int \<times> arith_tok list) option"
  and arith_expr_loop :: "int \<Rightarrow> arith_tok list \<Rightarrow> (int \<times> arith_tok list) option"
  and parse_arith_term :: "arith_tok list \<Rightarrow> (int \<times> arith_tok list) option"
  and arith_term_loop :: "int \<Rightarrow> arith_tok list \<Rightarrow> (int \<times> arith_tok list) option"
  and parse_arith_factor :: "arith_tok list \<Rightarrow> (int \<times> arith_tok list) option" where
  "parse_arith_expr ts =
     (case parse_arith_term ts of None \<Rightarrow> None | Some (l, r) \<Rightarrow> arith_expr_loop l r)"
| "arith_expr_loop l (T_Plus # ts) =
     (case parse_arith_term ts of
        None \<Rightarrow> None
      | Some (v, r) \<Rightarrow> (case checked (l + v) of None \<Rightarrow> None | Some l' \<Rightarrow> arith_expr_loop l' r))"
| "arith_expr_loop l (T_Minus # ts) =
     (case parse_arith_term ts of
        None \<Rightarrow> None
      | Some (v, r) \<Rightarrow> (case checked (l - v) of None \<Rightarrow> None | Some l' \<Rightarrow> arith_expr_loop l' r))"
| "arith_expr_loop l ts = Some (l, ts)"
| "parse_arith_term ts =
     (case parse_arith_factor ts of None \<Rightarrow> None | Some (l, r) \<Rightarrow> arith_term_loop l r)"
| "arith_term_loop l (T_Mul # ts) =
     (case parse_arith_factor ts of
        None \<Rightarrow> None
      | Some (v, r) \<Rightarrow> (case checked (l * v) of None \<Rightarrow> None | Some l' \<Rightarrow> arith_term_loop l' r))"
| "arith_term_loop l (T_Div # ts) =
     (case parse_arith_factor ts of
        None \<Rightarrow> None
      | Some (v, r) \<Rightarrow> (case checked_div l v of None \<Rightarrow> None | Some l' \<Rightarrow> arith_term_loop l' r))"
| "arith_term_loop l (T_Mod # ts) =
     (case parse_arith_factor ts of
        None \<Rightarrow> None
      | Some (v, r) \<Rightarrow> (case checked_rem l v of None \<Rightarrow> None | Some l' \<Rightarrow> arith_term_loop l' r))"
| "arith_term_loop l ts = Some (l, ts)"
| "parse_arith_factor (T_Num n # ts) = Some (n, ts)"
| "parse_arith_factor (T_LParen # ts) =
     (case parse_arith_expr ts of
        None \<Rightarrow> None
      | Some (v, r) \<Rightarrow> Some (v, skip_rparen r))"
| "parse_arith_factor _ = None"
  by pat_completeness auto

text \<open>What an evaluator leaves is shorter than what it got, so the loops end.\<close>

lemma arith_shorter:
  "parse_arith_expr_arith_expr_loop_parse_arith_term_arith_term_loop_parse_arith_factor_dom (Inl (Inl ts)) \<Longrightarrow> \<forall>v r. parse_arith_expr ts = Some (v, r) \<longrightarrow> length r < length ts"
  "parse_arith_expr_arith_expr_loop_parse_arith_term_arith_term_loop_parse_arith_factor_dom (Inl (Inr (l, ts'))) \<Longrightarrow> \<forall>v r. arith_expr_loop l ts' = Some (v, r) \<longrightarrow> length r \<le> length ts'"
  "parse_arith_expr_arith_expr_loop_parse_arith_term_arith_term_loop_parse_arith_factor_dom (Inr (Inl ts)) \<Longrightarrow> \<forall>v r. parse_arith_term ts = Some (v, r) \<longrightarrow> length r < length ts"
  "parse_arith_expr_arith_expr_loop_parse_arith_term_arith_term_loop_parse_arith_factor_dom (Inr (Inr (Inl (l, ts')))) \<Longrightarrow> \<forall>v r. arith_term_loop l ts' = Some (v, r) \<longrightarrow> length r \<le> length ts'"
  "parse_arith_expr_arith_expr_loop_parse_arith_term_arith_term_loop_parse_arith_factor_dom (Inr (Inr (Inr ts))) \<Longrightarrow> \<forall>v r. parse_arith_factor ts = Some (v, r) \<longrightarrow> length r < length ts"
proof (induction ts and l ts' and ts and l ts' and ts rule: parse_arith_expr_arith_expr_loop_parse_arith_term_arith_term_loop_parse_arith_factor.pinduct)
qed (fastforce simp: parse_arith_expr.psimps arith_expr_loop.psimps parse_arith_term.psimps
    arith_term_loop.psimps parse_arith_factor.psimps less_SucI le_less_trans [OF skip_rparen_length]
    split: option.splits)+

termination parse_arith_expr
proof (relation "measures [\<lambda>x. case x of
      Inl (Inl ts) \<Rightarrow> length ts | Inl (Inr (l, ts)) \<Rightarrow> length ts | Inr (Inl ts) \<Rightarrow> length ts
    | Inr (Inr (Inl (l, ts))) \<Rightarrow> length ts | Inr (Inr (Inr ts)) \<Rightarrow> length ts,
    \<lambda>x. case x of Inl (Inl _) \<Rightarrow> 2 | Inl (Inr _) \<Rightarrow> 0 | Inr (Inl _) \<Rightarrow> 1 | Inr (Inr _) \<Rightarrow> (0 :: nat)]")
qed (auto dest: arith_shorter)

declare parse_arith_expr.simps [simp del] parse_arith_term.simps [simp del]

lemma checked_in_i64: "checked k = Some v \<Longrightarrow> in_i64 v"
  by (auto simp: checked_def split: if_splits)

subsection \<open>Expressions and their value\<close>

text \<open>The abstract syntax the text stands for, with its value on unbounded integers cut to \<open>i64\<close>.\<close>

datatype arith_op = Op_Add | Op_Sub | Op_Mul | Op_Div | Op_Rem

datatype arith_exp = E_Lit nat | E_Var string | E_Bin arith_op arith_exp arith_exp

fun op_value :: "arith_op \<Rightarrow> int \<Rightarrow> int \<Rightarrow> int option" where
  "op_value Op_Add a b = checked (a + b)"
| "op_value Op_Sub a b = checked (a - b)"
| "op_value Op_Mul a b = checked (a * b)"
| "op_value Op_Div a b = (if b = 0 then None else checked (a sdiv b))"
| "op_value Op_Rem a b = (if b = 0 \<or> \<not> in_i64 (a sdiv b) then None else Some (a smod b))"

fun exp_value :: "vars \<Rightarrow> arith_exp \<Rightarrow> int option" where
  "exp_value vars (E_Lit n) = checked (int n)"
| "exp_value vars (E_Var x) = lookup_num vars x"
| "exp_value vars (E_Bin f a b) =
     Option.bind (exp_value vars a) (\<lambda>x. Option.bind (exp_value vars b) (\<lambda>y. op_value f x y))"

fun op_token :: "arith_op \<Rightarrow> arith_tok" where
  "op_token Op_Add = T_Plus" | "op_token Op_Sub = T_Minus" | "op_token Op_Mul = T_Mul"
| "op_token Op_Div = T_Div" | "op_token Op_Rem = T_Mod"

fun op_char :: "arith_op \<Rightarrow> char" where
  "op_char Op_Add = CHR ''+''" | "op_char Op_Sub = CHR ''-''" | "op_char Op_Mul = CHR ''*''"
| "op_char Op_Div = CHR ''/''" | "op_char Op_Rem = CHR ''%''"

fun op_level :: "arith_op \<Rightarrow> nat" where
  "op_level Op_Add = 0" | "op_level Op_Sub = 0" | "op_level Op_Mul = 1" | "op_level Op_Div = 1" | "op_level Op_Rem = 1"

definition paren :: "bool \<Rightarrow> 'a \<Rightarrow> 'a \<Rightarrow> 'a list \<Rightarrow> 'a list" where
  "paren b l r xs = (if b then l # xs @ [r] else xs)"

text \<open>The tokens of an expression, and its text, with parentheses only where the levels need them.\<close>

fun exp_tokens :: "vars \<Rightarrow> nat \<Rightarrow> arith_exp \<Rightarrow> arith_tok list" where
  "exp_tokens vars p (E_Lit n) = [T_Num (int n)]"
| "exp_tokens vars p (E_Var x) = [T_Num (the (lookup_num vars x))]"
| "exp_tokens vars p (E_Bin f a b) =
     paren (op_level f < p) T_LParen T_RParen
       (exp_tokens vars (op_level f) a @ op_token f # exp_tokens vars (Suc (op_level f)) b)"

fun exp_text :: "nat \<Rightarrow> arith_exp \<Rightarrow> string" where
  "exp_text p (E_Lit n) = show_nat n"
| "exp_text p (E_Var x) = x"
| "exp_text p (E_Bin f a b) =
     paren (op_level f < p) CHR ''('' CHR '')''
       (exp_text (op_level f) a @ CHR '' '' # op_char f # CHR '' '' # exp_text (Suc (op_level f)) b)"

definition variable_name :: "string \<Rightarrow> bool" where
  "variable_name x \<longleftrightarrow> x \<noteq> [] \<and> (is_letter (hd x) \<or> hd x = CHR ''_'') \<and> list_all name_part x"

fun well_formed :: "vars \<Rightarrow> arith_exp \<Rightarrow> bool" where
  "well_formed vars (E_Lit n) = in_i64 (int n)"
| "well_formed vars (E_Var x) = (variable_name x \<and> lookup_num vars x \<noteq> None)"
| "well_formed vars (E_Bin f a b) = (well_formed vars a \<and> well_formed vars b)"

subsection \<open>The evaluator computes the value\<close>

definition no_mul :: "arith_tok list \<Rightarrow> bool" where
  "no_mul r \<longleftrightarrow> r = [] \<or> hd r \<notin> {T_Mul, T_Div, T_Mod}"

definition no_add :: "arith_tok list \<Rightarrow> bool" where
  "no_add r \<longleftrightarrow> r = [] \<or> hd r \<notin> {T_Plus, T_Minus}"

lemma term_loop_stop [simp]: "no_mul r \<Longrightarrow> arith_term_loop v r = Some (v, r)"
  by (cases r; cases "hd r") (auto simp: no_mul_def)

lemma expr_loop_stop [simp]: "no_add r \<Longrightarrow> arith_expr_loop v r = Some (v, r)"
  by (cases r; cases "hd r") (auto simp: no_add_def)

lemma no_mul_simps [simp]:
  "no_mul []" "no_mul (T_Plus # r)" "no_mul (T_Minus # r)" "no_mul (T_RParen # r)" "no_mul (T_Num n # r)"
  by (simp_all add: no_mul_def)

lemma no_add_simps [simp]: "no_add []" "no_add (T_RParen # r)"
  by (simp_all add: no_add_def)

lemma eval_levels:
  assumes "well_formed vars e"
  shows "no_mul r \<Longrightarrow> parse_arith_expr (exp_tokens vars 0 e @ r) =
      Option.bind (exp_value vars e) (\<lambda>v. arith_expr_loop v r)"
    and "parse_arith_term (exp_tokens vars (Suc 0) e @ r) =
      Option.bind (exp_value vars e) (\<lambda>v. arith_term_loop v r)"
    and "parse_arith_factor (exp_tokens vars (Suc (Suc 0)) e @ r) = map_option (\<lambda>v. (v, r)) (exp_value vars e)"
  using assms
proof (induction e arbitrary: r)
  case (E_Lit n)
  {
    case 1 then show ?case by (simp add: parse_arith_expr.simps parse_arith_term.simps checked_def)
  next
    case 2 then show ?case by (simp add: parse_arith_term.simps checked_def)
  next
    case 3 then show ?case by (simp add: checked_def)
  }
next
  case (E_Var x)
  {
    case 1 then show ?case by (auto simp: parse_arith_expr.simps parse_arith_term.simps)
  next
    case 2 then show ?case by (auto simp: parse_arith_term.simps)
  next
    case 3 then show ?case by auto
  }
next
  case (E_Bin f a b)
  note A = E_Bin.IH(1-3) and B = E_Bin.IH(4-6)
  let ?op = "exp_tokens vars (op_level f) a @ op_token f # exp_tokens vars (Suc (op_level f)) b"
  define v where "v = exp_value vars (E_Bin f a b)"
  have mul: "parse_arith_term (?op @ r) =
      Option.bind v (\<lambda>v. arith_term_loop v r)"
    if "op_level f = Suc 0" "well_formed vars (E_Bin f a b)" for r
    using that unfolding v_def
    by (cases f; cases "exp_value vars a"; cases "exp_value vars b")
      (auto simp: A(2) B(3) checked_div_def checked_rem_def split: option.splits)
  have add: "parse_arith_expr (?op @ r) =
      Option.bind v (\<lambda>v. arith_expr_loop v r)"
    if "op_level f = 0" "no_mul r" "well_formed vars (E_Bin f a b)" for r
    using that unfolding v_def
    by (cases f; cases "exp_value vars a"; cases "exp_value vars b")
      (auto simp: A(1) B(2) split: option.splits)
  have level: "op_level f = 0 \<or> op_level f = Suc 0" by (cases f) auto
  have all: "parse_arith_expr (?op @ r) = Option.bind v (\<lambda>v. arith_expr_loop v r)"
    if "no_mul r" "well_formed vars (E_Bin f a b)" for r
    using level
  proof
    assume "op_level f = Suc 0"
    from mul [OF this that(2), of r] show ?thesis using that
      by (cases v) (simp_all add: parse_arith_expr.simps)
  qed (use that add in blast)
  have factor: "parse_arith_factor (T_LParen # ?op @ T_RParen # r) =
      map_option (\<lambda>v. (v, r)) v"
    if "well_formed vars (E_Bin f a b)" for r
    using all [of "T_RParen # r"] that
    by (cases v) simp_all
  {
    case 1
    then show ?case using all [of r] by (simp add: paren_def v_def)
  next
    case 2
    show ?case
    proof (cases "op_level f = Suc 0")
      case True
      then show ?thesis using mul [OF True 2] by (simp add: paren_def v_def)
    next
      case False
      then show ?thesis using factor [OF 2, of r] level
        by (cases v) (simp_all add: paren_def parse_arith_term.simps v_def [symmetric] del: exp_value.simps)
    qed
  next
    case 3
    then show ?case using factor [OF 3, of r] level by (elim disjE) (simp_all add: paren_def v_def)
  }
qed

subsection \<open>The tokenizer reads the text back\<close>

lemma is_digit_radix: "is_digit c \<longleftrightarrow> is_radix_digit 10 c"
  by (auto simp: is_digit_def is_radix_digit_def radix_val_def digit_val_def less_eq_char_def Let_def
      split: if_splits)

lemma parse_i64_show_nat: "in_i64 (int n) \<Longrightarrow> parse_i64 (show_nat n) = Some (int n)"
  using parse_int_show_int [of 9223372036854775808 "int n" 9223372036854775807]
  by (simp add: in_i64_def show_int_def)

definition stops :: "string \<Rightarrow> bool" where
  "stops r \<longleftrightarrow> r = [] \<or> hd r = CHR '' '' \<or> hd r = CHR '')''"

lemma stops_simps [simp]: "stops []" "stops (CHR '' '' # r)" "stops (CHR '')'' # r)"
  by (simp_all add: stops_def)

lemma takeWhile_stops:
  assumes "list_all P xs" "stops r" "\<not> P CHR '' ''" "\<not> P CHR '')''"
  shows "takeWhile P (xs @ r) = xs" "dropWhile P (xs @ r) = r"
  using assms by (induction xs; cases r; auto simp: stops_def)+

lemma not_name_part [simp]: "\<not> name_part CHR '' ''" "\<not> name_part CHR '')''" "\<not> is_digit CHR '' ''" "\<not> is_digit CHR '')''"
  by (simp_all add: name_part_def word_char_def is_digit_def is_letter_def less_eq_char_def)

lemma show_nat_digits: "list_all is_digit (show_nat n)"
  using show_radix_is_digit [of 10 _ n] by (auto simp: list_all_iff is_digit_radix)

lemma letter_not_digit: "is_letter c \<or> c = CHR ''_'' \<Longrightarrow> \<not> is_digit c"
  by (auto simp: is_letter_def is_digit_def less_eq_char_def)

lemma tokenize_digits:
  assumes "in_i64 (int n)" "stops r"
  shows "tokenize vars toks (show_nat n @ r) = tokenize vars (toks @ [T_Num (int n)]) r"
proof -
  obtain c cs where s: "show_nat n = c # cs" by (cases "show_nat n") auto
  have d: "is_digit c" "list_all is_digit cs" using show_nat_digits [of n] s by simp_all
  have ops: "c \<notin> {CHR '' '', CHR 0x09, CHR ''+'', CHR ''-'', CHR ''*'', CHR ''/'', CHR ''%'', CHR ''('', CHR '')''}"
    using d(1) by (auto simp: is_digit_def less_eq_char_def)
  have "takeWhile is_digit (c # cs @ r) = show_nat n"
    using takeWhile_stops(1) [OF show_nat_digits [of n] assms(2)] s by simp
  moreover have "dropWhile is_digit (cs @ r) = r" using takeWhile_stops(2) [OF d(2) assms(2)] by simp
  ultimately show ?thesis using ops d(1) parse_i64_show_nat [OF assms(1)] s by (simp add: tokenize.simps(2))
qed

lemma tokenize_name:
  assumes "variable_name x" "lookup_num vars x = Some k" "stops r"
  shows "tokenize vars toks (x @ r) = tokenize vars (toks @ [T_Num k]) r"
proof -
  obtain c cs where s: "x = c # cs" using assms(1) by (cases x) (auto simp: variable_name_def)
  have c: "is_letter c \<or> c = CHR ''_''" "list_all name_part cs" "list_all name_part x"
    using assms(1) by (simp_all add: s variable_name_def)
  have ops: "c \<notin> {CHR '' '', CHR 0x09, CHR ''+'', CHR ''-'', CHR ''*'', CHR ''/'', CHR ''%'', CHR ''('', CHR '')''}"
    using c(1) by (auto simp: is_letter_def less_eq_char_def)
  have "takeWhile name_part (c # cs @ r) = x"
    using takeWhile_stops(1) [OF c(3) assms(3)] s by simp
  moreover have "dropWhile name_part (cs @ r) = r" using takeWhile_stops(2) [OF c(2) assms(3)] by simp
  ultimately show ?thesis using ops c(1) letter_not_digit [OF c(1)] assms(2) s by (simp add: tokenize.simps(2))
qed

lemma last_exp_tokens: "exp_tokens vars p e \<noteq> [] \<and> \<not> is_operator (last (exp_tokens vars p e))"
  by (induction e arbitrary: p) (auto simp: paren_def)

lemma tokenize_operator:
  assumes "toks \<noteq> []" "\<not> is_operator (last toks)"
  shows "tokenize vars toks (op_char f # s) = tokenize vars (toks @ [op_token f]) s"
  using assms by (cases f) (simp_all add: unary_position_def tokenize.simps(2))

lemma tokenize_exp:
  assumes "well_formed vars e" "stops r"
  shows "tokenize vars toks (exp_text p e @ r) = tokenize vars (toks @ exp_tokens vars p e) r"
  using assms
proof (induction e arbitrary: p toks r)
  case (E_Bin f a b)
  have body: "tokenize vars toks (exp_text (op_level f) a @ CHR '' '' # op_char f # CHR '' '' #
        exp_text (Suc (op_level f)) b @ r) =
      tokenize vars (toks @ exp_tokens vars (op_level f) a @ op_token f # exp_tokens vars (Suc (op_level f)) b) r"
    if "stops r" for toks r
    using E_Bin that last_exp_tokens [of vars "op_level f" a] by (simp add: tokenize_operator)
  then show ?case using E_Bin.prems by (simp add: paren_def)
qed (auto simp: tokenize_digits tokenize_name)

lemma arith_text_value:
  assumes "well_formed vars e"
  shows "tokenize_arith (exp_text 0 e) vars \<noteq> []"
    and "parse_arith_expr (tokenize_arith (exp_text 0 e) vars) = map_option (\<lambda>v. (v, [])) (exp_value vars e)"
proof -
  have t: "tokenize_arith (exp_text 0 e) vars = exp_tokens vars 0 e"
    using tokenize_exp [OF assms stops_simps(1), of "[]" 0] by (simp add: tokenize_arith_def)
  show "tokenize_arith (exp_text 0 e) vars \<noteq> []" using t last_exp_tokens [of vars 0 e] by simp
  show "parse_arith_expr (tokenize_arith (exp_text 0 e) vars) = map_option (\<lambda>v. (v, [])) (exp_value vars e)"
    using eval_levels(1) [OF assms no_mul_simps(1)] by (cases "exp_value vars e") (simp_all add: t)
qed

end
