(* ===== verification/Nll_Interp.thy ===== *)
theory Nll_Interp
  imports Nll_Arith Validator_Base
begin

text \<open>
  Interpolation of NLL text, \<open>crates/nlink-lab/src/parser/nll/lower.rs\<close>: \<open>interpolate\<close> with
  \<open>interpolate_once\<close>, the expressions inside \<open>${...}\<close> (\<open>eval_expr\<close>, \<open>eval_ternary\<close>), the function calls
  the parser defers as \<open>@fn:name(...)\<close> (\<open>resolve_functions\<close>), the conditions of \<open>if\<close> (\<open>eval_condition\<close>),
  and the cross-references \<open>${node.iface}\<close> resolved after lowering (\<open>resolve_ref\<close>). Positions in a text
  are modelled by the text before and after them. Warnings on the log are not modelled.
\<close>

subsection \<open>Searching text\<close>

text \<open>\<open>str::split_once\<close> at the first occurrence of a string.\<close>

fun split_once_str :: "string \<Rightarrow> string \<Rightarrow> (string \<times> string) option" where
  "split_once_str p [] = (if p = [] then Some ([], []) else None)"
| "split_once_str p (c # s) =
     (if prefix p (c # s) then Some ([], drop (length p) (c # s))
      else map_option (\<lambda>(a, b). (c # a, b)) (split_once_str p s))"

text \<open>The text around the first \<open>ch\<close> outside double quotes.\<close>

fun split_unquoted :: "char \<Rightarrow> bool \<Rightarrow> string \<Rightarrow> (string \<times> string) option" where
  "split_unquoted ch inside [] = None"
| "split_unquoted ch inside (c # s) =
     (if c = CHR 0x22 then map_option (\<lambda>(a, b). (c # a, b)) (split_unquoted ch (\<not> inside) s)
      else if c = ch \<and> \<not> inside then Some ([], s)
      else map_option (\<lambda>(a, b). (c # a, b)) (split_unquoted ch inside s))"

definition find_unquoted :: "string \<Rightarrow> char \<Rightarrow> (string \<times> string) option" where
  "find_unquoted s ch = split_unquoted ch False s"

text \<open>The text around the first operator outside parentheses.\<close>

fun split_operator :: "string \<Rightarrow> int \<Rightarrow> string \<Rightarrow> (string \<times> string) option" where
  "split_operator op depth [] = None"
| "split_operator op depth (c # s) =
     (if c = CHR ''('' then map_option (\<lambda>(a, b). (c # a, b)) (split_operator op (depth + 1) s)
      else if c = CHR '')'' then map_option (\<lambda>(a, b). (c # a, b)) (split_operator op (depth - 1) s)
      else if depth = 0 \<and> prefix op (c # s) then Some ([], drop (length op) (c # s))
      else map_option (\<lambda>(a, b). (c # a, b)) (split_operator op depth s))"

definition find_operator :: "string \<Rightarrow> string \<Rightarrow> (string \<times> string) option" where
  "find_operator e op = split_operator op 0 e"

lemma split_operator_length:
  "split_operator op depth s = Some (a, b) \<Longrightarrow> op \<noteq> [] \<Longrightarrow> length a < length s \<and> length b < length s"
proof (induction op depth s arbitrary: a b rule: split_operator.induct)
  case (2 op depth c s)
  have "length (drop (length op) (c # s)) < length (c # s)" using 2(5) by (cases op) auto
  with 2 show ?case by (auto split: if_splits simp: less_SucI)
qed simp

subsection \<open>Variables, ternaries and conditions\<close>

definition resolve_var :: "string \<Rightarrow> vars \<Rightarrow> string" where
  "resolve_var s0 vars =
     (let s = trim s0 in
      if prefix [CHR 0x22] s \<and> suffix [CHR 0x22] s \<and> 2 \<le> length s then butlast (tl s)
      else case bm_get vars s of Some v \<Rightarrow> v | None \<Rightarrow> s)"

definition eval_ternary :: "string \<Rightarrow> vars \<Rightarrow> string option" where
  "eval_ternary e vars =
     Option.bind (find_unquoted e CHR ''?'') (\<lambda>(before, after).
       let condition = trim before; rest = trim after in
       Option.bind (find_unquoted rest CHR '':'') (\<lambda>(t, f).
         let true_val = trim t; false_val = trim f;
             pick = (\<lambda>holds. Some (resolve_var (if holds then true_val else false_val) vars)) in
         case split_once_str ''!='' condition of
           Some (l, r) \<Rightarrow> pick (resolve_var (trim l) vars \<noteq> resolve_var (trim r) vars)
         | None \<Rightarrow>
             (case split_once_str ''=='' condition of
                Some (l, r) \<Rightarrow> pick (resolve_var (trim l) vars = resolve_var (trim r) vars)
              | None \<Rightarrow> None)))"

datatype cmp_kind = Cmp_ne | Cmp_eq | Cmp_le | Cmp_ge | Cmp_lt | Cmp_gt

definition comparisons :: "(string \<times> cmp_kind) list" where
  "comparisons = [(''!='', Cmp_ne), (''=='', Cmp_eq), (''<='', Cmp_le), (''>='', Cmp_ge), (''<'', Cmp_lt), (''>'', Cmp_gt)]"

definition num_or_zero :: "string \<Rightarrow> int" where
  "num_or_zero s = (case parse_i64 s of Some k \<Rightarrow> k | None \<Rightarrow> 0)"

fun compare_texts :: "cmp_kind \<Rightarrow> string \<Rightarrow> string \<Rightarrow> bool" where
  "compare_texts Cmp_ne l r = (l \<noteq> r)"
| "compare_texts Cmp_eq l r = (l = r)"
| "compare_texts Cmp_le l r = (num_or_zero l \<le> num_or_zero r)"
| "compare_texts Cmp_ge l r = (num_or_zero l \<ge> num_or_zero r)"
| "compare_texts Cmp_lt l r = (num_or_zero l < num_or_zero r)"
| "compare_texts Cmp_gt l r = (num_or_zero l > num_or_zero r)"

definition try_comparison :: "string \<Rightarrow> vars \<Rightarrow> string \<times> cmp_kind \<Rightarrow> bool option" where
  "try_comparison e vars = (\<lambda>(op, kind).
     case split_once_str op e of
       None \<Rightarrow> None
     | Some (l, r) \<Rightarrow>
         if (op = ''<'' \<or> op = ''>'') \<and> prefix ''='' r then None
         else Some (compare_texts kind (resolve_var (trim l) vars) (resolve_var (trim r) vars)))"

definition truthy :: "string \<Rightarrow> bool" where
  "truthy s \<longleftrightarrow> s \<noteq> [] \<and> s \<noteq> ''0'' \<and> s \<noteq> ''false''"

lemma strip_any_suffix: "suffix (strip_any ps s) s"
proof (induction ps s rule: strip_any.induct)
  case (1 ps s)
  show ?case
  proof (cases "find (\<lambda>p. p \<noteq> [] \<and> prefix p s) ps")
    case None
    then show ?thesis by (simp add: strip_any.simps [of ps s])
  next
    case (Some p)
    then show ?thesis using suffix_order.trans [OF 1 [OF Some] suffix_drop]
      by (simp add: strip_any.simps [of ps s])
  qed
qed

lemma trim_sublist: "sublist (trim s) s"
proof -
  let ?l = "strip_any ws_encodings s"
  have "sublist (trim s) ?l" unfolding trim_def
    using strip_any_suffix [of "map rev ws_encodings" "rev ?l"]
    by (metis rev_rev_ident suffix_imp_sublist sublist_rev)
  moreover have "sublist ?l s" using strip_any_suffix by (rule suffix_imp_sublist)
  ultimately show ?thesis by (rule sublist_order.order.trans)
qed

lemma length_trim: "length (trim s) \<le> length s"
  using trim_sublist by (rule sublist_length_le)

function eval_condition :: "string \<Rightarrow> vars \<Rightarrow> bool" where
  "eval_condition e0 vars =
     (let e = trim e0 in
      case find_operator e ''||'' of
        Some (l, r) \<Rightarrow> eval_condition l vars \<or> eval_condition r vars
      | None \<Rightarrow>
          (case find_operator e ''&&'' of
             Some (l, r) \<Rightarrow> eval_condition l vars \<and> eval_condition r vars
           | None \<Rightarrow>
               (case first_some (try_comparison e vars) comparisons of
                  Some b \<Rightarrow> b
                | None \<Rightarrow> truthy (resolve_var e vars))))"
  by pat_completeness auto
termination
  by (relation "measure (\<lambda>(e, _). length e)")
    (auto simp: find_operator_def dest!: split_operator_length intro: less_le_trans [OF _ length_trim])

declare eval_condition.simps [simp del]

subsection \<open>Expressions\<close>

definition SITE_NODE :: string where "SITE_NODE = ''@site:''"

definition dollar :: "string \<Rightarrow> string" where
  "dollar e = ''${'' @ e @ ''}''"

definition eval_expr :: "string \<Rightarrow> vars \<Rightarrow> string" where
  "eval_expr e0 vars =
     (let e = trim e0; toks = tokenize_arith e vars in
      case eval_ternary e vars of
        Some result \<Rightarrow> result
      | None \<Rightarrow>
          (case (if toks = [] then None else parse_arith_expr toks) of
             Some (v, _) \<Rightarrow> show_int v
           | None \<Rightarrow>
               (case bm_get vars e of
                  Some value \<Rightarrow> value
                | None \<Rightarrow>
                    (case Option.bind (split_once CHR ''.'' e) (\<lambda>(node, rest).
                            map_option (\<lambda>full. dollar (full @ ''.'' @ rest)) (bm_get vars (SITE_NODE @ node))) of
                       Some r \<Rightarrow> r
                     | None \<Rightarrow> dollar e))))"

text \<open>The text up to the brace that closes the interpolation, and the text after it.\<close>

fun scan_braces :: "nat \<Rightarrow> string \<Rightarrow> (string \<times> string) option" where
  "scan_braces depth [] = None"
| "scan_braces depth (c # s) =
     (if c = CHR ''}'' \<and> depth = 1 then Some ([], s)
      else map_option (\<lambda>(e, r). (c # e, r))
        (scan_braces (if c = CHR ''{'' then depth + 1 else if c = CHR ''}'' then depth - 1 else depth) s))"

lemma scan_braces_length: "scan_braces d s = Some (e, r) \<Longrightarrow> length e + length r < length s"
  by (induction d s arbitrary: e rule: scan_braces.induct) (auto split: if_splits)

function interpolate_once :: "string \<Rightarrow> vars \<Rightarrow> string" where
  "interpolate_once [] vars = []"
| "interpolate_once (c # s) vars =
     (if c = CHR ''$'' \<and> prefix ''{'' s then
        (case scan_braces 1 (tl s) of
           None \<Rightarrow> ''${'' @ tl s
         | Some (e, r) \<Rightarrow>
             let resolved = (if contains_str ''${'' e then interpolate_once e vars else e);
                 value = eval_expr resolved vars in
             (if value = dollar (trim resolved) then dollar resolved else value) @ interpolate_once r vars)
      else c # interpolate_once s vars)"
  by pat_completeness auto
termination
proof (relation "measure (\<lambda>(s, _). length s)")
  show "((e, vars), c # s, vars) \<in> measure (\<lambda>(s, _). length s)"
    if "scan_braces 1 (tl s) = Some x2" "(e, r) = x2" for e r c s x2 and vars :: vars
    using scan_braces_length [of 1 "tl s" e r] that by simp
  show "((r, vars), c # s, vars) \<in> measure (\<lambda>(s, _). length s)"
    if "scan_braces 1 (tl s) = Some x2" "(e, r) = x2" for e r c s x2 and vars :: vars
    using scan_braces_length [of 1 "tl s" e r] that by simp
qed auto

declare interpolate_once.simps(2) [simp del]

fun interpolate_rounds :: "nat \<Rightarrow> string \<Rightarrow> vars \<Rightarrow> string" where
  "interpolate_rounds 0 current vars = current"
| "interpolate_rounds (Suc n) current vars =
     (let next' = interpolate_once current vars in
      if next' = current then current else interpolate_rounds n next' vars)"

subsection \<open>Function calls\<close>

text \<open>
  The arguments of a call, split at the commas outside parentheses. \<open>current\<close> is the argument
  read so far; the depth can become negative.
\<close>

fun split_args :: "int \<Rightarrow> string \<Rightarrow> string \<Rightarrow> string list" where
  "split_args depth current [] = (if trim current = [] then [] else [trim current])"
| "split_args depth current (c # s) =
     (if c = CHR ''('' then split_args (depth + 1) (current @ [c]) s
      else if c = CHR '')'' then split_args (depth - 1) (current @ [c]) s
      else if c = CHR '','' \<and> depth = 0 then trim current # split_args depth [] s
      else split_args depth (current @ [c]) s)"

definition split_function_args :: "string \<Rightarrow> string list" where
  "split_function_args s = split_args 0 [] s"

text \<open>The text up to the parenthesis that closes the call, and the text after it.\<close>

fun scan_parens :: "nat \<Rightarrow> string \<Rightarrow> (string \<times> string) option" where
  "scan_parens depth [] = None"
| "scan_parens depth (c # s) =
     (if c = CHR '')'' \<and> depth = 1 then Some ([], s)
      else map_option (\<lambda>(a, r). (c # a, r))
        (scan_parens (if c = CHR ''('' then depth + 1 else if c = CHR '')'' then depth - 1 else depth) s))"

lemma scan_parens_sub: "scan_parens d s = Some (a, r) \<Longrightarrow> \<exists>c. s = a @ c # r"
  by (induction d s arbitrary: a rule: scan_parens.induct) (auto split: if_splits)

lemma at_not_digit [simp]: "CHR ''@'' \<notin> set (show_nat n)" "CHR ''@'' \<notin> set (show_radix 16 n)"
  using show_radix_is_digit [of 10 "CHR ''@''" n] show_radix_is_digit [of 16 "CHR ''@''" n]
  by (auto simp: is_radix_digit_def radix_val_def digit_val_def)

lemma at_not_in_groups: "CHR ''@'' \<notin> set (show_groups gs)"
  by (induction gs rule: show_groups.induct) auto

lemma at_not_in_show_ip [simp]: "CHR ''@'' \<notin> set (show_ip ip)"
  by (cases ip) (simp_all add: show_quad_def show_ipv6_def Let_def at_not_in_groups split: prod.splits)

lemma eval_function_no_at: "eval_function name args = Inr v \<Longrightarrow> CHR ''@'' \<notin> set v"
  by (auto simp: eval_function_def eval_subnet_def eval_host_def Let_def split: if_splits list.splits prod.splits)

definition ats :: "string \<Rightarrow> nat" where
  "ats s = length (filter (\<lambda>c. c = CHR ''@'') s)"

lemma ats_append [simp]: "ats (a @ b) = ats a + ats b" "ats (c # s) = (if c = CHR ''@'' then Suc (ats s) else ats s)" "ats [] = 0"
  by (simp_all add: ats_def)

lemma ats_sublist: "sublist a s \<Longrightarrow> ats a \<le> ats s"
  unfolding sublist_def by auto

lemma ats_trim: "ats (trim s) \<le> ats s"
  using trim_sublist by (rule ats_sublist)

lemma ats_split_args: "a \<in> set (split_args depth current s) \<Longrightarrow> ats a \<le> ats current + ats s"
proof (induction depth current s rule: split_args.induct)
  case (1 depth current)
  then show ?case using ats_trim [of current] by (auto split: if_splits)
next
  case (2 depth current c s)
  then show ?case using ats_trim [of current] by (force split: if_splits)
qed

lemma split_once_str_Some: "split_once_str p s = Some (a, b) \<Longrightarrow> s = a @ p @ b"
  by (induction p s arbitrary: a rule: split_once_str.induct)
    (auto split: if_splits simp: prefix_def)

text \<open>
  At most \<open>n\<close> calls are replaced, the first one in each round; the arguments are resolved first.
  A call whose parenthesis is not closed has no arguments, which is an error of every function.
\<close>

function resolve_calls :: "nat \<Rightarrow> string \<Rightarrow> string" where
  "resolve_calls 0 s = s"
| "resolve_calls (Suc n) s =
     (case split_once_str ''@fn:'' s of
        None \<Rightarrow> s
      | Some (before, after_fn) \<Rightarrow>
          (case split_once CHR ''('' after_fn of
             None \<Rightarrow> s
           | Some (name, rest) \<Rightarrow>
               (case (case scan_parens 1 rest of Some ar \<Rightarrow> ar | None \<Rightarrow> ([], drop 1 rest)) of
                  (args_str, tail) \<Rightarrow>
                    let args = map (\<lambda>a. resolve_calls 10 (trim a)) (split_function_args args_str) in
                    case eval_function name args of
                      Inr value \<Rightarrow> resolve_calls n (before @ value @ tail)
                    | Inl _ \<Rightarrow> s)))"
  by pat_completeness auto
termination
proof (relation "measures [\<lambda>(_, s). ats s, fst]", goal_cases)
  case 1
  show ?case by simp
next
  case (2 n s x2 before after_fn x2a name rest args_str tail a)
  have s: "s = before @ ''@fn:'' @ name @ CHR ''('' # rest"
    using 2(1-4) split_once_str_Some [of "''@fn:''" s before after_fn] split_once_Some [of "CHR ''(''" after_fn name rest]
    by simp
  have "ats args_str \<le> ats rest"
    using 2(5) scan_parens_sub [of 1 rest] by (fastforce split: option.splits)
  moreover have "ats (trim a) \<le> ats args_str"
    using 2(6) ats_split_args [of a 0 "[]" args_str] ats_trim [of a] by (simp add: split_function_args_def)
  ultimately show ?case using s by simp
next
  case (3 n s x2 before after_fn x2a name rest args_str tail args v)
  have s: "s = before @ ''@fn:'' @ name @ CHR ''('' # rest"
    using 3(1-4) split_once_str_Some [of "''@fn:''" s before after_fn] split_once_Some [of "CHR ''(''" after_fn name rest]
    by simp
  have "ats tail \<le> ats rest"
    using 3(5) scan_parens_sub [of 1 rest] ats_sublist [of "drop 1 rest" rest]
    by (fastforce split: option.splits simp: sublist_drop)
  moreover have "ats v = 0" using eval_function_no_at [OF 3(7)] by (auto simp: ats_def filter_empty_conv)
  ultimately show ?case using s by simp
qed

declare resolve_calls.simps [simp del]

definition resolve_functions :: "string \<Rightarrow> string" where
  "resolve_functions s = resolve_calls 10 s"

definition interpolate :: "string \<Rightarrow> vars \<Rightarrow> string" where
  "interpolate template vars = resolve_functions (interpolate_rounds 10 template vars)"

subsection \<open>Text without interpolations\<close>

lemma interpolate_once_plain: "CHR ''$'' \<notin> set s \<Longrightarrow> interpolate_once (s @ r) vars = s @ interpolate_once r vars"
  by (induction s) (auto simp: interpolate_once.simps(2))

lemma interpolate_once_no_dollar: "CHR ''$'' \<notin> set s \<Longrightarrow> interpolate_once s vars = s"
  using interpolate_once_plain [of s "[]"] by simp

lemma resolve_no_at: "CHR ''@'' \<notin> set s \<Longrightarrow> resolve_functions s = s"
proof -
  assume "CHR ''@'' \<notin> set s"
  then have "split_once_str ''@fn:'' s = None"
    using split_once_str_Some [of "''@fn:''" s] by (cases "split_once_str ''@fn:'' s") fastforce+
  then show ?thesis
    by (simp add: resolve_functions_def eval_nat_numeral resolve_calls.simps)
qed

lemma rounds_stable: "interpolate_once s vars = s \<Longrightarrow> interpolate_rounds n s vars = s"
  by (cases n) simp_all

lemma interpolate_plain: "CHR ''$'' \<notin> set s \<Longrightarrow> CHR ''@'' \<notin> set s \<Longrightarrow> interpolate s vars = s"
  by (simp add: interpolate_def rounds_stable interpolate_once_no_dollar resolve_no_at)

text \<open>One round suffices when its result has no interpolations left.\<close>

lemma interpolate_one_round:
  assumes "interpolate_once s vars = r" "CHR ''$'' \<notin> set r" "CHR ''@'' \<notin> set r"
  shows "interpolate s vars = r"
proof -
  have "interpolate_rounds (Suc 9) s vars = r"
    unfolding interpolate_rounds.simps Let_def assms(1)
    by (simp add: rounds_stable interpolate_once_no_dollar assms(2))
  moreover have "(10 :: nat) = Suc 9" by simp
  ultimately show ?thesis by (simp only: interpolate_def resolve_no_at assms(3) not_False_eq_True)
qed

subsection \<open>The text of an expression\<close>

definition exp_char :: "char \<Rightarrow> bool" where
  "exp_char c \<longleftrightarrow> name_part c \<or> c \<in> set '' +*/%()''"

lemma exp_char_not [simp]:
  "\<not> exp_char CHR ''?''" "\<not> exp_char CHR ''{''" "\<not> exp_char CHR ''}''" "\<not> exp_char CHR ''$''"
  "\<not> exp_char CHR ''@''" "\<not> exp_char CHR 0x22"
  by (simp_all add: exp_char_def name_part_def word_char_def is_digit_def is_letter_def less_eq_char_def)

lemma name_part_plain: "name_part c \<Longrightarrow> plain_char c"
  by (auto simp: name_part_def word_char_def is_digit_def is_letter_def less_eq_char_def plain_char_def less_char_def)

lemma show_nat_name: "list_all name_part (show_nat n)"
  using show_nat_digits [of n] by (auto simp: list_all_iff name_part_def word_char_def)

lemma op_char_exp [simp]: "exp_char (op_char f)"
  by (cases f) (simp_all add: exp_char_def name_part_def)

lemma exp_text_chars: "well_formed vars e \<Longrightarrow> list_all exp_char (exp_text p e)"
proof (induction e arbitrary: p)
  case (E_Lit n)
  then show ?case using show_nat_name [of n] by (auto simp: list_all_iff exp_char_def)
next
  case (E_Var x)
  then show ?case by (auto simp: list_all_iff exp_char_def variable_name_def)
next
  case (E_Bin f a b)
  then show ?case by (simp add: paren_def) (simp add: exp_char_def)
qed

lemma exp_text_ends: "well_formed vars e \<Longrightarrow>
   exp_text p e \<noteq> [] \<and> plain_char (hd (exp_text p e)) \<and> plain_char (last (exp_text p e))"
proof (induction e arbitrary: p)
  case (E_Lit n)
  then show ?case using show_nat_name [of n] name_part_plain
    by (auto simp: list_all_iff dest: hd_in_set [of "show_nat n"] last_in_set [of "show_nat n"])
next
  case (E_Var x)
  then show ?case using name_part_plain
    by (auto simp: list_all_iff variable_name_def dest: hd_in_set [of x] last_in_set [of x])
next
  case (E_Bin f a b)
  have "plain_char CHR ''(''" "plain_char CHR '')''" by (simp_all add: plain_char_def less_char_def)
  with E_Bin show ?case by (auto simp: paren_def)
qed

lemma trim_exp_text: "well_formed vars e \<Longrightarrow> trim (exp_text p e) = exp_text p e"
  using exp_text_ends [of vars e p] by (simp add: trim_plain)

lemma not_in_exp_text: "well_formed vars e \<Longrightarrow> \<not> exp_char c \<Longrightarrow> c \<notin> set (exp_text p e)"
  using exp_text_chars [of vars e p] by (auto simp: list_all_iff)

lemma split_unquoted_None: "ch \<notin> set s \<Longrightarrow> split_unquoted ch q s = None"
  by (induction s arbitrary: q) auto

lemma scan_braces_plain: "CHR ''{'' \<notin> set e \<Longrightarrow> CHR ''}'' \<notin> set e \<Longrightarrow> scan_braces 1 (e @ CHR ''}'' # r) = Some (e, r)"
  by (induction e) auto

lemma contains_str_hd: "c \<notin> set s \<Longrightarrow> \<not> contains_str (c # p) s"
  by (induction s) auto

lemma show_int_chars: "c \<in> set (show_int k) \<Longrightarrow> name_part c"
  using show_nat_name by (auto simp: show_int_def list_all_iff name_part_def split: if_splits)

lemma not_in_show_int: "\<not> name_part c \<Longrightarrow> c \<notin> set (show_int k)"
  using show_int_chars by blast

text \<open>Interpolating one simple \<open>${e}\<close> between plain texts.\<close>

lemma interpolate_once_simple:
  assumes "CHR ''$'' \<notin> set pre" "CHR ''$'' \<notin> set post" "CHR ''$'' \<notin> set e"
    and "CHR ''{'' \<notin> set e" "CHR ''}'' \<notin> set e" "trim e = e"
  shows "interpolate_once (pre @ dollar e @ post) vars = pre @ eval_expr e vars @ post"
proof -
  have "interpolate_once (dollar e @ post) vars = eval_expr e vars @ interpolate_once post vars"
    using scan_braces_plain [OF assms(4,5), of post] contains_str_hd [OF assms(3)] assms(6)
    by (simp add: dollar_def interpolate_once.simps(2) Let_def)
  then show ?thesis
    by (simp only: interpolate_once_plain [OF assms(1)] interpolate_once_no_dollar [OF assms(2)])
qed

lemma eval_expr_arith:
  assumes "well_formed vars e"
  shows "eval_expr (exp_text 0 e) vars =
    (case exp_value vars e of
       Some v \<Rightarrow> show_int v
     | None \<Rightarrow> (case bm_get vars (exp_text 0 e) of
                Some s \<Rightarrow> s
              | None \<Rightarrow>
                  (case Option.bind (split_once CHR ''.'' (exp_text 0 e)) (\<lambda>(node, rest).
                          map_option (\<lambda>full. dollar (full @ ''.'' @ rest)) (bm_get vars (SITE_NODE @ node))) of
                     Some r \<Rightarrow> r
                   | None \<Rightarrow> dollar (exp_text 0 e))))"
proof -
  have "eval_ternary (exp_text 0 e) vars = None"
    using not_in_exp_text [OF assms, of "CHR ''?''" 0]
    by (simp add: eval_ternary_def find_unquoted_def split_unquoted_None)
  then show ?thesis
    using arith_text_value [OF assms]
    by (cases "exp_value vars e") (simp_all add: eval_expr_def Let_def trim_exp_text [OF assms])
qed

lemma variable_chars: "variable_name x \<Longrightarrow> \<not> name_part c \<Longrightarrow> c \<notin> set x"
  by (auto simp: variable_name_def list_all_iff)

subsection \<open>Properties\<close>

text \<open>C25.
  Interpolating an arithmetic expression, printed with the parentheses its operators need, between
  plain texts gives its value on 64-bit integers: products before sums, operators of one level from
  the left, division towards zero. An expression with an overflow or a zero divisor stays
  as it is written.
\<close>

theorem arithmetic_interpolates:
  assumes "well_formed vars e" "CHR ''$'' \<notin> set (pre @ post)" "CHR ''@'' \<notin> set (pre @ post)"
    and "\<forall>k \<in> dom (bm_get vars). variable_name k"
  shows "interpolate (pre @ dollar (exp_text 0 e) @ post) vars =
    pre @ (case exp_value vars e of Some v \<Rightarrow> show_int v | None \<Rightarrow> dollar (exp_text 0 e)) @ post"
proof -
  let ?t = "exp_text 0 e"
  note out = not_in_exp_text [OF assms(1), of _ 0]
  have once: "interpolate_once (pre @ dollar ?t @ post) vars = pre @ eval_expr ?t vars @ post"
    using assms(2) out by (intro interpolate_once_simple) (simp_all add: trim_exp_text [OF assms(1)])
  show ?thesis
  proof (cases "exp_value vars e")
    case (Some v)
    then have "eval_expr ?t vars = show_int v" by (simp add: eval_expr_arith [OF assms(1)])
    moreover have "CHR ''$'' \<notin> set (show_int v)" "CHR ''@'' \<notin> set (show_int v)"
      by (rule not_in_show_int, simp add: name_part_def word_char_def is_digit_def is_letter_def less_eq_char_def)+
    ultimately show ?thesis using once assms(2,3) Some by (intro interpolate_one_round) simp_all
  next
    case None
    then obtain f a b where e: "e = E_Bin f a b" using assms(1) by (cases e) (auto simp: checked_def)
    have "CHR '' '' \<in> set ?t" by (simp add: e paren_def)
    then have "\<not> variable_name ?t"
      using variable_chars [of ?t "CHR '' ''"] by auto
    then have v: "bm_get vars ?t = None" using assms(4) by blast
    have "\<not> variable_name (SITE_NODE @ n)" for n
      by (simp add: SITE_NODE_def variable_name_def is_letter_def less_eq_char_def)
    then have "bm_get vars (SITE_NODE @ n) = None" for n using assms(4) by blast
    moreover have "Option.bind m (\<lambda>(a, b). None) = (None :: string option)" for m :: "(string \<times> string) option" by (cases m) auto
    ultimately have "eval_expr ?t vars = dollar ?t"
      using v None by (simp add: eval_expr_arith [OF assms(1)])
    then have "interpolate_once (pre @ dollar ?t @ post) vars = pre @ dollar ?t @ post" using once by simp
    moreover have "CHR ''@'' \<notin> set (pre @ dollar ?t @ post)" using assms(3) out by (simp add: dollar_def)
    ultimately show ?thesis using None
      by (simp only: interpolate_def rounds_stable resolve_no_at option.case not_False_eq_True)
  qed
qed

lemma arithmetic_interpolates_witness:
  "interpolate ''leaf${(i + 7) % 4}-x'' (bm_of_list [(''i'', ''3'')]) = ''leaf2-x''"
proof -
  let ?e = "E_Bin Op_Rem (E_Bin Op_Add (E_Var ''i'') (E_Lit 7)) (E_Lit 4)"
  let ?vars = "bm_of_list [(''i'', ''3'')]"
  have "interpolate (''leaf'' @ dollar (exp_text 0 ?e) @ ''-x'') ?vars =
      ''leaf'' @ (case exp_value ?vars ?e of Some v \<Rightarrow> show_int v | None \<Rightarrow> dollar (exp_text 0 ?e)) @ ''-x''"
  proof (rule arithmetic_interpolates)
    show "well_formed ?vars ?e" by code_simp
    show "\<forall>k \<in> dom (bm_get ?vars). variable_name k"
      by (auto simp: bm_get_of_list variable_name_def is_letter_def name_part_def word_char_def less_eq_char_def
          split: if_splits)
  qed simp_all
  moreover have "''leaf'' @ dollar (exp_text 0 ?e) @ ''-x'' = ''leaf${(i + 7) % 4}-x''" by code_simp
  moreover have "exp_value ?vars ?e = Some 2" "show_int 2 = ''2''" by code_simp+
  ultimately show ?thesis by simp
qed

text \<open>The numbers \<open>i64\<close> can hold are written in their shortest form, whatever the text of the variable.\<close>

lemma lookup_num_Some: "bm_get vars x = Some v \<Longrightarrow> lookup_num vars x = parse_i64 v"
  by (simp add: lookup_num_def)

lemma tokenize_unknown:
  assumes "variable_name x" "lookup_num vars x = None"
  shows "tokenize_arith x vars = []"
proof -
  obtain c cs where s: "x = c # cs" using assms(1) by (cases x) (auto simp: variable_name_def)
  have c: "is_letter c \<or> c = CHR ''_''" "list_all name_part x"
    using assms(1) by (simp_all add: s variable_name_def)
  have ops: "c \<notin> {CHR '' '', CHR 0x09, CHR ''+'', CHR ''-'', CHR ''*'', CHR ''/'', CHR ''%'', CHR ''('', CHR '')''}"
    using c(1) by (auto simp: is_letter_def less_eq_char_def)
  have "takeWhile name_part (c # cs) = x"
    using takeWhile_stops(1) [OF c(2) stops_simps(1)] s by simp
  then show ?thesis using ops c(1) letter_not_digit [OF c(1)] assms(2) s
    by (simp add: tokenize_arith_def tokenize.simps(2))
qed

lemma not_name_chars [simp]:
  "\<not> name_part CHR ''?''" "\<not> name_part CHR ''{''" "\<not> name_part CHR ''}''" "\<not> name_part CHR ''$''" "\<not> name_part CHR ''@''"
  by (simp_all add: name_part_def word_char_def is_digit_def is_letter_def less_eq_char_def)

lemma trim_variable: "variable_name x \<Longrightarrow> trim x = x"
  using name_part_plain
  by (intro trim_plain) (auto simp: variable_name_def list_all_iff)

lemma eval_expr_variable:
  assumes "variable_name x" "bm_get vars x = Some v"
  shows "eval_expr x vars = (case parse_i64 v of Some k \<Rightarrow> show_int k | None \<Rightarrow> v)"
proof (cases "parse_i64 v")
  case None
  then have "tokenize_arith x vars = []"
    using tokenize_unknown [OF assms(1)] lookup_num_Some [OF assms(2)] by simp
  moreover have "eval_ternary x vars = None"
    using variable_chars [OF assms(1)] by (simp add: eval_ternary_def find_unquoted_def split_unquoted_None)
  ultimately show ?thesis using None assms
    by (simp add: eval_expr_def trim_variable Let_def)
next
  case (Some k)
  then have "well_formed vars (E_Var x)" "exp_value vars (E_Var x) = Some k"
    using assms lookup_num_Some [OF assms(2)] by simp_all
  from eval_expr_arith [OF this(1)] this(2) show ?thesis using Some by simp
qed

text \<open>
  A variable is replaced by its text, unless the text reads as a 64-bit integer: then by that
  integer in decimal, so a leading zero or plus sign of the value is lost.
\<close>

theorem variable_interpolates:
  assumes "variable_name x" "bm_get vars x = Some v"
    and "CHR ''$'' \<notin> set (pre @ v @ post)" "CHR ''@'' \<notin> set (pre @ v @ post)"
  shows "interpolate (pre @ dollar x @ post) vars =
    pre @ (case parse_i64 v of Some k \<Rightarrow> show_int k | None \<Rightarrow> v) @ post"
proof -
  note out = variable_chars [OF assms(1)]
  have once: "interpolate_once (pre @ dollar x @ post) vars = pre @ eval_expr x vars @ post"
    using assms(3) out by (intro interpolate_once_simple) (simp_all add: trim_variable [OF assms(1)])
  have "CHR ''$'' \<notin> set (show_int k)" "CHR ''@'' \<notin> set (show_int k)" for k
    by (simp_all add: not_in_show_int)
  then show ?thesis using once assms(3,4)
    by (intro interpolate_one_round) (simp_all add: eval_expr_variable [OF assms(1,2)] split: option.splits)
qed

lemma variable_interpolates_witness:
  "interpolate ''node${id}'' (bm_of_list [(''id'', ''007'')]) = ''node7''"
proof -
  let ?vars = "bm_of_list [(''id'', ''007'')]"
  have "interpolate (''node'' @ dollar ''id'' @ []) ?vars =
      ''node'' @ (case parse_i64 ''007'' of Some k \<Rightarrow> show_int k | None \<Rightarrow> ''007'') @ []"
  proof (rule variable_interpolates)
    show "variable_name ''id''" by code_simp
    show "bm_get ?vars ''id'' = Some ''007''" by (simp add: bm_get_of_list)
  qed simp_all
  moreover have "parse_i64 ''007'' = Some 7" "show_int 7 = ''7''" by code_simp+
  ultimately show ?thesis by (simp add: dollar_def)
qed

end
