(* ===== verification/Nll_Cond.thy ===== *)
theory Nll_Cond
  imports Nll_Interp
begin

text \<open>
  What \<open>eval_condition\<close> of \<open>Nll_Interp\<close> computes on the conditions of the language's grammar, as a
  disjunction of conjunctions of comparisons.
\<close>

subsection \<open>Conditions\<close>

text \<open>
  The conditions of the grammar: comparisons of names and numbers, joined by \<open>&&\<close> and then by
  \<open>||\<close>, with their text and their value.
\<close>

type_synonym comparison = "string \<times> cmp_kind \<times> string"

fun cmp_text :: "cmp_kind \<Rightarrow> string" where
  "cmp_text Cmp_ne = ''!=''" | "cmp_text Cmp_eq = ''==''" | "cmp_text Cmp_le = ''<=''"
| "cmp_text Cmp_ge = ''>=''" | "cmp_text Cmp_lt = ''<''" | "cmp_text Cmp_gt = ''>''"

definition operand :: "string \<Rightarrow> bool" where
  "operand s \<longleftrightarrow> s \<noteq> [] \<and> list_all name_part s"

definition operand_value :: "vars \<Rightarrow> string \<Rightarrow> string" where
  "operand_value vars s = (case bm_get vars s of Some v \<Rightarrow> v | None \<Rightarrow> s)"

fun comparison_text :: "comparison \<Rightarrow> string" where
  "comparison_text (l, k, r) = l @ '' '' @ cmp_text k @ '' '' @ r"

fun comparison_ok :: "comparison \<Rightarrow> bool" where
  "comparison_ok (l, k, r) = (operand l \<and> operand r)"

fun comparison_value :: "vars \<Rightarrow> comparison \<Rightarrow> bool" where
  "comparison_value vars (l, k, r) = compare_texts k (operand_value vars l) (operand_value vars r)"

fun joined :: "string \<Rightarrow> string list \<Rightarrow> string" where
  "joined op [] = []"
| "joined op [s] = s"
| "joined op (s # ss) = s @ '' '' @ op @ '' '' @ joined op ss"

definition condition_text :: "comparison list list \<Rightarrow> string" where
  "condition_text d = joined ''||'' (map (\<lambda>c. joined ''&&'' (map comparison_text c)) d)"

definition condition_ok :: "comparison list list \<Rightarrow> bool" where
  "condition_ok d \<longleftrightarrow> d \<noteq> [] \<and> list_all (\<lambda>c. c \<noteq> [] \<and> list_all comparison_ok c) d"

definition condition_value :: "vars \<Rightarrow> comparison list list \<Rightarrow> bool" where
  "condition_value vars d \<longleftrightarrow> list_ex (list_all (comparison_value vars)) d"

subsubsection \<open>Trimming and splitting\<close>

lemma strip_space: "strip_any ws_encodings (CHR '' '' # s) = strip_any ws_encodings s"
  by (subst strip_any.simps) (simp add: ws_encodings_def)

lemma strip_space_rev: "strip_any (map rev ws_encodings) (CHR '' '' # s) = strip_any (map rev ws_encodings) s"
  by (subst strip_any.simps) (simp add: ws_encodings_def)

definition plain_ends :: "string \<Rightarrow> bool" where
  "plain_ends s \<longleftrightarrow> s \<noteq> [] \<and> plain_char (hd s) \<and> plain_char (last s)"

lemma trim_left [simp]: "trim (CHR '' '' # s) = trim s"
  by (simp add: trim_def strip_space)

lemma plain_not_ws:
  assumes "p \<in> set ws_encodings"
  shows "p \<noteq> []" "\<not> plain_char (hd p)" "\<not> plain_char (last p)"
  using assms by (auto simp: ws_encodings_def plain_char_def less_char_def less_eq_char_def)

lemma trim_right: "plain_ends s \<Longrightarrow> trim (s @ '' '') = s"
proof -
  assume s: "plain_ends s"
  have "strip_any ws_encodings (s @ '' '') = s @ '' ''"
  proof (rule strip_any_id)
    fix p assume "p \<in> set ws_encodings" "p \<noteq> []"
    with s show "\<not> prefix p (s @ '' '')" using plain_not_ws(2) [of p]
      by (auto simp: prefix_def plain_ends_def) (metis hd_append2)
  qed
  then have "trim (s @ '' '') = rev (strip_any (map rev ws_encodings) (rev s))"
    by (simp add: trim_def strip_space_rev)
  moreover have "strip_any ws_encodings s = s"
  proof (rule strip_any_id)
    fix p assume "p \<in> set ws_encodings" "p \<noteq> []"
    with s show "\<not> prefix p s" using plain_not_ws(2) [of p] by (auto simp: prefix_def plain_ends_def)
  qed
  moreover have "trim s = s" using s by (simp add: trim_plain plain_ends_def)
  ultimately show ?thesis by (simp add: trim_def)
qed

lemma trim_ends: "plain_ends s \<Longrightarrow> trim s = s"
  by (simp add: trim_plain plain_ends_def)

lemma eval_condition_pad:
  "eval_condition (CHR '' '' # s) vars = eval_condition s vars"
  "plain_ends s \<Longrightarrow> eval_condition (s @ '' '') vars = eval_condition s vars"
  by (simp_all add: eval_condition.simps [of "CHR '' '' # s"] eval_condition.simps [of "s @ '' ''"]
      eval_condition.simps [of s] trim_right trim_ends)

lemma split_operator_found:
  assumes "op \<noteq> []" "CHR ''('' \<notin> set a" "CHR '')'' \<notin> set a" "hd op \<notin> set a" "hd op \<notin> set ''()''"
  shows "split_operator op 0 (a @ op @ b) = Some (a, b)"
  using assms
proof (induction a)
  case Nil
  then show ?case by (cases op) auto
next
  case (Cons c a)
  then show ?case by (cases op) auto
qed

lemma split_operator_None:
  assumes "op \<noteq> []" "CHR ''('' \<notin> set s" "CHR '')'' \<notin> set s" "hd op \<notin> set s"
  shows "split_operator op 0 s = None"
  using assms by (induction s) (cases op; auto)+

lemma split_once_str_found:
  "p \<noteq> [] \<Longrightarrow> hd p \<notin> set a \<Longrightarrow> split_once_str p (a @ p @ b) = Some (a, b)"
proof (induction a)
  case Nil
  then show ?case by (cases p) auto
next
  case (Cons c a)
  then show ?case by (cases p) auto
qed

lemma split_once_str_None: "c \<in> set p \<Longrightarrow> c \<notin> set s \<Longrightarrow> split_once_str p s = None"
  by (induction s) (auto dest!: set_mono_prefix)

lemma split_once_str_one: "c \<notin> set a \<Longrightarrow> c \<notin> set b \<Longrightarrow> split_once_str [c, c] (a @ c # b) = None"
proof (induction a)
  case Nil
  then show ?case using split_once_str_None [of c "[c, c]" b] by (cases b) auto
qed simp

subsubsection \<open>One comparison\<close>

lemma operand_chars:
  assumes "operand s"
  shows "CHR ''!'' \<notin> set s" "CHR ''='' \<notin> set s" "CHR ''<'' \<notin> set s" "CHR ''>'' \<notin> set s" "CHR ''|'' \<notin> set s"
    "CHR ''&'' \<notin> set s" "CHR ''('' \<notin> set s" "CHR '')'' \<notin> set s" "plain_ends s" "hd s \<noteq> CHR 0x22"
proof -
  have c: "name_part c" if "c \<in> set s" for c using assms that by (auto simp: operand_def list_all_iff)
  have "s \<noteq> []" using assms by (simp add: operand_def)
  then show "plain_ends s" using c name_part_plain by (simp add: plain_ends_def)
  show "hd s \<noteq> CHR 0x22" using c [of "hd s"] \<open>s \<noteq> []\<close>
    by (auto simp: name_part_def word_char_def is_digit_def is_letter_def less_eq_char_def)
qed (use assms in \<open>auto simp: operand_def list_all_iff name_part_def word_char_def is_digit_def is_letter_def
    less_eq_char_def dest: bspec\<close>)

lemma resolve_operand:
  assumes "operand s"
  shows "resolve_var s vars = operand_value vars s"
proof -
  have "\<not> prefix [CHR 0x22] s" using operand_chars(10) [OF assms] by (cases s) auto
  then show ?thesis
    by (simp add: resolve_var_def trim_ends [OF operand_chars(9) [OF assms]] operand_value_def)
qed

lemma try_comparison_found:
  assumes "operand l" "operand r" "op \<noteq> []" "hd op \<in> set ''!=<>''"
  shows "try_comparison (l @ '' '' @ op @ '' '' @ r) vars (op, k) =
    Some (compare_texts k (operand_value vars l) (operand_value vars r))"
proof -
  have "hd op \<notin> set (l @ '' '')" using assms(4) operand_chars [OF assms(1)] by auto
  then have "split_once_str op ((l @ '' '') @ op @ '' '' @ r) = Some (l @ '' '', '' '' @ r)"
    using assms(3) by (rule split_once_str_found [rotated])
  then show ?thesis
    using assms(1,2) operand_chars(9) [OF assms(1)] operand_chars(9) [OF assms(2)]
    by (simp add: try_comparison_def trim_right trim_ends resolve_operand)
qed

lemma try_comparison_None: "c \<in> set op \<Longrightarrow> c \<notin> set e \<Longrightarrow> try_comparison e vars (op, k) = None"
  by (simp add: try_comparison_def split_once_str_None)

lemma eval_comparison:
  assumes "comparison_ok (l, k, r)"
  shows "first_some (try_comparison (comparison_text (l, k, r)) vars) comparisons =
    Some (comparison_value vars (l, k, r))"
proof -
  have o: "operand l" "operand r" using assms by simp_all
  note chars = operand_chars(1-4) [OF o(1)] operand_chars(1-4) [OF o(2)]
  have one:
    "try_comparison (l @ '' '' @ ''<='' @ '' '' @ r) vars (''=='', Cmp_eq) = None"
    "try_comparison (l @ '' '' @ ''>='' @ '' '' @ r) vars (''=='', Cmp_eq) = None"
    using split_once_str_one [of "CHR ''=''" "l @ '' <''" "'' '' @ r"]
      split_once_str_one [of "CHR ''=''" "l @ '' >''" "'' '' @ r"] chars
    by (simp_all add: try_comparison_def)
  note none = try_comparison_None [of "CHR ''!''"] try_comparison_None [of "CHR ''=''"]
    try_comparison_None [of "CHR ''<''"] try_comparison_None [of "CHR ''>''"]
  show ?thesis
    using try_comparison_found [OF o, of "cmp_text k" vars k] chars
    by (cases k) (simp_all add: comparisons_def none one [simplified])
qed

subsubsection \<open>Conjunctions and disjunctions\<close>

lemma comparison_text_chars:
  assumes "comparison_ok c"
  shows "CHR ''|'' \<notin> set (comparison_text c)" "CHR ''&'' \<notin> set (comparison_text c)"
    "CHR ''('' \<notin> set (comparison_text c)" "CHR '')'' \<notin> set (comparison_text c)"
    "plain_ends (comparison_text c)"
proof -
  obtain l k r where c: "c = (l, k, r)" by (rule prod_cases3)
  have o: "operand l" "operand r" using assms c by simp_all
  note chars = operand_chars [OF o(1)] operand_chars [OF o(2)]
  show "CHR ''|'' \<notin> set (comparison_text c)" "CHR ''&'' \<notin> set (comparison_text c)"
    "CHR ''('' \<notin> set (comparison_text c)" "CHR '')'' \<notin> set (comparison_text c)"
    using chars by (cases k; simp add: c)+
  show "plain_ends (comparison_text c)"
    using chars(9,19) by (cases k) (simp_all add: c plain_ends_def)
qed

lemma joined_chars:
  "\<forall>s \<in> set ss. x \<notin> set s \<Longrightarrow> x \<noteq> CHR '' '' \<Longrightarrow> x \<notin> set op \<Longrightarrow> x \<notin> set (joined op ss)"
  by (induction op ss rule: joined.induct) auto

lemma joined_ends: "ss \<noteq> [] \<Longrightarrow> \<forall>s \<in> set ss. plain_ends s \<Longrightarrow> plain_ends (joined op ss)"
  by (induction op ss rule: joined.induct) (auto simp: plain_ends_def)

declare comparison_text.simps [simp del]

lemma joined_comparisons:
  assumes "list_all comparison_ok c"
  shows "CHR ''|'' \<notin> set (joined ''&&'' (map comparison_text c))"
    "CHR ''('' \<notin> set (joined ''&&'' (map comparison_text c))"
    "CHR '')'' \<notin> set (joined ''&&'' (map comparison_text c))"
    "c \<noteq> [] \<Longrightarrow> plain_ends (joined ''&&'' (map comparison_text c))"
proof -
  have ok: "comparison_ok x" if "x \<in> set c" for x using assms that by (simp add: list_all_iff)
  show "CHR ''|'' \<notin> set (joined ''&&'' (map comparison_text c))"
    using comparison_text_chars(1) [OF ok] by (intro joined_chars) simp_all
  show "CHR ''('' \<notin> set (joined ''&&'' (map comparison_text c))"
    using comparison_text_chars(3) [OF ok] by (intro joined_chars) simp_all
  show "CHR '')'' \<notin> set (joined ''&&'' (map comparison_text c))"
    using comparison_text_chars(4) [OF ok] by (intro joined_chars) simp_all
  show "c \<noteq> [] \<Longrightarrow> plain_ends (joined ''&&'' (map comparison_text c))"
    using comparison_text_chars(5) [OF ok] by (intro joined_ends) simp_all
qed

lemma eval_single:
  assumes "comparison_ok x"
  shows "eval_condition (comparison_text x) vars = comparison_value vars x"
proof -
  note chars = comparison_text_chars [OF assms]
  obtain l k r where x: "x = (l, k, r)" by (rule prod_cases3)
  show ?thesis
    using chars eval_comparison [of l k r vars] assms
    unfolding x by (subst eval_condition.simps) (simp add: Let_def trim_ends find_operator_def split_operator_None)
qed

lemma eval_conjunction:
  assumes "c \<noteq> []" "list_all comparison_ok c"
  shows "eval_condition (joined ''&&'' (map comparison_text c)) vars = list_all (comparison_value vars) c"
  using assms
proof (induction c rule: induct_list012)
  case (2 x)
  then show ?case by (simp add: eval_single)
next
  case (3 x y zs)
  let ?rest = "joined ''&&'' (map comparison_text (y # zs))"
  let ?all = "comparison_text x @ '' '' @ ''&&'' @ '' '' @ ?rest"
  have ok: "comparison_ok x" "list_all comparison_ok (y # zs)" using 3 by simp_all
  note chars = comparison_text_chars [OF ok(1)]
  note rest = joined_comparisons [OF ok(2)]
  have rest_ends: "plain_ends ?rest" by (rule rest(4)) simp
  have ends: "plain_ends ?all" using chars(5) rest_ends by (simp add: plain_ends_def)
  have no_or: "find_operator ?all ''||'' = None"
    using chars rest by (simp add: find_operator_def split_operator_None)
  have "find_operator ((comparison_text x @ '' '') @ ''&&'' @ '' '' @ ?rest) ''&&'' =
      Some (comparison_text x @ '' '', '' '' @ ?rest)"
    unfolding find_operator_def using chars by (intro split_operator_found) simp_all
  then have "eval_condition ?all vars = (eval_condition (comparison_text x) vars \<and> eval_condition ?rest vars)"
    using no_or chars(5) trim_ends [OF ends]
    by (subst eval_condition.simps) (simp add: Let_def eval_condition_pad)
  then show ?case using 3 by (simp add: eval_single)
qed simp

lemma eval_disjunction:
  assumes "condition_ok d"
  shows "eval_condition (condition_text d) vars = condition_value vars d"
proof -
  have "d \<noteq> []" "list_all (\<lambda>c. c \<noteq> [] \<and> list_all comparison_ok c) d"
    using assms by (simp_all add: condition_ok_def)
  then show ?thesis
  proof (induction d rule: induct_list012)
    case (2 x)
    then show ?case by (simp add: condition_text_def condition_value_def eval_conjunction)
  next
    case (3 x y zs)
    let ?x = "joined ''&&'' (map comparison_text x)"
    let ?rest = "condition_text (y # zs)"
    let ?all = "?x @ '' '' @ ''||'' @ '' '' @ ?rest"
    have ok: "list_all comparison_ok c" "c \<noteq> []" if "c \<in> set (x # y # zs)" for c
      using 3(4) that by (auto simp: list_all_iff)
    have conj: "plain_ends (joined ''&&'' (map comparison_text c))" if "c \<in> set (x # y # zs)" for c
      using joined_comparisons(4) [OF ok [OF that]] .
    note here = joined_comparisons(1-3) [OF ok(1) [of x]]
    have rest: "plain_ends ?rest" unfolding condition_text_def
      using conj by (intro joined_ends) simp_all
    have ends: "plain_ends ?all" using conj [of x] rest by (simp add: plain_ends_def)
    have "find_operator ((?x @ '' '') @ ''||'' @ '' '' @ ?rest) ''||'' = Some (?x @ '' '', '' '' @ ?rest)"
      unfolding find_operator_def using here by (intro split_operator_found) simp_all
    then have "eval_condition ?all vars = (eval_condition ?x vars \<or> eval_condition ?rest vars)"
      using conj [of x] trim_ends [OF ends]
      by (subst eval_condition.simps) (simp add: Let_def eval_condition_pad)
    moreover have "condition_text (x # y # zs) = ?all" by (simp add: condition_text_def)
    ultimately show ?case using 3 by (simp add: condition_value_def eval_conjunction)
  qed simp
qed

text \<open>C26.
  A condition in the grammar of the language, comparisons of names and numbers joined by \<open>&&\<close> and
  \<open>||\<close>, has the value it should: a disjunction of conjunctions, with a name standing for its variable
  where it is bound and for itself otherwise, texts compared for equality and numbers for order.
\<close>

theorem eval_condition_exact:
  assumes "condition_ok d"
  shows "eval_condition (condition_text d) vars \<longleftrightarrow>
    (\<exists>c \<in> set d. \<forall>(l, k, r) \<in> set c. compare_texts k (operand_value vars l) (operand_value vars r))"
proof -
  have "comparison_value vars = (\<lambda>(l, k, r). compare_texts k (operand_value vars l) (operand_value vars r))"
    by (auto simp: fun_eq_iff)
  then show ?thesis
    using eval_disjunction [OF assms, of vars] by (simp add: condition_value_def list_all_iff list_ex_iff)
qed

lemma eval_condition_exact_witness:
  "eval_condition ''n >= 3 && mode == prod || n < 1'' (bm_of_list [(''mode'', ''prod''), (''n'', ''7'')])"
proof -
  let ?d = "[[(''n'', Cmp_ge, ''3''), (''mode'', Cmp_eq, ''prod'')], [(''n'', Cmp_lt, ''1'')]]"
  let ?vars = "bm_of_list [(''mode'', ''prod''), (''n'', ''7'')]"
  have "condition_ok ?d" by code_simp
  note exact = eval_condition_exact [OF this, of ?vars]
  have "condition_text ?d = ''n >= 3 && mode == prod || n < 1''" by code_simp
  moreover have "\<forall>(l, k, r) \<in> set (hd ?d). compare_texts k (operand_value ?vars l) (operand_value ?vars r)"
    by code_simp
  ultimately show ?thesis using exact by (simp add: split_beta)
qed

end
