(* ===== verification/F64.thy ===== *)
theory F64
  imports Complex_Main Text_Numbers Btree_Map "HOL-Library.Log_Nat"
begin

text \<open>
  The \<open>f64\<close> arithmetic the value parsers use: a finite value is the rational number it stands for
  (the sign of zero is never observed), rounding is to the nearest representable value with
  ties to even, with subnormal numbers and overflow to infinity. \<open>parse_f64\<close> is \<open>str::parse\<close> for \<open>f64\<close>: the
  exact value of the decimal text, rounded once.
\<close>

datatype f64 = Nan | Inf bool | Fin rat

definition pow2 :: "int \<Rightarrow> rat" where
  "pow2 k = (if 0 \<le> k then 2 ^ nat k else 1 / 2 ^ nat (- k))"

text \<open>The exponent of a positive rational: \<open>pow2 (exponent x) \<le> x < pow2 (exponent x + 1)\<close>.\<close>

definition exponent :: "rat \<Rightarrow> int" where
  "exponent x =
     (let (p, q) = quotient_of x; k = bitlen p - bitlen q in if pow2 k \<le> x then k else k - 1)"

definition half_even :: "rat \<Rightarrow> int" where
  "half_even x =
     (let n = \<lfloor>x\<rfloor>; r = x - of_int n in
      if r < 1 / 2 then n else if 1 / 2 < r then n + 1 else if even n then n else n + 1)"

text \<open>
  A significand has 53 bits, so \<open>n * pow2 e\<close> exceeds the largest finite value, that is, reaches \<open>2^1024\<close>, when
  \<open>e\<close> is at least 971 and \<open>n * 2 ^ (e - 971)\<close> reaches \<open>2^53\<close>.
\<close>

definition round_f64 :: "rat \<Rightarrow> f64" where
  "round_f64 x =
     (if x = 0 then Fin 0
      else
        let m = \<bar>x\<bar>; e = max (- 1074) (exponent m - 52); n = half_even (m / pow2 e); v = of_int n * pow2 e in
        if 971 \<le> e \<and> 9007199254740992 \<le> n * 2 ^ nat (e - 971) then Inf (x < 0)
        else Fin (if x < 0 then - v else v))"

fun f64_mul :: "f64 \<Rightarrow> f64 \<Rightarrow> f64" where
  "f64_mul (Fin a) (Fin b) = round_f64 (a * b)"
| "f64_mul (Inf s) (Fin b) = (if b = 0 then Nan else Inf (s \<noteq> (b < 0)))"
| "f64_mul (Fin a) (Inf s) = (if a = 0 then Nan else Inf (s \<noteq> (a < 0)))"
| "f64_mul (Inf s) (Inf t) = Inf (s \<noteq> t)"
| "f64_mul _ _ = Nan"

fun is_finite :: "f64 \<Rightarrow> bool" where
  "is_finite (Fin _) = True"
| "is_finite _ = False"

fun f64_less :: "f64 \<Rightarrow> f64 \<Rightarrow> bool" where
  "f64_less (Fin a) (Fin b) = (a < b)"
| "f64_less (Inf s) (Fin _) = s"
| "f64_less (Fin _) (Inf t) = (\<not> t)"
| "f64_less (Inf s) (Inf t) = (s \<and> \<not> t)"
| "f64_less _ _ = False"

text \<open>\<open>f64::round\<close>: to the nearest integer, half away from zero; \<open>as u64\<close>: towards zero, saturating.\<close>

fun f64_round :: "f64 \<Rightarrow> f64" where
  "f64_round (Fin a) = Fin (of_int (if a < 0 then - \<lfloor>- a + 1 / 2\<rfloor> else \<lfloor>a + 1 / 2\<rfloor>))"
| "f64_round x = x"

fun as_u64 :: "f64 \<Rightarrow> nat" where
  "as_u64 (Fin a) = min u64_max (nat \<lfloor>a\<rfloor>)"
| "as_u64 (Inf s) = (if s then 0 else u64_max)"
| "as_u64 Nan = 0"

subsection \<open>Text\<close>

definition lower_char :: "char \<Rightarrow> char" where
  "lower_char c = (if CHR ''A'' \<le> c \<and> c \<le> CHR ''Z'' then char_of (of_char c + 32 :: nat) else c)"

definition to_lower :: "string \<Rightarrow> string" where
  "to_lower s = map lower_char s"

definition decimal_digit :: "char \<Rightarrow> bool" where
  "decimal_digit c \<longleftrightarrow> is_radix_digit 10 c"

definition digits_num :: "string \<Rightarrow> nat" where
  "digits_num ds = (case digits_val 10 0 ds of Some n \<Rightarrow> n | None \<Rightarrow> 0)"

text \<open>The exponent of a decimal number, if there is one, and nothing after it.\<close>

definition read_exponent :: "string \<Rightarrow> int option" where
  "read_exponent s =
     (case s of
        [] \<Rightarrow> Some 0
      | c # cs \<Rightarrow>
          if lower_char c \<noteq> CHR ''e'' then None
          else
            let neg = (cs \<noteq> [] \<and> hd cs = CHR ''-'');
                ds = (if cs \<noteq> [] \<and> (hd cs = CHR ''-'' \<or> hd cs = CHR ''+'') then tl cs else cs) in
            if ds = [] \<or> \<not> list_all decimal_digit ds then None
            else Some (if neg then - int (digits_num ds) else int (digits_num ds)))"

definition pow10 :: "int \<Rightarrow> rat" where
  "pow10 k = (if 0 \<le> k then 10 ^ nat k else 1 / 10 ^ nat (- k))"

text \<open>The value of an unsigned decimal number.\<close>

definition read_decimal :: "string \<Rightarrow> rat option" where
  "read_decimal s =
     (let whole = takeWhile decimal_digit s;
          rest = dropWhile decimal_digit s;
          dot = (rest \<noteq> [] \<and> hd rest = CHR ''.'');
          frac = (if dot then takeWhile decimal_digit (tl rest) else []);
          tail = (if dot then dropWhile decimal_digit (tl rest) else rest) in
      if whole = [] \<and> frac = [] then None
      else map_option (\<lambda>e. of_nat (digits_num (whole @ frac)) * pow10 (e - int (length frac))) (read_exponent tail))"

definition parse_f64 :: "string \<Rightarrow> f64 option" where
  "parse_f64 s =
     (let neg = (s \<noteq> [] \<and> hd s = CHR ''-'');
          t = (if s \<noteq> [] \<and> (hd s = CHR ''-'' \<or> hd s = CHR ''+'') then tl s else s) in
      if to_lower t = ''nan'' then Some Nan
      else if to_lower t = ''inf'' \<or> to_lower t = ''infinity'' then Some (Inf neg)
      else map_option (\<lambda>x. round_f64 (if neg then - x else x)) (read_decimal t))"

subsection \<open>Small integers are exact\<close>

lemma half_even_int [simp]: "half_even (of_int n) = n"
  by (simp add: half_even_def)

lemma bitlen_one: "bitlen 1 = 1"
  by (simp add: compute_bitlen [of 1])

lemma exponent_int:
  assumes "0 < n"
  shows "exponent (of_int n) = bitlen n - 1"
proof -
  have "quotient_of (of_int n) = (n, 1)" by simp
  moreover note bitlen_one
  moreover have "(2 :: int) ^ nat (bitlen n - 1) \<le> n" using bitlen_bounds [OF assms] by simp
  then have "(2 :: rat) ^ nat (bitlen n - 1) \<le> of_int n"
    by (metis of_int_le_iff of_int_numeral of_int_power)
  moreover have "0 \<le> bitlen n - 1" using bitlen_eq_zero_iff [of n] bitlen_nonneg [of n] assms by linarith
  ultimately show ?thesis by (simp add: exponent_def pow2_def Let_def)
qed

lemma f64_grid:
  assumes "0 < n" "n \<le> 2 ^ 53" "e = max (- 1074) (exponent (of_int n :: rat) - 52)"
  shows "\<exists>k. of_int n / pow2 e = (of_int k :: rat)"
proof (cases "n = 2 ^ 53")
  case True
  then have "bitlen n = 54" using bitlen_pow2 [of 1 53] by (simp only: bitlen_one) simp
  then have "e = 1" using assms(1,3) by (simp add: exponent_int)
  then show ?thesis using True by (intro exI [of _ "2 ^ 52"]) (simp add: pow2_def)
next
  case False
  then have "bitlen n \<le> 53" using assms bitlen_le_iff_power [of n 53] by simp
  then have "e \<le> 0" using assms(1,3) by (simp add: exponent_int)
  then have "of_int n / pow2 e = of_int (n * 2 ^ nat (- e))"
    by (simp add: pow2_def)
  then show ?thesis by blast
qed

lemma round_f64_int:
  assumes "0 \<le> n" "n \<le> 2 ^ 53"
  shows "round_f64 (of_int n) = Fin (of_int n)"
proof (cases "n = 0")
  case False
  then have pos: "0 < n" using assms by linarith
  define e where "e = max (- 1074) (exponent (of_int n :: rat) - 52)"
  obtain k where k: "of_int n / pow2 e = (of_int k :: rat)"
    using f64_grid [OF pos assms(2) e_def] by blast
  have "pow2 e \<noteq> 0" by (simp add: pow2_def)
  then have "of_int (half_even (of_int n / pow2 e)) * pow2 e = of_int n"
    using k by (metis half_even_int nonzero_eq_divide_eq)
  moreover have "bitlen n \<le> 54" using assms pos bitlen_le_iff_power [of n 54] by simp
  then have "e \<le> 1" by (simp add: e_def exponent_int [OF pos])
  ultimately show ?thesis using pos by (simp add: round_f64_def Let_def e_def [symmetric])
qed (simp add: round_f64_def)

end
