(* ===== verification/Nll_Value.thy ===== *)
theory Nll_Value
  imports F64 Nll_Interp Seed
begin

text \<open>
  The value parsers of \<open>helpers.rs\<close> (durations, percentages, rates, sizes, CPU shares) and the typed
  values of the language, \<open>parser/nll/value.rs\<close>. A duration is its number of nanoseconds. The class
  of values \<open>NllValue\<close> is the parser of the type, an argument of the operations on \<open>Val\<close>.
\<close>

subsection \<open>Parsers of values\<close>

datatype value_error =
    Missing_Suffix | Not_A_Number | Is_Nan | Not_Finite | Is_Negative | Too_Large | Above_100
  | Unknown_Unit | Not_Positive | Expected_Positive | Seed_Err seed_error | Addr_Err helper_error

definition DURATION_UNITS :: "(string \<times> rat) list" where
  "DURATION_UNITS =
     [(''ns'', 1), (''us'', 1000), ([CHR 0xC2, CHR 0xB5] @ ''s'', 1000), ([CHR 0xCE, CHR 0xBC] @ ''s'', 1000),
      (''ms'', 1000000), (''s'', 1000000000), (''m'', 60000000000), (''h'', 3600000000000)]"

definition strip_unit :: "('b \<Rightarrow> 'c) \<Rightarrow> string \<Rightarrow> string \<times> 'b \<Rightarrow> (string \<times> 'c) option" where
  "strip_unit f s = (\<lambda>(u, k). map_option (\<lambda>v. (v, f k)) (strip_suffix_str u s))"

definition parse_number :: "string \<Rightarrow> (value_error, f64) result" where
  "parse_number s = ok_or (parse_f64 s) Not_A_Number"

text \<open>\<open>u64::MAX as f64\<close> is \<open>2^64\<close>.\<close>

definition u64_max_f64 :: f64 where
  "u64_max_f64 = Fin 18446744073709551616"

definition parse_duration :: "string \<Rightarrow> (value_error, nat) result" where
  "parse_duration s0 =
     and_then (ok_or (first_some (strip_unit id (trim s0)) DURATION_UNITS) Missing_Suffix) (\<lambda>(val_str, per_unit_ns).
     and_then (parse_number (trim val_str)) (\<lambda>n.
       if n = Nan then Inl Is_Nan
       else if f64_less n (Fin 0) then Inl Is_Negative
       else
         let nanos = f64_mul n (Fin per_unit_ns) in
         if \<not> is_finite nanos \<or> f64_less u64_max_f64 nanos then Inl Too_Large
         else Inr (as_u64 (f64_round nanos))))"

definition parse_percent :: "string \<Rightarrow> (value_error, f64) result" where
  "parse_percent s0 =
     and_then (ok_or (strip_suffix_str ''%'' (trim s0)) Missing_Suffix) (\<lambda>val_str.
     and_then (parse_number (trim val_str)) (\<lambda>v.
       if \<not> is_finite v then Inl Not_Finite
       else if f64_less v (Fin 0) then Inl Is_Negative
       else if f64_less (Fin 100) v then Inl Above_100
       else Inr v))"

definition RATE_UNITS :: "(string \<times> nat) list" where
  "RATE_UNITS =
     [(''kbyte'', 8000), (''mbyte'', 8000000), (''gbyte'', 8000000000), (''tbyte'', 8000000000000),
      (''byte'', 8), (''kbit'', 1000), (''mbit'', 1000000), (''gbit'', 1000000000), (''tbit'', 1000000000000),
      (''bit'', 1), (''kbps'', 8000), (''mbps'', 8000000), (''gbps'', 8000000000), (''tbps'', 8000000000000),
      (''bps'', 8), (''k'', 1000), (''m'', 1000000), (''g'', 1000000000), (''t'', 1000000000000),
      (''p'', 1000000000000000)]"

definition parse_rate_bps :: "string \<Rightarrow> (value_error, nat) result" where
  "parse_rate_bps s0 =
     and_then (ok_or (first_some (strip_unit id (to_lower (trim s0))) RATE_UNITS) Missing_Suffix) (\<lambda>(v, per_unit_bits).
       let val_str = trim v in
       case parse_u64 val_str of
         Some n \<Rightarrow> if n * per_unit_bits \<le> u64_max then Inr (n * per_unit_bits) else Inl Too_Large
       | None \<Rightarrow>
           and_then (parse_number val_str) (\<lambda>n.
             if \<not> is_finite n then Inl Not_Finite
             else if f64_less n (Fin 0) then Inl Is_Negative
             else
               let bits = f64_mul n (Fin (of_nat per_unit_bits)) in
               if \<not> f64_less bits u64_max_f64 then Inl Too_Large else Inr (as_u64 (f64_round bits))))"

definition SIZE_UNITS :: "(string list \<times> rat) list" where
  "SIZE_UNITS =
     [([[], ''b'', ''byte'', ''bytes''], 1),
      ([''k'', ''kb'', ''kib'', ''kbyte'', ''kbytes''], 1024),
      ([''m'', ''mb'', ''mib'', ''mbyte'', ''mbytes''], 1048576),
      ([''g'', ''gb'', ''gib'', ''gbyte'', ''gbytes''], 1073741824),
      ([''t'', ''tb'', ''tib'', ''tbyte'', ''tbytes''], 1099511627776)]"

definition size_char :: "char \<Rightarrow> bool" where
  "size_char c \<longleftrightarrow> decimal_digit c \<or> c = CHR ''.''"

definition parse_size :: "string \<Rightarrow> (value_error, nat) result" where
  "parse_size s0 =
     (let lower = to_lower (trim s0);
          digits = takeWhile size_char lower;
          unit = trim (dropWhile size_char lower) in
      if digits = [] then Inl Not_A_Number
      else
        and_then (parse_number digits) (\<lambda>n.
        and_then (ok_or (first_some (\<lambda>(us, k). if unit \<in> set us then Some k else None) SIZE_UNITS) Unknown_Unit) (\<lambda>mul.
          let bytes = f64_mul n (Fin mul) in
          if \<not> is_finite bytes \<or> f64_less u64_max_f64 bytes then Inl Too_Large
          else Inr (as_u64 (f64_round bytes)))))"

definition parse_cpu :: "string \<Rightarrow> (value_error, f64) result" where
  "parse_cpu s =
     and_then (parse_number (trim s)) (\<lambda>cores.
       if \<not> f64_less (Fin 0) cores \<and> cores \<noteq> Nan \<or> \<not> is_finite cores then Inl Not_Positive else Inr cores)"

subsection \<open>Typed values\<close>

type_synonym span = "nat \<times> nat"

datatype 'a val = Lit_Val (lit_value: 'a) (val_raw: string) (val_span: span)
  | Raw_Val (val_raw: string) (val_span: span)

datatype val_error = Invalid_Value span value_error | Unresolved_Value span

definition val_interp :: "vars \<Rightarrow> 'a val \<Rightarrow> 'a val" where
  "val_interp vars v =
     (case v of
        Lit_Val x raw sp \<Rightarrow> v
      | Raw_Val raw sp \<Rightarrow> Raw_Val (interpolate raw vars) sp)"

definition to_text :: "(string \<Rightarrow> (value_error, 'a) result) \<Rightarrow> 'a val \<Rightarrow> (val_error, string) result" where
  "to_text parse v =
     (case v of
        Lit_Val x raw sp \<Rightarrow> Inr raw
      | Raw_Val raw sp \<Rightarrow>
          if unresolved raw then Inr raw
          else (case parse (trim raw) of
                  Inl e \<Rightarrow> Inl (Invalid_Value sp e)
                | Inr _ \<Rightarrow> Inr (trim raw)))"

definition to_value :: "(string \<Rightarrow> (value_error, 'a) result) \<Rightarrow> 'a val \<Rightarrow> (val_error, 'a) result" where
  "to_value parse v =
     (case v of
        Lit_Val x raw sp \<Rightarrow> Inr x
      | Raw_Val raw sp \<Rightarrow>
          if unresolved (trim raw) then Inl (Unresolved_Value sp)
          else (case parse (trim raw) of
                  Inl e \<Rightarrow> Inl (Invalid_Value sp e)
                | Inr x \<Rightarrow> Inr x))"

definition parse_packets :: "string \<Rightarrow> (value_error, nat) result" where
  "parse_packets s =
     and_then (ok_or (parse_u32 s) Expected_Positive) (\<lambda>n. if n = 0 then Inl Not_Positive else Inr n)"

definition parse_seed_value :: "string \<Rightarrow> (value_error, u64) result" where
  "parse_seed_value s = (case parse_seed s of Inl e \<Rightarrow> Inl (Seed_Err e) | Inr n \<Rightarrow> Inr n)"

datatype ip_or_cidr = Plain_Ip ip_addr | Ip_Cidr ip_addr nat

definition parse_ip_or_cidr_value :: "string \<Rightarrow> (value_error, ip_or_cidr) result" where
  "parse_ip_or_cidr_value s =
     (case parse_ip s of
        Some ip \<Rightarrow> Inr (Plain_Ip ip)
      | None \<Rightarrow>
          (case parse_cidr s of
             Inl e \<Rightarrow> Inl (Addr_Err e)
           | Inr (ip, p) \<Rightarrow> Inr (Ip_Cidr ip p)))"

datatype route_dest = Route_Default | Route_Net ip_or_cidr

definition parse_route_dest :: "string \<Rightarrow> (value_error, route_dest) result" where
  "parse_route_dest s =
     (if s = ''default'' then Inr Route_Default
      else and_then (parse_ip_or_cidr_value s) (\<lambda>n. Inr (Route_Net n)))"

subsection \<open>Numbers with a unit\<close>

lemma show_nat_decimal: "list_all decimal_digit (show_nat n)"
  using show_radix_is_digit [of 10 _ n] by (simp add: list_all_iff decimal_digit_def)

lemma decimal_digit_range: "decimal_digit c \<Longrightarrow> CHR ''0'' \<le> c \<and> c \<le> CHR ''9''"
  by (auto simp: decimal_digit_def is_radix_digit_def radix_val_def digit_val_def Let_def less_eq_char_def
      split: option.splits if_splits)

lemma decimal_digit_plain: "decimal_digit c \<Longrightarrow> plain_char c \<and> lower_char c = c"
  by (drule decimal_digit_range) (auto simp: plain_char_def lower_char_def less_eq_char_def less_char_def)

lemma hd_show_nat: "decimal_digit (hd (show_nat n))"
  using show_nat_decimal [of n] by (cases "show_nat n") (simp_all add: list_all_iff)

lemma last_show_nat: "decimal_digit (last (show_nat n))"
  using show_nat_decimal [of n] by (simp add: list_all_iff)

text \<open>The units of a table: lower-case, no digits, and none hides a later one.\<close>

definition unit_char :: "char \<Rightarrow> bool" where
  "unit_char c \<longleftrightarrow> \<not> decimal_digit c \<and> lower_char c = c"

definition unit_table :: "(string \<times> 'b) list \<Rightarrow> bool" where
  "unit_table us \<longleftrightarrow>
     list_all (\<lambda>(u, _). u \<noteq> [] \<and> list_all unit_char u \<and> plain_char (last u)) us \<and>
     sorted_wrt (\<lambda>a b. \<not> suffix (fst a) (fst b)) us"

lemma suffix_unit:
  assumes "suffix v (ds @ u)" "list_all unit_char v" "decimal_digit (last ds)" "ds \<noteq> []"
  shows "suffix v u"
proof (rule ccontr)
  assume "\<not> suffix v u"
  then obtain w where "w \<noteq> []" "v = w @ u" "suffix w ds" using assms(1) by (auto simp: suffix_append)
  then have "last ds \<in> set v" by (auto simp: suffix_def)
  then show False using assms(2,3) by (auto simp: list_all_iff unit_char_def)
qed

lemma strip_suffix_str_Some: "strip_suffix_str p s = Some r \<longleftrightarrow> s = r @ p"
  by (auto simp: strip_suffix_str_def strip_prefix_str_Some) (metis rev_append rev_rev_ident)+

lemma strip_unit_pick:
  assumes "unit_table us" "(u, k) \<in> set us" "decimal_digit (last ds)" "ds \<noteq> []"
  shows "first_some (strip_unit f (ds @ u)) us = Some (ds, f k)"
  using assms(1,2)
proof (induction us)
  case (Cons a us)
  obtain v l where a: "a = (v, l)" by fastforce
  show ?case
  proof (cases "(u, k) = a")
    case True
    then have "strip_suffix_str u (ds @ u) = Some ds" by (simp add: strip_suffix_str_Some)
    then show ?thesis using True by (auto simp: strip_unit_def)
  next
    case False
    then have uk: "(u, k) \<in> set us" using Cons(3) by simp
    have "\<not> suffix v u" using Cons(2) uk a by (auto simp: unit_table_def)
    then have "\<not> suffix v (ds @ u)" using suffix_unit [of v ds u] assms(3,4) Cons(2) a by (auto simp: unit_table_def)
    then have "strip_suffix_str v (ds @ u) = None"
      by (cases "strip_suffix_str v (ds @ u)") (auto simp: strip_suffix_str_Some suffix_def)
    then show ?thesis using Cons uk a by (simp add: strip_unit_def unit_table_def)
  qed
qed simp

lemma unit_tables: "unit_table DURATION_UNITS" "unit_table RATE_UNITS"
  by code_simp+

lemma number_unit_text:
  assumes "unit_table us" "(u, k) \<in> set us"
  shows "trim (show_nat n @ u) = show_nat n @ u" "to_lower (show_nat n @ u) = show_nat n @ u"
    "trim (show_nat n) = show_nat n"
proof -
  have u: "u \<noteq> []" "list_all unit_char u" "plain_char (last u)" using assms by (auto simp: unit_table_def list_all_iff)
  then show "trim (show_nat n @ u) = show_nat n @ u"
    by (intro trim_plain) (simp_all add: hd_append decimal_digit_plain hd_show_nat)
  show "trim (show_nat n) = show_nat n"
    by (intro trim_plain) (simp_all add: decimal_digit_plain hd_show_nat last_show_nat)
  show "to_lower (show_nat n @ u) = show_nat n @ u"
    using u(2) show_nat_decimal [of n] by (auto simp: to_lower_def list_all_iff unit_char_def decimal_digit_plain intro!: map_idI)
qed

lemma read_decimal_digits:
  assumes "list_all decimal_digit ds" "digits_val 10 0 ds = Some n" "ds \<noteq> []"
  shows "read_decimal ds = Some (of_nat n)"
proof -
  have all: "takeWhile decimal_digit ds = ds" "dropWhile decimal_digit ds = []"
    using assms(1) by (auto simp: list_all_iff takeWhile_eq_all_conv dropWhile_eq_Nil_conv)
  show ?thesis unfolding read_decimal_def Let_def all
    using assms(2,3) by (simp add: read_exponent_def pow10_def digits_num_def)
qed

lemma parse_number_show_nat: "parse_number (show_nat n) = Inr (round_f64 (of_nat n))"
proof -
  let ?ds = "show_nat n"
  have t: "to_lower ?ds = ?ds"
    using show_nat_decimal [of n] by (auto simp: to_lower_def list_all_iff decimal_digit_plain intro!: map_idI)
  have nc: "hd ?ds \<noteq> CHR ''-''" "hd ?ds \<noteq> CHR ''+''" "hd ?ds \<noteq> CHR ''n''" "hd ?ds \<noteq> CHR ''i''"
    using decimal_digit_range [OF hd_show_nat [of n]] by (auto simp: less_eq_char_def)
  then have "?ds \<noteq> ''nan''" "?ds \<noteq> ''inf''" "?ds \<noteq> ''infinity''" by (metis list.sel(1))+
  moreover have "read_decimal ?ds = Some (of_nat n)"
    using show_nat_decimal digits_val_show_radix [of 10 n] by (intro read_decimal_digits) simp_all
  ultimately show ?thesis using t nc by (simp add: parse_number_def parse_f64_def Let_def)
qed

lemma round_f64_nat:
  assumes "n \<le> 2 ^ 53"
  shows "round_f64 (of_nat n) = Fin (of_nat n)"
proof -
  have "int n \<le> int (2 ^ 53)" using assms by (simp only: of_nat_le_iff)
  then have "int n \<le> 2 ^ 53" by simp
  from round_f64_int [OF _ this] show ?thesis by simp
qed

lemma f64_to_nat: "n \<le> u64_max \<Longrightarrow> as_u64 (f64_round (Fin (of_nat n))) = n"
proof -
  assume n: "n \<le> u64_max"
  have "\<lfloor>(of_nat n :: rat) + 1 / 2\<rfloor> = int n" by (rule floor_unique) simp_all
  then show ?thesis using n by simp
qed

lemma f64_compare:
  "n \<le> 2 ^ 53 \<Longrightarrow> \<not> f64_less u64_max_f64 (Fin (of_nat n))"
proof -
  assume "n \<le> 2 ^ 53"
  then have "(of_nat n :: rat) \<le> of_nat (2 ^ 53)" by (simp only: of_nat_le_iff)
  then show ?thesis by (simp add: u64_max_f64_def)
qed

text \<open>
  A whole number with any unit of the rate table, in the spelling of the language, is multiplied
  exactly: the rate is accepted exactly when it fits 64 bits, and no unit is mistaken for another.
\<close>

theorem parse_rate_integer:
  assumes "(u, k) \<in> set RATE_UNITS" "n \<le> u64_max"
  shows "parse_rate_bps (show_nat n @ u) = (if n * k \<le> u64_max then Inr (n * k) else Inl Too_Large)"
proof -
  note spelt = number_unit_text [OF unit_tables(2) assms(1), of n]
  have "first_some (strip_unit id (show_nat n @ u)) RATE_UNITS = Some (show_nat n, k)"
    using strip_unit_pick [OF unit_tables(2) assms(1) last_show_nat, of n id] by simp
  then show ?thesis using spelt assms(2) by (simp add: parse_rate_bps_def parse_uint_show_nat u64_max_def)
qed

lemma parse_rate_integer_witness: "parse_rate_bps ''100mbit'' = Inr 100000000"
proof -
  have "show_nat 100 @ ''mbit'' = ''100mbit''" by code_simp
  moreover have "(''mbit'', 1000000) \<in> set RATE_UNITS" by (simp add: RATE_UNITS_def)
  ultimately show ?thesis using parse_rate_integer [of "''mbit''" 1000000 100] by (simp add: u64_max_def)
qed

text \<open>
  A whole number of any unit is read exactly as long as it stays below \<open>2^53\<close> nanoseconds,
  more than a hundred days.
\<close>

lemma duration_units: "(u, k) \<in> set DURATION_UNITS \<Longrightarrow> \<exists>m. 0 < m \<and> k = of_nat m"
  by (auto simp: DURATION_UNITS_def intro: exI [of _ "1 :: nat"] exI [of _ "1000 :: nat"] exI [of _ "1000000 :: nat"]
      exI [of _ "1000000000 :: nat"] exI [of _ "60000000000 :: nat"] exI [of _ "3600000000000 :: nat"])

theorem parse_duration_integer:
  assumes "(u, of_nat k) \<in> set DURATION_UNITS" "n * k \<le> 2 ^ 53"
  shows "parse_duration (show_nat n @ u) = Inr (n * k)"
proof -
  note spelt = number_unit_text [OF unit_tables(1) assms(1), of n]
  have pick: "first_some (strip_unit id (show_nat n @ u)) DURATION_UNITS = Some (show_nat n, of_nat k)"
    using strip_unit_pick [OF unit_tables(1) assms(1) last_show_nat, of n id] by simp
  have "0 < k" using duration_units [OF assms(1)] by auto
  then have "n \<le> n * k" by simp
  then have n: "n \<le> 2 ^ 53" using assms(2) by linarith
  have mul: "f64_mul (Fin (of_nat n)) (Fin (of_nat k)) = Fin (of_nat (n * k))"
    using round_f64_nat [OF assms(2)] by simp
  have "n * k \<le> u64_max" using assms(2) by (simp add: u64_max_def)
  note exact = f64_to_nat [OF this]
  have num: "parse_number (trim (show_nat n)) = Inr (Fin (of_nat n))"
    by (simp add: spelt parse_number_show_nat round_f64_nat [OF n])
  show ?thesis
    unfolding parse_duration_def spelt(1) pick
    using f64_compare [OF assms(2)] exact mul num
    by (simp del: f64_mul.simps as_u64.simps f64_round.simps of_nat_mult add: Let_def)
qed

subsection \<open>Values as text\<close>

lemma strip_any_fix: "find (\<lambda>p. p \<noteq> [] \<and> prefix p (strip_any ps s)) ps = None"
proof (induction ps s rule: strip_any.induct)
  case (1 ps s)
  show ?case
  proof (cases "find (\<lambda>p. p \<noteq> [] \<and> prefix p s) ps")
    case None
    then show ?thesis by (simp add: strip_any.simps [of ps s])
  next
    case (Some p)
    then show ?thesis using 1 by (simp add: strip_any.simps [of ps s])
  qed
qed

lemma trim_idem: "trim (trim s) = trim s"
proof -
  let ?f = "strip_any ws_encodings s"
  let ?b = "strip_any (map rev ws_encodings) (rev ?f)"
  have t: "trim s = rev ?b" by (simp add: trim_def)
  have "prefix (rev ?b) ?f" using strip_any_suffix [of "map rev ws_encodings" "rev ?f"] by (simp add: suffix_to_prefix)
  moreover have "\<not> prefix p ?f" if "p \<in> set ws_encodings" "p \<noteq> []" for p
    using strip_any_fix [of ws_encodings s] that by (auto simp: find_None_iff)
  ultimately have "strip_any ws_encodings (rev ?b) = rev ?b"
    by (intro strip_any_id) (metis prefix_order.trans)
  moreover have "strip_any (map rev ws_encodings) ?b = ?b"
    using strip_any_fix [of "map rev ws_encodings" "rev ?f"] by (intro strip_any_id) (auto simp: find_None_iff)
  ultimately show ?thesis by (simp add: t) (simp add: trim_def)
qed

lemma contains_str_sublist: "contains_str p s \<longleftrightarrow> sublist p s"
  by (induction s) (auto simp: sublist_Cons_right)

text \<open>
  Writing a value and reading it again is a fixed point: the text a value hands to the topology
  has no surrounding space, is the text of the value read from it, and when it has no interpolation
  left it is a valid text of the type.
\<close>

theorem to_text_fixpoint:
  assumes "to_text parse (Raw_Val raw sp) = Inr t"
  shows "to_text parse (Raw_Val t sp') = Inr t \<and>
    (unresolved raw \<or> (\<exists>x. parse t = Inr x \<and> to_value parse (Raw_Val t sp') = Inr x))"
proof (cases "unresolved raw")
  case True
  then show ?thesis using assms by (simp add: to_text_def)
next
  case False
  then obtain x where t: "t = trim raw" "parse t = Inr x"
    using assms by (auto simp: to_text_def split: sum.splits)
  have "\<not> unresolved t" using False trim_sublist [of raw] t(1)
    by (auto simp: contains_str_sublist intro: sublist_order.order.trans)
  then show ?thesis using t by (simp add: to_text_def to_value_def trim_idem)
qed

lemma to_text_fixpoint_witness:
  "to_text parse_rate_bps (Raw_Val ''1gbit'' (0, 7)) = Inr ''1gbit''"
proof -
  have "to_text parse_rate_bps (Raw_Val '' 1gbit'' (0, 7)) = Inr ''1gbit''" by code_simp
  from to_text_fixpoint [OF this] show ?thesis by blast
qed

text \<open>
  The comment in \<open>parse_size\<close>'s sibling says the range check guarantees that the value fits; \<open>2^64\<close>
  itself passes it and is read as \<open>2^64 - 1\<close>.
\<close>

lemma size_saturates: "parse_size ''16777216t'' = Inr u64_max"
  by code_simp

end
