(* ===== verification/Nll_Ast.thy ===== *)
theory Nll_Ast
  imports Nll_Value
begin

text \<open>
  The syntax tree of the language, \<open>parser/nll/ast.rs\<close>: a struct is a record with the prefix of its
  name, an enum a datatype. The structs inside recursive enums (\<open>IfDef\<close>, \<open>SiteDef\<close>, the loops) are
  arguments of their constructors. The parser makes these trees; the lowering expands them.
\<close>

type_synonym duration_val = "nat val"
type_synonym percent_val = "f64 val"
type_synonym rate_val = "nat val"
type_synonym size_val = "nat val"
type_synonym packets_val = "nat val"
type_synonym seed_val = "u64 val"
type_synonym cpu_val = "f64 val"
type_synonym addr_val = "ip_or_cidr val"
type_synonym dest_val = "route_dest val"

datatype for_range =
    IntRange int int
  | DynRange string string
  | ListRange "string list"

subsection \<open>Files and the lab\<close>

record import_def =
  imp_path :: string
  imp_alias :: string
  imp_params :: "(string \<times> string) list"

record param_def =
  param_name :: string
  param_default :: "string option"

record ospf_def =
  od_area :: "string option"
  od_router_id :: "string option"
  od_passive :: "string list"
  od_hello :: "duration_val option"
  od_dead :: "duration_val option"
  od_redistribute :: "string list"

record bgp_neighbor_def =
  bnd_node :: string
  bnd_remote_as :: "string option"
  bnd_remote :: "string option"

record bgp_def =
  bd_asn :: string
  bd_router_id :: "string option"
  bd_neighbors :: "bgp_neighbor_def list"
  bd_networks :: "string list"
  bd_redistribute :: "string list"

record frr_def =
  fd_ospf :: "ospf_def option"
  fd_bgp :: "bgp_def option"

record lab_decl =
  ld_name :: string
  ld_description :: "string option"
  ld_prefix :: "string option"
  ld_runtime :: "string option"
  ld_version :: "string option"
  ld_author :: "string option"
  ld_tags :: "string list"
  ld_mgmt :: "string option"
  ld_mgmt_host_reachable :: bool
  ld_dns :: "string option"
  ld_routing :: "string option"
  ld_frr :: "frr_def option"
  ld_seed :: "seed_val option"

subsection \<open>Benchmarks, pools, assertions and patterns\<close>

record benchmark_assertion_def =
  bad_metric :: string
  bad_op :: string
  bad_value :: string

datatype benchmark_test_def =
    BT_Iperf3 string string "duration_val option" "u32 option" bool "rate_val option" "benchmark_assertion_def list"
  | BT_Ping string string "u32 option" "benchmark_assertion_def list"

record benchmark_def =
  bmd_name :: string
  bmd_tests :: "benchmark_test_def list"

record pool_def =
  pool_name :: string
  pool_base :: string
  pool_prefix :: u8

datatype assertion_def =
    AD_Reach string string
  | AD_NoReach string string
  | AD_TcpConnect string string u16 "duration_val option" "u32 option" "duration_val option"
  | AD_LatencyUnder string string duration_val "u32 option"
  | AD_RouteHas string string "string option" "string option"
  | AD_DnsResolves string string string
  | AD_Counter string string counter_metric compare_op u64

record validate_def =
  vd_assertions :: "assertion_def list"
  vd_retries :: "u32 option"
  vd_interval :: "duration_val option"

datatype pattern_kind = Pat_Mesh | Pat_Ring | Pat_Star string

record pattern_def =
  pat_kind :: pattern_kind
  pat_name :: string
  pat_nodes :: "string list"
  pat_count :: "int option"
  pat_pool :: "string option"
  pat_profile :: "string option"

subsection \<open>Traffic control\<close>

record loss_model_props =
  lm_kind :: string
  lm_values :: "percent_val list"

record impair_props =
  ip_delay :: "duration_val option"
  ip_jitter :: "duration_val option"
  ip_loss :: "percent_val option"
  ip_rate :: "rate_val option"
  ip_corrupt :: "percent_val option"
  ip_reorder :: "percent_val option"
  ip_duplicate :: "percent_val option"
  ip_delay_correlation :: "percent_val option"
  ip_loss_correlation :: "percent_val option"
  ip_limit :: "packets_val option"
  ip_seed :: "seed_val option"
  ip_loss_model :: "loss_model_props option"

record rate_props =
  rp_egress :: "rate_val option"
  rp_ingress :: "rate_val option"
  rp_burst :: "size_val option"

datatype defaults_kind = Def_Link | Def_Impair | Def_Rate | Def_Named string

record defaults_def =
  def_kind :: defaults_kind
  def_mtu :: "u32 option"
  def_impair :: "impair_props option"
  def_rate :: "rate_props option"

record impair_def =
  id_node :: string
  id_iface :: string
  id_props :: impair_props

record rate_def =
  rd_node :: string
  rd_iface :: string
  rd_props :: rate_props

datatype qdisc_kind_def =
    QD_Tbf rate_val size_val "size_val option" "rate_val option" "u32 option"
  | QD_FqCodel "duration_val option" "duration_val option" "u32 option" "u32 option" "u32 option" "bool option"
  | QD_Sfq "duration_val option" "u32 option" "u32 option"
  | QD_Prio "u8 option"

record qdisc_def =
  qd_node :: string
  qd_iface :: string
  qd_kind :: qdisc_kind_def

subsection \<open>Node properties\<close>

datatype ip_version = Ipv4 | Ipv6

record wifi_def =
  wfd_name :: string
  wfd_mode :: string
  wfd_ssid :: "string option"
  wfd_channel :: "u32 option"
  wfd_passphrase :: "string option"
  wfd_mesh_id :: "string option"
  wfd_addresses :: "string list"

record macvlan_def =
  mvd_name :: string
  mvd_parent :: string
  mvd_mode :: "string option"
  mvd_addresses :: "string list"

record ipvlan_def =
  ivd_name :: string
  ivd_parent :: string
  ivd_mode :: "string option"
  ivd_addresses :: "string list"

record route_def =
  rtd_destination :: dest_val
  rtd_via :: "addr_val option"
  rtd_dev :: "string option"
  rtd_metric :: "u32 option"

record firewall_set_def =
  fsd_name :: string
  fsd_key :: "set_key list"
  fsd_elements :: "string list"
  fsd_size :: "u32 option"
  fsd_timeout :: "string option"
  fsd_dynamic :: bool

record firewall_rule_def =
  frd_action :: string
  frd_reject_with :: "reject_with option"
  frd_match_expr :: string
  frd_limit :: "firewall_limit option"
  frd_counter :: bool
  frd_counter_name :: "string option"
  frd_log :: "firewall_log option"
  frd_set_mark :: "mark_value option"
  frd_ct_mark :: "ct_mark_action option"
  frd_classify :: "string option"
  frd_clamp_mss :: "mss_clamp option"

record firewall_chain_def =
  fcd_chain :: string
  fcd_policy :: "string option"
  fcd_rules :: "firewall_rule_def list"

record firewall_def =
  fwd_chains :: "firewall_chain_def list"
  fwd_sets :: "firewall_set_def list"

record nat_rule_def =
  nrd_action :: string
  nrd_src :: "addr_val option"
  nrd_dst :: "addr_val option"
  nrd_target :: "addr_val option"
  nrd_target_port :: "u16 option"
  nrd_proto :: "nat_proto option"
  nrd_dport :: "u16 option"
  nrd_iif :: "string option"
  nrd_oif :: "string option"
  nrd_target_end :: "addr_val option"
  nrd_target_port_end :: "u16 option"
  nrd_flags :: "nat_flag list"

datatype nat_item =
    Nat_Rule nat_rule_def
  | Nat_For string for_range "nat_item list"

record vrf_def =
  vrd_name :: string
  vrd_table :: u32
  vrd_interfaces :: "string list"
  vrd_routes :: "route_def list"

record wireguard_peer_def =
  wpd_name :: string
  wpd_endpoint :: "string option"
  wpd_allowed_ips :: "string list"

record wireguard_def =
  wgd_name :: string
  wgd_key :: "string option"
  wgd_listen_port :: "u16 option"
  wgd_fwmark :: "u32 option"
  wgd_addresses :: "string list"
  wgd_peers :: "string list"
  wgd_peer_settings :: "wireguard_peer_def list"

record vxlan_def =
  vxd_name :: string
  vxd_vni :: "u32 option"
  vxd_local :: "string option"
  vxd_remote :: "string option"
  vxd_port :: "u16 option"
  vxd_underlay :: "string option"
  vxd_addresses :: "string list"

record dummy_def =
  dmd_name :: string
  dmd_addresses :: "string list"

record bond_def =
  bod_name :: string
  bod_members :: "string list"
  bod_options :: bond_options
  bod_addresses :: "string list"

record vlan_iface_def =
  vid_name :: string
  vid_parent :: string
  vid_id :: u16
  vid_protocol :: "vlan_protocol option"
  vid_addresses :: "string list"

record run_def =
  run_cmd :: "string list"
  run_background :: bool

datatype node_prop =
    Prop_Forward ip_version
  | Prop_Sysctl string string
  | Prop_Lo string
  | Prop_Route route_def
  | Prop_Firewall firewall_def
  | Prop_Nat "nat_item list"
  | Prop_Vrf vrf_def
  | Prop_Wireguard wireguard_def
  | Prop_Vxlan vxlan_def
  | Prop_Dummy dummy_def
  | Prop_Bond bond_def
  | Prop_VlanIface vlan_iface_def
  | Prop_Macvlan macvlan_def
  | Prop_Ipvlan ipvlan_def
  | Prop_Wifi wifi_def
  | Prop_Run run_def
  | Prop_Frr frr_def
  | Prop_For string for_range "node_prop list"

record profile_def =
  pfd_name :: string
  pfd_props :: "node_prop list"

record node_def =
  nd_name :: string
  nd_profiles :: "string list"
  nd_image :: "string option"
  nd_cmd :: "string list option"
  nd_env :: "string list"
  nd_volumes :: "string list"
  nd_cpu :: "cpu_val option"
  nd_memory :: "size_val option"
  nd_privileged :: bool
  nd_cap_add :: "string list"
  nd_cap_drop :: "string list"
  nd_entrypoint :: "string option"
  nd_hostname :: "string option"
  nd_workdir :: "string option"
  nd_labels :: "string list"
  nd_pull :: "string option"
  nd_container_exec :: "string list"
  nd_healthcheck :: "string option"
  nd_healthcheck_interval :: "duration_val option"
  nd_healthcheck_timeout :: "duration_val option"
  nd_healthcheck_retries :: "u32 option"
  nd_startup_delay :: "duration_val option"
  nd_env_file :: "string option"
  nd_configs :: "(string \<times> string) list"
  nd_overlay :: "string option"
  nd_depends_on :: "string list"
  nd_props :: "node_prop list"
  nd_foreign :: "foreign option"

subsection \<open>Links and networks\<close>

record link_def =
  lk_left_node :: string
  lk_left_iface :: string
  lk_right_node :: string
  lk_right_iface :: string
  lk_left_addr :: "string option"
  lk_right_addr :: "string option"
  lk_subnet :: "string option"
  lk_pool :: "string option"
  lk_mtu :: "u32 option"
  lk_impairment :: "impair_props option"
  lk_left_impair :: "impair_props option"
  lk_right_impair :: "impair_props option"
  lk_rate :: "rate_props option"
  lk_profile :: "string option"

record network_impair_def =
  nid_src :: string
  nid_dst :: string
  nid_props :: impair_props
  nid_rate_cap :: "rate_val option"

datatype network_for_loop =
  Network_For (nfl_var: string) (nfl_range: for_range) (nfl_impairments: "network_impair_def list")
    (nfl_loops: "network_for_loop list")

record vlan_def =
  vld_id :: u16
  vld_name :: "string option"

record port_def =
  ptd_endpoint :: string
  ptd_pvid :: "u16 option"
  ptd_vlans :: "u16 list"
  ptd_tagged :: bool
  ptd_untagged :: bool
  ptd_addresses :: "string list"

record network_def =
  nwd_name :: string
  nwd_members :: "string list"
  nwd_vlan_filtering :: bool
  nwd_mtu :: "u32 option"
  nwd_subnet :: "string option"
  nwd_vlans :: "vlan_def list"
  nwd_ports :: "port_def list"
  nwd_impairments :: "network_impair_def list"
  nwd_loops :: "network_for_loop list"

subsection \<open>Scenarios and statements\<close>

datatype replay_target_def = RT_Endpoint string | RT_Pair string string string

datatype scenario_action_def =
    SA_Down string
  | SA_Up string
  | SA_Clear string
  | SA_Validate "assertion_def list"
  | SA_Exec string "string list"
  | SA_Log string
  | SA_Impair string impair_props
  | SA_Partition string bool
  | SA_Heal string bool
  | SA_PairImpair string network_impair_def
  | SA_Replay replay_target_def string "duration_val option" bool "string option"

record scenario_step_def =
  ssd_time :: duration_val
  ssd_actions :: "scenario_action_def list"

record scenario_def =
  scd_name :: string
  scd_keep :: bool
  scd_steps :: "scenario_step_def list"

record let_def =
  let_name :: string
  let_value :: string

datatype statement =
    St_Profile profile_def
  | St_Node node_def
  | St_Link link_def
  | St_Network network_def
  | St_Impair impair_def
  | St_Rate rate_def
  | St_Qdisc qdisc_def
  | St_Defaults defaults_def
  | St_Param param_def
  | St_Pool pool_def
  | St_Pattern pattern_def
  | St_Validate validate_def
  | St_Let let_def
  | St_For string for_range "statement list"
  | St_Scenario scenario_def
  | St_Benchmark benchmark_def
  | St_Site string "string option" "statement list"
  | St_If string "statement list"

record nll_file =
  file_imports :: "import_def list"
  file_lab :: lab_decl
  file_statements :: "statement list"

subsection \<open>Overlays\<close>

text \<open>\<open>overlay\<close>: theirs wins when set.\<close>

definition overlay :: "'a option \<Rightarrow> 'a option \<Rightarrow> 'a option" where
  "overlay mine theirs = (if theirs = None then mine else theirs)"

definition impair_merge :: "impair_props \<Rightarrow> impair_props \<Rightarrow> impair_props" where
  "impair_merge a b =
     (let lm = (if ip_loss b \<noteq> None then None else ip_loss_model a);
          ls = (if ip_loss_model b \<noteq> None then None else ip_loss a) in
      \<lparr>ip_delay = overlay (ip_delay a) (ip_delay b),
       ip_jitter = overlay (ip_jitter a) (ip_jitter b),
       ip_loss = overlay ls (ip_loss b),
       ip_rate = overlay (ip_rate a) (ip_rate b),
       ip_corrupt = overlay (ip_corrupt a) (ip_corrupt b),
       ip_reorder = overlay (ip_reorder a) (ip_reorder b),
       ip_duplicate = overlay (ip_duplicate a) (ip_duplicate b),
       ip_delay_correlation = overlay (ip_delay_correlation a) (ip_delay_correlation b),
       ip_loss_correlation = overlay (ip_loss_correlation a) (ip_loss_correlation b),
       ip_limit = overlay (ip_limit a) (ip_limit b),
       ip_seed = overlay (ip_seed a) (ip_seed b),
       ip_loss_model = overlay lm (ip_loss_model b)\<rparr>)"

definition rate_merge :: "rate_props \<Rightarrow> rate_props \<Rightarrow> rate_props" where
  "rate_merge a b =
     \<lparr>rp_egress = overlay (rp_egress a) (rp_egress b),
      rp_ingress = overlay (rp_ingress a) (rp_ingress b),
      rp_burst = overlay (rp_burst a) (rp_burst b)\<rparr>"

end
