(* ===== verification/Nll_Expand.thy ===== *)
theory Nll_Expand
  imports Nll_Ast Subnet_Assign
begin

text \<open>
  Expansion of a syntax tree, \<open>parser/nll/lower.rs\<close>: interpolation of every statement with the variables
  of its scope, the values of \<open>for\<close> ranges, the loops inside nodes, \<open>nat\<close> blocks and networks, the
  prefixes of a \<open>site\<close>, and \<open>expand_into\<close>, which flattens \<open>for\<close>, \<open>let\<close>, \<open>if\<close> and \<open>site\<close> into concrete
  statements. The map of sites, a \<open>RefCell\<close> in the code, is threaded through the expansion.
\<close>

datatype lower_error =
    Missing_Param string
  | Invalid_Loops "string list"
  | Empty_Range string
  | Empty_List string
  | Range_Too_Long string int
  | Bad_Bound string
  | Undefined_Profiles "(string \<times> string) list"
  | Bad_Value val_error
  | Pool_Base string helper_error
  | Pool_Prefix string
  | Duplicate_Pool string
  | Pool_Exhausted string
  | Cannot_Split string
  | Unknown_Keyword string
  | Bad_Ospf_Time span
  | Bad_Asn string
  | Bad_Env string string
  | Duplicate_Node string
  | Undefined_Profile string string
  | Undefined_Pool string
  | Bad_Count string int
  | Port_Not_Member string string
  | Port_Ambiguous string string
  | Duplicate_Port string string
  | Assign_Failed string assign_error
  | Duplicate_Network string
  | Dir_On_Pair string
  | Zero_Step
  | Translate_Ranges string
  | Translate_Cidr string string
  | Translate_Families string
  | Circular_Import string
  | Unreadable_Import string
  | Bad_Import string
  | Import_Without_Base

subsection \<open>Interpolation\<close>

definition itp :: "string \<Rightarrow> vars \<Rightarrow> string" where
  "itp s vars = interpolate s vars"

definition io :: "string option \<Rightarrow> vars \<Rightarrow> string option" where
  "io s vars = map_option (\<lambda>s. interpolate s vars) s"

definition iv :: "'a val option \<Rightarrow> vars \<Rightarrow> 'a val option" where
  "iv v vars = map_option (val_interp vars) v"

definition il :: "string list \<Rightarrow> vars \<Rightarrow> string list" where
  "il ss vars = map (\<lambda>s. itp s vars) ss"

definition interpolate_assertion :: "vars \<Rightarrow> assertion_def \<Rightarrow> assertion_def" where
  "interpolate_assertion vars a =
     (case a of
        AD_Reach from to \<Rightarrow> AD_Reach (itp from vars) (itp to vars)
      | AD_NoReach from to \<Rightarrow> AD_NoReach (itp from vars) (itp to vars)
      | AD_TcpConnect from to port timeout retries interval \<Rightarrow>
          AD_TcpConnect (itp from vars) (itp to vars) port (iv timeout vars) retries (iv interval vars)
      | AD_LatencyUnder from to mx samples \<Rightarrow> AD_LatencyUnder (itp from vars) (itp to vars) (val_interp vars mx) samples
      | AD_RouteHas node destination via dev \<Rightarrow>
          AD_RouteHas (itp node vars) (itp destination vars) (io via vars) (io dev vars)
      | AD_DnsResolves from name expected \<Rightarrow> AD_DnsResolves (itp from vars) (itp name vars) (itp expected vars)
      | AD_Counter node name metric op val \<Rightarrow> AD_Counter (itp node vars) (itp name vars) metric op val)"

definition interpolate_impair_props :: "vars \<Rightarrow> impair_props \<Rightarrow> impair_props" where
  "interpolate_impair_props vars p =
     \<lparr>ip_delay = iv (ip_delay p) vars, ip_jitter = iv (ip_jitter p) vars, ip_loss = iv (ip_loss p) vars,
      ip_rate = iv (ip_rate p) vars, ip_corrupt = iv (ip_corrupt p) vars, ip_reorder = iv (ip_reorder p) vars,
      ip_duplicate = iv (ip_duplicate p) vars, ip_delay_correlation = iv (ip_delay_correlation p) vars,
      ip_loss_correlation = iv (ip_loss_correlation p) vars, ip_limit = iv (ip_limit p) vars,
      ip_seed = iv (ip_seed p) vars,
      ip_loss_model = map_option (\<lambda>m. m\<lparr>lm_values := map (val_interp vars) (lm_values m)\<rparr>) (ip_loss_model p)\<rparr>"

definition interpolate_rate_props :: "vars \<Rightarrow> rate_props \<Rightarrow> rate_props" where
  "interpolate_rate_props vars p =
     \<lparr>rp_egress = iv (rp_egress p) vars, rp_ingress = iv (rp_ingress p) vars, rp_burst = iv (rp_burst p) vars\<rparr>"

definition interpolate_route :: "vars \<Rightarrow> route_def \<Rightarrow> route_def" where
  "interpolate_route vars r =
     r\<lparr>rtd_destination := val_interp vars (rtd_destination r), rtd_via := iv (rtd_via r) vars, rtd_dev := io (rtd_dev r) vars\<rparr>"

definition interpolate_vrf :: "vars \<Rightarrow> vrf_def \<Rightarrow> vrf_def" where
  "interpolate_vrf vars v =
     v\<lparr>vrd_name := itp (vrd_name v) vars, vrd_interfaces := il (vrd_interfaces v) vars,
       vrd_routes := map (interpolate_route vars) (vrd_routes v)\<rparr>"

definition interpolate_wg :: "vars \<Rightarrow> wireguard_def \<Rightarrow> wireguard_def" where
  "interpolate_wg vars wg =
     wg\<lparr>wgd_name := itp (wgd_name wg) vars, wgd_addresses := il (wgd_addresses wg) vars,
        wgd_peers := il (wgd_peers wg) vars,
        wgd_peer_settings := map (\<lambda>p.
          \<lparr>wpd_name = itp (wpd_name p) vars, wpd_endpoint = io (wpd_endpoint p) vars,
           wpd_allowed_ips = il (wpd_allowed_ips p) vars\<rparr>) (wgd_peer_settings wg)\<rparr>"

definition interpolate_vxlan :: "vars \<Rightarrow> vxlan_def \<Rightarrow> vxlan_def" where
  "interpolate_vxlan vars vx =
     vx\<lparr>vxd_name := itp (vxd_name vx) vars, vxd_local := io (vxd_local vx) vars, vxd_remote := io (vxd_remote vx) vars,
        vxd_underlay := io (vxd_underlay vx) vars, vxd_addresses := il (vxd_addresses vx) vars\<rparr>"

definition interpolate_firewall :: "vars \<Rightarrow> firewall_def \<Rightarrow> firewall_def" where
  "interpolate_firewall vars fw =
     \<lparr>fwd_chains = map (\<lambda>c. c\<lparr>fcd_rules := map (\<lambda>r.
          r\<lparr>frd_match_expr := itp (frd_match_expr r) vars, frd_counter_name := io (frd_counter_name r) vars,
            frd_log := map_option (\<lambda>l. l\<lparr>flog_prefix := io (flog_prefix l) vars\<rparr>) (frd_log r)\<rparr>) (fcd_rules c)\<rparr>)
        (fwd_chains fw),
      fwd_sets = map (\<lambda>s. s\<lparr>fsd_elements := il (fsd_elements s) vars\<rparr>) (fwd_sets fw)\<rparr>"

definition interpolate_nat_rule :: "vars \<Rightarrow> nat_rule_def \<Rightarrow> nat_rule_def" where
  "interpolate_nat_rule vars r =
     r\<lparr>nrd_src := iv (nrd_src r) vars, nrd_dst := iv (nrd_dst r) vars, nrd_target := iv (nrd_target r) vars,
       nrd_iif := io (nrd_iif r) vars, nrd_oif := io (nrd_oif r) vars, nrd_target_end := iv (nrd_target_end r) vars\<rparr>"

fun interpolate_nat_item :: "vars \<Rightarrow> nat_item \<Rightarrow> nat_item" where
  "interpolate_nat_item vars (Nat_Rule r) = Nat_Rule (interpolate_nat_rule vars r)"
| "interpolate_nat_item vars (Nat_For v rng body) = Nat_For v rng (map (interpolate_nat_item vars) body)"

definition interpolate_nat :: "vars \<Rightarrow> nat_item list \<Rightarrow> nat_item list" where
  "interpolate_nat vars items = map (interpolate_nat_item vars) items"

definition interpolate_frr :: "vars \<Rightarrow> frr_def \<Rightarrow> frr_def" where
  "interpolate_frr vars f =
     \<lparr>fd_ospf = map_option (\<lambda>o'.
        \<lparr>od_area = io (od_area o') vars, od_router_id = io (od_router_id o') vars, od_passive = il (od_passive o') vars,
         od_hello = iv (od_hello o') vars, od_dead = iv (od_dead o') vars,
         od_redistribute = il (od_redistribute o') vars\<rparr>) (fd_ospf f),
      fd_bgp = map_option (\<lambda>b.
        \<lparr>bd_asn = itp (bd_asn b) vars, bd_router_id = io (bd_router_id b) vars,
         bd_neighbors = map (\<lambda>n. \<lparr>bnd_node = itp (bnd_node n) vars, bnd_remote_as = io (bnd_remote_as n) vars,
           bnd_remote = io (bnd_remote n) vars\<rparr>) (bd_neighbors b),
         bd_networks = il (bd_networks b) vars, bd_redistribute = il (bd_redistribute b) vars\<rparr>) (fd_bgp f)\<rparr>"

definition interpolate_range :: "vars \<Rightarrow> for_range \<Rightarrow> for_range" where
  "interpolate_range vars r =
     (case r of
        ListRange items \<Rightarrow> ListRange (il items vars)
      | DynRange a b \<Rightarrow> DynRange (itp a vars) (itp b vars)
      | IntRange a b \<Rightarrow> IntRange a b)"

fun interpolate_prop :: "vars \<Rightarrow> node_prop \<Rightarrow> node_prop" where
  "interpolate_prop vars (Prop_Forward v) = Prop_Forward v"
| "interpolate_prop vars (Prop_Sysctl k v) = Prop_Sysctl (itp k vars) (itp v vars)"
| "interpolate_prop vars (Prop_Lo addr) = Prop_Lo (itp addr vars)"
| "interpolate_prop vars (Prop_Route r) = Prop_Route (interpolate_route vars r)"
| "interpolate_prop vars (Prop_Firewall fw) = Prop_Firewall (interpolate_firewall vars fw)"
| "interpolate_prop vars (Prop_Nat n) = Prop_Nat (interpolate_nat vars n)"
| "interpolate_prop vars (Prop_Vrf v) = Prop_Vrf (interpolate_vrf vars v)"
| "interpolate_prop vars (Prop_Wireguard wg) = Prop_Wireguard (interpolate_wg vars wg)"
| "interpolate_prop vars (Prop_Vxlan vx) = Prop_Vxlan (interpolate_vxlan vars vx)"
| "interpolate_prop vars (Prop_Dummy d) =
     Prop_Dummy \<lparr>dmd_name = itp (dmd_name d) vars, dmd_addresses = il (dmd_addresses d) vars\<rparr>"
| "interpolate_prop vars (Prop_Bond b) =
     Prop_Bond (b\<lparr>bod_name := itp (bod_name b) vars, bod_members := il (bod_members b) vars,
       bod_addresses := il (bod_addresses b) vars\<rparr>)"
| "interpolate_prop vars (Prop_VlanIface v) =
     Prop_VlanIface (v\<lparr>vid_name := itp (vid_name v) vars, vid_parent := itp (vid_parent v) vars,
       vid_addresses := il (vid_addresses v) vars\<rparr>)"
| "interpolate_prop vars (Prop_Macvlan m) =
     Prop_Macvlan \<lparr>mvd_name = itp (mvd_name m) vars, mvd_parent = itp (mvd_parent m) vars,
       mvd_mode = io (mvd_mode m) vars, mvd_addresses = il (mvd_addresses m) vars\<rparr>"
| "interpolate_prop vars (Prop_Ipvlan m) =
     Prop_Ipvlan \<lparr>ivd_name = itp (ivd_name m) vars, ivd_parent = itp (ivd_parent m) vars,
       ivd_mode = io (ivd_mode m) vars, ivd_addresses = il (ivd_addresses m) vars\<rparr>"
| "interpolate_prop vars (Prop_Wifi w) =
     Prop_Wifi (w\<lparr>wfd_name := itp (wfd_name w) vars, wfd_ssid := io (wfd_ssid w) vars,
       wfd_passphrase := io (wfd_passphrase w) vars, wfd_mesh_id := io (wfd_mesh_id w) vars,
       wfd_addresses := il (wfd_addresses w) vars\<rparr>)"
| "interpolate_prop vars (Prop_Run r) = Prop_Run (r\<lparr>run_cmd := il (run_cmd r) vars\<rparr>)"
| "interpolate_prop vars (Prop_Frr f) = Prop_Frr (interpolate_frr vars f)"
| "interpolate_prop vars (Prop_For v rng body) =
     Prop_For v (interpolate_range vars rng) (map (interpolate_prop vars) body)"

definition interpolate_foreign :: "vars \<Rightarrow> foreign \<Rightarrow> foreign" where
  "interpolate_foreign vars f =
     f\<lparr>foreign_target_of := (case foreign_target_of f of
        Netns s \<Rightarrow> Netns (itp s vars) | Container s \<Rightarrow> Container (itp s vars) | Tap s \<Rightarrow> Tap (itp s vars))\<rparr>"

definition interpolate_node :: "vars \<Rightarrow> node_def \<Rightarrow> node_def" where
  "interpolate_node vars n =
     \<lparr>nd_name = itp (nd_name n) vars,
      nd_profiles = il (nd_profiles n) vars,
      nd_image = io (nd_image n) vars,
      nd_cmd = map_option (\<lambda>c. il c vars) (nd_cmd n),
      nd_env = il (nd_env n) vars,
      nd_volumes = il (nd_volumes n) vars,
      nd_cpu = iv (nd_cpu n) vars,
      nd_memory = iv (nd_memory n) vars,
      nd_privileged = nd_privileged n,
      nd_cap_add = il (nd_cap_add n) vars,
      nd_cap_drop = il (nd_cap_drop n) vars,
      nd_entrypoint = io (nd_entrypoint n) vars,
      nd_hostname = io (nd_hostname n) vars,
      nd_workdir = io (nd_workdir n) vars,
      nd_labels = il (nd_labels n) vars,
      nd_pull = io (nd_pull n) vars,
      nd_container_exec = il (nd_container_exec n) vars,
      nd_healthcheck = io (nd_healthcheck n) vars,
      nd_healthcheck_interval = iv (nd_healthcheck_interval n) vars,
      nd_healthcheck_timeout = iv (nd_healthcheck_timeout n) vars,
      nd_healthcheck_retries = nd_healthcheck_retries n,
      nd_startup_delay = iv (nd_startup_delay n) vars,
      nd_env_file = io (nd_env_file n) vars,
      nd_configs = map (\<lambda>(h, c). (itp h vars, itp c vars)) (nd_configs n),
      nd_overlay = io (nd_overlay n) vars,
      nd_depends_on = il (nd_depends_on n) vars,
      nd_props = map (interpolate_prop vars) (nd_props n),
      nd_foreign = map_option (interpolate_foreign vars) (nd_foreign n)\<rparr>"

definition interpolate_link :: "vars \<Rightarrow> link_def \<Rightarrow> link_def" where
  "interpolate_link vars l =
     l\<lparr>lk_left_node := itp (lk_left_node l) vars, lk_left_iface := itp (lk_left_iface l) vars,
       lk_right_node := itp (lk_right_node l) vars, lk_right_iface := itp (lk_right_iface l) vars,
       lk_left_addr := io (lk_left_addr l) vars, lk_right_addr := io (lk_right_addr l) vars,
       lk_subnet := io (lk_subnet l) vars,
       lk_impairment := map_option (interpolate_impair_props vars) (lk_impairment l),
       lk_left_impair := map_option (interpolate_impair_props vars) (lk_left_impair l),
       lk_right_impair := map_option (interpolate_impair_props vars) (lk_right_impair l),
       lk_rate := map_option (interpolate_rate_props vars) (lk_rate l)\<rparr>"

definition interpolate_network_impair :: "vars \<Rightarrow> network_impair_def \<Rightarrow> network_impair_def" where
  "interpolate_network_impair vars imp =
     \<lparr>nid_src = itp (nid_src imp) vars, nid_dst = itp (nid_dst imp) vars,
      nid_props = interpolate_impair_props vars (nid_props imp), nid_rate_cap = iv (nid_rate_cap imp) vars\<rparr>"

fun interpolate_network_loop :: "vars \<Rightarrow> network_for_loop \<Rightarrow> network_for_loop" where
  "interpolate_network_loop vars (Network_For v rng imps loops) =
     Network_For v rng (map (interpolate_network_impair vars) imps) (map (interpolate_network_loop vars) loops)"

definition interpolate_network :: "vars \<Rightarrow> network_def \<Rightarrow> network_def" where
  "interpolate_network vars n =
     n\<lparr>nwd_name := itp (nwd_name n) vars, nwd_members := il (nwd_members n) vars, nwd_subnet := io (nwd_subnet n) vars,
       nwd_ports := map (\<lambda>p. p\<lparr>ptd_endpoint := itp (ptd_endpoint p) vars, ptd_addresses := il (ptd_addresses p) vars\<rparr>)
         (nwd_ports n),
       nwd_impairments := map (interpolate_network_impair vars) (nwd_impairments n),
       nwd_loops := map (interpolate_network_loop vars) (nwd_loops n)\<rparr>"

definition interpolate_impair_def :: "vars \<Rightarrow> impair_def \<Rightarrow> impair_def" where
  "interpolate_impair_def vars d =
     \<lparr>id_node = itp (id_node d) vars, id_iface = itp (id_iface d) vars, id_props = interpolate_impair_props vars (id_props d)\<rparr>"

definition interpolate_rate_def :: "vars \<Rightarrow> rate_def \<Rightarrow> rate_def" where
  "interpolate_rate_def vars d =
     \<lparr>rd_node = itp (rd_node d) vars, rd_iface = itp (rd_iface d) vars, rd_props = interpolate_rate_props vars (rd_props d)\<rparr>"

definition interpolate_qdisc_def :: "vars \<Rightarrow> qdisc_def \<Rightarrow> qdisc_def" where
  "interpolate_qdisc_def vars q =
     \<lparr>qd_node = itp (qd_node q) vars, qd_iface = itp (qd_iface q) vars,
      qd_kind = (case qd_kind q of
         QD_Tbf rate burst limit peakrate mtu \<Rightarrow>
           QD_Tbf (val_interp vars rate) (val_interp vars burst) (iv limit vars) (iv peakrate vars) mtu
       | QD_FqCodel target interval limit flows quantum ecn \<Rightarrow>
           QD_FqCodel (iv target vars) (iv interval vars) limit flows quantum ecn
       | QD_Sfq perturb limit quantum \<Rightarrow> QD_Sfq (iv perturb vars) limit quantum
       | QD_Prio bands \<Rightarrow> QD_Prio bands)\<rparr>"

definition interpolate_action :: "vars \<Rightarrow> scenario_action_def \<Rightarrow> scenario_action_def" where
  "interpolate_action vars a =
     (case a of
        SA_Down ep \<Rightarrow> SA_Down (itp ep vars)
      | SA_Up ep \<Rightarrow> SA_Up (itp ep vars)
      | SA_Clear ep \<Rightarrow> SA_Clear (itp ep vars)
      | SA_Validate as \<Rightarrow> SA_Validate (map (interpolate_assertion vars) as)
      | SA_Exec node cmd \<Rightarrow> SA_Exec (itp node vars) (il cmd vars)
      | SA_Log m \<Rightarrow> SA_Log (itp m vars)
      | SA_Impair ep props \<Rightarrow> SA_Impair (itp ep vars) (interpolate_impair_props vars props)
      | SA_Partition ep both \<Rightarrow> SA_Partition (itp ep vars) both
      | SA_Heal ep both \<Rightarrow> SA_Heal (itp ep vars) both
      | SA_PairImpair network rule \<Rightarrow> SA_PairImpair (itp network vars) (interpolate_network_impair vars rule)
      | SA_Replay target file' step looped dir \<Rightarrow>
          SA_Replay
            (case target of
               RT_Endpoint ep \<Rightarrow> RT_Endpoint (itp ep vars)
             | RT_Pair network src dst \<Rightarrow> RT_Pair (itp network vars) (itp src vars) (itp dst vars))
            (itp file' vars) (iv step vars) looped (io dir vars))"

definition interpolate_benchmark_test :: "vars \<Rightarrow> benchmark_test_def \<Rightarrow> benchmark_test_def" where
  "interpolate_benchmark_test vars t =
     (case t of
        BT_Iperf3 from to duration streams udp rate as \<Rightarrow>
          BT_Iperf3 (itp from vars) (itp to vars) (iv duration vars) streams udp (iv rate vars) as
      | BT_Ping from to count as \<Rightarrow> BT_Ping (itp from vars) (itp to vars) count as)"

definition interpolate_statement :: "vars \<Rightarrow> statement \<Rightarrow> statement" where
  "interpolate_statement vars st =
     (case st of
        St_Node n \<Rightarrow> St_Node (interpolate_node vars n)
      | St_Link l \<Rightarrow> St_Link (interpolate_link vars l)
      | St_Network n \<Rightarrow> St_Network (interpolate_network vars n)
      | St_Impair d \<Rightarrow> St_Impair (interpolate_impair_def vars d)
      | St_Rate d \<Rightarrow> St_Rate (interpolate_rate_def vars d)
      | St_Qdisc q \<Rightarrow> St_Qdisc (interpolate_qdisc_def vars q)
      | St_Profile p \<Rightarrow>
          St_Profile \<lparr>pfd_name = itp (pfd_name p) vars, pfd_props = map (interpolate_prop vars) (pfd_props p)\<rparr>
      | St_Pattern p \<Rightarrow>
          St_Pattern (p\<lparr>pat_kind := (case pat_kind p of Pat_Star hub \<Rightarrow> Pat_Star (itp hub vars) | k \<Rightarrow> k),
            pat_name := itp (pat_name p) vars, pat_nodes := il (pat_nodes p) vars,
            pat_pool := io (pat_pool p) vars, pat_profile := io (pat_profile p) vars\<rparr>)
      | St_Validate v \<Rightarrow> St_Validate (v\<lparr>vd_assertions := map (interpolate_assertion vars) (vd_assertions v)\<rparr>)
      | St_Scenario sc \<Rightarrow>
          St_Scenario (sc\<lparr>scd_name := itp (scd_name sc) vars,
            scd_steps := map (\<lambda>s. \<lparr>ssd_time = val_interp vars (ssd_time s),
              ssd_actions = map (interpolate_action vars) (ssd_actions s)\<rparr>) (scd_steps sc)\<rparr>)
      | St_Benchmark b \<Rightarrow>
          St_Benchmark \<lparr>bmd_name = itp (bmd_name b) vars, bmd_tests = map (interpolate_benchmark_test vars) (bmd_tests b)\<rparr>
      | _ \<Rightarrow> st)"

subsection \<open>Ranges\<close>

definition MAX_LOOP_ITERATIONS :: int where "MAX_LOOP_ITERATIONS = 100000"

definition int_range_values :: "string \<Rightarrow> int \<Rightarrow> int \<Rightarrow> (lower_error, string list) result" where
  "int_range_values v a b =
     (if b < a then Inl (Empty_Range v)
      else if MAX_LOOP_ITERATIONS < b - a + 1 then Inl (Range_Too_Long v (b - a + 1))
      else Inr (map show_int [a..b]))"

definition range_bound :: "string \<Rightarrow> vars \<Rightarrow> string \<Rightarrow> (lower_error, int) result" where
  "range_bound v vars raw = ok_or (parse_i64 (trim (interpolate raw vars))) (Bad_Bound v)"

definition range_values :: "for_range \<Rightarrow> string \<Rightarrow> vars \<Rightarrow> (lower_error, string list) result" where
  "range_values rng v vars =
     (case rng of
        DynRange a b \<Rightarrow>
          and_then (range_bound v vars a) (\<lambda>x. and_then (range_bound v vars b) (\<lambda>y. int_range_values v x y))
      | IntRange a b \<Rightarrow> int_range_values v a b
      | ListRange items \<Rightarrow> if items = [] then Inl (Empty_List v) else Inr items)"

definition show_bool :: "bool \<Rightarrow> string" where
  "show_bool b = (if b then ''true'' else ''false'')"

text \<open>The scope of one iteration: the variable and \<open>loop.index\<close>, \<open>loop.first\<close>, \<open>loop.last\<close>.\<close>

definition loop_vars :: "string \<Rightarrow> nat \<Rightarrow> vars \<Rightarrow> nat \<times> string \<Rightarrow> vars" where
  "loop_vars v len vars = (\<lambda>(idx, x).
     bm_insert ''loop.last'' (show_bool (idx + 1 = len))
      (bm_insert ''loop.first'' (show_bool (idx = 0))
       (bm_insert ''loop.index'' (show_nat idx)
        (bm_insert v x vars))))"

definition for_each_value ::
  "string \<Rightarrow> for_range \<Rightarrow> vars \<Rightarrow> (vars \<Rightarrow> (lower_error, 'a list) result) \<Rightarrow> (lower_error, 'a list) result" where
  "for_each_value v rng vars body =
     and_then (range_values rng v vars) (\<lambda>vs.
     and_then (traverse (\<lambda>x. body (loop_vars v (length vs) vars x)) (enumerate 0 vs)) (\<lambda>out. Inr (concat out)))"

lemma and_then_cong [fundef_cong]:
  "r = r' \<Longrightarrow> (\<And>a. r' = Inr a \<Longrightarrow> f a = g a) \<Longrightarrow> and_then r f = and_then r' g"
  by (cases r') simp_all

lemma traverse_cong [fundef_cong]:
  "xs = ys \<Longrightarrow> (\<And>x. x \<in> set ys \<Longrightarrow> f x = g x) \<Longrightarrow> traverse f xs = traverse g ys"
  by (induction ys arbitrary: xs) auto

lemma for_each_value_cong [fundef_cong]:
  "v = v' \<Longrightarrow> rng = rng' \<Longrightarrow> vars = vars' \<Longrightarrow> (\<And>inner. body inner = body' inner) \<Longrightarrow>
   for_each_value v rng vars body = for_each_value v' rng' vars' body'"
  by (simp add: for_each_value_def)

definition expand_list_for :: "string \<Rightarrow> for_range \<Rightarrow> string \<Rightarrow> (lower_error, string list) result" where
  "expand_list_for v rng template =
     (case rng of
        DynRange _ _ \<Rightarrow> Inl (Bad_Bound v)
      | _ \<Rightarrow> for_each_value v rng bm_empty (\<lambda>inner. Inr [interpolate template inner]))"

end
