(* ===== verification/Nll_Scope.thy ===== *)
theory Nll_Scope
  imports Nll_Expand
begin

text \<open>
  The second half of the expansion of \<open>parser/nll/lower.rs\<close>: the loops inside blocks, the name
  prefixes of a \<open>site\<close>, and \<open>expand_into\<close> with its scoping. The theorems say that the result holds only
  concrete statements, that a block leaves the variables of its scope as they were, and that a
  site renames every reference to a node the way it renames the nodes.
\<close>

subsection \<open>Loops inside blocks\<close>

function expand_network_impairs ::
  "network_impair_def list \<Rightarrow> network_for_loop list \<Rightarrow> vars \<Rightarrow> (lower_error, network_impair_def list) result" where
  "expand_network_impairs imps loops vars =
     and_then (traverse (\<lambda>l. for_each_value (nfl_var l) (nfl_range l) vars
         (\<lambda>inner. expand_network_impairs (nfl_impairments l) (nfl_loops l) inner)) loops)
       (\<lambda>out. Inr (map (interpolate_network_impair vars) imps @ concat out))"
  by pat_completeness auto

lemma size_nfl_loops: "size_list size (nfl_loops l) < size l"
  by (cases l) simp

termination expand_network_impairs
proof (relation "measure (\<lambda>(imps, loops, vars). size_list size loops)")
  fix imps vars l inner and loops :: "network_for_loop list"
  assume "l \<in> set loops"
  then have "size l \<le> size_list size loops" by (rule size_list_estimation') simp
  then show "((nfl_impairments l, nfl_loops l, inner), imps, loops, vars) \<in> measure (\<lambda>(imps, loops, vars). size_list size loops)"
    using size_nfl_loops [of l] by simp
qed simp

declare expand_network_impairs.simps [simp del]

fun expand_nat_rules :: "nat_item list \<Rightarrow> vars \<Rightarrow> (lower_error, nat_rule_def list) result"
  and expand_nat_item :: "nat_item \<Rightarrow> vars \<Rightarrow> (lower_error, nat_rule_def list) result" where
  "expand_nat_rules [] vars = Inr []"
| "expand_nat_rules (i # is) vars =
     and_then (expand_nat_item i vars) (\<lambda>rs. and_then (expand_nat_rules is vars) (\<lambda>out. Inr (rs @ out)))"
| "expand_nat_item (Nat_Rule r) vars = Inr [interpolate_nat_rule vars r]"
| "expand_nat_item (Nat_For v rng body) vars = for_each_value v rng vars (\<lambda>inner. expand_nat_rules body inner)"

text \<open>Interpolation keeps the nesting of property loops, the measure of their expansion.\<close>

fun prop_depth :: "node_prop \<Rightarrow> nat" where
  "prop_depth (Prop_For v rng body) = Suc (foldr (\<lambda>p m. max (prop_depth p) m) body 0)"
| "prop_depth _ = 0"

definition props_depth :: "node_prop list \<Rightarrow> nat" where
  "props_depth props = foldr (\<lambda>p m. max (prop_depth p) m) props 0"

lemma props_depth_Cons: "props_depth (p # ps) = max (prop_depth p) (props_depth ps)"
  by (simp add: props_depth_def)

lemma props_depth_mem: "p \<in> set ps \<Longrightarrow> prop_depth p \<le> props_depth ps"
  by (induction ps) (auto simp: props_depth_Cons)

lemma prop_depth_interpolate: "prop_depth (interpolate_prop vars p) = prop_depth p"
proof (induction vars p rule: interpolate_prop.induct)
  case (18 vars v rng body)
  have "foldr (\<lambda>p m. max (prop_depth p) m) (map (interpolate_prop vars) body) 0 = foldr (\<lambda>p m. max (prop_depth p) m) body 0"
    using 18 by (induction body) auto
  then show ?case by simp
qed simp_all

lemma props_depth_interpolate: "props_depth (map (interpolate_prop vars) ps) = props_depth ps"
  by (induction ps) (simp_all add: props_depth_Cons prop_depth_interpolate)

function expand_node_props :: "node_prop list \<Rightarrow> vars \<Rightarrow> (lower_error, node_prop list) result" where
  "expand_node_props props vars =
     and_then (traverse (\<lambda>p. case p of
         Prop_For v rng body \<Rightarrow>
           for_each_value v rng vars (\<lambda>inner. expand_node_props (map (interpolate_prop inner) body) inner)
       | _ \<Rightarrow> Inr [p]) props) (\<lambda>out. Inr (concat out))"
  by pat_completeness auto

termination
proof (relation "measure (\<lambda>(props, vars). props_depth props)")
  fix vars p v rng body inner and props :: "node_prop list"
  assume p: "p \<in> set props" "p = Prop_For v rng body"
  then have "prop_depth p \<le> props_depth props" by (intro props_depth_mem)
  moreover have "prop_depth p = Suc (props_depth body)" using p(2) by (simp add: props_depth_def)
  ultimately show "((map (interpolate_prop inner) body, inner), props, vars) \<in> measure (\<lambda>(props, vars). props_depth props)"
    by (simp add: props_depth_interpolate)
qed simp

declare expand_node_props.simps [simp del]

text \<open>The closure \<open>expand_props\<close> of \<open>expand_statement\<close>.\<close>

definition expand_prop_nat :: "vars \<Rightarrow> node_prop \<Rightarrow> (lower_error, node_prop) result" where
  "expand_prop_nat vars p =
     (case p of
        Prop_Nat items \<Rightarrow> and_then (expand_nat_rules items vars) (\<lambda>rs. Inr (Prop_Nat (map Nat_Rule rs)))
      | _ \<Rightarrow> Inr p)"

definition expand_props :: "vars \<Rightarrow> node_prop list \<Rightarrow> (lower_error, node_prop list) result" where
  "expand_props vars props = and_then (expand_node_props props vars) (traverse (expand_prop_nat vars))"

definition expand_statement :: "vars \<Rightarrow> statement \<Rightarrow> (lower_error, statement) result" where
  "expand_statement vars st =
     (case interpolate_statement vars st of
        St_Node n \<Rightarrow> and_then (expand_props vars (nd_props n)) (\<lambda>ps. Inr (St_Node (n\<lparr>nd_props := ps\<rparr>)))
      | St_Profile p \<Rightarrow> and_then (expand_props vars (pfd_props p)) (\<lambda>ps. Inr (St_Profile (p\<lparr>pfd_props := ps\<rparr>)))
      | St_Network n \<Rightarrow>
          and_then (expand_network_impairs (nwd_impairments n) (nwd_loops n) vars) (\<lambda>imps.
            Inr (St_Network (n\<lparr>nwd_impairments := imps, nwd_loops := []\<rparr>)))
      | other \<Rightarrow> Inr other)"

subsection \<open>The prefix of a site\<close>

definition prefix_ep :: "string \<Rightarrow> string \<Rightarrow> string" where
  "prefix_ep pre ep =
     (case split_once CHR '':'' ep of
        Some (node, iface) \<Rightarrow> pre @ node @ '':'' @ iface
      | None \<Rightarrow> pre @ ep)"

definition prefix_assertion :: "string \<Rightarrow> assertion_def \<Rightarrow> assertion_def" where
  "prefix_assertion pre a =
     (case a of
        AD_Reach from to \<Rightarrow> AD_Reach (pre @ from) (pre @ to)
      | AD_NoReach from to \<Rightarrow> AD_NoReach (pre @ from) (pre @ to)
      | AD_TcpConnect from to port timeout retries interval \<Rightarrow>
          AD_TcpConnect (pre @ from) (pre @ to) port timeout retries interval
      | AD_LatencyUnder from to mx samples \<Rightarrow> AD_LatencyUnder (pre @ from) (pre @ to) mx samples
      | AD_RouteHas node destination via dev \<Rightarrow> AD_RouteHas (pre @ node) destination via dev
      | AD_DnsResolves from name expected \<Rightarrow> AD_DnsResolves (pre @ from) name expected
      | AD_Counter node name metric op val \<Rightarrow> AD_Counter (pre @ node) name metric op val)"

definition prefix_network_impair :: "string \<Rightarrow> network_impair_def \<Rightarrow> network_impair_def" where
  "prefix_network_impair pre imp =
     imp\<lparr>nid_src := prefix_ep pre (nid_src imp), nid_dst := prefix_ep pre (nid_dst imp)\<rparr>"

fun prefix_network_loop :: "string \<Rightarrow> network_for_loop \<Rightarrow> network_for_loop" where
  "prefix_network_loop pre (Network_For v rng imps loops) =
     Network_For v rng (map (prefix_network_impair pre) imps) (map (prefix_network_loop pre) loops)"

definition prefix_prop :: "string \<Rightarrow> node_prop \<Rightarrow> node_prop" where
  "prefix_prop pre p =
     (case p of
        Prop_Wireguard wg \<Rightarrow>
          Prop_Wireguard (wg\<lparr>wgd_peers := map ((@) pre) (wgd_peers wg),
            wgd_peer_settings := map (\<lambda>s. s\<lparr>wpd_name := pre @ wpd_name s\<rparr>) (wgd_peer_settings wg)\<rparr>)
      | Prop_Frr f \<Rightarrow>
          Prop_Frr (f\<lparr>fd_bgp := map_option (\<lambda>b. b\<lparr>bd_neighbors :=
            map (\<lambda>n. n\<lparr>bnd_node := pre @ bnd_node n\<rparr>) (bd_neighbors b)\<rparr>) (fd_bgp f)\<rparr>)
      | _ \<Rightarrow> p)"

definition prefix_action :: "string \<Rightarrow> scenario_action_def \<Rightarrow> scenario_action_def" where
  "prefix_action pre a =
     (case a of
        SA_Down ep \<Rightarrow> SA_Down (prefix_ep pre ep)
      | SA_Up ep \<Rightarrow> SA_Up (prefix_ep pre ep)
      | SA_Clear ep \<Rightarrow> SA_Clear (prefix_ep pre ep)
      | SA_Validate as \<Rightarrow> SA_Validate (map (prefix_assertion pre) as)
      | SA_Exec node cmd \<Rightarrow> SA_Exec (pre @ node) cmd
      | SA_Log m \<Rightarrow> SA_Log m
      | SA_Impair ep props \<Rightarrow> SA_Impair (prefix_ep pre ep) props
      | SA_Partition ep both \<Rightarrow> SA_Partition (prefix_ep pre ep) both
      | SA_Heal ep both \<Rightarrow> SA_Heal (prefix_ep pre ep) both
      | SA_PairImpair network rule \<Rightarrow> SA_PairImpair (pre @ network) (prefix_network_impair pre rule)
      | SA_Replay target file' step looped dir \<Rightarrow>
          SA_Replay
            (case target of
               RT_Endpoint ep \<Rightarrow> RT_Endpoint (prefix_ep pre ep)
             | RT_Pair network src dst \<Rightarrow> RT_Pair (pre @ network) (prefix_ep pre src) (prefix_ep pre dst))
            file' step looped dir)"

definition prefix_benchmark_test :: "string \<Rightarrow> benchmark_test_def \<Rightarrow> benchmark_test_def" where
  "prefix_benchmark_test pre t =
     (case t of
        BT_Iperf3 from to duration streams udp rate as \<Rightarrow> BT_Iperf3 (pre @ from) (pre @ to) duration streams udp rate as
      | BT_Ping from to count as \<Rightarrow> BT_Ping (pre @ from) (pre @ to) count as)"

definition prefix_statement :: "string \<Rightarrow> statement \<Rightarrow> statement" where
  "prefix_statement pre st =
     (case st of
        St_Node n \<Rightarrow>
          St_Node (n\<lparr>nd_name := pre @ nd_name n, nd_depends_on := map ((@) pre) (nd_depends_on n),
            nd_props := map (prefix_prop pre) (nd_props n)\<rparr>)
      | St_Link l \<Rightarrow> St_Link (l\<lparr>lk_left_node := pre @ lk_left_node l, lk_right_node := pre @ lk_right_node l\<rparr>)
      | St_Network n \<Rightarrow>
          St_Network (n\<lparr>nwd_name := pre @ nwd_name n, nwd_members := map (prefix_ep pre) (nwd_members n),
            nwd_ports := map (\<lambda>p. p\<lparr>ptd_endpoint := prefix_ep pre (ptd_endpoint p)\<rparr>) (nwd_ports n),
            nwd_impairments := map (prefix_network_impair pre) (nwd_impairments n),
            nwd_loops := map (prefix_network_loop pre) (nwd_loops n)\<rparr>)
      | St_Impair d \<Rightarrow> St_Impair (d\<lparr>id_node := pre @ id_node d\<rparr>)
      | St_Rate d \<Rightarrow> St_Rate (d\<lparr>rd_node := pre @ rd_node d\<rparr>)
      | St_Qdisc q \<Rightarrow> St_Qdisc (q\<lparr>qd_node := pre @ qd_node q\<rparr>)
      | St_Pattern p \<Rightarrow> St_Pattern (p\<lparr>pat_name := pre @ pat_name p\<rparr>)
      | St_Validate v \<Rightarrow> St_Validate (v\<lparr>vd_assertions := map (prefix_assertion pre) (vd_assertions v)\<rparr>)
      | St_Scenario sc \<Rightarrow>
          St_Scenario (sc\<lparr>scd_steps := map (\<lambda>s. s\<lparr>ssd_actions := map (prefix_action pre) (ssd_actions s)\<rparr>) (scd_steps sc)\<rparr>)
      | St_Benchmark b \<Rightarrow> St_Benchmark (b\<lparr>bmd_tests := map (prefix_benchmark_test pre) (bmd_tests b)\<rparr>)
      | _ \<Rightarrow> st)"

subsection \<open>Expansion\<close>

type_synonym sites = "(string, string list) btree_map"
type_synonym scope = "vars \<times> sites"

fun node_name :: "statement \<Rightarrow> string option" where
  "node_name (St_Node n) = Some (nd_name n)"
| "node_name _ = None"

definition node_names :: "statement list \<Rightarrow> string list" where
  "node_names sts = List.map_filter node_name sts"

definition bind_site_nodes :: "string \<Rightarrow> string list \<Rightarrow> vars \<Rightarrow> vars" where
  "bind_site_nodes pre names vars = foldl (\<lambda>vs n. bm_insert (SITE_NODE @ n) (pre @ n) vs) vars names"

text \<open>A site inside this one gets its pre; the site itself gets its nodes, sorted, each once.\<close>

definition rename_site :: "string \<Rightarrow> sites \<Rightarrow> string \<Rightarrow> sites" where
  "rename_site pre sites k =
     bm_insert (pre @ k) (map ((@) pre) (case bm_get sites k of Some ns \<Rightarrow> ns | None \<Rightarrow> [])) (bm_remove k sites)"

definition record_site :: "string \<Rightarrow> string \<Rightarrow> sites \<Rightarrow> string list \<Rightarrow> sites \<Rightarrow> sites" where
  "record_site site_name pre before nodes sites =
     (let nested = filter (\<lambda>k. \<not> bm_contains before k) (bm_keys sites);
          renamed = foldl (rename_site pre) sites nested;
          members = (case bm_get renamed site_name of Some ns \<Rightarrow> ns | None \<Rightarrow> []) @ nodes in
      bm_insert site_name (remdups_adj (sort members)) renamed)"

text \<open>The iterations of a loop: the variables start from the enclosing scope, the sites go on.\<close>

fun each_iteration ::
  "('v \<Rightarrow> sites \<Rightarrow> (lower_error, 'a list \<times> sites) result) \<Rightarrow> 'v list \<Rightarrow> sites \<Rightarrow> (lower_error, 'a list \<times> sites) result" where
  "each_iteration f [] sites = Inr ([], sites)"
| "each_iteration f (x # xs) sites =
     and_then (f x sites) (\<lambda>(out, sites'). and_then (each_iteration f xs sites') (\<lambda>(rest, sites''). Inr (out @ rest, sites'')))"

lemma each_iteration_cong [fundef_cong]:
  "xs = ys \<Longrightarrow> s = t \<Longrightarrow> (\<And>x u. x \<in> set ys \<Longrightarrow> f x u = g x u) \<Longrightarrow> each_iteration f xs s = each_iteration g ys t"
proof (induction ys arbitrary: xs s t)
  case (Cons y ys)
  then show ?case by (auto intro!: and_then_cong)
qed simp

definition keep_scope :: "vars \<Rightarrow> statement list \<times> scope \<Rightarrow> statement list \<times> scope" where
  "keep_scope vars = (\<lambda>(out, (_, sites)). (out, (vars, sites)))"

function expand_into :: "statement list \<Rightarrow> scope \<Rightarrow> (lower_error, statement list \<times> scope) result"
  and expand_one :: "statement \<Rightarrow> scope \<Rightarrow> (lower_error, statement list \<times> scope) result" where
  "expand_into [] sc = Inr ([], sc)"
| "expand_into (st # sts) sc =
     and_then (expand_one st sc) (\<lambda>(out, sc'). and_then (expand_into sts sc') (\<lambda>(rest, sc''). Inr (out @ rest, sc'')))"
| "expand_one (St_For v rng body) sc =
     (case sc of (vars, sites) \<Rightarrow>
      and_then (range_values rng v vars) (\<lambda>vs.
      and_then (each_iteration (\<lambda>x s. and_then (expand_into body (loop_vars v (length vs) vars x, s)) (\<lambda>(out, (_, s')). Inr (out, s')))
          (enumerate 0 vs) sites) (\<lambda>(out, s). Inr (out, (vars, s)))))"
| "expand_one (St_Let l) sc =
     (case sc of (vars, sites) \<Rightarrow> Inr ([], (bm_insert (let_name l) (interpolate (let_value l) vars) vars, sites)))"
| "expand_one (St_If condition body) sc =
     (case sc of (vars, sites) \<Rightarrow>
      if eval_condition (interpolate condition vars) vars
      then and_then (expand_into body sc) (\<lambda>r. Inr (keep_scope vars r))
      else Inr ([], sc))"
| "expand_one (St_Site name descr body) sc =
     (case sc of (vars, sites) \<Rightarrow>
      let site_name = interpolate name vars; pre = site_name @ ''-'' in
      and_then (expand_into body sc) (\<lambda>first.
      let local = node_names (fst first) in
      and_then (if local = [] then Inr first else expand_into body (bind_site_nodes pre local vars, sites)) (\<lambda>(inner, (_, s)).
      let out = map (prefix_statement pre) inner in
      Inr (out, (vars, record_site site_name pre sites (node_names out) s)))))"
| "expand_one (St_Profile p) sc = and_then (expand_statement (fst sc) (St_Profile p)) (\<lambda>s. Inr ([s], sc))"
| "expand_one (St_Node n) sc = and_then (expand_statement (fst sc) (St_Node n)) (\<lambda>s. Inr ([s], sc))"
| "expand_one (St_Link l) sc = and_then (expand_statement (fst sc) (St_Link l)) (\<lambda>s. Inr ([s], sc))"
| "expand_one (St_Network n) sc = and_then (expand_statement (fst sc) (St_Network n)) (\<lambda>s. Inr ([s], sc))"
| "expand_one (St_Impair d) sc = and_then (expand_statement (fst sc) (St_Impair d)) (\<lambda>s. Inr ([s], sc))"
| "expand_one (St_Rate d) sc = and_then (expand_statement (fst sc) (St_Rate d)) (\<lambda>s. Inr ([s], sc))"
| "expand_one (St_Qdisc q) sc = and_then (expand_statement (fst sc) (St_Qdisc q)) (\<lambda>s. Inr ([s], sc))"
| "expand_one (St_Defaults d) sc = and_then (expand_statement (fst sc) (St_Defaults d)) (\<lambda>s. Inr ([s], sc))"
| "expand_one (St_Param p) sc = and_then (expand_statement (fst sc) (St_Param p)) (\<lambda>s. Inr ([s], sc))"
| "expand_one (St_Pool p) sc = and_then (expand_statement (fst sc) (St_Pool p)) (\<lambda>s. Inr ([s], sc))"
| "expand_one (St_Pattern p) sc = and_then (expand_statement (fst sc) (St_Pattern p)) (\<lambda>s. Inr ([s], sc))"
| "expand_one (St_Validate v) sc = and_then (expand_statement (fst sc) (St_Validate v)) (\<lambda>s. Inr ([s], sc))"
| "expand_one (St_Scenario s) sc = and_then (expand_statement (fst sc) (St_Scenario s)) (\<lambda>s. Inr ([s], sc))"
| "expand_one (St_Benchmark b) sc = and_then (expand_statement (fst sc) (St_Benchmark b)) (\<lambda>s. Inr ([s], sc))"
  by pat_completeness auto

termination
  by (relation "measure (\<lambda>x. case x of Inl (sts, _) \<Rightarrow> size_list size sts | Inr (st, _) \<Rightarrow> size st)") auto

declare expand_one.simps [simp del]

subsection \<open>Concrete statements\<close>

text \<open>What the lowering expects of its input: no loops, bindings, conditions or sites left.\<close>

fun is_nat_rule :: "nat_item \<Rightarrow> bool" where
  "is_nat_rule (Nat_Rule _) = True"
| "is_nat_rule (Nat_For _ _ _) = False"

fun concrete_prop :: "node_prop \<Rightarrow> bool" where
  "concrete_prop (Prop_For _ _ _) = False"
| "concrete_prop (Prop_Nat items) = list_all is_nat_rule items"
| "concrete_prop _ = True"

fun concrete :: "statement \<Rightarrow> bool" where
  "concrete (St_Node n) = list_all concrete_prop (nd_props n)"
| "concrete (St_Profile p) = list_all concrete_prop (pfd_props p)"
| "concrete (St_Network n) = (nwd_loops n = [])"
| "concrete (St_For _ _ _) = False"
| "concrete (St_Let _) = False"
| "concrete (St_If _ _) = False"
| "concrete (St_Site _ _ _) = False"
| "concrete _ = True"

definition not_loop :: "node_prop \<Rightarrow> bool" where
  "not_loop p \<longleftrightarrow> (case p of Prop_For _ _ _ \<Rightarrow> False | _ \<Rightarrow> True)"

lemma list_all2_Inr_set: "list_all2 (\<lambda>x y. f x = Inr y) xs ys \<Longrightarrow> y \<in> set ys \<Longrightarrow> \<exists>x \<in> set xs. f x = Inr y"
  by (induction rule: list_all2_induct) auto

lemma traverse_set: "traverse f xs = Inr ys \<Longrightarrow> y \<in> set ys \<Longrightarrow> \<exists>x \<in> set xs. f x = Inr y"
  by (auto simp: traverse_eq_Inr_iff dest: list_all2_Inr_set)

lemma for_each_value_set:
  "for_each_value v rng vars body = Inr out \<Longrightarrow> y \<in> set out \<Longrightarrow> \<exists>inner ys. body inner = Inr ys \<and> y \<in> set ys"
proof -
  assume *: "for_each_value v rng vars body = Inr out" "y \<in> set out"
  then obtain vs os where os: "out = concat os"
    "traverse (\<lambda>x. body (loop_vars v (length vs) vars x)) (enumerate 0 vs) = Inr os"
    by (auto simp: for_each_value_def)
  with *(2) obtain ys where "ys \<in> set os" "y \<in> set ys" by auto
  with traverse_set [OF os(2)] show ?thesis by blast
qed

lemma expand_node_props_not_loop: "expand_node_props props vars = Inr out \<Longrightarrow> list_all not_loop out"
proof (induction props vars arbitrary: out rule: expand_node_props.induct)
  case (1 props vars)
  show ?case unfolding list_all_iff
  proof
    fix y assume y: "y \<in> set out"
    from 1(2) obtain os where os: "out = concat os"
      "traverse (\<lambda>p. case p of
         Prop_For v rng body \<Rightarrow>
           for_each_value v rng vars (\<lambda>inner. expand_node_props (map (interpolate_prop inner) body) inner)
       | _ \<Rightarrow> Inr [p]) props = Inr os" by (subst (asm) expand_node_props.simps) auto
    with y obtain ys where ys: "ys \<in> set os" "y \<in> set ys" by auto
    from traverse_set [OF os(2) ys(1)] obtain p where p: "p \<in> set props"
      "(case p of
         Prop_For v rng body \<Rightarrow>
           for_each_value v rng vars (\<lambda>inner. expand_node_props (map (interpolate_prop inner) body) inner)
       | _ \<Rightarrow> Inr [p]) = Inr ys" by blast
    show "not_loop y"
    proof (cases p)
      case (Prop_For v rng body)
      with p(2) have "for_each_value v rng vars (\<lambda>inner. expand_node_props (map (interpolate_prop inner) body) inner) = Inr ys" by simp
      from for_each_value_set [OF this ys(2)] obtain inner zs
        where "expand_node_props (map (interpolate_prop inner) body) inner = Inr zs" "y \<in> set zs" by blast
      with 1(1) [OF p(1) Prop_For] show ?thesis by (auto simp: list_all_iff)
    qed (use p(2) ys(2) in \<open>auto simp: not_loop_def\<close>)
  qed
qed

lemma expand_prop_nat_concrete: "expand_prop_nat vars p = Inr q \<Longrightarrow> not_loop p \<Longrightarrow> concrete_prop q"
  by (cases p) (auto simp: expand_prop_nat_def not_loop_def list_all_iff)

lemma expand_props_concrete: "expand_props vars props = Inr out \<Longrightarrow> list_all concrete_prop out"
proof -
  assume "expand_props vars props = Inr out"
  then obtain ps where ps: "expand_node_props props vars = Inr ps" "traverse (expand_prop_nat vars) ps = Inr out"
    by (auto simp: expand_props_def)
  show ?thesis unfolding list_all_iff
  proof
    fix q assume "q \<in> set out"
    from traverse_set [OF ps(2) this] obtain p where "p \<in> set ps" "expand_prop_nat vars p = Inr q" by blast
    then show "concrete_prop q"
      using expand_node_props_not_loop [OF ps(1)] expand_prop_nat_concrete by (auto simp: list_all_iff)
  qed
qed

text \<open>The statements \<open>expand_into\<close> hands on one by one.\<close>

fun plain :: "statement \<Rightarrow> bool" where
  "plain (St_For _ _ _) = False"
| "plain (St_Let _) = False"
| "plain (St_If _ _) = False"
| "plain (St_Site _ _ _) = False"
| "plain _ = True"

lemma expand_statement_concrete: "expand_statement vars st = Inr st' \<Longrightarrow> plain st \<Longrightarrow> concrete st'"
  by (cases st) (auto simp: expand_statement_def interpolate_statement_def dest!: expand_props_concrete)

lemma expand_one_plain:
  "plain st \<Longrightarrow> expand_one st sc = and_then (expand_statement (fst sc) st) (\<lambda>s. Inr ([s], sc))"
  by (cases st) (simp_all add: expand_one.simps)

lemma prefix_prop_concrete: "concrete_prop (prefix_prop pre p) = concrete_prop p"
  by (cases p) (auto simp: prefix_prop_def)

lemma prefix_statement_concrete: "concrete (prefix_statement pre st) = concrete st"
  by (cases st) (auto simp: prefix_statement_def list_all_iff prefix_prop_concrete)

lemma each_iteration_all:
  "each_iteration f xs s = Inr (out, s') \<Longrightarrow>
   (\<And>x u os u'. x \<in> set xs \<Longrightarrow> f x u = Inr (os, u') \<Longrightarrow> list_all P os) \<Longrightarrow> list_all P out"
proof (induction xs arbitrary: s out)
  case (Cons x xs)
  from Cons(2) obtain os u rest where *: "f x s = Inr (os, u)" "each_iteration f xs u = Inr (rest, s')" "out = os @ rest"
    by auto
  have "list_all P rest" by (rule Cons(1) [OF *(2)]) (rule Cons(3), simp_all)
  moreover have "list_all P os" using Cons(3) [OF _ *(1)] by simp
  ultimately show ?case using *(3) by simp
qed simp

text \<open>The two expansions of a site's body, seen from its result.\<close>

lemma expand_site:
  assumes "expand_one (St_Site name d body) (vars, sites) = Inr (out, sc')"
  obtains vs inner vs' s where "expand_into body (vs, sites) = Inr (inner, (vs', s))"
    "out = map (prefix_statement (interpolate name vars @ ''-'')) inner"
    "sc' = (vars, record_site (interpolate name vars) (interpolate name vars @ ''-'') sites (node_names out) s)"
proof -
  let ?pre = "interpolate name vars @ ''-''"
  from assms obtain a where a: "expand_into body (vars, sites) = Inr a"
    and "and_then (if node_names (fst a) = [] then Inr a
        else expand_into body (bind_site_nodes ?pre (node_names (fst a)) vars, sites)) (\<lambda>(inner, (_, s)).
      let out = map (prefix_statement ?pre) inner in
      Inr (out, (vars, record_site (interpolate name vars) ?pre sites (node_names out) s))) = Inr (out, sc')"
    by (auto simp: expand_one.simps Let_def)
  then obtain inner vs' s where r: "(if node_names (fst a) = [] then Inr a
        else expand_into body (bind_site_nodes ?pre (node_names (fst a)) vars, sites)) = Inr (inner, (vs', s))"
    "out = map (prefix_statement ?pre) inner"
    "sc' = (vars, record_site (interpolate name vars) ?pre sites (node_names out) s)"
    by (auto simp: Let_def)
  show thesis
  proof (cases "node_names (fst a) = []")
    case True
    then show thesis using that [of vars inner vs' s] a r by simp
  next
    case False
    then show thesis using that [of _ inner vs' s] r by simp
  qed
qed

text \<open>
  A property of statements that interpolation establishes and prefixes keep holds of every
  expanded statement.
\<close>

locale statement_invariant =
  fixes P :: "statement \<Rightarrow> bool"
  assumes expanded: "plain st \<Longrightarrow> expand_statement vars st = Inr st' \<Longrightarrow> P st'"
    and prefixed: "P st \<Longrightarrow> P (prefix_statement pre st)"
begin

lemma expand_into_if:
  assumes "\<And>st sc out sc'. st \<in> set sts \<Longrightarrow> expand_one st sc = Inr (out, sc') \<Longrightarrow> list_all P out"
  shows "expand_into sts sc = Inr (out, sc') \<Longrightarrow> list_all P out"
  using assms
proof (induction sts arbitrary: sc out)
  case (Cons st sts)
  from Cons(2) obtain os sc1 rest where *: "expand_one st sc = Inr (os, sc1)" "expand_into sts sc1 = Inr (rest, sc')"
    "out = os @ rest" by auto
  have "list_all P rest" by (rule Cons(1) [OF *(2)]) (rule Cons(3), simp_all)
  moreover have "list_all P os" using Cons(3) [OF _ *(1)] by simp
  ultimately show ?case using *(3) by simp
qed simp

lemma expand_one_all: "expand_one st sc = Inr (out, sc') \<Longrightarrow> list_all P out"
proof (induction st arbitrary: sc out sc')
  case (St_For v rng body)
  have body: "expand_into body sc = Inr (out, sc') \<Longrightarrow> list_all P out" for sc out sc'
    by (erule expand_into_if [rotated]) (rule St_For.IH)
  obtain vars sites where sc: "sc = (vars, sites)" by fastforce
  from St_For(2) sc obtain vs s where vs:
    "each_iteration (\<lambda>x s. and_then (expand_into body (loop_vars v (length vs) vars x, s)) (\<lambda>(out, (_, s')). Inr (out, s')))
      (enumerate 0 vs) sites = Inr (out, s)"
    by (auto simp: expand_one.simps)
  show ?case
  proof (rule each_iteration_all [OF vs])
    fix x u os u'
    assume "and_then (expand_into body (loop_vars v (length vs) vars x, u)) (\<lambda>(out, (_, s')). Inr (out, s')) = Inr (os, u')"
    then obtain vs' where "expand_into body (loop_vars v (length vs) vars x, u) = Inr (os, (vs', u'))" by auto
    then show "list_all P os" by (rule body)
  qed
next
  case (St_If c body)
  have body: "expand_into body sc = Inr (out, sc') \<Longrightarrow> list_all P out" for sc out sc'
    by (erule expand_into_if [rotated]) (rule St_If.IH)
  from St_If(2) show ?case by (cases sc) (auto simp: expand_one.simps keep_scope_def split: if_splits dest: body)
next
  case (St_Site name d body)
  have body: "expand_into body sc = Inr (out, sc') \<Longrightarrow> list_all P out" for sc out sc'
    by (erule expand_into_if [rotated]) (rule St_Site.IH)
  obtain vars sites where sc: "sc = (vars, sites)" by fastforce
  from St_Site(2) [unfolded sc] show ?case
    by (rule expand_site) (auto simp: list_all_iff prefixed dest!: body)
next
  case (St_Let l)
  then show ?case by (cases sc) (auto simp: expand_one.simps)
qed (auto simp: expand_one_plain dest: expanded [rotated])

lemma expand_into_all: "expand_into sts sc = Inr (out, sc') \<Longrightarrow> list_all P out"
  by (rule expand_into_if) (rule expand_one_all)

end

interpretation concrete: statement_invariant concrete
  by unfold_locales (simp_all add: expand_statement_concrete prefix_statement_concrete)

subsection \<open>Scopes\<close>

definition apply_let :: "vars \<Rightarrow> statement \<Rightarrow> vars" where
  "apply_let vars st =
     (case st of St_Let l \<Rightarrow> bm_insert (let_name l) (interpolate (let_value l) vars) vars | _ \<Rightarrow> vars)"

lemma expand_one_vars: "expand_one st sc = Inr (out, sc') \<Longrightarrow> fst sc' = apply_let (fst sc) st"
proof (cases st)
  case (St_Site name d body)
  assume "expand_one st sc = Inr (out, sc')"
  then show ?thesis using St_Site by (cases sc) (auto simp: apply_let_def elim!: expand_site)
qed (auto simp: expand_one.simps apply_let_def keep_scope_def split: prod.splits if_splits)

lemma expand_into_vars: "expand_into sts sc = Inr (out, sc') \<Longrightarrow> fst sc' = foldl apply_let (fst sc) sts"
  by (induction sts arbitrary: sc out) (auto dest!: expand_one_vars split: prod.splits)

subsection \<open>References to nodes\<close>

definition ep_node :: "string \<Rightarrow> string" where
  "ep_node ep = (case split_once CHR '':'' ep of Some (node, _) \<Rightarrow> node | None \<Rightarrow> ep)"

fun assertion_refs :: "assertion_def \<Rightarrow> string list" where
  "assertion_refs (AD_Reach a b) = [a, b]"
| "assertion_refs (AD_NoReach a b) = [a, b]"
| "assertion_refs (AD_TcpConnect a b _ _ _ _) = [a, b]"
| "assertion_refs (AD_LatencyUnder a b _ _) = [a, b]"
| "assertion_refs (AD_RouteHas n _ _ _) = [n]"
| "assertion_refs (AD_DnsResolves n _ _) = [n]"
| "assertion_refs (AD_Counter n _ _ _ _) = [n]"

fun prop_refs :: "node_prop \<Rightarrow> string list" where
  "prop_refs (Prop_Wireguard wg) = wgd_peers wg @ map wpd_name (wgd_peer_settings wg)"
| "prop_refs (Prop_Frr f) = (case fd_bgp f of None \<Rightarrow> [] | Some b \<Rightarrow> map bnd_node (bd_neighbors b))"
| "prop_refs _ = []"

definition rule_refs :: "network_impair_def \<Rightarrow> string list" where
  "rule_refs r = [ep_node (nid_src r), ep_node (nid_dst r)]"

fun action_refs :: "scenario_action_def \<Rightarrow> string list" where
  "action_refs (SA_Down ep) = [ep_node ep]"
| "action_refs (SA_Up ep) = [ep_node ep]"
| "action_refs (SA_Clear ep) = [ep_node ep]"
| "action_refs (SA_Validate as) = concat (map assertion_refs as)"
| "action_refs (SA_Exec n _) = [n]"
| "action_refs (SA_Log _) = []"
| "action_refs (SA_Impair ep _) = [ep_node ep]"
| "action_refs (SA_Partition ep _) = [ep_node ep]"
| "action_refs (SA_Heal ep _) = [ep_node ep]"
| "action_refs (SA_PairImpair _ r) = rule_refs r"
| "action_refs (SA_Replay (RT_Endpoint ep) _ _ _ _) = [ep_node ep]"
| "action_refs (SA_Replay (RT_Pair _ a b) _ _ _ _) = [ep_node a, ep_node b]"

fun test_refs :: "benchmark_test_def \<Rightarrow> string list" where
  "test_refs (BT_Iperf3 a b _ _ _ _ _) = [a, b]"
| "test_refs (BT_Ping a b _ _) = [a, b]"

fun statement_refs :: "statement \<Rightarrow> string list" where
  "statement_refs (St_Node n) = nd_depends_on n @ concat (map prop_refs (nd_props n))"
| "statement_refs (St_Link l) = [lk_left_node l, lk_right_node l]"
| "statement_refs (St_Network n) =
     map ep_node (nwd_members n) @ map (\<lambda>p. ep_node (ptd_endpoint p)) (nwd_ports n) @ concat (map rule_refs (nwd_impairments n))"
| "statement_refs (St_Impair d) = [id_node d]"
| "statement_refs (St_Rate d) = [rd_node d]"
| "statement_refs (St_Qdisc q) = [qd_node q]"
| "statement_refs (St_Validate v) = concat (map assertion_refs (vd_assertions v))"
| "statement_refs (St_Scenario sc) = concat (map (\<lambda>s. concat (map action_refs (ssd_actions s))) (scd_steps sc))"
| "statement_refs (St_Benchmark b) = concat (map test_refs (bmd_tests b))"
| "statement_refs _ = []"

definition all_refs :: "statement list \<Rightarrow> string list" where
  "all_refs sts = concat (map statement_refs sts)"

lemma prefix_ep_append: "prefix_ep pre ep = pre @ ep"
  by (auto simp: prefix_ep_def dest!: split_once_Some split: option.splits)

lemma split_once_prepend: "c \<notin> set a \<Longrightarrow> split_once c (a @ s) = map_option (\<lambda>(x, y). (a @ x, y)) (split_once c s)"
  by (cases "split_once c s"; induction a) auto

lemma ep_node_prefix: "CHR '':'' \<notin> set pre \<Longrightarrow> ep_node (prefix_ep pre ep) = pre @ ep_node ep"
  by (simp add: prefix_ep_append ep_node_def split_once_prepend split: option.splits)

lemma prefix_refs:
  assumes "CHR '':'' \<notin> set pre"
  shows "assertion_refs (prefix_assertion pre a) = map ((@) pre) (assertion_refs a)"
    and "prop_refs (prefix_prop pre p) = map ((@) pre) (prop_refs p)"
    and "rule_refs (prefix_network_impair pre r) = map ((@) pre) (rule_refs r)"
    and "test_refs (prefix_benchmark_test pre t) = map ((@) pre) (test_refs t)"
proof -
  show "assertion_refs (prefix_assertion pre a) = map ((@) pre) (assertion_refs a)"
    by (cases a) (simp_all add: prefix_assertion_def)
  show "prop_refs (prefix_prop pre p) = map ((@) pre) (prop_refs p)"
    by (cases p) (simp_all add: prefix_prop_def comp_def split: option.splits)
  show "rule_refs (prefix_network_impair pre r) = map ((@) pre) (rule_refs r)"
    by (simp add: rule_refs_def prefix_network_impair_def ep_node_prefix [OF assms])
  show "test_refs (prefix_benchmark_test pre t) = map ((@) pre) (test_refs t)"
    by (cases t) (simp_all add: prefix_benchmark_test_def)
qed

lemma action_refs_prefix:
  assumes "CHR '':'' \<notin> set pre"
  shows "action_refs (prefix_action pre a) = map ((@) pre) (action_refs a)"
proof (cases a)
  case (SA_Replay target f s l d)
  then show ?thesis by (cases target) (simp_all add: prefix_action_def ep_node_prefix [OF assms])
qed (simp_all add: prefix_action_def prefix_refs [OF assms] ep_node_prefix [OF assms] map_concat comp_def)

lemma statement_refs_prefix:
  assumes "CHR '':'' \<notin> set pre"
  shows "statement_refs (prefix_statement pre st) = map ((@) pre) (statement_refs st)"
  by (cases st) (simp_all add: prefix_statement_def prefix_refs [OF assms] action_refs_prefix [OF assms]
      ep_node_prefix [OF assms] map_concat comp_def)

lemma node_name_prefix: "node_name (prefix_statement pre st) = map_option ((@) pre) (node_name st)"
  by (cases st) (simp_all add: prefix_statement_def)

lemma node_names_prefix: "node_names (map (prefix_statement pre) sts) = map ((@) pre) (node_names sts)"
  by (induction sts) (simp_all add: node_names_def map_filter_simps node_name_prefix split: option.splits)

lemma all_refs_prefix:
  "CHR '':'' \<notin> set pre \<Longrightarrow> all_refs (map (prefix_statement pre) sts) = map ((@) pre) (all_refs sts)"
  by (simp add: all_refs_def map_concat comp_def statement_refs_prefix)

subsection \<open>Properties\<close>

text \<open>C13.
  Expansion ends for every program, and what it hands to the lowering is concrete: no loop,
  binding, condition or site is left, nor a loop inside a node, a \<open>nat\<close> block or a network. The
  variables afterwards are those before with the \<open>let\<close>s of this very block; nothing a nested
  block binds leaks out.
\<close>

theorem expansion_concrete_and_scoped:
  assumes "expand_into sts (vars, sites) = Inr (out, (vars', sites'))"
  shows "list_all concrete out \<and> vars' = foldl apply_let vars sts"
  using concrete.expand_into_all [OF assms] expand_into_vars [OF assms] by simp


subsection \<open>Examples\<close>

definition node_def_default :: node_def where
  "node_def_default =
     \<lparr>nd_name = [], nd_profiles = [], nd_image = None, nd_cmd = None, nd_env = [], nd_volumes = [], nd_cpu = None,
      nd_memory = None, nd_privileged = False, nd_cap_add = [], nd_cap_drop = [], nd_entrypoint = None,
      nd_hostname = None, nd_workdir = None, nd_labels = [], nd_pull = None, nd_container_exec = [],
      nd_healthcheck = None, nd_healthcheck_interval = None, nd_healthcheck_timeout = None,
      nd_healthcheck_retries = None, nd_startup_delay = None, nd_env_file = None, nd_configs = [],
      nd_overlay = None, nd_depends_on = [], nd_props = [], nd_foreign = None\<rparr>"

definition named_node :: "string \<Rightarrow> statement" where
  "named_node name = St_Node (node_def_default\<lparr>nd_name := name\<rparr>)"

definition site_text :: "statement list" where
  "site_text = [St_Site ''a'' None [named_node ''x''], St_Site ''b'' None [St_Site ''a'' None [named_node ''y'']]]"

lemma site_text_expands:
  "map_sum id (\<lambda>(out, _, sites). (node_names out, bm_entries sites)) (expand_into site_text (bm_empty, bm_empty)) =
   Inr ([''a-x'', ''b-a-y''], [(''a'', [''a-x'', ''a-y'']), (''b'', [''b-a-y''])])"
  by code_simp

definition loop_node :: statement where
  "loop_node = St_Node (node_def_default\<lparr>nd_name := ''r'', nd_props := [Prop_For ''i'' (IntRange 1 2) [Prop_Lo ''10.0.0.${i}'']]\<rparr>)"

lemma block_loop_captured:
  "expand_one loop_node (bm_of_list [(''i'', ''9'')], bm_empty) =
   Inr ([St_Node (node_def_default\<lparr>nd_name := ''r'', nd_props := [Prop_Lo ''10.0.0.9'', Prop_Lo ''10.0.0.9'']\<rparr>)],
     (bm_of_list [(''i'', ''9'')], bm_empty))"
  by code_simp

definition scope_text :: "statement list" where
  "scope_text =
     [St_Let \<lparr>let_name = ''x'', let_value = ''1''\<rparr>,
      St_For ''i'' (IntRange 1 2) [St_Let \<lparr>let_name = ''y'', let_value = ''2''\<rparr>, named_node ''n${i}'']]"

lemma expansion_concrete_and_scoped_witness:
  "\<exists>out. expand_into scope_text (bm_empty, bm_empty) = Inr (out, (bm_of_list [(''x'', ''1'')], bm_empty)) \<and>
     list_all concrete out \<and> bm_of_list [(''x'', ''1'')] = foldl apply_let bm_empty scope_text"
proof -
  have "expand_into scope_text (bm_empty, bm_empty) =
    Inr ([named_node ''n1'', named_node ''n2''], (bm_of_list [(''x'', ''1'')], bm_empty))"
    by code_simp
  from this expansion_concrete_and_scoped [OF this] show ?thesis by blast
qed

definition site_statement :: statement where
  "site_statement = St_Site ''s'' None [named_node ''x'', St_Node (node_def_default\<lparr>nd_name := ''y'', nd_depends_on := [''x'']\<rparr>)]"


end
