(* ===== verification/Nll_Pool.thy ===== *)
theory Nll_Pool
  imports Nll_Scope
begin

text \<open>
  Named address pools and the addresses of links, \<open>parser/nll/lower.rs\<close>: \<open>PoolState\<close> with its
  allocation, \<open>add_pool\<close>, \<open>split_subnet\<close> and \<open>allocate_from_pool\<close>. The code computes in \<open>u128\<close>; here the
  numbers are natural and its limits written out: a shift by the width saturates, an addition past
  \<open>u128::MAX\<close> fails.
\<close>

definition u128_max :: nat where "u128_max = 340282366920938463463374607431768211455"

definition shl_one :: "nat \<Rightarrow> nat" where
  "shl_one k = (if k < 128 then 2 ^ k else u128_max)"

record alloc_pool =
  ap_base :: nat
  ap_size :: nat
  ap_prefix :: nat
  ap_next :: nat
  ap_bits :: nat

definition new_pool :: "pool_def \<Rightarrow> (lower_error, alloc_pool) result" where
  "new_pool p =
     and_then (case parse_cidr (pool_base p) of Inl e \<Rightarrow> Inl (Pool_Base (pool_name p) e) | Inr x \<Rightarrow> Inr x) (\<lambda>(ip, len).
       let bits = addr_bits ip; alloc = unat (pool_prefix p) in
       if bits < alloc \<or> alloc < len then Inl (Pool_Prefix (pool_name p))
       else and_then (ok_or (network_address ip len) (Pool_Prefix (pool_name p))) (\<lambda>net.
         Inr \<lparr>ap_base = unat (ip_to_bits net), ap_size = shl_one (bits - len), ap_prefix = alloc, ap_next = 0, ap_bits = bits\<rparr>))"

definition add_pool :: "pool_def \<Rightarrow> (string, alloc_pool) btree_map \<Rightarrow> (lower_error, (string, alloc_pool) btree_map) result" where
  "add_pool p pools =
     and_then (new_pool p) (\<lambda>st.
       if bm_contains pools (pool_name p) then Inl (Duplicate_Pool (pool_name p))
       else Inr (bm_insert (pool_name p) st pools))"

definition allocate_subnet :: "string \<Rightarrow> alloc_pool \<Rightarrow> (lower_error, string \<times> alloc_pool) result" where
  "allocate_subnet name p =
     (let subnet_size = shl_one (ap_bits p - ap_prefix p);
          space = shl_one (ap_bits p);
          new_next = ap_next p + subnet_size in
      if u128_max < new_next \<or> ap_size p < new_next \<or> u128_max < ap_base p + new_next \<or> space < ap_base p + new_next
      then Inl (Pool_Exhausted name)
      else Inr (show_cidr (ip_from_bits (ap_bits p) (of_nat (ap_base p + ap_next p))) (ap_prefix p), p\<lparr>ap_next := new_next\<rparr>))"

text \<open>\<open>checked\<close> offsets of the network address; the error carries nothing.\<close>

definition split_subnet :: "string \<Rightarrow> (string \<times> string) option" where
  "split_subnet cidr =
     (case parse_cidr cidr of
        Inl _ \<Rightarrow> None
      | Inr (ip, len) \<Rightarrow>
          let bits = addr_bits ip in
          if bits \<le> len then None
          else
            Option.bind (network_address ip len) (\<lambda>network.
            let (a, b) = (if len = bits - 1 then (0, 1) else (1, 2)) in
            Option.bind (ip_offset network a) (\<lambda>x.
            Option.bind (ip_offset network b) (\<lambda>y. Some (show_cidr x len, show_cidr y len)))))"

definition allocate_from_pool :: "string \<Rightarrow> alloc_pool \<Rightarrow> (lower_error, (string \<times> string) \<times> alloc_pool) result" where
  "allocate_from_pool name p =
     and_then (allocate_subnet name p) (\<lambda>(cidr, p').
     and_then (ok_or (split_subnet cidr) (Cannot_Split name)) (\<lambda>addrs. Inr (addrs, p')))"

subsection \<open>Blocks\<close>

text \<open>What a pool is: its blocks lie in \<open>base .. base + size\<close>, of which the first \<open>k\<close> are gone.\<close>

definition pool_at :: "nat \<Rightarrow> nat \<Rightarrow> nat \<Rightarrow> alloc_pool \<Rightarrow> bool" where
  "pool_at len start k p \<longleftrightarrow>
     (ap_bits p = 32 \<or> ap_bits p = 128) \<and> len \<le> ap_prefix p \<and> ap_prefix p \<le> ap_bits p \<and>
     ap_base p = start * 2 ^ (ap_bits p - len) \<and> ap_base p < 2 ^ ap_bits p \<and>
     ap_size p = shl_one (ap_bits p - len) \<and> ap_next p = k * shl_one (ap_bits p - ap_prefix p)"

lemma shl_one_128: "k \<le> 128 \<Longrightarrow> shl_one k = (if k = 128 then 2 ^ 128 - 1 else 2 ^ k)"
  by (auto simp: shl_one_def u128_max_def)

lemma new_pool_at:
  assumes "new_pool d = Inr p"
  obtains ip len where "parse_cidr (pool_base d) = Inr (ip, len)" "ap_bits p = addr_bits ip"
    "ap_prefix p = unat (pool_prefix d)" "pool_at len (ip_num ip div 2 ^ (addr_bits ip - len)) 0 p"
proof -
  from assms obtain ip len net where r: "parse_cidr (pool_base d) = Inr (ip, len)" "network_address ip len = Some net"
    "unat (pool_prefix d) \<le> addr_bits ip" "len \<le> unat (pool_prefix d)"
    "p = \<lparr>ap_base = unat (ip_to_bits net), ap_size = shl_one (addr_bits ip - len), ap_prefix = unat (pool_prefix d),
      ap_next = 0, ap_bits = addr_bits ip\<rparr>"
    by (auto simp: new_pool_def Let_def split: sum.splits if_splits)
  note net = network_address_Some [OF r(2)]
  have "ip_num net < 2 ^ addr_bits ip" using ip_num_bound [of net] addr_bits_cong [OF net(1)] by simp
  then have "pool_at len (ip_num ip div 2 ^ (addr_bits ip - len)) 0 p"
    using r net by (auto simp: pool_at_def addr_bits_def ip_num_def)
  then show thesis using that r by simp
qed

lemma allocate_subnet_block:
  assumes at: "pool_at len start k p" and r: "allocate_subnet name p = Inr (cidr, p')"
  obtains net where "cidr = show_cidr net (ap_prefix p)" "addr_bits net = ap_bits p"
    "ip_num net = ap_base p + k * 2 ^ (ap_bits p - ap_prefix p)"
    "(k + 1) * 2 ^ (ap_bits p - ap_prefix p) \<le> 2 ^ (ap_bits p - len) \<or> k = 0 \<and> ap_bits p - len = 128"
    "pool_at len start (Suc k) p'" "ap_bits p' = ap_bits p" "ap_prefix p' = ap_prefix p" "ap_base p' = ap_base p"
proof -
  define h where "h = ap_bits p - ap_prefix p"
  define g where "g = ap_bits p - len"
  have hg: "h \<le> g" "g \<le> 128" using at by (auto simp: h_def g_def pool_at_def)
  define net where "net = ip_from_bits (ap_bits p) (of_nat (ap_base p + ap_next p))"
  from r have n: "ap_next p + shl_one h \<le> u128_max" "ap_next p + shl_one h \<le> ap_size p"
    "ap_base p + (ap_next p + shl_one h) \<le> shl_one (ap_bits p)"
    "cidr = show_cidr net (ap_prefix p)" "p' = p\<lparr>ap_next := ap_next p + shl_one h\<rparr>"
    by (auto simp: allocate_subnet_def Let_def h_def net_def split: if_splits)
  have bits: "ap_bits p = 32 \<or> ap_bits p = 128" using at by (simp add: pool_at_def)
  have small: "ap_base p + ap_next p < 2 ^ ap_bits p"
  proof -
    have "0 < shl_one h" by (simp add: shl_one_def u128_max_def)
    then have "ap_base p + ap_next p < shl_one (ap_bits p)" using n(3) by linarith
    also have "\<dots> \<le> 2 ^ ap_bits p" using bits by (auto simp: shl_one_128)
    finally show ?thesis .
  qed
  have u: "unat (of_nat (ap_base p + ap_next p) :: 128 word) = ap_base p + ap_next p"
  proof -
    have "(2 :: nat) ^ ap_bits p \<le> 2 ^ 128" using bits by (intro power_increasing) auto
    then show ?thesis using small by (simp add: unat_of_nat del: of_nat_add)
  qed
  have net: "ip_num net = ap_base p + ap_next p \<and> is_ipv4 net = (ap_bits p = 32)"
    unfolding net_def using ip_from_bits_num [of "ap_bits p" "of_nat (ap_base p + ap_next p)"] bits small u by auto
  have k: "k * shl_one h = k * 2 ^ h \<and> ((k + 1) * 2 ^ h \<le> 2 ^ g \<or> k = 0 \<and> g = 128)"
  proof (cases "h = 128")
    case True
    then have g: "g = 128" using hg by simp
    have "(k + 1) * (2 ^ 128 - 1) \<le> (2 ^ 128 - 1 :: nat)"
      using n(1) at True by (simp add: pool_at_def h_def [symmetric] shl_one_128 u128_max_def)
    then have "k = 0" by (cases k) auto
    then show ?thesis using g by simp
  next
    case False
    then have s: "shl_one h = 2 ^ h" using hg by (simp add: shl_one_128)
    have "(k + 1) * 2 ^ h \<le> shl_one g"
      using n(2) at by (simp add: pool_at_def h_def [symmetric] g_def [symmetric] s)
    moreover have "shl_one g \<le> 2 ^ g" using hg by (auto simp: shl_one_128)
    ultimately show ?thesis using s by auto
  qed
  show thesis
  proof (rule that)
    show "cidr = show_cidr net (ap_prefix p)" by (rule n(4))
    show "addr_bits net = ap_bits p" using net bits by (auto simp: addr_bits_def)
    show "ip_num net = ap_base p + k * 2 ^ (ap_bits p - ap_prefix p)"
      using net k at by (simp add: pool_at_def h_def [symmetric])
    show "(k + 1) * 2 ^ (ap_bits p - ap_prefix p) \<le> 2 ^ (ap_bits p - len) \<or> k = 0 \<and> ap_bits p - len = 128"
      using k by (simp add: h_def g_def)
    show "pool_at len start (Suc k) p'" using at n(5) by (simp add: pool_at_def h_def [symmetric])
  qed (use n(5) in simp_all)
qed

text \<open>Successive allocations.\<close>

fun allocate_times :: "string \<Rightarrow> nat \<Rightarrow> alloc_pool \<Rightarrow> (lower_error, string list \<times> alloc_pool) result" where
  "allocate_times name 0 p = Inr ([], p)"
| "allocate_times name (Suc n) p =
     and_then (allocate_subnet name p) (\<lambda>(c, p'). and_then (allocate_times name n p') (\<lambda>(cs, p''). Inr (c # cs, p'')))"

definition block_at :: "nat \<Rightarrow> nat \<Rightarrow> nat \<Rightarrow> nat \<Rightarrow> nat \<Rightarrow> nat \<Rightarrow> string \<Rightarrow> bool" where
  "block_at base bits len alloc start k cidr \<longleftrightarrow>
     (\<exists>net. parse_cidr cidr = Inr (net, alloc) \<and> addr_bits net = bits \<and>
        ip_num net = base + k * 2 ^ (bits - alloc) \<and> ip_num net div 2 ^ (bits - len) = start)"

lemma block_in_pool:
  assumes "(k + 1) * 2 ^ h \<le> (2 :: nat) ^ g \<or> k = 0"
  shows "(start * 2 ^ g + k * 2 ^ h) div 2 ^ g = start"
proof -
  have "k * 2 ^ h < (2 :: nat) ^ g"
  proof (cases k)
    case 0
    then show ?thesis by simp
  next
    case (Suc j)
    have "k * 2 ^ h < (k + 1) * (2 :: nat) ^ h" by simp
    also have "\<dots> \<le> 2 ^ g" using assms Suc by simp
    finally show ?thesis .
  qed
  then show ?thesis by simp
qed

lemma allocate_times_blocks:
  assumes "pool_at len start k p" "allocate_times name n p = Inr (cs, p')"
  shows "length cs = n \<and> (\<forall>i < n. block_at (ap_base p) (ap_bits p) len (ap_prefix p) start (k + i) (cs ! i))"
  using assms
proof (induction n arbitrary: k p cs)
  case (Suc n)
  from Suc(3) obtain c q ds where r: "allocate_subnet name p = Inr (c, q)" "allocate_times name n q = Inr (ds, p')" "cs = c # ds"
    by auto
  obtain net where b: "c = show_cidr net (ap_prefix p)" "addr_bits net = ap_bits p"
    "ip_num net = ap_base p + k * 2 ^ (ap_bits p - ap_prefix p)"
    "(k + 1) * 2 ^ (ap_bits p - ap_prefix p) \<le> 2 ^ (ap_bits p - len) \<or> k = 0 \<and> ap_bits p - len = 128"
    "pool_at len start (Suc k) q" "ap_bits q = ap_bits p" "ap_prefix q = ap_prefix p" "ap_base q = ap_base p"
    by (rule allocate_subnet_block [OF Suc(2) r(1)])
  note rest = Suc(1) [OF b(5) r(2), unfolded b(6-8)]
  have "ap_prefix p \<le> addr_bits net" using Suc(2) b(2) by (simp add: pool_at_def)
  moreover have "ap_base p = start * 2 ^ (ap_bits p - len)" using Suc(2) by (simp add: pool_at_def)
  ultimately have first: "block_at (ap_base p) (ap_bits p) len (ap_prefix p) start k c"
    using b(1-4) block_in_pool [of k "ap_bits p - ap_prefix p" "ap_bits p - len" start]
    by (auto simp: block_at_def parse_cidr_show)
  have "block_at (ap_base p) (ap_bits p) len (ap_prefix p) start (k + i) (cs ! i)" if "i < Suc n" for i
  proof (cases i)
    case 0
    then show ?thesis using first r(3) by simp
  next
    case (Suc j)
    then show ?thesis using rest that r(3) by (simp add: add_Suc_right [symmetric] del: add_Suc_right)
  qed
  then show ?case using rest r(3) by simp
qed simp

text \<open>Two blocks of one pool share no address, and lie in the declared network.\<close>

lemma blocks_disjoint:
  assumes "block_at base bits len alloc start i c" "block_at base bits len alloc start j d" "i \<noteq> j"
    and "base = start * 2 ^ (bits - len)" "len \<le> alloc" "alloc \<le> bits"
    and "parse_cidr c = Inr (n, l)" "parse_cidr d = Inr (m, l')"
  shows "\<not> (ip_in_subnet a n l \<and> ip_in_subnet a m l')"
proof
  let ?h = "bits - alloc"
  assume a: "ip_in_subnet a n l \<and> ip_in_subnet a m l'"
  have n: "l = alloc" "addr_bits n = bits" "ip_num n = base + i * 2 ^ ?h" using assms(1,7) by (auto simp: block_at_def)
  have m: "l' = alloc" "addr_bits m = bits" "ip_num m = base + j * 2 ^ ?h" using assms(2,8) by (auto simp: block_at_def)
  have "ip_num n div 2 ^ ?h = ip_num m div 2 ^ ?h"
    using a n(1,2) m(1,2) assms(6) by (simp add: ip_in_subnet_iff)
  moreover have "base = start * 2 ^ (alloc - len) * 2 ^ ?h"
    using assms(4-6) by (simp add: power_add [symmetric])
  ultimately have "start * 2 ^ (alloc - len) + i = start * 2 ^ (alloc - len) + j"
    unfolding n(3) m(3) by (simp add: add_mult_distrib [symmetric])
  then show False using assms(3) by simp
qed

text \<open>C24.
  However many blocks a program takes from a pool, each is a network of the pool's allocation size,
  inside the declared base, and no two of them have an address in common.
\<close>

theorem pool_blocks_disjoint:
  assumes "new_pool d = Inr p" "allocate_times name k p = Inr (cs, p')" "parse_cidr (pool_base d) = Inr (ip, len)"
  shows "length cs = k \<and>
    (\<forall>i < k. \<exists>net. parse_cidr (cs ! i) = Inr (net, unat (pool_prefix d)) \<and> ip_in_subnet net ip len) \<and>
    (\<forall>i < k. \<forall>j < k. i \<noteq> j \<longrightarrow> (\<forall>a n l m l'. parse_cidr (cs ! i) = Inr (n, l) \<longrightarrow> parse_cidr (cs ! j) = Inr (m, l') \<longrightarrow>
       \<not> (ip_in_subnet a n l \<and> ip_in_subnet a m l')))"
proof -
  obtain ip' len' where n: "parse_cidr (pool_base d) = Inr (ip', len')" "ap_bits p = addr_bits ip'"
    "ap_prefix p = unat (pool_prefix d)" "pool_at len' (ip_num ip' div 2 ^ (addr_bits ip' - len')) 0 p"
    using assms(1) by (rule new_pool_at)
  then have eq: "ip' = ip" "len' = len" using assms(3) by simp_all
  note n = n [unfolded eq]
  let ?start = "ip_num ip div 2 ^ (addr_bits ip - len)"
  note bs = allocate_times_blocks [OF n(4) assms(2), unfolded add_0]
  have base: "ap_base p = ?start * 2 ^ (ap_bits p - len)" "len \<le> ap_prefix p" "ap_prefix p \<le> ap_bits p"
    using n(2,4) by (auto simp: pool_at_def)
  have "\<exists>net. parse_cidr (cs ! i) = Inr (net, unat (pool_prefix d)) \<and> ip_in_subnet net ip len" if "i < k" for i
  proof -
    from bs that obtain net where net: "parse_cidr (cs ! i) = Inr (net, ap_prefix p)" "addr_bits net = ap_bits p"
      "ip_num net div 2 ^ (ap_bits p - len) = ?start" by (auto simp: block_at_def)
    moreover have "is_ipv4 net = is_ipv4 ip" using net(2) n(2) by (auto simp: addr_bits_def split: if_splits)
    ultimately have "ip_in_subnet net ip len" using n(2) base by (simp add: ip_in_subnet_iff)
    then show ?thesis using net(1) n(3) by auto
  qed
  moreover have "\<not> (ip_in_subnet a n l \<and> ip_in_subnet a m l')"
    if "i < k" "j < k" "i \<noteq> j" "parse_cidr (cs ! i) = Inr (n, l)" "parse_cidr (cs ! j) = Inr (m, l')" for i j a n l m l'
    using blocks_disjoint [OF _ _ that(3) base that(4,5)] bs that(1,2) by blast
  ultimately show ?thesis using bs by blast
qed

definition fabric_pool :: pool_def where
  "fabric_pool = \<lparr>pool_name = ''fabric'', pool_base = ''10.0.0.5/29'', pool_prefix = 30\<rparr>"

lemma fabric_pool_allocates:
  "\<exists>p p'. new_pool fabric_pool = Inr p \<and>
     allocate_times ''fabric'' 2 p = Inr ([''10.0.0.0/30'', ''10.0.0.4/30''], p') \<and>
     allocate_times ''fabric'' 3 p = Inl (Pool_Exhausted ''fabric'')"
proof -
  have "new_pool fabric_pool = Inr \<lparr>ap_base = 167772160, ap_size = 8, ap_prefix = 30, ap_next = 0, ap_bits = 32\<rparr>"
    by code_simp
  moreover have "allocate_times ''fabric'' 2 \<lparr>ap_base = 167772160, ap_size = 8, ap_prefix = 30, ap_next = 0, ap_bits = 32\<rparr> =
      Inr ([''10.0.0.0/30'', ''10.0.0.4/30''], \<lparr>ap_base = 167772160, ap_size = 8, ap_prefix = 30, ap_next = 8, ap_bits = 32\<rparr>)"
    by code_simp
  moreover have "allocate_times ''fabric'' 3 \<lparr>ap_base = 167772160, ap_size = 8, ap_prefix = 30, ap_next = 0, ap_bits = 32\<rparr> =
      Inl (Pool_Exhausted ''fabric'')"
    by code_simp
  ultimately show ?thesis by blast
qed

lemma pool_blocks_disjoint_witness:
  "\<forall>a. \<not> (ip_in_subnet a (V4 0x0A000000) 30 \<and> ip_in_subnet a (V4 0x0A000004) 30)"
proof -
  obtain p p' where p: "new_pool fabric_pool = Inr p" "allocate_times ''fabric'' 2 p = Inr ([''10.0.0.0/30'', ''10.0.0.4/30''], p')"
    using fabric_pool_allocates by blast
  have base: "parse_cidr (pool_base fabric_pool) = Inr (V4 0x0A000005, 29)" by code_simp
  have "parse_cidr ([''10.0.0.0/30'', ''10.0.0.4/30''] ! 0) = Inr (V4 0x0A000000, 30)"
    "parse_cidr ([''10.0.0.0/30'', ''10.0.0.4/30''] ! 1) = Inr (V4 0x0A000004, 30)" by code_simp+
  moreover have "(0 :: nat) < 2" "(1 :: nat) < 2" "(0 :: nat) \<noteq> 1" by simp_all
  ultimately show ?thesis using pool_blocks_disjoint [OF p base] by blast
qed

text \<open>
  The limit of the address space is checked with \<open>>\<close> on a sum that may not overflow \<open>u128\<close>: the last
  block of an IPv6 pool that ends with the address space is never handed out.
\<close>

lemma last_ipv6_block_lost:
  "and_then (new_pool \<lparr>pool_name = ''p'', pool_base = ''ffff:ffff:ffff:ffff:ffff:ffff:ffff:fffe/127'', pool_prefix = 128\<rparr>)
     (allocate_times ''p'' 2) = Inl (Pool_Exhausted ''p'')"
  by code_simp

subsection \<open>The two ends of a link\<close>

lemma offset_in_network:
  assumes "network_address ip len = Some net" "unat off < 2 ^ (addr_bits ip - len)" "len \<le> addr_bits ip"
  obtains r where "ip_offset net off = Some r" "ip_num r = ip_num net + unat off" "ip_in_subnet r ip len"
proof -
  obtain r where r: "ip_offset net off = Some r" "is_ipv4 r = is_ipv4 ip" "ip_num r = ip_num net + unat off"
    using assms(1,2) by (rule offset_in_block)
  have "ip_num net = ip_num ip div 2 ^ (addr_bits ip - len) * 2 ^ (addr_bits ip - len)"
    by (rule network_address_Some(2) [OF assms(1)])
  then have "ip_in_subnet r ip len" using r(2,3) assms(2,3) by (simp add: ip_in_subnet_iff)
  then show thesis using that r by blast
qed

text \<open>
  A subnet is split into the two ends of a link exactly when it has at least two addresses; the
  two are different, lie in the subnet, and in a subnet of four or more are neither the network
  nor the broadcast address.
\<close>

theorem split_subnet_correct:
  assumes "parse_cidr c = Inr (ip, len)"
  shows "if len < addr_bits ip
    then \<exists>a b. split_subnet c = Some (show_cidr a len, show_cidr b len) \<and> a \<noteq> b \<and>
      ip_in_subnet a ip len \<and> ip_in_subnet b ip len \<and>
      (\<forall>x \<in> {a, b}. len + 1 < addr_bits ip \<longrightarrow>
         0 < ip_num x mod 2 ^ (addr_bits ip - len) \<and> ip_num x mod 2 ^ (addr_bits ip - len) < 2 ^ (addr_bits ip - len) - 1)
    else split_subnet c = None"
proof (cases "len < addr_bits ip")
  case True
  let ?m = "2 ^ (addr_bits ip - len) :: nat"
  obtain net where net: "network_address ip len = Some net"
    using True network_address_exists [of len ip] by auto
  define offs :: "128 word \<times> 128 word" where "offs = (if len = addr_bits ip - 1 then (0, 1) else (1, 2))"
  have big: "len + 1 < addr_bits ip \<Longrightarrow> 4 \<le> ?m"
    using power_increasing [of 2 "addr_bits ip - len" "2 :: nat"] by simp
  moreover have "len \<noteq> addr_bits ip - 1 \<Longrightarrow> len + 1 < addr_bits ip" using True by linarith
  ultimately have big': "len \<noteq> addr_bits ip - 1 \<Longrightarrow> 4 \<le> ?m" by blast
  have two: "2 \<le> ?m" using True power_increasing [of 1 "addr_bits ip - len" "2 :: nat"] by simp
  have offs: "unat (fst offs) < ?m" "unat (snd offs) < ?m" "fst offs \<noteq> snd offs"
    "len + 1 < addr_bits ip \<Longrightarrow> 0 < unat (fst offs) \<and> unat (fst offs) < ?m - 1 \<and> 0 < unat (snd offs) \<and> unat (snd offs) < ?m - 1"
    using True two big big' by (auto simp: offs_def)
  obtain a where a: "ip_offset net (fst offs) = Some a" "ip_num a = ip_num net + unat (fst offs)" "ip_in_subnet a ip len"
    using net offs(1) less_imp_le [OF True] by (rule offset_in_network)
  obtain b where b: "ip_offset net (snd offs) = Some b" "ip_num b = ip_num net + unat (snd offs)" "ip_in_subnet b ip len"
    using net offs(2) less_imp_le [OF True] by (rule offset_in_network)
  have "split_subnet c = Some (show_cidr a len, show_cidr b len)"
    using assms True net a(1) b(1) by (simp add: split_subnet_def Let_def offs_def split: if_splits)
  moreover have "a \<noteq> b" using a(2) b(2) offs(3) by (auto simp: word_unat_eq_iff)
  moreover have "ip_num net mod ?m = 0" using network_address_Some(2) [OF net] by simp
  then have "ip_num a mod ?m = unat (fst offs)" "ip_num b mod ?m = unat (snd offs)"
    using a(2) b(2) offs(1,2) by (simp_all add: mod_add_eq [symmetric])
  ultimately show ?thesis using True a(3) b(3) offs(4)
    by simp (rule exI [of _ a], simp, rule exI [of _ b], simp)
next
  case False
  then show ?thesis using assms by (simp add: split_subnet_def Let_def)
qed

lemma split_subnet_correct_witness:
  "\<exists>a b. split_subnet ''10.0.0.9/30'' = Some (show_cidr a 30, show_cidr b 30) \<and> a \<noteq> b \<and>
     ip_in_subnet a (V4 0x0A000009) 30"
proof -
  have "parse_cidr ''10.0.0.9/30'' = Inr (V4 0x0A000009, 30)" by code_simp
  from split_subnet_correct [OF this] show ?thesis by (auto simp: addr_bits_def)
qed

end
