(* ===== verification/Lower_Values.thy ===== *)
theory Lower_Values
  imports Nll_Pool
begin

text \<open>
  The lowering of values, \<open>parser/nll/lower.rs\<close>: from the typed, spanned tree to the texts and numbers of
  the topology. Netem properties, rates, queueing disciplines, routing daemons, firewalls, the lab block,
  assertions, scenarios and benchmarks. A literal keeps its spelling, a deferred value is checked here.
\<close>

subsection \<open>State threaded through lists\<close>

text \<open>A \<open>for\<close> loop whose body may fail with \<open>?\<close> and changes the state.\<close>

fun fold_result :: "('a \<Rightarrow> 's \<Rightarrow> ('e, 's) result) \<Rightarrow> 'a list \<Rightarrow> 's \<Rightarrow> ('e, 's) result" where
  "fold_result f [] s = Inr s"
| "fold_result f (x # xs) s = and_then (f x s) (fold_result f xs)"

lemma fold_result_append:
  "fold_result f (xs @ ys) s = and_then (fold_result f xs s) (fold_result f ys)"
proof (induction xs arbitrary: s)
  case (Cons x xs)
  then show ?case by (cases "f x s") simp_all
qed simp

text \<open>An invariant of every step is one of the loop.\<close>

lemma fold_result_invariant:
  assumes "fold_result f xs s = Inr s'" "P s" "\<And>x s s'. x \<in> set xs \<Longrightarrow> P s \<Longrightarrow> f x s = Inr s' \<Longrightarrow> P s'"
  shows "P s'"
  using assms by (induction xs arbitrary: s) auto

text \<open>What a step adds to a measure of the state, the loop adds in order.\<close>

lemma fold_result_collects:
  assumes "fold_result f xs s = Inr s'" "\<And>x s s'. x \<in> set xs \<Longrightarrow> f x s = Inr s' \<Longrightarrow> m s' = m s @ g x"
  shows "m s' = m s @ concat (map g xs)"
  using assms
proof (induction xs arbitrary: s)
  case (Cons x xs)
  then obtain t where t: "f x s = Inr t" "fold_result f xs t = Inr s'" by auto
  have "m t = m s @ g x" by (rule Cons.prems(2) [OF _ t(1)]) simp
  moreover have "m s' = m t @ concat (map g xs)"
    by (rule Cons.IH [OF t(2)]) (use Cons.prems(2) in auto)
  ultimately show ?case by simp
qed simp

lemma fold_result_unions:
  assumes "fold_result f xs s = Inr s'" "\<And>x s s'. x \<in> set xs \<Longrightarrow> f x s = Inr s' \<Longrightarrow> m s' = m s \<union> g x"
  shows "m s' = m s \<union> \<Union> (g ` set xs)"
  using assms
proof (induction xs arbitrary: s)
  case (Cons x xs)
  then obtain t where t: "f x s = Inr t" "fold_result f xs t = Inr s'" by auto
  have "m t = m s \<union> g x" by (rule Cons.prems(2) [OF _ t(1)]) simp
  moreover have "m s' = m t \<union> \<Union> (g ` set xs)"
    by (rule Cons.IH [OF t(2)]) (use Cons.prems(2) in auto)
  ultimately show ?case by auto
qed simp

subsection \<open>Texts\<close>

definition text_of :: "(string \<Rightarrow> (value_error, 'a) result) \<Rightarrow> 'a val \<Rightarrow> (lower_error, string) result" where
  "text_of parse v = (case to_text parse v of Inl e \<Rightarrow> Inl (Bad_Value e) | Inr s \<Rightarrow> Inr s)"

definition opt_text :: "(string \<Rightarrow> (value_error, 'a) result) \<Rightarrow> 'a val option \<Rightarrow> (lower_error, string option) result" where
  "opt_text parse v = (case v of None \<Rightarrow> Inr None | Some x \<Rightarrow> and_then (text_of parse x) (\<lambda>s. Inr (Some s)))"

definition value_of :: "(string \<Rightarrow> (value_error, 'a) result) \<Rightarrow> 'a val \<Rightarrow> (lower_error, 'a) result" where
  "value_of parse v = (case to_value parse v of Inl e \<Rightarrow> Inl (Bad_Value e) | Inr x \<Rightarrow> Inr x)"

definition opt_map :: "('a \<Rightarrow> ('e, 'b) result) \<Rightarrow> 'a option \<Rightarrow> ('e, 'b option) result" where
  "opt_map f v = (case v of None \<Rightarrow> Inr None | Some x \<Rightarrow> and_then (f x) (\<lambda>y. Inr (Some y)))"

subsection \<open>Traffic control\<close>

definition loss_text :: "impair_props \<Rightarrow> (lower_error, string option) result" where
  "loss_text p =
     (case ip_loss_model p of
        Some m \<Rightarrow>
          and_then (traverse (text_of parse_percent) (lm_values m)) (\<lambda>vs.
            Inr (Some (lm_kind m @ concat (map (\<lambda>v. '' '' @ v) vs))))
      | None \<Rightarrow> opt_text parse_percent (ip_loss p))"

definition lower_impair_props :: "impair_props \<Rightarrow> (lower_error, impairment) result" where
  "lower_impair_props p =
     and_then (opt_text parse_duration (ip_delay p)) (\<lambda>delay.
     and_then (opt_text parse_duration (ip_jitter p)) (\<lambda>jitter.
     and_then (loss_text p) (\<lambda>loss.
     and_then (opt_text parse_rate_bps (ip_rate p)) (\<lambda>rate.
     and_then (opt_text parse_percent (ip_corrupt p)) (\<lambda>corrupt.
     and_then (opt_text parse_percent (ip_reorder p)) (\<lambda>reorder.
     and_then (opt_text parse_percent (ip_duplicate p)) (\<lambda>duplicate.
     and_then (opt_text parse_percent (ip_delay_correlation p)) (\<lambda>delay_correlation.
     and_then (opt_text parse_percent (ip_loss_correlation p)) (\<lambda>loss_correlation.
     and_then (opt_text parse_packets (ip_limit p)) (\<lambda>limit.
     and_then (opt_text parse_seed_value (ip_seed p)) (\<lambda>seed.
       Inr \<lparr>imp_delay = delay, imp_jitter = jitter, imp_loss = loss, imp_rate = rate, imp_corrupt = corrupt,
            imp_reorder = reorder, imp_duplicate = duplicate, imp_delay_correlation = delay_correlation,
            imp_loss_correlation = loss_correlation, imp_limit = limit, imp_seed = seed\<rparr>)))))))))))"

definition lower_rate_props :: "rate_props \<Rightarrow> (lower_error, rate_limit) result" where
  "lower_rate_props p =
     and_then (opt_text parse_rate_bps (rp_egress p)) (\<lambda>egress.
     and_then (opt_text parse_rate_bps (rp_ingress p)) (\<lambda>ingress.
     and_then (opt_text parse_size (rp_burst p)) (\<lambda>burst.
       Inr \<lparr>rl_egress = egress, rl_ingress = ingress, rl_burst = burst\<rparr>)))"

fun lower_qdisc_kind :: "qdisc_kind_def \<Rightarrow> (lower_error, qdisc_kind) result" where
  "lower_qdisc_kind (QD_Tbf rate burst limit peakrate mtu) =
     and_then (text_of parse_rate_bps rate) (\<lambda>rate.
     and_then (text_of parse_size burst) (\<lambda>burst.
     and_then (opt_text parse_size limit) (\<lambda>limit.
     and_then (opt_text parse_rate_bps peakrate) (\<lambda>peakrate. Inr (Tbf rate burst limit peakrate mtu)))))"
| "lower_qdisc_kind (QD_FqCodel target interval limit flows quantum ecn) =
     and_then (opt_text parse_duration target) (\<lambda>target.
     and_then (opt_text parse_duration interval) (\<lambda>interval. Inr (FqCodel target interval limit flows quantum ecn)))"
| "lower_qdisc_kind (QD_Sfq perturb limit quantum) =
     and_then (opt_text parse_duration perturb) (\<lambda>perturb. Inr (Sfq perturb limit quantum))"
| "lower_qdisc_kind (QD_Prio bands) = Inr (Prio bands)"

subsection \<open>Routing daemons\<close>

text \<open>\<open>as_secs() as u32\<close> truncates.\<close>

definition frr_secs :: "duration_val option \<Rightarrow> (lower_error, u32 option) result" where
  "frr_secs v =
     opt_map (\<lambda>v. and_then (value_of parse_duration v) (\<lambda>ns.
       if ns div 1000000 mod 1000 \<noteq> 0 \<or> ns div 1000000000 = 0 then Inl (Bad_Ospf_Time (val_span v))
       else Inr (of_nat (ns div 1000000000)))) v"

definition lower_ospf :: "ospf_def \<Rightarrow> (lower_error, ospf_config) result" where
  "lower_ospf d =
     and_then (frr_secs (od_hello d)) (\<lambda>hello.
     and_then (frr_secs (od_dead d)) (\<lambda>dead.
       Inr \<lparr>ospf_area = od_area d, ospf_router_id = od_router_id d, ospf_passive = od_passive d,
            ospf_hello = hello, ospf_dead = dead, ospf_redistribute = od_redistribute d\<rparr>))"

definition frr_asn :: "string \<Rightarrow> (lower_error, u32) result" where
  "frr_asn s = and_then (ok_or (parse_u32 (trim s)) (Bad_Asn s)) (\<lambda>n. Inr (of_nat n))"

definition lower_bgp_neighbor :: "bgp_neighbor_def \<Rightarrow> (lower_error, bgp_neighbor) result" where
  "lower_bgp_neighbor n =
     and_then (opt_map frr_asn (bnd_remote_as n)) (\<lambda>remote_as.
       Inr \<lparr>bn_node = bnd_node n, bn_remote_as = remote_as, bn_remote = bnd_remote n\<rparr>)"

definition lower_bgp :: "bgp_def \<Rightarrow> (lower_error, bgp_config) result" where
  "lower_bgp b =
     and_then (frr_asn (bd_asn b)) (\<lambda>asn.
     and_then (traverse lower_bgp_neighbor (bd_neighbors b)) (\<lambda>neighbors.
       Inr \<lparr>bgp_asn = asn, bgp_router_id = bd_router_id b, bgp_neighbors = neighbors,
            bgp_networks = bd_networks b, bgp_redistribute = bd_redistribute b\<rparr>))"

definition lower_frr :: "frr_def \<Rightarrow> (lower_error, frr_config) result" where
  "lower_frr d =
     and_then (opt_map lower_ospf (fd_ospf d)) (\<lambda>ospf.
     and_then (opt_map lower_bgp (fd_bgp d)) (\<lambda>bgp. Inr \<lparr>frr_ospf = ospf, frr_bgp = bgp\<rparr>))"

subsection \<open>Firewalls\<close>

text \<open>\<open>set_key\<close> of \<open>firewall.rs\<close>: the declared key, or the one its first element shows.\<close>

function split_str :: "string \<Rightarrow> string \<Rightarrow> string list" where
  "split_str sep s =
     (if sep = [] then [s]
      else (case split_once_str sep s of None \<Rightarrow> [s] | Some (a, b) \<Rightarrow> a # split_str sep b))"
  by pat_completeness auto

lemma split_once_str_length: "split_once_str sep s = Some (a, b) \<Longrightarrow> length s = length a + length sep + length b"
  by (induction sep s arbitrary: a b rule: split_once_str.induct)
    (auto dest: prefix_length_le split: option.splits if_splits)

termination split_str
  by (relation "measure (\<lambda>(sep, s). length s)") (auto dest!: split_once_str_length)

declare split_str.simps [simp del]

definition key_part :: "string \<Rightarrow> set_key option" where
  "key_part part =
     (let lo = (case split_once CHR ''-'' part of Some (a, _) \<Rightarrow> a | None \<Rightarrow> part);
          addr = (case split_once CHR ''/'' lo of Some (a, _) \<Rightarrow> a | None \<Rightarrow> lo) in
      case parse_ip addr of
        Some ip \<Rightarrow> Some (if is_ipv4 ip then Key_Ipv4 else Key_Ipv6)
      | None \<Rightarrow> if parse_u16 addr \<noteq> None then Some Key_Port else None)"

definition set_key_of :: "firewall_set \<Rightarrow> set_key list option" where
  "set_key_of s =
     (if fs_key s \<noteq> [] then Some (fs_key s)
      else (case fs_elements s of
              [] \<Rightarrow> None
            | first # _ \<Rightarrow> those (map key_part (split_str '' . '' first))))"

definition firewall_default :: firewall_config where
  "firewall_default = \<lparr>fw_policy = None, fw_rules = [], fw_forward = None, fw_output = None, fw_sets = bm_empty\<rparr>"

definition lower_set :: "(string \<Rightarrow> string) \<Rightarrow> firewall_set_def \<Rightarrow> firewall_set" where
  "lower_set interp d =
     (let s = \<lparr>fs_key = fsd_key d, fs_elements = map interp (fsd_elements d), fs_size = fsd_size d,
               fs_timeout = fsd_timeout d, fs_dynamic = fsd_dynamic d\<rparr> in
      case set_key_of s of Some key \<Rightarrow> s\<lparr>fs_key := key\<rparr> | None \<Rightarrow> s)"

definition lower_rule :: "(string \<Rightarrow> string) \<Rightarrow> firewall_rule_def \<Rightarrow> firewall_rule" where
  "lower_rule interp r =
     (let m = interp (frd_match_expr r) in
      \<lparr>fr_match_expr = (if m = [] then None else Some m), fr_action = Some (frd_action r),
       fr_reject_with = frd_reject_with r, fr_limit = frd_limit r, fr_counter = frd_counter r,
       fr_counter_name = map_option interp (frd_counter_name r),
       fr_log = map_option (\<lambda>l. l\<lparr>flog_prefix := map_option interp (flog_prefix l)\<rparr>) (frd_log r),
       fr_set_mark = frd_set_mark r, fr_ct_mark = frd_ct_mark r, fr_classify = frd_classify r,
       fr_clamp_mss = frd_clamp_mss r\<rparr>)"

definition chain_layer :: "(string \<Rightarrow> string) \<Rightarrow> firewall_chain_def \<Rightarrow> firewall_config" where
  "chain_layer interp c =
     (let chain = \<lparr>fc_policy = fcd_policy c, fc_rules = map (lower_rule interp) (fcd_rules c)\<rparr> in
      if fcd_chain c = ''forward'' then firewall_default\<lparr>fw_forward := Some chain\<rparr>
      else if fcd_chain c = ''output'' then firewall_default\<lparr>fw_output := Some chain\<rparr>
      else firewall_default\<lparr>fw_policy := fc_policy chain, fw_rules := fc_rules chain\<rparr>)"

definition lower_firewall :: "(string \<Rightarrow> string) \<Rightarrow> firewall_def \<Rightarrow> firewall_config" where
  "lower_firewall interp fw =
     foldl (\<lambda>out c. merge_from out (chain_layer interp c))
       (firewall_default\<lparr>fw_sets := foldl (\<lambda>m s. bm_insert (fsd_name s) (lower_set interp s) m) bm_empty (fwd_sets fw)\<rparr>)
       (fwd_chains fw)"

definition merge_firewall :: "firewall_config option \<Rightarrow> firewall_config \<Rightarrow> firewall_config option" where
  "merge_firewall slot layer =
     (if declares_anything layer
      then Some (merge_from (case slot of Some f \<Rightarrow> f | None \<Rightarrow> firewall_default) layer)
      else slot)"

subsection \<open>Profiles and the lab block\<close>

definition profile_default :: profile where
  "profile_default = \<lparr>profile_sysctls = bm_empty, profile_firewall = None, profile_frr = None\<rparr>"

definition forward_key :: "ip_version \<Rightarrow> string" where
  "forward_key v = (case v of Ipv4 \<Rightarrow> ''net.ipv4.ip_forward'' | Ipv6 \<Rightarrow> ''net.ipv6.conf.all.forwarding'')"

definition profile_prop :: "profile \<Rightarrow> node_prop \<Rightarrow> profile" where
  "profile_prop p prop =
     (case prop of
        Prop_Forward v \<Rightarrow> p\<lparr>profile_sysctls := bm_insert (forward_key v) ''1'' (profile_sysctls p)\<rparr>
      | Prop_Sysctl k v \<Rightarrow> p\<lparr>profile_sysctls := bm_insert k v (profile_sysctls p)\<rparr>
      | Prop_Frr f \<Rightarrow> p\<lparr>profile_frr := (case lower_frr f of Inr c \<Rightarrow> Some c | Inl _ \<Rightarrow> None)\<rparr>
      | Prop_Firewall fw \<Rightarrow> p\<lparr>profile_firewall := merge_firewall (profile_firewall p) (lower_firewall id fw)\<rparr>
      | _ \<Rightarrow> p)"

definition lower_profile :: "profile_def \<Rightarrow> profile" where
  "lower_profile d = foldl profile_prop profile_default (pfd_props d)"

definition lower_runtime :: "string option \<Rightarrow> (lower_error, container_runtime option) result" where
  "lower_runtime r =
     (case r of
        None \<Rightarrow> Inr None
      | Some k \<Rightarrow>
          if k = ''auto'' then Inr (Some Runtime_Auto)
          else if k = ''docker'' then Inr (Some Runtime_Docker)
          else if k = ''podman'' then Inr (Some Runtime_Podman)
          else Inl (Unknown_Keyword k))"

definition lower_dns :: "string option \<Rightarrow> (lower_error, dns_mode) result" where
  "lower_dns d =
     (case d of
        None \<Rightarrow> Inr Dns_Off
      | Some k \<Rightarrow>
          if k = ''off'' then Inr Dns_Off
          else if k = ''hosts'' then Inr Dns_Hosts
          else Inl (Unknown_Keyword k))"

definition lower_routing :: "string option \<Rightarrow> (lower_error, routing_mode) result" where
  "lower_routing r =
     (case r of
        None \<Rightarrow> Inr Routing_Manual
      | Some k \<Rightarrow>
          if k = ''manual'' then Inr Routing_Manual
          else if k = ''auto'' then Inr Routing_Auto
          else if k = ''frr'' then Inr Routing_Frr
          else Inl (Unknown_Keyword k))"

definition lower_lab :: "lab_decl \<Rightarrow> (lower_error, lab_config) result" where
  "lower_lab d =
     and_then (lower_runtime (ld_runtime d)) (\<lambda>runtime.
     and_then (lower_dns (ld_dns d)) (\<lambda>dns.
     and_then (lower_routing (ld_routing d)) (\<lambda>routing.
     and_then (opt_map lower_frr (ld_frr d)) (\<lambda>frr.
     and_then (opt_map (value_of parse_seed_value) (ld_seed d)) (\<lambda>seed.
       Inr \<lparr>lab_name = ld_name d, lab_description = ld_description d, lab_prefix = ld_prefix d,
            lab_runtime = runtime, lab_version = ld_version d, lab_author = ld_author d, lab_tags = ld_tags d,
            lab_mgmt_subnet = ld_mgmt d, lab_mgmt_host_reachable = ld_mgmt_host_reachable d, lab_dns = dns,
            lab_routing = routing, lab_frr = frr, lab_seed = seed\<rparr>)))))"

subsection \<open>Assertions, benchmarks and scenarios\<close>

fun lower_assertion :: "assertion_def \<Rightarrow> (lower_error, assertion) result" where
  "lower_assertion (AD_Reach from to) = Inr (Reach from to)"
| "lower_assertion (AD_NoReach from to) = Inr (NoReach from to)"
| "lower_assertion (AD_TcpConnect from to port timeout retries interval) =
     and_then (opt_text parse_duration timeout) (\<lambda>timeout.
     and_then (opt_text parse_duration interval) (\<lambda>interval.
       Inr (TcpConnect from to port timeout retries interval)))"
| "lower_assertion (AD_LatencyUnder from to mx samples) =
     and_then (text_of parse_duration mx) (\<lambda>mx. Inr (LatencyUnder from to mx samples))"
| "lower_assertion (AD_RouteHas node destination via dev) = Inr (RouteHas node destination via dev)"
| "lower_assertion (AD_DnsResolves from name expected) = Inr (DnsResolves from name expected)"
| "lower_assertion (AD_Counter node name metric op val) = Inr (Counter node name metric op val)"

definition lower_benchmark_assertion :: "benchmark_assertion_def \<Rightarrow> (lower_error, benchmark_assertion) result" where
  "lower_benchmark_assertion a =
     and_then
       (if bad_op a = ''above'' \<or> bad_op a = ''>'' then Inr Gt
        else if bad_op a = ''below'' \<or> bad_op a = ''<'' then Inr Lt
        else if bad_op a = ''>='' then Inr Gte
        else if bad_op a = ''<='' then Inr Lte
        else Inl (Unknown_Keyword (bad_op a)))
       (\<lambda>op. Inr \<lparr>ba_metric = bad_metric a, ba_op = op, ba_value = bad_value a\<rparr>)"

fun lower_benchmark_test :: "benchmark_test_def \<Rightarrow> (lower_error, benchmark_test) result" where
  "lower_benchmark_test (BT_Iperf3 from to duration streams udp rate as) =
     and_then (opt_text parse_duration duration) (\<lambda>duration.
     and_then (opt_text parse_rate_bps rate) (\<lambda>rate.
     and_then (traverse lower_benchmark_assertion as) (\<lambda>as. Inr (Iperf3 from to duration streams udp rate as))))"
| "lower_benchmark_test (BT_Ping from to count as) =
     and_then (traverse lower_benchmark_assertion as) (\<lambda>as. Inr (Ping from to count as))"

definition lower_benchmark :: "benchmark_def \<Rightarrow> (lower_error, benchmark) result" where
  "lower_benchmark b =
     and_then (traverse lower_benchmark_test (bmd_tests b)) (\<lambda>tests.
       Inr \<lparr>bench_name = bmd_name b, bench_tests = tests\<rparr>)"

definition lower_direction :: "string option \<Rightarrow> (lower_error, direction) result" where
  "lower_direction d =
     (case d of
        None \<Rightarrow> Inr Dir_Out
      | Some k \<Rightarrow>
          if k = ''out'' then Inr Dir_Out
          else if k = ''in'' then Inr Dir_In
          else if k = ''both'' then Inr Dir_Both
          else Inl (Unknown_Keyword k))"

definition lower_replay_target :: "replay_target_def \<Rightarrow> string option \<Rightarrow> (lower_error, replay_target) result" where
  "lower_replay_target target dir =
     (case target of
        RT_Endpoint ep \<Rightarrow> and_then (lower_direction dir) (\<lambda>d. Inr (Replay_Endpoint ep d))
      | RT_Pair network src dst \<Rightarrow>
          if dir \<noteq> None then Inl (Dir_On_Pair network) else Inr (Replay_Pair network src dst))"

definition DEFAULT_REPLAY_STEP_MS :: u64 where "DEFAULT_REPLAY_STEP_MS = 100"

definition lower_replay_step :: "duration_val option \<Rightarrow> (lower_error, u64) result" where
  "lower_replay_step step =
     (case step of
        None \<Rightarrow> Inr DEFAULT_REPLAY_STEP_MS
      | Some s \<Rightarrow>
          and_then (value_of parse_duration s) (\<lambda>ns.
            let ms = min (ns div 1000000) u64_max in
            if ms = 0 then Inl Zero_Step else Inr (of_nat ms)))"

fun lower_action :: "scenario_action_def \<Rightarrow> (lower_error, scenario_action) result" where
  "lower_action (SA_Down ep) = Inr (Act_Down ep)"
| "lower_action (SA_Up ep) = Inr (Act_Up ep)"
| "lower_action (SA_Clear ep) = Inr (Act_Clear ep)"
| "lower_action (SA_Log m) = Inr (Act_Log m)"
| "lower_action (SA_Exec node cmd) = Inr (Act_Exec node cmd)"
| "lower_action (SA_Impair ep props) = and_then (lower_impair_props props) (\<lambda>i. Inr (Act_Impair ep i))"
| "lower_action (SA_Partition ep both) = Inr (Act_Partition ep both)"
| "lower_action (SA_Heal ep both) = Inr (Act_Heal ep both)"
| "lower_action (SA_PairImpair network rule) =
     and_then (lower_impair_props (nid_props rule)) (\<lambda>i.
     and_then (opt_text parse_rate_bps (nid_rate_cap rule)) (\<lambda>cap.
       Inr (Act_PairImpair network (nid_src rule) (nid_dst rule) i cap)))"
| "lower_action (SA_Replay target trace step looped dir) =
     and_then (lower_replay_target target dir) (\<lambda>target.
     and_then (lower_replay_step step) (\<lambda>step_ms. Inr (Act_Replay target trace step_ms looped)))"
| "lower_action (SA_Validate as) = and_then (traverse lower_assertion as) (\<lambda>as. Inr (Act_Validate as))"

definition val_text :: "'a val \<Rightarrow> string" where
  "val_text v = val_raw v"

text \<open>A time with a \<open>+\<close> is relative to the step before.\<close>

definition is_relative :: "duration_val \<Rightarrow> bool" where
  "is_relative t \<longleftrightarrow> prefix ''+'' (trim (val_text t))"

definition lower_step :: "scenario_step_def \<Rightarrow> u64 \<times> scenario_step list \<Rightarrow> (lower_error, u64 \<times> scenario_step list) result" where
  "lower_step s = (\<lambda>(cumulative_ms, steps).
     and_then (value_of parse_duration (ssd_time s)) (\<lambda>ns.
       let ms = of_nat (ns div 1000000);
           time_ms = (if is_relative (ssd_time s) then cumulative_ms + ms else ms) in
       and_then (traverse lower_action (ssd_actions s)) (\<lambda>actions.
         Inr (time_ms, steps @ [\<lparr>step_time_ms = time_ms, step_actions = actions\<rparr>]))))"

definition lower_scenario :: "scenario_def \<Rightarrow> (lower_error, scenario) result" where
  "lower_scenario s =
     and_then (fold_result lower_step (scd_steps s) (0, [])) (\<lambda>(_, steps).
       Inr \<lparr>scenario_name = scd_name s, scenario_steps = sort_key step_time_ms steps, scenario_keep = scd_keep s\<rparr>)"

end
