(* ===== verification/Lower_Nodes.thy ===== *)
theory Lower_Nodes
  imports Lower_Values
begin

text \<open>
  The lowering of nodes, \<open>parser/nll/lower.rs\<close>: \<open>apply_node_props\<close> lays the properties of profiles and of
  the node itself over a node, \<open>lower_node\<close> adds the node to the topology. The context \<open>LowerCtx\<close> is a
  record; the only part of it a property changes are the pools, which an \<open>lo pool\<close> allocates from.
\<close>

type_synonym pools = "(string, alloc_pool) btree_map"

record lower_ctx =
  cx_profiles :: "(string, profile_def) btree_map"
  cx_variables :: vars
  cx_link_mtu :: "u32 option"
  cx_impair :: "impair_props option"
  cx_rate :: "rate_props option"
  cx_pools :: pools
  cx_link_profiles :: "(string, defaults_def) btree_map"
  cx_sites :: sites

subsection \<open>Properties of a node\<close>

definition interface_default :: interface_config where
  "interface_default = \<lparr>if_kind = None, if_addresses = [], if_vni = None, if_local = None, if_remote = None,
     if_port = None, if_underlay = None, if_mtu = None, if_parent = None, if_members = [], if_bond = None,
     if_vlan_protocol = None\<rparr>"

definition bond_default :: bond_options where
  "bond_default = \<lparr>bond_mode_of = None, bond_miimon = None, bond_lacp_rate = None, bond_xmit_hash = None,
     bond_min_links = None, bond_updelay = None, bond_downdelay = None\<rparr>"

definition set_sysctl :: "string \<Rightarrow> string \<Rightarrow> node \<Rightarrow> node" where
  "set_sysctl k v n = n\<lparr>node_sysctls := bm_insert k v (node_sysctls n)\<rparr>"

definition set_interface :: "string \<Rightarrow> interface_config \<Rightarrow> node \<Rightarrow> node" where
  "set_interface k c n = n\<lparr>node_interfaces := bm_insert k c (node_interfaces n)\<rparr>"

text \<open>The \<open>lo\<close> entry exists before the address is looked up; an error discards the node.\<close>

definition add_lo :: "string \<Rightarrow> node \<Rightarrow> node" where
  "add_lo addr n =
     (let lo = (case bm_get (node_interfaces n) ''lo'' of Some c \<Rightarrow> c | None \<Rightarrow> interface_default) in
      set_interface ''lo'' (lo\<lparr>if_addresses := if_addresses lo @ [addr]\<rparr>) n)"

definition lo_address :: "string \<Rightarrow> pools \<Rightarrow> (lower_error, string \<times> pools) result" where
  "lo_address addr pools =
     (case strip_prefix_str ''pool:'' addr of
        None \<Rightarrow> Inr (addr, pools)
      | Some name \<Rightarrow>
          and_then (ok_or (bm_get pools name) (Undefined_Pool name)) (\<lambda>pool.
          and_then (allocate_subnet name pool) (\<lambda>(a, pool'). Inr (a, bm_insert name pool' pools))))"

definition lower_route :: "route_def \<Rightarrow> (lower_error, string \<times> route_config) result" where
  "lower_route r =
     and_then (text_of parse_route_dest (rtd_destination r)) (\<lambda>dest.
     and_then (opt_text parse_ip_or_cidr_value (rtd_via r)) (\<lambda>via.
       Inr (dest, \<lparr>route_via = via, route_dev = rtd_dev r, route_metric = rtd_metric r\<rparr>)))"

definition lower_nat_action :: "string \<Rightarrow> (lower_error, nat_action) result" where
  "lower_nat_action a =
     (if a = ''masquerade'' then Inr Masquerade
      else if a = ''snat'' then Inr Snat
      else if a = ''dnat'' then Inr Dnat
      else if a = ''translate'' then Inr Translate
      else if a = ''redirect'' then Inr Redirect
      else Inl (Unknown_Keyword a))"

definition lower_nat_rule :: "nat_rule_def \<Rightarrow> (lower_error, nat_rule) result" where
  "lower_nat_rule r =
     and_then (lower_nat_action (nrd_action r)) (\<lambda>action.
     and_then (opt_text parse_ip_or_cidr_value (nrd_src r)) (\<lambda>src.
     and_then (opt_text parse_ip_or_cidr_value (nrd_dst r)) (\<lambda>dst.
     and_then (opt_text parse_ip_or_cidr_value (nrd_target r)) (\<lambda>target.
     and_then (opt_text parse_ip_or_cidr_value (nrd_target_end r)) (\<lambda>target_end.
       Inr \<lparr>nr_action = action, nr_src = src, nr_dst = dst, nr_target = target, nr_target_port = nrd_target_port r,
            nr_proto = nrd_proto r, nr_dport = nrd_dport r, nr_iif = nrd_iif r, nr_oif = nrd_oif r,
            nr_target_end = target_end, nr_target_port_end = nrd_target_port_end r, nr_flags = nrd_flags r\<rparr>)))))"

definition add_nat :: "nat_rule list \<Rightarrow> node \<Rightarrow> node" where
  "add_nat rules n =
     n\<lparr>node_nat := Some (case node_nat n of
        Some existing \<Rightarrow> existing\<lparr>nat_rules := nat_rules existing @ rules\<rparr> | None \<Rightarrow> \<lparr>nat_rules = rules\<rparr>)\<rparr>"

definition lower_vrf :: "vrf_def \<Rightarrow> (lower_error, vrf_config) result" where
  "lower_vrf v =
     and_then (traverse lower_route (vrd_routes v)) (\<lambda>routes.
       Inr \<lparr>vrf_table = vrd_table v, vrf_interfaces = vrd_interfaces v, vrf_routes = bm_of_list routes\<rparr>)"

text \<open>A \<open>peer\<close> block names a peer too, once.\<close>

definition add_peer :: "string list \<Rightarrow> string \<Rightarrow> string list" where
  "add_peer peers p = (if p \<in> set peers then peers else peers @ [p])"

definition lower_wireguard :: "wireguard_def \<Rightarrow> wireguard_config" where
  "lower_wireguard wg =
     \<lparr>wg_private_key = wgd_key wg, wg_listen_port = wgd_listen_port wg, wg_fwmark = wgd_fwmark wg,
      wg_addresses = wgd_addresses wg,
      wg_peers = foldl add_peer (wgd_peers wg) (map wpd_name (wgd_peer_settings wg)),
      wg_peer_settings = bm_of_list (map (\<lambda>p. (wpd_name p,
        \<lparr>wgp_endpoint = wpd_endpoint p, wgp_allowed_ips = wpd_allowed_ips p\<rparr>)) (wgd_peer_settings wg))\<rparr>"

definition lower_macvlan_mode :: "string option \<Rightarrow> (lower_error, macvlan_mode) result" where
  "lower_macvlan_mode m =
     (case m of
        None \<Rightarrow> Inr Macvlan_Bridge
      | Some k \<Rightarrow>
          if k = ''bridge'' then Inr Macvlan_Bridge
          else if k = ''private'' then Inr Macvlan_Private
          else if k = ''vepa'' then Inr Macvlan_Vepa
          else if k = ''passthru'' then Inr Macvlan_Passthru
          else Inl (Unknown_Keyword k))"

definition lower_ipvlan_mode :: "string option \<Rightarrow> (lower_error, ipvlan_mode) result" where
  "lower_ipvlan_mode m =
     (case m of
        None \<Rightarrow> Inr Ipvlan_L3
      | Some k \<Rightarrow>
          if k = ''l3'' then Inr Ipvlan_L3
          else if k = ''l2'' then Inr Ipvlan_L2
          else if k = ''l3s'' then Inr Ipvlan_L3S
          else Inl (Unknown_Keyword k))"

definition lower_wifi_mode :: "string \<Rightarrow> (lower_error, wifi_mode) result" where
  "lower_wifi_mode k =
     (if k = ''ap'' then Inr Wifi_Ap
      else if k = ''station'' then Inr Wifi_Station
      else if k = ''mesh'' then Inr Wifi_Mesh
      else Inl (Unknown_Keyword k))"

fun apply_prop :: "vars \<Rightarrow> node_prop \<Rightarrow> node \<times> pools \<Rightarrow> (lower_error, node \<times> pools) result" where
  "apply_prop vars (Prop_Forward v) (n, pools) = Inr (set_sysctl (forward_key v) ''1'' n, pools)"
| "apply_prop vars (Prop_Sysctl k v) (n, pools) = Inr (set_sysctl k v n, pools)"
| "apply_prop vars (Prop_Lo addr) (n, pools) =
     and_then (lo_address addr pools) (\<lambda>(a, pools'). Inr (add_lo a n, pools'))"
| "apply_prop vars (Prop_Route r) (n, pools) =
     and_then (lower_route r) (\<lambda>(dest, c). Inr (n\<lparr>node_routes := bm_insert dest c (node_routes n)\<rparr>, pools))"
| "apply_prop vars (Prop_Firewall fw) (n, pools) =
     Inr (n\<lparr>node_firewall := merge_firewall (node_firewall n) (lower_firewall (\<lambda>s. interpolate s vars) fw)\<rparr>, pools)"
| "apply_prop vars (Prop_Nat items) (n, pools) =
     and_then (expand_nat_rules items vars) (\<lambda>defs.
     and_then (traverse lower_nat_rule defs) (\<lambda>rules. Inr (add_nat rules n, pools)))"
| "apply_prop vars (Prop_Vrf v) (n, pools) =
     and_then (lower_vrf v) (\<lambda>c. Inr (n\<lparr>node_vrfs := bm_insert (vrd_name v) c (node_vrfs n)\<rparr>, pools))"
| "apply_prop vars (Prop_Wireguard wg) (n, pools) =
     Inr (n\<lparr>node_wireguard := bm_insert (wgd_name wg) (lower_wireguard wg) (node_wireguard n)\<rparr>, pools)"
| "apply_prop vars (Prop_Vxlan vx) (n, pools) =
     Inr (set_interface (vxd_name vx)
       (interface_default\<lparr>if_kind := Some Kind_Vxlan, if_vni := vxd_vni vx, if_local := vxd_local vx,
         if_remote := vxd_remote vx, if_port := vxd_port vx, if_underlay := vxd_underlay vx,
         if_addresses := vxd_addresses vx\<rparr>) n, pools)"
| "apply_prop vars (Prop_Dummy d) (n, pools) =
     Inr (set_interface (dmd_name d)
       (interface_default\<lparr>if_kind := Some Kind_Dummy, if_addresses := dmd_addresses d\<rparr>) n, pools)"
| "apply_prop vars (Prop_Bond b) (n, pools) =
     Inr (set_interface (bod_name b)
       (interface_default\<lparr>if_kind := Some Kind_Bond, if_members := bod_members b,
         if_bond := (if bod_options b = bond_default then None else Some (bod_options b)),
         if_addresses := bod_addresses b\<rparr>) n, pools)"
| "apply_prop vars (Prop_VlanIface v) (n, pools) =
     Inr (set_interface (vid_name v)
       (interface_default\<lparr>if_kind := Some Kind_Vlan, if_parent := Some (vid_parent v), if_vni := Some (ucast (vid_id v)),
         if_vlan_protocol := vid_protocol v, if_addresses := vid_addresses v\<rparr>) n, pools)"
| "apply_prop vars (Prop_Macvlan m) (n, pools) =
     and_then (lower_macvlan_mode (mvd_mode m)) (\<lambda>mode.
       Inr (n\<lparr>node_macvlans := node_macvlans n @
         [\<lparr>mv_name = mvd_name m, mv_parent = mvd_parent m, mv_mode = mode, mv_addresses = mvd_addresses m\<rparr>]\<rparr>, pools))"
| "apply_prop vars (Prop_Ipvlan m) (n, pools) =
     and_then (lower_ipvlan_mode (ivd_mode m)) (\<lambda>mode.
       Inr (n\<lparr>node_ipvlans := node_ipvlans n @
         [\<lparr>iv_name = ivd_name m, iv_parent = ivd_parent m, iv_mode = mode, iv_addresses = ivd_addresses m\<rparr>]\<rparr>, pools))"
| "apply_prop vars (Prop_Wifi w) (n, pools) =
     and_then (lower_wifi_mode (wfd_mode w)) (\<lambda>mode.
       Inr (n\<lparr>node_wifi := node_wifi n @
         [\<lparr>wifi_name = wfd_name w, wifi_mode_of = mode, wifi_ssid = wfd_ssid w, wifi_channel = wfd_channel w,
           wifi_passphrase = wfd_passphrase w, wifi_mesh_id = wfd_mesh_id w, wifi_addresses = wfd_addresses w\<rparr>]\<rparr>, pools))"
| "apply_prop vars (Prop_Run r) (n, pools) =
     Inr (n\<lparr>node_exec := node_exec n @ [\<lparr>exec_cmd = run_cmd r, exec_background = run_background r\<rparr>]\<rparr>, pools)"
| "apply_prop vars (Prop_Frr f) (n, pools) =
     and_then (lower_frr f) (\<lambda>c. Inr (n\<lparr>node_frr := Some c\<rparr>, pools))"
| "apply_prop vars (Prop_For v rng body) (n, pools) = Inr (n, pools)"

definition apply_node_props :: "vars \<Rightarrow> node_prop list \<Rightarrow> node \<times> pools \<Rightarrow> (lower_error, node \<times> pools) result" where
  "apply_node_props vars props st =
     and_then (expand_node_props props vars) (\<lambda>ps. fold_result (apply_prop vars) ps st)"

subsection \<open>Nodes\<close>

fun env_map :: "string \<Rightarrow> string list \<Rightarrow> (string, string) btree_map \<Rightarrow> (lower_error, (string, string) btree_map) result" where
  "env_map name [] m = Inr m"
| "env_map name (e # es) m =
     (case split_once CHR ''='' e of
        Some (k, v) \<Rightarrow> if k = [] then Inl (Bad_Env name e) else env_map name es (bm_insert k v m)
      | None \<Rightarrow> Inl (Bad_Env name e))"

text \<open>The fields of a node that no property touches.\<close>

definition node_base :: "node_def \<Rightarrow> (lower_error, node) result" where
  "node_base d =
     and_then (opt_text parse_cpu (nd_cpu d)) (\<lambda>cpu.
     and_then (opt_text parse_size (nd_memory d)) (\<lambda>memory.
     and_then (opt_text parse_duration (nd_healthcheck_interval d)) (\<lambda>hc_interval.
     and_then (opt_text parse_duration (nd_healthcheck_timeout d)) (\<lambda>hc_timeout.
     and_then (opt_text parse_duration (nd_startup_delay d)) (\<lambda>startup_delay.
     and_then (if nd_env d = [] then Inr None
               else and_then (env_map (nd_name d) (nd_env d) bm_empty) (\<lambda>m. Inr (Some m))) (\<lambda>env.
       Inr (node_default\<lparr>node_profiles := nd_profiles d, node_image := nd_image d, node_cmd := nd_cmd d,
         node_env := env, node_volumes := (if nd_volumes d = [] then None else Some (nd_volumes d)),
         node_cpu := cpu, node_memory := memory, node_privileged := nd_privileged d,
         node_cap_add := nd_cap_add d, node_cap_drop := nd_cap_drop d, node_entrypoint := nd_entrypoint d,
         node_hostname := nd_hostname d, node_workdir := nd_workdir d, node_labels := nd_labels d,
         node_pull := nd_pull d, node_container_exec := nd_container_exec d,
         node_healthcheck := nd_healthcheck d, node_healthcheck_interval := hc_interval,
         node_healthcheck_timeout := hc_timeout, node_healthcheck_retries := nd_healthcheck_retries d,
         node_startup_delay := startup_delay, node_env_file := nd_env_file d, node_configs := nd_configs d,
         node_overlay := nd_overlay d, node_depends_on := nd_depends_on d, node_foreign := nd_foreign d\<rparr>)))))))"

definition profile_props :: "lower_ctx \<Rightarrow> string list \<Rightarrow> node_prop list list" where
  "profile_props ctx names = List.map_filter (\<lambda>p. map_option pfd_props (bm_get (cx_profiles ctx) p)) names"

text \<open>A node under construction with the pools as they are; the pools live in the context.\<close>

type_synonym lower_state = "topology \<times> pools"

definition lower_node :: "lower_ctx \<Rightarrow> node_def \<Rightarrow> lower_state \<Rightarrow> (lower_error, lower_state) result" where
  "lower_node ctx d = (\<lambda>(topo, pools).
     and_then (node_base d) (\<lambda>n.
     and_then (fold_result (apply_node_props (cx_variables ctx)) (profile_props ctx (nd_profiles d)) (n, pools)) (\<lambda>st.
     and_then (apply_node_props (cx_variables ctx) (nd_props d) st) (\<lambda>(n', pools').
       if bm_contains (topo_nodes topo) (nd_name d) then Inl (Duplicate_Node (nd_name d))
       else Inr (topo\<lparr>topo_nodes := bm_insert (nd_name d) n' (topo_nodes topo)\<rparr>, pools')))))"

subsection \<open>What a profile says, the node says\<close>

text \<open>
  A node covers a profile when it has every sysctl, every firewall chain and set, and an \<open>frr\<close> block
  wherever the profile has one. Then the merged views of \<open>types.rs\<close>, which lay the node over its
  profiles, add nothing to the node.
\<close>

definition fw_covers :: "firewall_config \<Rightarrow> firewall_config \<Rightarrow> bool" where
  "fw_covers f g \<longleftrightarrow>
     (input_declared g \<longrightarrow> input_declared f) \<and> (fw_forward g \<noteq> None \<longrightarrow> fw_forward f \<noteq> None) \<and>
     (fw_output g \<noteq> None \<longrightarrow> fw_output f \<noteq> None) \<and> dom (bm_get (fw_sets g)) \<subseteq> dom (bm_get (fw_sets f))"

definition opt_covers :: "firewall_config option \<Rightarrow> firewall_config option \<Rightarrow> bool" where
  "opt_covers x y \<longleftrightarrow> (\<forall>g. y = Some g \<longrightarrow> (\<exists>f. x = Some f \<and> fw_covers f g))"

definition covers :: "node \<Rightarrow> profile \<Rightarrow> bool" where
  "covers n p \<longleftrightarrow>
     dom (bm_get (profile_sysctls p)) \<subseteq> dom (bm_get (node_sysctls n)) \<and>
     opt_covers (node_firewall n) (profile_firewall p) \<and> (profile_frr p \<noteq> None \<longrightarrow> node_frr n \<noteq> None)"

lemma dom_bm_extend: "dom (bm_get (bm_extend m xs)) = dom (bm_get m) \<union> fst ` set xs"
proof -
  have "bm_get (bm_extend m xs) = bm_get m ++ map_of (rev xs)"
    by (rule ext) (simp add: bm_get_extend map_add_def)
  then show ?thesis by (simp add: dom_map_of_conv_image_fst Un_commute)
qed

lemma fst_bm_entries: "fst ` set (bm_entries m) = dom (bm_get m)"
  by (simp add: bm_get_entries dom_map_of_conv_image_fst)

lemma fw_covers_refl: "fw_covers f f"
  by (simp add: fw_covers_def)

lemma fw_covers_trans: "fw_covers f g \<Longrightarrow> fw_covers g h \<Longrightarrow> fw_covers f h"
  unfolding fw_covers_def by blast

lemma merge_from_parts:
  "input_declared (merge_from f g) \<longleftrightarrow> input_declared f \<or> input_declared g"
  "fw_forward (merge_from f g) = None \<longleftrightarrow> fw_forward g = None \<and> fw_forward f = None"
  "fw_output (merge_from f g) = None \<longleftrightarrow> fw_output g = None \<and> fw_output f = None"
  "dom (bm_get (fw_sets (merge_from f g))) = dom (bm_get (fw_sets f)) \<union> dom (bm_get (fw_sets g))"
  by (auto simp: merge_from_def Let_def input_declared_def dom_bm_extend fst_bm_entries)

lemma fw_covers_merge: "fw_covers (merge_from f g) f" "fw_covers (merge_from f g) g"
  unfolding fw_covers_def merge_from_parts by blast+

lemma fw_covers_merge_mono: "fw_covers f g \<Longrightarrow> fw_covers a b \<Longrightarrow> fw_covers (merge_from f a) (merge_from g b)"
  unfolding fw_covers_def merge_from_parts by blast

lemma merge_from_covered: "fw_covers f g \<Longrightarrow> merge_from g f = f"
proof -
  assume c: "fw_covers f g"
  have "bm_extend (fw_sets g) (bm_entries (fw_sets f)) = fw_sets f"
    using c by (intro bm_ext) (auto simp: fw_covers_def bm_get_extend_entries split: option.splits)
  then have "fw_sets (merge_from g f) = fw_sets f" by (simp add: merge_from_def Let_def)
  moreover have "fw_policy (merge_from g f) = fw_policy f" "fw_rules (merge_from g f) = fw_rules f"
    using c by (auto simp: fw_covers_def merge_from_def Let_def input_declared_def)
  moreover have "fw_forward (merge_from g f) = fw_forward f" "fw_output (merge_from g f) = fw_output f"
    using c by (auto simp: fw_covers_def merge_from_def Let_def)
  ultimately show ?thesis by simp
qed

subsection \<open>Every property keeps what a node covers\<close>

lemma fw_covers_interp: "fw_covers (chain_layer f c) (chain_layer g c)"
proof -
  have if_covers: "fw_covers (if a then x else if b then y else z) (if a then x' else if b then y' else z')"
    if "fw_covers x x'" "fw_covers y y'" "fw_covers z z'" for a b x x' y y' z z'
    using that by simp
  show ?thesis
    unfolding chain_layer_def Let_def
    by (rule if_covers) (simp_all add: fw_covers_def input_declared_def firewall_default_def)
qed

lemma fw_covers_layers:
  "fw_covers x y \<Longrightarrow> fw_covers (foldl (\<lambda>out c. merge_from out (chain_layer f c)) x cs) (foldl (\<lambda>out c. merge_from out (chain_layer g c)) y cs)"
  by (induction cs arbitrary: x y) (simp_all add: fw_covers_merge_mono fw_covers_interp)

lemma dom_sets: "dom (bm_get (foldl (\<lambda>m s. bm_insert (fsd_name s) (h s) m) m ss)) = dom (bm_get m) \<union> fsd_name ` set ss"
  by (induction ss arbitrary: m) auto

lemma fw_covers_lower: "fw_covers (lower_firewall f fw) (lower_firewall g fw)"
  unfolding lower_firewall_def
  by (rule fw_covers_layers) (simp add: fw_covers_def firewall_default_def input_declared_def dom_sets)

lemma declares_covered: "fw_covers f g \<Longrightarrow> declares_anything g \<Longrightarrow> declares_anything f"
proof -
  have "bm_entries m \<noteq> [] \<longleftrightarrow> dom (bm_get m) \<noteq> {}" for m :: "(string, firewall_set) btree_map"
    by (cases "bm_entries m") (auto simp: bm_get_entries)
  then show "fw_covers f g \<Longrightarrow> declares_anything g \<Longrightarrow> declares_anything f"
    by (auto simp: fw_covers_def declares_anything_def)
qed

lemma opt_covers_merge: "opt_covers x y \<Longrightarrow> opt_covers (merge_firewall x (lower_firewall f fw)) y"
  by (auto simp: opt_covers_def merge_firewall_def elim!: fw_covers_trans [OF fw_covers_merge(1)])

lemma opt_covers_step:
  "opt_covers x y \<Longrightarrow> opt_covers (merge_firewall x (lower_firewall f fw)) (merge_firewall y (lower_firewall g fw))"
proof (cases "declares_anything (lower_firewall f fw)")
  case True
  have g: "declares_anything (lower_firewall g fw)" using declares_covered [OF fw_covers_lower True] .
  have d: "fw_covers z firewall_default" for z
    by (simp add: fw_covers_def firewall_default_def input_declared_def)
  assume "opt_covers x y"
  then show ?thesis using True g
    by (cases y) (auto simp: opt_covers_def merge_firewall_def intro!: fw_covers_merge_mono fw_covers_lower d)
next
  case False
  then have "\<not> declares_anything (lower_firewall g fw)" using declares_covered [OF fw_covers_lower] by blast
  then show "opt_covers x y \<Longrightarrow> ?thesis" using False by (simp add: merge_firewall_def)
qed

definition loop_free :: "node_prop list \<Rightarrow> bool" where
  "loop_free props \<longleftrightarrow> list_all not_loop props"

lemmas node_view = set_sysctl_def set_interface_def add_lo_def add_nat_def Let_def

lemma apply_prop_covers:
  assumes "apply_prop vars p (n, pools) = Inr (n', pools')" "covers n pr"
  shows "covers n' pr \<and> node_profiles n' = node_profiles n"
proof (cases p)
  case (Prop_Firewall fw)
  then show ?thesis using assms by (auto simp: covers_def opt_covers_merge)
qed (use assms in \<open>auto simp: covers_def node_view\<close>)

lemma apply_prop_covers_step:
  assumes "apply_prop vars p (n, pools) = Inr (n', pools')" "covers n pr"
  shows "covers n' (profile_prop pr p)"
proof (cases p)
  case (Prop_Firewall fw)
  then show ?thesis using assms by (auto simp: covers_def profile_prop_def opt_covers_step)
next
  case (Prop_Frr f)
  then show ?thesis using assms by (auto simp: covers_def profile_prop_def)
qed (use assms in \<open>auto simp: covers_def profile_prop_def node_view\<close>)

lemma fold_props_covers:
  assumes "fold_result (apply_prop vars) ps st = Inr st'" "covers (fst st) pr"
  shows "covers (fst st') pr \<and> node_profiles (fst st') = node_profiles (fst st)"
proof (rule fold_result_invariant [OF assms(1), where P = "\<lambda>s. covers (fst s) pr \<and> node_profiles (fst s) = node_profiles (fst st)"])
  fix p s s'
  assume "covers (fst s) pr \<and> node_profiles (fst s) = node_profiles (fst st)" "apply_prop vars p s = Inr s'"
  then show "covers (fst s') pr \<and> node_profiles (fst s') = node_profiles (fst st)"
    using apply_prop_covers [of vars p "fst s" "snd s" "fst s'" "snd s'" pr] by simp
qed (use assms in simp)

lemma fold_props_covers_step:
  "fold_result (apply_prop vars) ps st = Inr st' \<Longrightarrow> covers (fst st) pr \<Longrightarrow> covers (fst st') (foldl profile_prop pr ps)"
proof (induction ps arbitrary: st pr)
  case (Cons p ps)
  then obtain s where s: "apply_prop vars p st = Inr s" "fold_result (apply_prop vars) ps s = Inr st'" by auto
  have "covers (fst s) (profile_prop pr p)"
    using apply_prop_covers_step [of vars p "fst st" "snd st" "fst s" "snd s" pr] s(1) Cons.prems(2) by simp
  from Cons.IH [OF s(2) this] show ?case by simp
qed simp

lemma expand_loop_free: "loop_free props \<Longrightarrow> expand_node_props props vars = Inr props"
proof -
  assume "loop_free props"
  then have "traverse (\<lambda>p. case p of
      Prop_For v rng body \<Rightarrow> for_each_value v rng vars (\<lambda>inner. expand_node_props (map (interpolate_prop inner) body) inner)
    | _ \<Rightarrow> Inr [p]) props = Inr (map (\<lambda>p. [p]) props)"
    by (intro traverse_Inr) (auto simp: loop_free_def list_all_iff not_loop_def split: node_prop.splits)
  then show ?thesis by (simp add: expand_node_props.simps [of props vars])
qed

lemma apply_node_props_covers:
  assumes "apply_node_props vars ps st = Inr st'" "covers (fst st) pr"
  shows "covers (fst st') pr \<and> node_profiles (fst st') = node_profiles (fst st)"
proof -
  obtain qs where "fold_result (apply_prop vars) qs st = Inr st'" using assms(1) by (auto simp: apply_node_props_def)
  then show ?thesis using assms(2) by (rule fold_props_covers)
qed

lemma fold_node_props_covers:
  assumes "fold_result (apply_node_props vars) pss st = Inr st'" "covers (fst st) pr"
  shows "covers (fst st') pr \<and> node_profiles (fst st') = node_profiles (fst st)"
  using assms
proof (induction pss arbitrary: st)
  case (Cons ps pss)
  then obtain s where "apply_node_props vars ps st = Inr s" "fold_result (apply_node_props vars) pss s = Inr st'" by auto
  with Cons.IH Cons.prems(2) apply_node_props_covers show ?case by metis
qed simp

lemma covers_default: "covers n profile_default"
  by (simp add: covers_def profile_default_def opt_covers_def)

lemma profiles_covered:
  assumes "fold_result (apply_node_props vars) pss st = Inr st'" "ps \<in> set pss" "loop_free ps"
  shows "covers (fst st') (foldl profile_prop profile_default ps)"
  using assms
proof (induction pss arbitrary: st)
  case (Cons qs pss)
  then obtain s where s: "apply_node_props vars qs st = Inr s" "fold_result (apply_node_props vars) pss s = Inr st'" by auto
  show ?case
  proof (cases "ps = qs")
    case True
    then have "fold_result (apply_prop vars) ps st = Inr s"
      using s(1) Cons.prems(3) by (simp add: apply_node_props_def expand_loop_free)
    from fold_props_covers_step [OF this covers_default] show ?thesis
      using fold_node_props_covers [OF s(2)] by blast
  next
    case False
    with Cons s show ?thesis by auto
  qed
qed simp

subsection \<open>The merged views\<close>

lemma fw_covers_foldl: "fw_covers f g \<Longrightarrow> \<forall>x \<in> set gs. fw_covers f x \<Longrightarrow> fw_covers f (foldl merge_from g gs)"
proof (induction gs arbitrary: g)
  case (Cons x gs)
  then have "fw_covers f (merge_from g x)" unfolding fw_covers_def merge_from_parts by auto
  with Cons show ?case by simp
qed simp

lemma layers_redundant:
  assumes "\<forall>g \<in> set gs. fw_covers f g"
  shows "(case gs @ [f] of [] \<Rightarrow> None | [only] \<Rightarrow> Some only | first # rest \<Rightarrow> Some (foldl merge_from first rest)) = Some f"
proof (cases gs)
  case (Cons g rest)
  then have "merge_from (foldl merge_from g rest) f = f"
    using assms by (intro merge_from_covered fw_covers_foldl) auto
  with Cons show ?thesis by (cases rest) simp_all
qed simp

definition all_covered :: "topology \<Rightarrow> node \<Rightarrow> bool" where
  "all_covered t n \<longleftrightarrow> (\<forall>name \<in> set (node_profiles n). \<forall>p. bm_get (topo_profiles t) name = Some p \<longrightarrow> covers n p)"

lemma covered_firewall: "all_covered t n \<Longrightarrow> effective_firewall t n = node_firewall n"
proof -
  assume c: "all_covered t n"
  let ?gs = "List.map_filter (\<lambda>name. Option.bind (bm_get (topo_profiles t) name) profile_firewall) (node_profiles n)"
  have g: "\<exists>f. node_firewall n = Some f \<and> fw_covers f g" if g: "g \<in> set ?gs" for g
  proof -
    from g obtain name p where "name \<in> set (node_profiles n)" "bm_get (topo_profiles t) name = Some p" "profile_firewall p = Some g"
      by (auto simp: List.map_filter_def bind_eq_Some_conv)
    with c show ?thesis by (auto simp: all_covered_def covers_def opt_covers_def)
  qed
  show ?thesis
  proof (cases "node_firewall n")
    case None
    with g have "?gs = []" by (cases ?gs) auto
    with None show ?thesis by (simp add: effective_firewall_def firewall_layers_def)
  next
    case (Some f)
    with g have "\<forall>g \<in> set ?gs. fw_covers f g" by auto
    from layers_redundant [OF this] Some show ?thesis by (simp add: effective_firewall_def firewall_layers_def)
  qed
qed

lemma dom_profile_layers:
  "dom (bm_get m) \<subseteq> D \<Longrightarrow> \<forall>name \<in> set names. \<forall>p. f name = Some p \<longrightarrow> dom (bm_get (profile_sysctls p)) \<subseteq> D \<Longrightarrow>
   dom (bm_get (foldl (\<lambda>m name. case f name of Some p \<Rightarrow> bm_extend m (bm_entries (profile_sysctls p)) | None \<Rightarrow> m) m names)) \<subseteq> D"
proof (induction names arbitrary: m)
  case (Cons a names)
  then show ?case by (cases "f a") (simp_all add: dom_bm_extend fst_bm_entries)
qed simp

lemma covered_sysctls: "all_covered t n \<Longrightarrow> effective_sysctls t n = node_sysctls n"
proof -
  assume c: "all_covered t n"
  let ?m = "foldl (\<lambda>m name. case bm_get (topo_profiles t) name of
      Some p \<Rightarrow> bm_extend m (bm_entries (profile_sysctls p)) | None \<Rightarrow> m) bm_empty (node_profiles n)"
  have d: "dom (bm_get ?m) \<subseteq> dom (bm_get (node_sysctls n))"
    using c by (intro dom_profile_layers) (auto simp: all_covered_def covers_def)
  show ?thesis
    unfolding effective_sysctls_def
    by (rule bm_ext) (use d in \<open>auto simp: bm_get_extend_entries split: option.splits\<close>)
qed

lemma covered_frr:
  assumes "all_covered t n"
  shows "effective_frr t n =
    (if lab_routing (topo_lab t) \<noteq> Routing_Frr \<or> is_container n then None
     else case node_frr n of
       Some f \<Rightarrow> Some f
     | None \<Rightarrow> if bm_get (node_sysctls n) ''net.ipv4.ip_forward'' = Some ''1'' then lab_frr (topo_lab t) else None)"
proof (cases "node_frr n")
  case None
  have "first_some (\<lambda>name. Option.bind (bm_get (topo_profiles t) name) profile_frr) names = None"
    if "set names \<subseteq> set (node_profiles n)" for names
    using that
  proof (induction names)
    case (Cons a names)
    have "Option.bind (bm_get (topo_profiles t) a) profile_frr = None"
      using Cons.prems assms None by (cases "bm_get (topo_profiles t) a") (auto simp: all_covered_def covers_def)
    with Cons show ?case by simp
  qed simp
  then have "first_some (\<lambda>name. Option.bind (bm_get (topo_profiles t) name) profile_frr) (rev (node_profiles n)) = None" by simp
  with None show ?thesis unfolding effective_frr_def covered_sysctls [OF assms] by simp
qed (simp add: effective_frr_def)

lemma node_base_profiles: "node_base d = Inr n \<Longrightarrow> node_profiles n = nd_profiles d"
  by (auto simp: node_base_def)

lemma lower_node_cases:
  assumes "lower_node ctx d (topo, pools) = Inr (topo', pools')"
  obtains n0 st n where "node_base d = Inr n0"
    "fold_result (apply_node_props (cx_variables ctx)) (profile_props ctx (nd_profiles d)) (n0, pools) = Inr st"
    "apply_node_props (cx_variables ctx) (nd_props d) st = Inr (n, pools')"
    "nd_name d \<notin> dom (bm_get (topo_nodes topo))"
    "topo' = topo\<lparr>topo_nodes := bm_insert (nd_name d) n (topo_nodes topo)\<rparr>"
proof -
  obtain n0 st r where r: "node_base d = Inr n0"
      "fold_result (apply_node_props (cx_variables ctx)) (profile_props ctx (nd_profiles d)) (n0, pools) = Inr st"
      "apply_node_props (cx_variables ctx) (nd_props d) st = Inr r"
      "(case r of (n', pools') \<Rightarrow> if bm_contains (topo_nodes topo) (nd_name d) then Inl (Duplicate_Node (nd_name d))
        else Inr (topo\<lparr>topo_nodes := bm_insert (nd_name d) n' (topo_nodes topo)\<rparr>, pools')) = Inr (topo', pools')"
    using assms unfolding lower_node_def by (simp only: prod.case and_then_eq_Inr) blast
  show ?thesis
    by (rule that [OF r(1,2), of "fst r"]) (use r(3,4) in \<open>auto split: prod.splits if_split_asm\<close>)
qed


definition router_ctx :: lower_ctx where
  "router_ctx = \<lparr>cx_profiles = bm_of_list [(''router'', \<lparr>pfd_name = ''router'', pfd_props =
       [Prop_Forward Ipv4, Prop_Sysctl ''net.core.somaxconn'' ''1024'']\<rparr>)], cx_variables = bm_empty, cx_link_mtu = None,
     cx_impair = None, cx_rate = None, cx_pools = bm_empty, cx_link_profiles = bm_empty, cx_sites = bm_empty\<rparr>"

definition router_topo :: topology where
  "router_topo = topology_default\<lparr>topo_profiles := bm_map (\<lambda>_. lower_profile) (cx_profiles router_ctx)\<rparr>"

definition router_def :: node_def where
  "router_def = node_def_default\<lparr>nd_name := ''r'', nd_profiles := [''router''],
     nd_props := [Prop_Sysctl ''net.core.somaxconn'' ''2048'']\<rparr>"


end
