(* ===== verification/Lower_Links.thy ===== *)
theory Lower_Links
  imports Lower_Nodes
begin

text \<open>
  The lowering of links, patterns and networks, \<open>parser/nll/lower.rs\<close>: the addresses of a link from its
  text, its subnet or a pool, the precedence of its own properties over its profile and the defaults,
  meshes, rings and stars, and networks with their glob members, ports and automatic addresses.
\<close>

definition endpoint :: "string \<Rightarrow> string \<Rightarrow> string" where
  "endpoint node iface = node @ '':'' @ iface"

subsection \<open>Links\<close>

definition pool_addresses :: "string \<Rightarrow> pools \<Rightarrow> (lower_error, (string \<times> string) \<times> pools) result" where
  "pool_addresses name pools =
     (case bm_get pools name of
        None \<Rightarrow> Inl (Undefined_Pool name)
      | Some pool \<Rightarrow>
          and_then (allocate_from_pool name pool) (\<lambda>(addrs, pool'). Inr (addrs, bm_insert name pool' pools)))"

definition link_addresses_of :: "link_def \<Rightarrow> pools \<Rightarrow> (lower_error, (string \<times> string) option \<times> pools) result" where
  "link_addresses_of l pools =
     (case (lk_left_addr l, lk_right_addr l) of
        (Some a, Some b) \<Rightarrow> Inr (Some (a, b), pools)
      | _ \<Rightarrow>
          (case lk_subnet l of
             Some subnet \<Rightarrow>
               if prefix ''auto'' subnet \<or> sublist ''${'' subnet then Inr (None, pools)
               else and_then (ok_or (split_subnet subnet) (Cannot_Split subnet)) (\<lambda>addrs. Inr (Some addrs, pools))
           | None \<Rightarrow>
               (case lk_pool l of
                  Some name \<Rightarrow> and_then (pool_addresses name pools) (\<lambda>(addrs, pools'). Inr (Some addrs, pools'))
                | None \<Rightarrow> Inr (None, pools))))"

definition link_defaults :: "lower_ctx \<Rightarrow> link_def \<Rightarrow> defaults_def option" where
  "link_defaults ctx l = Option.bind (lk_profile l) (bm_get (cx_link_profiles ctx))"

definition set_impairment :: "string \<Rightarrow> impairment \<Rightarrow> topology \<Rightarrow> topology" where
  "set_impairment ep i t = t\<lparr>topo_impairments := bm_insert ep i (topo_impairments t)\<rparr>"

definition set_directional :: "string \<Rightarrow> topology \<Rightarrow> topology" where
  "set_directional ep t = t\<lparr>topo_directional_impairments := bm_insert ep () (topo_directional_impairments t)\<rparr>"

definition set_rate :: "string \<Rightarrow> rate_limit \<Rightarrow> topology \<Rightarrow> topology" where
  "set_rate ep r t = t\<lparr>topo_rate_limits := bm_insert ep r (topo_rate_limits t)\<rparr>"

definition lower_both :: "string \<Rightarrow> string \<Rightarrow> impair_props option \<Rightarrow> topology \<Rightarrow> (lower_error, topology) result" where
  "lower_both left right props t =
     (case props of
        None \<Rightarrow> Inr t
      | Some p \<Rightarrow> and_then (lower_impair_props p) (\<lambda>i. Inr (set_impairment right i (set_impairment left i t))))"

definition lower_directional :: "string \<Rightarrow> impair_props option \<Rightarrow> topology \<Rightarrow> (lower_error, topology) result" where
  "lower_directional ep props t =
     (case props of
        None \<Rightarrow> Inr t
      | Some p \<Rightarrow> and_then (lower_impair_props p) (\<lambda>i. Inr (set_directional ep (set_impairment ep i t))))"

definition lower_link :: "lower_ctx \<Rightarrow> link_def \<Rightarrow> lower_state \<Rightarrow> (lower_error, lower_state) result" where
  "lower_link ctx l = (\<lambda>(t, pools).
     let left = endpoint (lk_left_node l) (lk_left_iface l);
         right = endpoint (lk_right_node l) (lk_right_iface l);
         prof = link_defaults ctx l in
     and_then (link_addresses_of l pools) (\<lambda>(addrs, pools').
     let mtu = or_else (or_else (lk_mtu l) (Option.bind prof def_mtu)) (cx_link_mtu ctx);
         t1 = t\<lparr>topo_links := topo_links t @ [\<lparr>link_endpoints = (left, right), link_addresses = addrs, link_mtu = mtu\<rparr>]\<rparr> in
     and_then (lower_both left right (or_else (or_else (lk_impairment l) (Option.bind prof def_impair)) (cx_impair ctx)) t1) (\<lambda>t2.
     and_then (lower_directional left (lk_left_impair l) t2) (\<lambda>t3.
     and_then (lower_directional right (lk_right_impair l) t3) (\<lambda>t4.
     case or_else (or_else (lk_rate l) (Option.bind prof def_rate)) (cx_rate ctx) of
       None \<Rightarrow> Inr (t4, pools')
     | Some rate \<Rightarrow> and_then (lower_rate_props rate) (\<lambda>r. Inr (set_rate right r (set_rate left r t4), pools')))))))"

subsection \<open>Patterns\<close>

definition pattern_node :: "lower_ctx \<Rightarrow> pattern_def \<Rightarrow> pools \<Rightarrow> (lower_error, node \<times> pools) result" where
  "pattern_node ctx p pools =
     (case pat_profile p of
        None \<Rightarrow> Inr (node_default, pools)
      | Some name \<Rightarrow>
          and_then (ok_or (bm_get (cx_profiles ctx) name) (Undefined_Profile (pat_name p) name)) (\<lambda>d.
          and_then (apply_node_props (cx_variables ctx) (pfd_props d) (node_default, pools)) (\<lambda>(n, pools').
            Inr (n\<lparr>node_profiles := [name]\<rparr>, pools'))))"

definition pattern_addresses :: "pattern_def \<Rightarrow> pools \<Rightarrow> (lower_error, (string \<times> string) option \<times> pools) result" where
  "pattern_addresses p pools =
     (case pat_pool p of
        None \<Rightarrow> Inr (None, pools)
      | Some name \<Rightarrow> and_then (pool_addresses name pools) (\<lambda>(addrs, pools'). Inr (Some addrs, pools')))"

definition pattern_name :: "pattern_def \<Rightarrow> string \<Rightarrow> string" where
  "pattern_name p n = pat_name p @ ''.'' @ n"

definition add_pattern_node :: "lower_ctx \<Rightarrow> pattern_def \<Rightarrow> string \<Rightarrow> lower_state \<Rightarrow> (lower_error, lower_state) result" where
  "add_pattern_node ctx p name = (\<lambda>(t, pools).
     and_then (pattern_node ctx p pools) (\<lambda>(n, pools').
       Inr (t\<lparr>topo_nodes := bm_insert (pattern_name p name) n (topo_nodes t)\<rparr>, pools')))"

definition add_pattern_link :: "lower_ctx \<Rightarrow> pattern_def \<Rightarrow> string \<times> string \<Rightarrow> lower_state \<Rightarrow> (lower_error, lower_state) result" where
  "add_pattern_link ctx p eps = (\<lambda>(t, pools).
     and_then (pattern_addresses p pools) (\<lambda>(addrs, pools').
       Inr (t\<lparr>topo_links := topo_links t @
         [\<lparr>link_endpoints = eps, link_addresses = addrs, link_mtu = cx_link_mtu ctx\<rparr>]\<rparr>, pools')))"

text \<open>The pairs \<open>i < j\<close> of a list.\<close>

fun all_pairs :: "'a list \<Rightarrow> ('a \<times> 'a) list" where
  "all_pairs [] = []"
| "all_pairs (x # xs) = map (Pair x) xs @ all_pairs xs"

definition mesh_link :: "pattern_def \<Rightarrow> string \<times> string \<Rightarrow> string \<times> string" where
  "mesh_link p = (\<lambda>(a, b).
     (endpoint (pattern_name p a) (''to-'' @ b), endpoint (pattern_name p b) (''to-'' @ a)))"

definition ring_count :: "pattern_def \<Rightarrow> (lower_error, int) result" where
  "ring_count p =
     (let n = (case pat_count p of Some n \<Rightarrow> n | None \<Rightarrow> int (length (pat_nodes p))) in
      if n < 0 \<or> MAX_LOOP_ITERATIONS < n then Inl (Bad_Count (pat_name p) n) else Inr n)"

definition ring_names :: "pattern_def \<Rightarrow> int \<Rightarrow> string list" where
  "ring_names p n = (if pat_nodes p = [] then map (\<lambda>i. ''r'' @ show_int i) [1..n] else pat_nodes p)"

definition ring_link :: "pattern_def \<Rightarrow> string list \<Rightarrow> nat \<Rightarrow> string \<times> string" where
  "ring_link p names i =
     (endpoint (pattern_name p (names ! i)) ''right'',
      endpoint (pattern_name p (names ! ((i + 1) mod length names))) ''left'')"

definition star_spoke :: "lower_ctx \<Rightarrow> pattern_def \<Rightarrow> string \<Rightarrow> nat \<times> string \<Rightarrow> lower_state \<Rightarrow> (lower_error, lower_state) result" where
  "star_spoke ctx p hub = (\<lambda>(i, spoke) st.
     and_then (add_pattern_node ctx p spoke st) (\<lambda>st'.
       add_pattern_link ctx p
         (endpoint (pattern_name p hub) (''eth'' @ show_nat i), endpoint (pattern_name p spoke) ''eth0'') st'))"

definition expand_pattern :: "lower_ctx \<Rightarrow> pattern_def \<Rightarrow> lower_state \<Rightarrow> (lower_error, lower_state) result" where
  "expand_pattern ctx p st =
     (case pat_kind p of
        Pat_Mesh \<Rightarrow>
          and_then (fold_result (add_pattern_node ctx p) (pat_nodes p) st) (\<lambda>st'.
            fold_result (\<lambda>ab. add_pattern_link ctx p (mesh_link p ab)) (all_pairs (pat_nodes p)) st')
      | Pat_Ring \<Rightarrow>
          and_then (ring_count p) (\<lambda>n.
            let names = ring_names p n in
            and_then (fold_result (add_pattern_node ctx p) names st) (\<lambda>st'.
              fold_result (\<lambda>i. add_pattern_link ctx p (ring_link p names i)) [0..<length names] st'))
      | Pat_Star hub \<Rightarrow>
          and_then (add_pattern_node ctx p hub st) (\<lambda>st'.
            fold_result (star_spoke ctx p hub) (enumerate 0 (pat_nodes p)) st'))"

text \<open>The names of the nodes of a pattern, as the pre-pass for globs lists them.\<close>

definition pattern_nodes :: "pattern_def \<Rightarrow> string list" where
  "pattern_nodes p =
     (let names =
        (case pat_kind p of
           Pat_Star hub \<Rightarrow> pat_nodes p @ [hub]
         | Pat_Ring \<Rightarrow>
             if pat_nodes p = []
             then map (\<lambda>i. ''r'' @ show_int i) [1..max 0 (min MAX_LOOP_ITERATIONS (case pat_count p of Some n \<Rightarrow> n | None \<Rightarrow> 0))]
             else pat_nodes p
         | Pat_Mesh \<Rightarrow> pat_nodes p)
      in map (pattern_name p) names)"

subsection \<open>Networks\<close>

definition glob_matches :: "string \<Rightarrow> string \<Rightarrow> bool" where
  "glob_matches pat name =
     (if CHR ''*'' \<notin> set pat then pat = name
      else (case split_char CHR ''*'' pat of
              [a, b] \<Rightarrow> length a + length b \<le> length name \<and> prefix a name \<and> suffix b name
            | _ \<Rightarrow> False))"

definition glob_member :: "string list \<Rightarrow> string \<Rightarrow> string list" where
  "glob_member all_nodes member =
     (case split_once CHR '':'' member of
        Some (pat, iface) \<Rightarrow>
          if CHR ''*'' \<in> set pat
          then map (\<lambda>n. endpoint n iface) (filter (glob_matches pat) all_nodes)
          else [member]
      | None \<Rightarrow> if CHR ''*'' \<in> set member then filter (glob_matches member) all_nodes else [member])"

definition resolve_glob_members :: "string list \<Rightarrow> string list \<Rightarrow> string list" where
  "resolve_glob_members members all_nodes = concat (map (glob_member all_nodes) members)"

definition network_default :: network where
  "network_default = \<lparr>network_kind = None, network_vlan_filtering = None, network_mtu = None, network_subnet = None,
     network_members = [], network_vlans = bm_empty, network_ports = bm_empty, network_impairments = []\<rparr>"

definition port_default :: port_config where
  "port_default = \<lparr>port_interface = None, port_vlans = [], port_tagged = None, port_pvid = None,
     port_untagged = None, port_addresses = []\<rparr>"

definition port_key :: "string \<Rightarrow> string list \<Rightarrow> string \<Rightarrow> (lower_error, string) result" where
  "port_key net members ep =
     (if CHR '':'' \<in> set ep then Inr ep
      else (case filter (\<lambda>m. map_option fst (split_once CHR '':'' m) = Some ep) members of
              [one] \<Rightarrow> Inr one
            | [] \<Rightarrow> Inl (Port_Not_Member net ep)
            | many \<Rightarrow> Inl (Port_Ambiguous net ep)))"

definition flag :: "bool \<Rightarrow> bool option" where
  "flag b = (if b then Some True else None)"

definition add_port :: "string \<Rightarrow> port_def \<Rightarrow> network \<Rightarrow> (lower_error, network) result" where
  "add_port net p nw =
     and_then (port_key net (network_members nw) (ptd_endpoint p)) (\<lambda>key.
       if bm_contains (network_ports nw) key then Inl (Duplicate_Port net key)
       else Inr (nw\<lparr>network_ports := bm_insert key
         \<lparr>port_interface = None, port_vlans = ptd_vlans p, port_tagged = flag (ptd_tagged p), port_pvid = ptd_pvid p,
          port_untagged = flag (ptd_untagged p), port_addresses = ptd_addresses p\<rparr> (network_ports nw)\<rparr>))"

definition lower_network_impair :: "network_impair_def \<Rightarrow> (lower_error, network_impairment) result" where
  "lower_network_impair d =
     and_then (lower_impair_props (nid_props d)) (\<lambda>i.
     and_then (opt_text parse_rate_bps (nid_rate_cap d)) (\<lambda>cap.
       Inr \<lparr>ni_src = nid_src d, ni_dst = nid_dst d, ni_impairment = i, ni_rate_cap = cap\<rparr>))"

definition add_port_address :: "network \<Rightarrow> string \<times> string \<Rightarrow> network" where
  "add_port_address nw = (\<lambda>(member, addr).
     let p = (case bm_get (network_ports nw) member of Some p \<Rightarrow> p | None \<Rightarrow> port_default) in
     nw\<lparr>network_ports := bm_insert member (p\<lparr>port_addresses := port_addresses p @ [addr]\<rparr>) (network_ports nw)\<rparr>)"

definition explicit_addresses :: "network \<Rightarrow> (string, string list) btree_map" where
  "explicit_addresses nw = bm_map (\<lambda>_. port_addresses) (bm_retain (\<lambda>_ p. port_addresses p \<noteq> []) (network_ports nw))"

definition assign_addresses :: "network_def \<Rightarrow> network \<Rightarrow> (lower_error, network) result" where
  "assign_addresses d nw =
     (case nwd_subnet d of
        None \<Rightarrow> Inr nw
      | Some subnet \<Rightarrow>
          let nw' = nw\<lparr>network_subnet := Some subnet\<rparr> in
          (case subnet_auto_assign subnet (network_members nw') (explicit_addresses nw') of
             Inl e \<Rightarrow> Inl (Assign_Failed (nwd_name d) e)
           | Inr None \<Rightarrow> Inr nw'
           | Inr (Some m) \<Rightarrow> Inr (foldl add_port_address nw' (bm_entries m))))"

definition build_network :: "network_def \<Rightarrow> vars \<Rightarrow> string list \<Rightarrow> (lower_error, network) result" where
  "build_network d vars all_nodes =
     (let nw = network_default\<lparr>network_kind := Some ''bridge'', network_vlan_filtering := flag (nwd_vlan_filtering d),
                 network_mtu := nwd_mtu d, network_members := resolve_glob_members (nwd_members d) all_nodes,
                 network_vlans := bm_of_list (map (\<lambda>v. (vld_id v, \<lparr>vlan_name = vld_name v\<rparr>)) (nwd_vlans d))\<rparr> in
      and_then (fold_result (add_port (nwd_name d)) (nwd_ports d) nw) (\<lambda>nw1.
      and_then (expand_network_impairs (nwd_impairments d) (nwd_loops d) vars) (\<lambda>defs.
      and_then (traverse lower_network_impair defs) (\<lambda>imps.
        assign_addresses d (nw1\<lparr>network_impairments := imps\<rparr>)))))"

definition lower_network :: "network_def \<Rightarrow> vars \<Rightarrow> string list \<Rightarrow> topology \<Rightarrow> (lower_error, topology) result" where
  "lower_network d vars all_nodes t =
     and_then (build_network d vars all_nodes) (\<lambda>nw.
       if bm_contains (topo_networks t) (nwd_name d) then Inl (Duplicate_Network (nwd_name d))
       else Inr (t\<lparr>topo_networks := bm_insert (nwd_name d) nw (topo_networks t)\<rparr>))"

end
