(* ===== verification/Fw_Match.thy ===== *)
theory Fw_Match
  imports Topology_Ops
begin

text \<open>
  The match expressions of the firewall, \<open>firewall.rs\<close>: \<open>parse_match\<close> reads the stored spelling of a rule's
  match into clauses, \<open>to_match\<close> writes a clause back, \<open>to_nll\<close> writes it in the language,
  \<open>normalize_set_families\<close> makes address fields agree with the set they are looked up in and
  \<open>check_set_refs\<close> reports lookups that do not fit. A token is read by its distance from the start of the
  clause, the rest of the expression is what follows the clause. The texts of errors are not
  modelled, their kind and the offending token are.
\<close>

subsection \<open>Fields, operators and clauses\<close>

datatype fw_field =
    F_Addr (addr_v6: bool) (addr_src: bool)
  | F_Port (port_tcp: bool) (port_dport: bool)
  | F_Mark

datatype cmp = Cmp_Equal | Cmp_Unequal | Cmp_Less | Cmp_Greater | Cmp_At_Most | Cmp_At_Least

datatype clause =
    In_Set fw_field bool string
  | Concat_Set "fw_field list" bool string
  | Addr_Clause bool bool bool ip_addr nat string
  | Port_Clause bool bool cmp nat nat
  | Icmp_Clause bool nat
  | Ct_State "string list"
  | Mark_Clause cmp nat "nat option" string
  | Mark_Range bool nat nat string
  | Ct_Mark cmp nat string
  | Tcp_Flags bool "string list" "string list option"
  | Ct_Status bool "string list"
  | Ct_Direction bool bool
  | Ct_Zone cmp nat
  | Pkt_Type bool string
  | L4_Proto cmp nat string
  | Iface_Clause bool bool string
  | Rpf

datatype fw_error =
    Empty_Set_Name | Bad_Concat | Concat_Needs_Set string | Ordered_Compare | Needs_Value string
  | Bad_Fw_Cidr string helper_error | Wrong_Family string | Unknown_Name string | Outside_Mask string
  | Bad_Port string | Reversed_Range string | Ordered_Range string | Bad_Number string
  | Bad_Direction string | Name_Too_Long string | Name_Wildcard string | Unsupported string

definition cmp_parse :: "string \<Rightarrow> cmp option" where
  "cmp_parse t =
     (if t = ''!='' then Some Cmp_Unequal
      else if t = ''<'' then Some Cmp_Less
      else if t = ''>'' then Some Cmp_Greater
      else if t = ''<='' then Some Cmp_At_Most
      else if t = ''>='' then Some Cmp_At_Least
      else None)"

fun op_text :: "cmp \<Rightarrow> string" where
  "op_text Cmp_Equal = ''''"
| "op_text Cmp_Unequal = '' !=''"
| "op_text Cmp_Less = '' <''"
| "op_text Cmp_Greater = '' >''"
| "op_text Cmp_At_Most = '' <=''"
| "op_text Cmp_At_Least = '' >=''"

definition cmp_ordered :: "cmp \<Rightarrow> bool" where
  "cmp_ordered c \<longleftrightarrow> c \<noteq> Cmp_Equal \<and> c \<noteq> Cmp_Unequal"

text \<open>\<open>u32::from_str_radix(_, 16)\<close>.\<close>

definition parse_hex_u32 :: "string \<Rightarrow> nat option" where
  "parse_hex_u32 s =
     (let ds = (case s of c # cs \<Rightarrow> if c = CHR ''+'' then cs else s | [] \<Rightarrow> []) in
      if ds = [] then None
      else Option.bind (digits_val 16 0 ds) (\<lambda>n. if n \<le> 4294967295 then Some n else None))"

definition parse_mark_u32 :: "string \<Rightarrow> nat option" where
  "parse_mark_u32 s =
     (case strip_prefix_str ''0x'' s of
        Some h \<Rightarrow> parse_hex_u32 h
      | None \<Rightarrow> (case strip_prefix_str ''0X'' s of Some h \<Rightarrow> parse_hex_u32 h | None \<Rightarrow> parse_u32 s))"

definition CT_STATES :: "string list" where
  "CT_STATES = [''established'', ''related'', ''new'', ''invalid'', ''untracked'']"

definition TCP_FLAGS :: "string list" where
  "TCP_FLAGS = [''fin'', ''syn'', ''rst'', ''psh'', ''ack'', ''urg'', ''ecn'', ''cwr'']"

definition CT_STATUS :: "string list" where
  "CT_STATUS = [''expected'', ''seen-reply'', ''assured'', ''confirmed'', ''snat'', ''dnat'', ''dying'']"

definition PKT_TYPES :: "string list" where
  "PKT_TYPES = [''host'', ''broadcast'', ''multicast'', ''other'']"

definition L4_PROTOS :: "(string \<times> nat) list" where
  "L4_PROTOS =
     [(''icmp'', 1), (''igmp'', 2), (''tcp'', 6), (''udp'', 17), (''dccp'', 33), (''gre'', 47), (''esp'', 50),
      (''ah'', 51), (''icmpv6'', 58), (''ipv6-icmp'', 58), (''ospf'', 89), (''vrrp'', 112), (''sctp'', 132),
      (''udplite'', 136)]"

definition l4proto_number :: "string \<Rightarrow> nat option" where
  "l4proto_number t = (case map_of L4_PROTOS t of Some p \<Rightarrow> Some p | None \<Rightarrow> parse_u8 t)"

definition fw_names_in :: "string list \<Rightarrow> string \<Rightarrow> (fw_error, string list) result" where
  "fw_names_in known v =
     traverse (\<lambda>n. let n = trim n in if n \<in> set known then Inr n else Inl (Unknown_Name n)) (split_char CHR '','' v)"

definition RPF :: "string list" where
  "RPF = [''fib'', ''saddr'', ''.'', ''iif'', ''oif'', ''missing'']"

definition set_ref :: "string \<Rightarrow> (fw_error, string option) result" where
  "set_ref op =
     (case strip_prefix_str ''@'' op of
        None \<Rightarrow> Inr None
      | Some name \<Rightarrow> if name = [] then Inl Empty_Set_Name else Inr (Some name))"

subsection \<open>Reading one clause\<close>

definition tok :: "nat \<Rightarrow> string list \<Rightarrow> string option" where
  "tok k ts = (if k < length ts then Some (ts ! k) else None)"

definition tok_operand :: "nat \<Rightarrow> string list \<Rightarrow> (fw_error, string) result" where
  "tok_operand k ts = ok_or (tok k ts) (Needs_Value (hd ts))"

text \<open>The field at the start of the tokens, and what follows it.\<close>

definition field_at :: "string list \<Rightarrow> (fw_field \<times> string list) option" where
  "field_at ts =
     (if tok 0 ts \<in> {Some ''ip'', Some ''ip6''} \<and> tok 1 ts \<in> {Some ''saddr'', Some ''daddr''}
      then Some (F_Addr (tok 0 ts = Some ''ip6'') (tok 1 ts = Some ''saddr''), drop 2 ts)
      else if tok 0 ts \<in> {Some ''tcp'', Some ''udp''} \<and> tok 1 ts \<in> {Some ''dport'', Some ''sport''}
      then Some (F_Port (tok 0 ts = Some ''tcp'') (tok 1 ts = Some ''dport''), drop 2 ts)
      else if tok 0 ts = Some ''mark'' then Some (F_Mark, drop 1 ts)
      else None)"

lemma strict_suffix_drop: "k < length ts \<Longrightarrow> strict_suffix (drop (Suc k) ts) ts"
  unfolding strict_suffix_def using suffix_drop [of "Suc k" ts] length_drop [of "Suc k" ts] by fastforce

lemma field_at_rest: "field_at ts = Some (f, rest) \<Longrightarrow> strict_suffix rest ts"
  using strict_suffix_drop [of 0 ts] strict_suffix_drop [of 1 ts]
  by (auto simp: field_at_def tok_def numeral_2_eq_2 split: if_splits)

lemma strict_suffix_length: "strict_suffix xs ys \<Longrightarrow> length xs < length ys"
  by (metis le_neq_implies_less strict_suffix_def suffix_length_le suffix_length_suffix suffix_order.antisym suffix_order.refl)

lemma field_at_length: "field_at ts = Some (f, rest) \<Longrightarrow> length rest < length ts"
  by (rule strict_suffix_length [OF field_at_rest])

function concat_fields :: "string list \<Rightarrow> (fw_error, fw_field list \<times> string list) result" where
  "concat_fields ts =
     (if tok 0 ts = Some ''.''
      then (case field_at (drop 1 ts) of
              None \<Rightarrow> Inl Bad_Concat
            | Some (f, rest) \<Rightarrow> and_then (concat_fields rest) (\<lambda>(fs, r). Inr (f # fs, r)))
      else Inr ([], ts))"
  by pat_completeness auto
termination
  by (relation "measure length") (auto dest: field_at_length simp: tok_def)

declare concat_fields.simps [simp del]

definition neg_at :: "string list \<Rightarrow> bool" where
  "neg_at ts \<longleftrightarrow> tok 0 ts = Some ''!=''"

definition concat_clause :: "fw_field \<Rightarrow> string list \<Rightarrow> (fw_error, clause \<times> string list) result" where
  "concat_clause field rest =
     and_then (concat_fields rest) (\<lambda>(fs, r).
       let neg = neg_at r; k = (if neg then 1 else 0);
           op = (case tok k r of Some t \<Rightarrow> t | None \<Rightarrow> []) in
       and_then (set_ref op) (\<lambda>s.
         case s of
           None \<Rightarrow> Inl (Concat_Needs_Set op)
         | Some name \<Rightarrow> Inr (Concat_Set (field # fs) neg name, drop (Suc k) r)))"

text \<open>A field looked up in a set; \<open>None\<close> when the clause is something else.\<close>

definition set_clause :: "string list \<Rightarrow> (fw_error, clause \<times> string list) result option" where
  "set_clause ts =
     (case field_at ts of
        None \<Rightarrow> None
      | Some (field, rest) \<Rightarrow>
          if tok 0 rest = Some ''.'' then Some (concat_clause field rest)
          else
            (let neg = neg_at rest; k = (if neg then 1 else 0) in
             case tok k rest of
               None \<Rightarrow> None
             | Some op \<Rightarrow>
                 (case set_ref op of
                    Inl e \<Rightarrow> Some (Inl e)
                  | Inr None \<Rightarrow> None
                  | Inr (Some name) \<Rightarrow> Some (Inr (In_Set field neg name, drop (Suc k) rest)))))"

definition op_at :: "nat \<Rightarrow> string list \<Rightarrow> cmp" where
  "op_at k ts = (case Option.bind (tok k ts) cmp_parse of Some c \<Rightarrow> c | None \<Rightarrow> Cmp_Equal)"

definition after_op :: "nat \<Rightarrow> cmp \<Rightarrow> nat" where
  "after_op k op = (if op = Cmp_Equal then k else Suc k)"

definition unordered :: "cmp \<Rightarrow> (fw_error, unit) result" where
  "unordered op = (if cmp_ordered op then Inl Ordered_Compare else Inr ())"

definition addr_operand :: "bool \<Rightarrow> bool \<Rightarrow> bool \<Rightarrow> string \<Rightarrow> (fw_error, clause) result" where
  "addr_operand v6 src neg cidr =
     (case parse_ip_or_cidr cidr of
        Inl e \<Rightarrow> Inl (Bad_Fw_Cidr cidr e)
      | Inr (addr, p) \<Rightarrow>
          if is_ipv4 addr = v6 then Inl (Wrong_Family cidr)
          else Inr (Addr_Clause v6 src neg addr p cidr))"

definition parse_port :: "string \<Rightarrow> (fw_error, nat) result" where
  "parse_port s = ok_or (parse_u16 s) (Bad_Port s)"

definition port_operand :: "bool \<Rightarrow> bool \<Rightarrow> cmp \<Rightarrow> string \<Rightarrow> (fw_error, clause) result" where
  "port_operand tcp dport op v =
     and_then (case split_once CHR ''-'' v of
                 Some (a, b) \<Rightarrow> and_then (parse_port a) (\<lambda>lo. and_then (parse_port b) (\<lambda>hi. Inr (lo, hi)))
               | None \<Rightarrow> and_then (parse_port v) (\<lambda>p. Inr (p, p)))
       (\<lambda>(lo, hi).
         if hi < lo then Inl (Reversed_Range v)
         else if cmp_ordered op \<and> lo \<noteq> hi then Inl (Ordered_Range v)
         else Inr (Port_Clause tcp dport op lo hi))"

definition fw_mark :: "string \<Rightarrow> string \<Rightarrow> (fw_error, nat) result" where
  "fw_mark v s = ok_or (parse_mark_u32 s) (Bad_Number v)"

definition mark_operand :: "cmp \<Rightarrow> string \<Rightarrow> (fw_error, clause) result" where
  "mark_operand op v =
     (case split_once CHR ''-'' v of
        Some (a, b) \<Rightarrow>
          if cmp_ordered op then Inl (Ordered_Range v)
          else and_then (fw_mark v a) (\<lambda>lo. and_then (fw_mark v b) (\<lambda>hi.
            if hi < lo then Inl (Reversed_Range v) else Inr (Mark_Range (op = Cmp_Unequal) lo hi v)))
      | None \<Rightarrow>
          (case split_once CHR ''/'' v of
             Some (a, m) \<Rightarrow>
               if cmp_ordered op then Inl (Ordered_Range v)
               else and_then (fw_mark v a) (\<lambda>x. and_then (fw_mark v m) (\<lambda>y. Inr (Mark_Clause op x (Some y) v)))
           | None \<Rightarrow> and_then (fw_mark v v) (\<lambda>x. Inr (Mark_Clause op x None v))))"

definition flags_clause :: "cmp \<Rightarrow> string list \<Rightarrow> (fw_error, clause \<times> string list) result" where
  "flags_clause op ts =
     and_then (unordered op) (\<lambda>_.
     let at = after_op 2 op in
     and_then (tok_operand at ts) (\<lambda>v.
     and_then (fw_names_in TCP_FLAGS v) (\<lambda>flags.
       if tok (Suc at) ts = Some ''/'' then
         and_then (tok_operand (at + 2) ts) (\<lambda>w.
         and_then (fw_names_in TCP_FLAGS w) (\<lambda>mask.
           case find (\<lambda>f. f \<notin> set mask) flags of
             Some f \<Rightarrow> Inl (Outside_Mask f)
           | None \<Rightarrow> Inr (Tcp_Flags (op = Cmp_Unequal) flags (Some mask), drop (at + 3) ts)))
       else Inr (Tcp_Flags (op = Cmp_Unequal) flags None, drop (Suc at) ts))))"

definition direction_operand :: "bool \<Rightarrow> string \<Rightarrow> (fw_error, clause) result" where
  "direction_operand neg v =
     (if v = ''original'' then Inr (Ct_Direction neg False)
      else if v = ''reply'' then Inr (Ct_Direction neg True)
      else Inl (Bad_Direction v))"

definition pkttype_operand :: "bool \<Rightarrow> string \<Rightarrow> (fw_error, clause) result" where
  "pkttype_operand neg v = (if v \<in> set PKT_TYPES then Inr (Pkt_Type neg v) else Inl (Unknown_Name v))"

definition iface_operand :: "bool \<Rightarrow> bool \<Rightarrow> string \<Rightarrow> (fw_error, clause) result" where
  "iface_operand out neg v =
     (if 15 < length v then Inl (Name_Too_Long v)
      else if CHR ''*'' \<in> set v then Inl (Name_Wildcard v)
      else Inr (Iface_Clause out neg v))"

text \<open>An operand at a place, and what follows it.\<close>

definition at_operand :: "nat \<Rightarrow> string list \<Rightarrow> (string \<Rightarrow> (fw_error, clause) result) \<Rightarrow> (fw_error, clause \<times> string list) result" where
  "at_operand k ts f = and_then (tok_operand k ts) (\<lambda>v. and_then (f v) (\<lambda>c. Inr (c, drop (Suc k) ts)))"

definition plain_clause :: "string list \<Rightarrow> (fw_error, clause \<times> string list) result" where
  "plain_clause ts =
     (let op = op_at 2 ts; neg = (op = Cmp_Unequal); at = after_op 2 op; kw = hd ts; w2 = tok 1 ts in
      if kw \<in> {''ip'', ''ip6''} \<and> w2 \<in> {Some ''saddr'', Some ''daddr''} then
        and_then (unordered op) (\<lambda>_. at_operand at ts (addr_operand (kw = ''ip6'') (w2 = Some ''saddr'') neg))
      else if kw = ''tcp'' \<and> w2 = Some ''flags'' then flags_clause op ts
      else if kw \<in> {''tcp'', ''udp''} \<and> w2 \<in> {Some ''dport'', Some ''sport''} then
        at_operand at ts (port_operand (kw = ''tcp'') (w2 = Some ''dport'') op)
      else if kw \<in> {''icmp'', ''icmpv6''} \<and> w2 = Some ''type'' then
        at_operand 2 ts (\<lambda>v. and_then (ok_or (parse_u8 v) (Bad_Number v)) (\<lambda>ty. Inr (Icmp_Clause (kw = ''icmpv6'') ty)))
      else if kw = ''ct'' \<and> w2 = Some ''state'' then
        at_operand 2 ts (\<lambda>v. and_then (fw_names_in CT_STATES v) (\<lambda>ss. Inr (Ct_State ss)))
      else if kw = ''mark'' then at_operand (after_op 1 (op_at 1 ts)) ts (mark_operand (op_at 1 ts))
      else if kw = ''ct'' \<and> w2 = Some ''mark'' then
        at_operand at ts (\<lambda>v. and_then (fw_mark v v) (\<lambda>x. Inr (Ct_Mark op x v)))
      else if kw = ''ct'' \<and> w2 = Some ''status'' then
        and_then (unordered op) (\<lambda>_. at_operand at ts (\<lambda>v. and_then (fw_names_in CT_STATUS v) (\<lambda>ns. Inr (Ct_Status neg ns))))
      else if kw = ''ct'' \<and> w2 = Some ''direction'' then
        and_then (unordered op) (\<lambda>_. at_operand at ts (direction_operand neg))
      else if kw = ''ct'' \<and> w2 = Some ''zone'' then
        at_operand at ts (\<lambda>v. and_then (ok_or (parse_u16 v) (Bad_Number v)) (\<lambda>z. Inr (Ct_Zone op z)))
      else if kw = ''meta'' \<and> w2 = Some ''pkttype'' then
        and_then (unordered op) (\<lambda>_. at_operand at ts (pkttype_operand neg))
      else if kw = ''meta'' \<and> w2 = Some ''l4proto'' then
        at_operand at ts (\<lambda>v. and_then (ok_or (l4proto_number v) (Unknown_Name v)) (\<lambda>p. Inr (L4_Proto op p v)))
      else if kw \<in> {''iifname'', ''oifname''} then
        let neg = neg_at (drop 1 ts) in at_operand (if neg then 2 else 1) ts (iface_operand (kw = ''oifname'') neg)
      else Inl (Unsupported kw))"

definition parse_clause :: "string list \<Rightarrow> (fw_error, clause \<times> string list) result" where
  "parse_clause ts =
     (if take 6 ts = RPF then Inr (Rpf, drop 6 ts)
      else (case set_clause ts of Some r \<Rightarrow> r | None \<Rightarrow> plain_clause ts))"


text \<open>A clause leaves fewer tokens than it found: what ends the reading of an expression.\<close>

definition consuming :: "string list \<Rightarrow> (fw_error, clause \<times> string list) result \<Rightarrow> bool" where
  "consuming ts r \<longleftrightarrow> (\<forall>c rest. r = Inr (c, rest) \<longrightarrow> strict_suffix rest ts)"

lemma at_operand_Inr:
  "at_operand k ts f = Inr (c, rest) \<longleftrightarrow> (\<exists>v. tok k ts = Some v \<and> f v = Inr c \<and> rest = drop (Suc k) ts)"
  by (auto simp: at_operand_def tok_operand_def)

lemma tok_Some: "tok k ts = Some v \<longleftrightarrow> k < length ts \<and> v = ts ! k"
  by (auto simp: tok_def)

lemma consuming_at [intro]: "consuming ts (at_operand k ts f)"
  by (auto simp: consuming_def at_operand_Inr tok_Some strict_suffix_drop)

lemma consuming_if [intro]: "consuming ts x \<Longrightarrow> consuming ts y \<Longrightarrow> consuming ts (if b then x else y)"
  by simp

lemma consuming_then [intro]: "(\<And>a. consuming ts (f a)) \<Longrightarrow> consuming ts (and_then r f)"
  by (cases r) (simp_all add: consuming_def)

lemma consuming_Inl [intro]: "consuming ts (Inl e)"
  by (simp add: consuming_def)

lemma consuming_flags [intro]: "consuming ts (flags_clause op ts)"
  unfolding flags_clause_def
  using strict_suffix_drop [of "after_op 2 op" ts] strict_suffix_drop [of "after_op 2 op + 2" ts]
  by (auto simp: consuming_def tok_operand_def tok_Some Let_def numeral_3_eq_3 split: if_split_asm option.splits)

lemma consuming_plain: "consuming ts (plain_clause ts)"
  unfolding plain_clause_def Let_def by (intro consuming_if consuming_then consuming_at consuming_flags consuming_Inl)

lemma concat_fields_rest: "concat_fields ts = Inr (fs, r) \<Longrightarrow> suffix r ts"
proof (induction ts arbitrary: fs rule: concat_fields.induct)
  case (1 ts)
  show ?case
  proof (cases "tok 0 ts = Some ''.''")
    case True
    then obtain f rest fs' where f: "field_at (drop 1 ts) = Some (f, rest)" "concat_fields rest = Inr (fs', r)"
      using "1.prems" by (auto simp: concat_fields.simps [of ts] split: option.splits)
    have "suffix r rest" by (rule "1.IH" [OF True f(1) refl f(2)])
    also have "suffix rest (drop 1 ts)" using field_at_rest [OF f(1)] by (simp add: strict_suffix_def)
    also have "suffix (drop 1 ts) ts" by (rule suffix_drop)
    finally show ?thesis .
  qed (use "1.prems" in \<open>simp add: concat_fields.simps [of ts]\<close>)
qed

lemma concat_clause_rest: "concat_clause field rest = Inr (c, r) \<Longrightarrow> suffix r rest"
proof -
  assume "concat_clause field rest = Inr (c, r)"
  then obtain fs r' k where "concat_fields rest = Inr (fs, r')" "r = drop k r'"
    by (auto simp: concat_clause_def Let_def split: option.splits prod.splits if_splits)
  then show ?thesis using concat_fields_rest suffix_drop suffix_order.trans by blast
qed

lemma consuming_set: "set_clause ts = Some r \<Longrightarrow> consuming ts r"
proof -
  assume r: "set_clause ts = Some r"
  then obtain field rest where f: "field_at ts = Some (field, rest)" by (auto simp: set_clause_def split: option.splits)
  then have l: "strict_suffix rest ts" by (rule field_at_rest)
  have short: "suffix r' rest" if "r = Inr (c, r')" for c r'
  proof (cases "tok 0 rest = Some ''.''")
    case True
    then have "concat_clause field rest = Inr (c, r')" using r f \<open>r = Inr (c, r')\<close> by (simp add: set_clause_def)
    then show ?thesis by (rule concat_clause_rest)
  next
    case False
    then obtain k where "r' = drop k rest"
      using r f \<open>r = Inr (c, r')\<close> by (auto simp: set_clause_def Let_def split: option.splits sum.splits)
    then show ?thesis by (simp add: suffix_drop)
  qed
  show ?thesis unfolding consuming_def using l short suffix_order.le_less_trans by blast
qed

lemma parse_clause_rest: "parse_clause ts = Inr (c, rest) \<Longrightarrow> strict_suffix rest ts"
proof (cases "take 6 ts = RPF")
  case True
  assume "parse_clause ts = Inr (c, rest)"
  then have "rest = drop 6 ts" using True by (simp add: parse_clause_def)
  moreover have "length (take 6 ts) = 6" unfolding True by (simp add: RPF_def)
  then have "5 < length ts" by simp
  ultimately show ?thesis using strict_suffix_drop [of 5 ts] by simp
next
  case False
  assume "parse_clause ts = Inr (c, rest)"
  then show ?thesis using False consuming_plain [of ts] consuming_set [of ts]
    by (auto simp: parse_clause_def consuming_def split: option.splits)
qed

lemma parse_clause_length: "parse_clause ts = Inr (c, rest) \<Longrightarrow> length rest < length ts"
  by (rule strict_suffix_length [OF parse_clause_rest])

subsection \<open>Expressions\<close>

function parse_clauses :: "string list \<Rightarrow> (fw_error, clause list) result" where
  "parse_clauses ts =
     (if ts = [] then Inr []
      else (case parse_clause ts of
              Inl e \<Rightarrow> Inl e
            | Inr (c, rest) \<Rightarrow> and_then (parse_clauses rest) (\<lambda>cs. Inr (c # cs))))"
  by pat_completeness auto
termination
  by (relation "measure length") (auto dest: parse_clause_length)

declare parse_clauses.simps [simp del]

definition parse_match :: "string \<Rightarrow> (fw_error, clause list) result" where
  "parse_match expr = parse_clauses (split_whitespace expr)"

fun field_text :: "fw_field \<Rightarrow> string" where
  "field_text (F_Addr v6 src) = (if v6 then ''ip6'' else ''ip'') @ (if src then '' saddr'' else '' daddr'')"
| "field_text (F_Port tcp dport) = (if tcp then ''tcp'' else ''udp'') @ (if dport then '' dport'' else '' sport'')"
| "field_text F_Mark = ''mark''"

fun field_nll :: "fw_field \<Rightarrow> string" where
  "field_nll (F_Addr v6 src) = (if src then ''src'' else ''dst'')"
| "field_nll f = field_text f"

fun field_key :: "fw_field \<Rightarrow> set_key" where
  "field_key (F_Addr v6 src) = (if v6 then Key_Ipv6 else Key_Ipv4)"
| "field_key (F_Port tcp dport) = Key_Port"
| "field_key F_Mark = Key_Mark"

definition ne_text :: "bool \<Rightarrow> string" where
  "ne_text neg = (if neg then '' !='' else '''')"

definition range_text :: "nat \<Rightarrow> nat \<Rightarrow> string" where
  "range_text lo hi = (if lo = hi then show_nat lo else show_nat lo @ ''-'' @ show_nat hi)"

fun to_match :: "clause \<Rightarrow> string" where
  "to_match (In_Set field neg s) = field_text field @ ne_text neg @ '' @'' @ s"
| "to_match (Concat_Set flds neg s) = join_str '' . '' (map field_text flds) @ ne_text neg @ '' @'' @ s"
| "to_match (Addr_Clause v6 src neg addr p t) = field_text (F_Addr v6 src) @ ne_text neg @ '' '' @ t"
| "to_match (Port_Clause tcp dport op lo hi) = field_text (F_Port tcp dport) @ op_text op @ '' '' @ range_text lo hi"
| "to_match (Icmp_Clause v6 ty) = (if v6 then ''icmpv6'' else ''icmp'') @ '' type '' @ show_nat ty"
| "to_match (Ct_State ss) = ''ct state '' @ join_str '','' ss"
| "to_match (Mark_Clause op v m t) = ''mark'' @ op_text op @ '' '' @ t"
| "to_match (Mark_Range neg lo hi t) = ''mark'' @ ne_text neg @ '' '' @ t"
| "to_match (Ct_Mark op v t) = ''ct mark'' @ op_text op @ '' '' @ t"
| "to_match (Tcp_Flags neg fs m) =
     ''tcp flags'' @ ne_text neg @ '' '' @ join_str '','' fs @
     (case m of Some m \<Rightarrow> '' / '' @ join_str '','' m | None \<Rightarrow> '''')"
| "to_match (Ct_Status neg ns) = ''ct status'' @ ne_text neg @ '' '' @ join_str '','' ns"
| "to_match (Ct_Direction neg reply) = ''ct direction'' @ ne_text neg @ '' '' @ (if reply then ''reply'' else ''original'')"
| "to_match (Ct_Zone op z) = ''ct zone'' @ op_text op @ '' '' @ show_nat z"
| "to_match (Pkt_Type neg k) = ''meta pkttype'' @ ne_text neg @ '' '' @ k"
| "to_match (L4_Proto op p t) = ''meta l4proto'' @ op_text op @ '' '' @ t"
| "to_match (Iface_Clause out neg n) = (if out then ''oifname'' else ''iifname'') @ ne_text neg @ '' '' @ n"
| "to_match Rpf = join_str '' '' RPF"

fun to_nll :: "clause \<Rightarrow> string" where
  "to_nll (In_Set field neg s) = field_nll field @ ne_text neg @ '' @'' @ s"
| "to_nll (Concat_Set flds neg s) = join_str '' . '' (map field_nll flds) @ ne_text neg @ '' @'' @ s"
| "to_nll (Addr_Clause v6 src neg addr p t) = (if src then ''src'' else ''dst'') @ ne_text neg @ '' '' @ t"
| "to_nll (Port_Clause tcp dport op lo hi) = field_text (F_Port tcp dport) @ op_text op @ '' '' @ range_text lo hi"
| "to_nll (Icmp_Clause v6 ty) = (if v6 then ''icmpv6 '' else ''icmp '') @ show_nat ty"
| "to_nll (Ct_State ss) = ''ct '' @ join_str '','' ss"
| "to_nll (Mark_Clause op v m t) = ''mark'' @ op_text op @ '' '' @ t"
| "to_nll (Mark_Range neg lo hi t) = ''mark'' @ ne_text neg @ '' '' @ t"
| "to_nll (Ct_Mark op v t) = ''ct mark'' @ op_text op @ '' '' @ t"
| "to_nll (Iface_Clause out neg n) = (if out then ''oif'' else ''iif'') @ ne_text neg @ '' '' @ n"
| "to_nll Rpf = ''rpf''"
| "to_nll (Pkt_Type neg k) = ''pkttype'' @ ne_text neg @ '' '' @ k"
| "to_nll (L4_Proto op p t) = ''l4proto'' @ op_text op @ '' '' @ t"
| "to_nll (Tcp_Flags neg fs m) = to_match (Tcp_Flags neg fs m)"
| "to_nll (Ct_Status neg ns) = to_match (Ct_Status neg ns)"
| "to_nll (Ct_Direction neg reply) = to_match (Ct_Direction neg reply)"
| "to_nll (Ct_Zone op z) = to_match (Ct_Zone op z)"

subsection \<open>Sets\<close>

type_synonym fw_sets = "(string, firewall_set) btree_map"

text \<open>The closure \<open>fix\<close>: an address field takes the family of its key.\<close>

definition fix_field :: "set_key option \<Rightarrow> fw_field \<Rightarrow> fw_field" where
  "fix_field key f =
     (case f of
        F_Addr v6 src \<Rightarrow>
          if key = Some Key_Ipv4 then F_Addr False src
          else if key = Some Key_Ipv6 then F_Addr True src
          else f
      | _ \<Rightarrow> f)"

fun fix_fields :: "set_key list \<Rightarrow> fw_field list \<Rightarrow> fw_field list" where
  "fix_fields (k # ks) (f # fs) = fix_field (Some k) f # fix_fields ks fs"
| "fix_fields _ fs = fs"

definition first_key :: "firewall_set \<Rightarrow> set_key option" where
  "first_key s = (case fs_key s of k # _ \<Rightarrow> Some k | [] \<Rightarrow> None)"

fun fix_clause :: "fw_sets \<Rightarrow> clause \<Rightarrow> clause" where
  "fix_clause sets (In_Set field neg s) = In_Set (fix_field (Option.bind (bm_get sets s) first_key) field) neg s"
| "fix_clause sets (Concat_Set flds neg s) =
     Concat_Set (case bm_get sets s of Some d \<Rightarrow> fix_fields (fs_key d) flds | None \<Rightarrow> flds) neg s"
| "fix_clause sets c = c"

definition normalize_set_families :: "string \<Rightarrow> fw_sets \<Rightarrow> string" where
  "normalize_set_families expr sets =
     (if CHR ''@'' \<notin> set expr then expr
      else (case parse_match expr of
              Inl _ \<Rightarrow> expr
            | Inr cs \<Rightarrow> join_str '' '' (map (\<lambda>c. to_match (fix_clause sets c)) cs)))"

datatype set_ref_problem = Undeclared | Wrong_Key

definition lookup_of :: "clause \<Rightarrow> (fw_field list \<times> string) option" where
  "lookup_of c =
     (case c of
        In_Set field neg s \<Rightarrow> Some ([field], s)
      | Concat_Set flds neg s \<Rightarrow> Some (flds, s)
      | _ \<Rightarrow> None)"

definition check_set_ref :: "fw_sets \<Rightarrow> clause \<Rightarrow> set_ref_problem option" where
  "check_set_ref sets c =
     (case lookup_of c of
        None \<Rightarrow> None
      | Some (flds, s) \<Rightarrow>
          (case bm_get sets s of
             None \<Rightarrow> Some Undeclared
           | Some d \<Rightarrow> if fs_key d \<noteq> map field_key flds then Some Wrong_Key else None))"

definition check_set_refs :: "clause list \<Rightarrow> fw_sets \<Rightarrow> set_ref_problem list" where
  "check_set_refs cs sets = List.map_filter (check_set_ref sets) cs"

end
