(* ===== verification/Fw_Roundtrip.thy ===== *)
theory Fw_Roundtrip
  imports Fw_Match Nll_Scope
begin

text \<open>
  Writing a clause and reading it again, \<open>to_match\<close> and \<open>parse_match\<close> of \<open>firewall.rs\<close>: every clause the
  reader makes is well formed (\<open>wf_clause\<close>), its stored text reads back as the same clause, and so the
  rewriting of set families of \<open>normalize_set_families\<close> changes the address fields and nothing else.
\<close>

subsection \<open>Clauses as tokens\<close>

fun field_tokens :: "fw_field \<Rightarrow> string list" where
  "field_tokens (F_Addr v6 src) = [if v6 then ''ip6'' else ''ip'', if src then ''saddr'' else ''daddr'']"
| "field_tokens (F_Port tcp dport) = [if tcp then ''tcp'' else ''udp'', if dport then ''dport'' else ''sport'']"
| "field_tokens F_Mark = [''mark'']"

fun cmp_tokens :: "cmp \<Rightarrow> string list" where
  "cmp_tokens Cmp_Equal = []"
| "cmp_tokens Cmp_Unequal = [''!='']"
| "cmp_tokens Cmp_Less = [''<'']"
| "cmp_tokens Cmp_Greater = [''>'']"
| "cmp_tokens Cmp_At_Most = [''<='']"
| "cmp_tokens Cmp_At_Least = [''>='']"

definition ne_cmp :: "bool \<Rightarrow> cmp" where
  "ne_cmp neg = (if neg then Cmp_Unequal else Cmp_Equal)"

abbreviation ne_tokens :: "bool \<Rightarrow> string list" where
  "ne_tokens neg \<equiv> cmp_tokens (ne_cmp neg)"

fun clause_tokens :: "clause \<Rightarrow> string list" where
  "clause_tokens (In_Set f neg s) = field_tokens f @ ne_tokens neg @ [''@'' @ s]"
| "clause_tokens (Concat_Set fs neg s) =
     field_tokens (hd fs) @ concat (map (\<lambda>f. ''.'' # field_tokens f) (tl fs)) @ ne_tokens neg @ [''@'' @ s]"
| "clause_tokens (Addr_Clause v6 src neg addr p t) = field_tokens (F_Addr v6 src) @ ne_tokens neg @ [t]"
| "clause_tokens (Port_Clause tcp dport op lo hi) = field_tokens (F_Port tcp dport) @ cmp_tokens op @ [range_text lo hi]"
| "clause_tokens (Icmp_Clause v6 ty) = [if v6 then ''icmpv6'' else ''icmp'', ''type'', show_nat ty]"
| "clause_tokens (Ct_State ss) = [''ct'', ''state'', join_str '','' ss]"
| "clause_tokens (Mark_Clause op v m t) = ''mark'' # cmp_tokens op @ [t]"
| "clause_tokens (Mark_Range neg lo hi t) = ''mark'' # ne_tokens neg @ [t]"
| "clause_tokens (Ct_Mark op v t) = ''ct'' # ''mark'' # cmp_tokens op @ [t]"
| "clause_tokens (Tcp_Flags neg fs m) =
     ''tcp'' # ''flags'' # ne_tokens neg @ join_str '','' fs # (case m of Some m \<Rightarrow> [''/'', join_str '','' m] | None \<Rightarrow> [])"
| "clause_tokens (Ct_Status neg ns) = ''ct'' # ''status'' # ne_tokens neg @ [join_str '','' ns]"
| "clause_tokens (Ct_Direction neg reply) = ''ct'' # ''direction'' # ne_tokens neg @ [if reply then ''reply'' else ''original'']"
| "clause_tokens (Ct_Zone op z) = ''ct'' # ''zone'' # cmp_tokens op @ [show_nat z]"
| "clause_tokens (Pkt_Type neg k) = ''meta'' # ''pkttype'' # ne_tokens neg @ [k]"
| "clause_tokens (L4_Proto op p t) = ''meta'' # ''l4proto'' # cmp_tokens op @ [t]"
| "clause_tokens (Iface_Clause out neg n) = (if out then ''oifname'' else ''iifname'') # ne_tokens neg @ [n]"
| "clause_tokens Rpf = RPF"

text \<open>An operand that is no operator, the \<open>.\<close> of a concatenated key or the name of a set.\<close>

definition plain_operand :: "string \<Rightarrow> bool" where
  "plain_operand t \<longleftrightarrow> cmp_parse t = None \<and> t \<noteq> ''.'' \<and> \<not> prefix ''@'' t"

definition names_ok :: "string list \<Rightarrow> string list \<Rightarrow> bool" where
  "names_ok known ns \<longleftrightarrow> ns \<noteq> [] \<and> set ns \<subseteq> set known"

fun wf_clause :: "clause \<Rightarrow> bool" where
  "wf_clause (In_Set f neg s) \<longleftrightarrow> s \<noteq> [] \<and> ws_free (''@'' @ s)"
| "wf_clause (Concat_Set fs neg s) \<longleftrightarrow> 2 \<le> length fs \<and> s \<noteq> [] \<and> ws_free (''@'' @ s)"
| "wf_clause (Addr_Clause v6 src neg addr p t) \<longleftrightarrow>
     ws_free t \<and> plain_operand t \<and> addr_operand v6 src neg t = Inr (Addr_Clause v6 src neg addr p t)"
| "wf_clause (Port_Clause tcp dport op lo hi) \<longleftrightarrow> lo \<le> hi \<and> hi \<le> 65535 \<and> (cmp_ordered op \<longrightarrow> lo = hi)"
| "wf_clause (Icmp_Clause v6 ty) \<longleftrightarrow> ty \<le> 255"
| "wf_clause (Ct_State ss) \<longleftrightarrow> names_ok CT_STATES ss"
| "wf_clause (Mark_Clause op v m t) \<longleftrightarrow> ws_free t \<and> plain_operand t \<and> mark_operand op t = Inr (Mark_Clause op v m t)"
| "wf_clause (Mark_Range neg lo hi t) \<longleftrightarrow>
     ws_free t \<and> plain_operand t \<and> mark_operand (ne_cmp neg) t = Inr (Mark_Range neg lo hi t)"
| "wf_clause (Ct_Mark op v t) \<longleftrightarrow> ws_free t \<and> plain_operand t \<and> parse_mark_u32 t = Some v"
| "wf_clause (Tcp_Flags neg fs m) \<longleftrightarrow>
     names_ok TCP_FLAGS fs \<and> (case m of Some m \<Rightarrow> names_ok TCP_FLAGS m \<and> set fs \<subseteq> set m | None \<Rightarrow> True)"
| "wf_clause (Ct_Status neg ns) \<longleftrightarrow> names_ok CT_STATUS ns"
| "wf_clause (Ct_Direction neg reply) \<longleftrightarrow> True"
| "wf_clause (Ct_Zone op z) \<longleftrightarrow> z \<le> 65535"
| "wf_clause (Pkt_Type neg k) \<longleftrightarrow> k \<in> set PKT_TYPES"
| "wf_clause (L4_Proto op p t) \<longleftrightarrow> ws_free t \<and> plain_operand t \<and> l4proto_number t = Some p"
| "wf_clause (Iface_Clause out neg n) \<longleftrightarrow>
     ws_free n \<and> length n \<le> 15 \<and> CHR ''*'' \<notin> set n \<and> (n = ''!='' \<longrightarrow> neg)"
| "wf_clause Rpf \<longleftrightarrow> True"

subsection \<open>Tokens of known shape\<close>

lemma tok_simps [simp]:
  "tok k [] = None" "tok 0 (a # ts) = Some a" "tok (Suc k) (a # ts) = tok k ts"
  "tok (numeral n) (a # ts) = tok (pred_numeral n) ts"
  by (simp_all add: tok_def numeral_eq_Suc)

lemma cmp_parse_tokens: "cmp_parse t = None \<Longrightarrow> op_at (Suc 0) (a # cmp_tokens op @ t # rest) = op"
  "cmp_parse t = None \<Longrightarrow> op_at 2 (a # b # cmp_tokens op @ t # rest) = op"
  by (cases op; simp add: op_at_def cmp_parse_def numeral_2_eq_2)+

lemma at_operand_tokens:
  "at_operand (after_op (Suc 0) op) (a # cmp_tokens op @ t # rest) f = and_then (f t) (\<lambda>c. Inr (c, rest))"
  "at_operand (after_op 2 op) (a # b # cmp_tokens op @ t # rest) f = and_then (f t) (\<lambda>c. Inr (c, rest))"
  by (cases op; simp add: after_op_def at_operand_def tok_operand_def numeral_2_eq_2 numeral_3_eq_3)+

lemma ne_cmp_simps [simp]: "cmp_ordered (ne_cmp neg) = False" "ne_cmp neg = Cmp_Unequal \<longleftrightarrow> neg"
  by (simp_all add: ne_cmp_def cmp_ordered_def)

lemma unordered_ne [simp]: "unordered (ne_cmp neg) = Inr ()"
  by (simp add: unordered_def)

lemma field_at_tokens [simp]: "field_at (field_tokens f @ ts) = Some (f, ts)"
  by (cases f) (auto simp: field_at_def numeral_2_eq_2)

lemma neg_at_tokens: "t \<noteq> ''!='' \<Longrightarrow> neg_at (ne_tokens neg @ t # rest) = neg"
  by (simp add: neg_at_def ne_cmp_def)

lemma set_ref_name: "s \<noteq> [] \<Longrightarrow> set_ref (''@'' @ s) = Inr (Some s)"
  by (simp add: set_ref_def)

lemma set_ref_plain: "\<not> prefix ''@'' t \<Longrightarrow> set_ref t = Inr None"
  by (simp add: set_ref_def prefix_def strip_prefix_str_Some split: option.splits)

lemma set_clause_set:
  "s \<noteq> [] \<Longrightarrow> set_clause (field_tokens f @ ne_tokens neg @ (''@'' @ s) # rest) = Some (Inr (In_Set f neg s, rest))"
  using set_ref_name [of s] neg_at_tokens [of "''@'' @ s" neg rest]
  by (cases neg) (simp_all add: set_clause_def ne_cmp_def Let_def)

lemma set_clause_plain:
  assumes "plain_operand t"
  shows "set_clause (field_tokens f @ cmp_tokens op @ t # rest) = None"
proof -
  have t: "t \<noteq> ''!=''" "t \<noteq> ''.''" "set_ref t = Inr None"
    using assms set_ref_plain [of t] by (auto simp: plain_operand_def cmp_parse_def)
  then show ?thesis
    by (cases op) (simp_all add: set_clause_def neg_at_def set_ref_def)
qed

lemma concat_fields_tokens:
  assumes "tok 0 rest \<noteq> Some ''.''"
  shows "concat_fields (concat (map (\<lambda>f. ''.'' # field_tokens f) fs) @ rest) = Inr (fs, rest)"
  using assms by (induction fs) (simp_all add: concat_fields.simps [of rest]
      concat_fields.simps [of "''.'' # field_tokens _ @ _"])

lemma set_clause_concat:
  assumes "fs = f # g # gs" "s \<noteq> []"
  shows "set_clause (clause_tokens (Concat_Set fs neg s) @ rest) = Some (Inr (Concat_Set fs neg s, rest))"
proof -
  let ?r = "ne_tokens neg @ (''@'' @ s) # rest"
  have r: "tok 0 ?r \<noteq> Some ''.''" by (cases neg) (simp_all add: ne_cmp_def)
  have "concat_fields (concat (map (\<lambda>f. ''.'' # field_tokens f) (g # gs)) @ ?r) = Inr (g # gs, ?r)"
    using concat_fields_tokens [OF r] .
  then have "concat_clause f (concat (map (\<lambda>f. ''.'' # field_tokens f) (g # gs)) @ ?r) = Inr (Concat_Set fs neg s, rest)"
    using assms set_ref_name [of s] neg_at_tokens [of "''@'' @ s" neg rest]
    by (cases neg) (simp_all add: concat_clause_def ne_cmp_def Let_def)
  then show ?thesis using assms by (simp add: set_clause_def)
qed


subsection \<open>Lists of names\<close>

lemma split_char_join:
  "ns \<noteq> [] \<Longrightarrow> \<forall>n \<in> set ns. c \<notin> set n \<Longrightarrow> split_char c (join_str [c] ns) = ns"
proof (induction ns)
  case (Cons n ns)
  then show ?case by (cases ns) (simp_all add: split_char_append split_char_single)
qed simp

definition known_names :: "string list \<Rightarrow> bool" where
  "known_names ns \<longleftrightarrow> list_all (\<lambda>n. n \<noteq> [] \<and> list_all plain_char n \<and> CHR '','' \<notin> set n) ns"

lemma known_lists: "known_names CT_STATES" "known_names TCP_FLAGS" "known_names CT_STATUS" "known_names PKT_TYPES"
  by code_simp+

lemma list_all_join: "list_all P sep \<Longrightarrow> \<forall>n \<in> set ns. list_all P n \<Longrightarrow> list_all P (join_str sep ns)"
  by (induction sep ns rule: join_str.induct) auto

lemma join_not_Nil: "ns \<noteq> [] \<Longrightarrow> \<forall>n \<in> set ns. n \<noteq> [] \<Longrightarrow> join_str sep ns \<noteq> []"
  by (induction sep ns rule: join_str.induct) auto

lemma trim_plain_text: "t \<noteq> [] \<Longrightarrow> list_all plain_char t \<Longrightarrow> trim t = t"
  by (rule trim_plain) (auto simp: list_all_iff)

lemma names_in_join:
  assumes "known_names known" "names_ok known ns"
  shows "fw_names_in known (join_str '','' ns) = Inr ns"
proof -
  have n: "n \<in> set known" "n \<noteq> []" "list_all plain_char n" "CHR '','' \<notin> set n" if "n \<in> set ns" for n
    using assms that by (auto simp: known_names_def names_ok_def list_all_iff)
  have "split_char CHR '','' (join_str '','' ns) = ns"
    using assms(2) n(4) by (intro split_char_join) (auto simp: names_ok_def)
  moreover have "traverse (\<lambda>n. let n = trim n in if n \<in> set known then Inr n else Inl (Unknown_Name n)) ns = Inr (map (\<lambda>n. n) ns)"
    by (rule traverse_Inr) (simp add: n trim_plain_text)
  ultimately show ?thesis by (simp add: fw_names_in_def)
qed

lemma names_plain:
  assumes "known_names known" "names_ok known ns"
  shows "join_str '','' ns \<noteq> []" "list_all plain_char (join_str '','' ns)"
proof -
  have n: "n \<noteq> [] \<and> list_all plain_char n" if "n \<in> set ns" for n
    using assms that by (auto simp: known_names_def names_ok_def list_all_iff)
  show "join_str '','' ns \<noteq> []" using assms(2) n by (intro join_not_Nil) (auto simp: names_ok_def)
  show "list_all plain_char (join_str '','' ns)"
    using n by (intro list_all_join) (simp_all add: plain_char_def less_char_def)
qed

lemma names_in_ok: "fw_names_in known v = Inr ns \<Longrightarrow> names_ok known ns"
proof -
  assume "fw_names_in known v = Inr ns"
  then have *: "list_all2 (\<lambda>x y. (let n = trim x in if n \<in> set known then Inr n else Inl (Unknown_Name n)) = Inr y)
      (split_char CHR '','' v) ns"
    by (simp add: fw_names_in_def traverse_eq_Inr_iff)
  have "ns \<noteq> []" using * by (cases ns) auto
  moreover have "n \<in> set known" if "n \<in> set ns" for n
    using list_all2_Inr_set [OF * that] by (auto simp: Let_def split: if_splits)
  ultimately show ?thesis by (auto simp: names_ok_def)
qed

text \<open>No list of names and no number reads as an operator.\<close>

definition operator_char :: "char \<Rightarrow> bool" where
  "operator_char c \<longleftrightarrow> c \<in> set ''!<>.@''"

lemma plain_operand_hd: "t \<noteq> [] \<Longrightarrow> \<not> operator_char (hd t) \<Longrightarrow> plain_operand t"
  by (cases t) (auto simp: plain_operand_def cmp_parse_def operator_char_def)

lemma known_no_operator: "names_ok known ns \<Longrightarrow> list_all (\<lambda>n. n \<noteq> [] \<and> \<not> operator_char (hd n)) known \<Longrightarrow>
    plain_operand (join_str '','' ns)"
proof (rule plain_operand_hd)
  assume *: "names_ok known ns" "list_all (\<lambda>n. n \<noteq> [] \<and> \<not> operator_char (hd n)) known"
  then obtain n ns' where n: "ns = n # ns'" "n \<noteq> []" "\<not> operator_char (hd n)"
    by (cases ns) (auto simp: names_ok_def list_all_iff)
  then obtain r where "join_str '','' ns = n @ r" by (cases ns') auto
  then show "join_str '','' ns \<noteq> []" "\<not> operator_char (hd (join_str '','' ns))" using n by auto
qed

lemma known_not_operators:
  "list_all (\<lambda>n. n \<noteq> [] \<and> \<not> operator_char (hd n)) CT_STATES" "list_all (\<lambda>n. n \<noteq> [] \<and> \<not> operator_char (hd n)) TCP_FLAGS"
  "list_all (\<lambda>n. n \<noteq> [] \<and> \<not> operator_char (hd n)) CT_STATUS" "list_all (\<lambda>n. n \<noteq> [] \<and> \<not> operator_char (hd n)) PKT_TYPES"
  by code_simp+

lemma digit_not_operator: "is_radix_digit 10 c \<Longrightarrow> \<not> operator_char c"
proof
  assume d: "is_radix_digit 10 c" and "operator_char c"
  then consider "c = CHR ''!''" | "c = CHR ''<''" | "c = CHR ''>''" | "c = CHR ''.''" | "c = CHR ''@''"
    by (auto simp: operator_char_def)
  then show False using d by cases (simp_all add: is_radix_digit_def radix_val_def digit_val_def Let_def)
qed

lemma number_operand: "plain_operand (show_nat n @ r)"
proof (rule plain_operand_hd)
  have "is_radix_digit 10 (hd (show_nat n))"
    using show_radix_is_digit [of 10 _ n] by (cases "show_nat n") auto
  then show "\<not> operator_char (hd (show_nat n @ r))" using digit_not_operator by simp
qed simp

lemma range_operand: "plain_operand (range_text lo hi)"
  using number_operand [of lo "[]"] number_operand [of lo] by (auto simp: range_text_def)


subsection \<open>Reading a written clause\<close>

lemma hd_tokens_field: "field_at (a # ts) = None" if "a \<notin> {''ip'', ''ip6'', ''tcp'', ''udp'', ''mark''}"
  using that by (auto simp: field_at_def)

lemma port_range: "lo \<le> hi \<Longrightarrow> hi \<le> 65535 \<Longrightarrow> (cmp_ordered op \<longrightarrow> lo = hi) \<Longrightarrow>
    port_operand tcp dport op (range_text lo hi) = Inr (Port_Clause tcp dport op lo hi)"
  by (auto simp: port_operand_def range_text_def parse_port_def split_once_append split_once_None parse_uint_show_nat)

text \<open>The clauses with an operand that is not looked up in a set.\<close>

definition reads_back :: "clause \<Rightarrow> string list \<Rightarrow> bool" where
  "reads_back c rest \<longleftrightarrow> plain_clause (clause_tokens c @ rest) = Inr (c, rest)"

lemmas plain_reading = reads_back_def plain_clause_def Let_def cmp_parse_tokens at_operand_tokens

lemma reads_addr: "wf_clause (Addr_Clause v6 src neg addr p t) \<Longrightarrow> reads_back (Addr_Clause v6 src neg addr p t) rest"
  by (cases v6; cases src) (simp_all add: plain_reading plain_operand_def)

lemma reads_port: "wf_clause (Port_Clause tcp dport op lo hi) \<Longrightarrow> reads_back (Port_Clause tcp dport op lo hi) rest"
  using range_operand [of lo hi] by (cases tcp; cases dport) (simp_all add: plain_reading plain_operand_def port_range)

lemma reads_mark:
  "wf_clause (Mark_Clause op v m t) \<Longrightarrow> reads_back (Mark_Clause op v m t) rest"
  "wf_clause (Mark_Range neg lo hi t) \<Longrightarrow> reads_back (Mark_Range neg lo hi t) rest"
  by (simp_all add: plain_reading plain_operand_def)

lemma known_operands:
  "names_ok CT_STATUS ns \<Longrightarrow> cmp_parse (join_str '','' ns) = None" "cmp_parse (show_nat z) = None"
  "cmp_parse ''reply'' = None" "cmp_parse ''original'' = None"
  using known_no_operator [OF _ known_not_operators(3), of ns] number_operand [of z "[]"]
  by (simp_all add: plain_operand_def) (simp_all add: cmp_parse_def)

lemma reads_ct_state: "wf_clause (Ct_State ss) \<Longrightarrow> reads_back (Ct_State ss) rest"
  by (simp add: plain_reading at_operand_def tok_operand_def names_in_join known_lists)

lemma reads_ct:
  "wf_clause (Ct_Mark op x t) \<Longrightarrow> reads_back (Ct_Mark op x t) rest"
  "wf_clause (Ct_Status neg ns) \<Longrightarrow> reads_back (Ct_Status neg ns) rest"
  "wf_clause (Ct_Direction neg reply) \<Longrightarrow> reads_back (Ct_Direction neg reply) rest"
  "wf_clause (Ct_Zone op z) \<Longrightarrow> reads_back (Ct_Zone op z) rest"
  by (simp_all add: plain_reading plain_operand_def known_operands names_in_join known_lists fw_mark_def
      parse_uint_show_nat direction_operand_def)

lemma reads_icmp: "wf_clause (Icmp_Clause v6 ty) \<Longrightarrow> reads_back (Icmp_Clause v6 ty) rest"
  by (cases v6) (simp_all add: plain_reading at_operand_def tok_operand_def parse_uint_show_nat)

lemma reads_meta:
  "wf_clause (Pkt_Type neg k) \<Longrightarrow> reads_back (Pkt_Type neg k) rest"
  "wf_clause (L4_Proto op p t) \<Longrightarrow> reads_back (L4_Proto op p t) rest"
  using plain_operand_hd [of k] known_not_operators(4)
  by (auto simp add: plain_reading plain_operand_def pkttype_operand_def list_all_iff)

lemma reads_iface: "wf_clause (Iface_Clause out neg n) \<Longrightarrow> reads_back (Iface_Clause out neg n) rest"
  by (cases neg) (simp_all add: plain_reading ne_cmp_def neg_at_def at_operand_def tok_operand_def iface_operand_def)

lemma reads_flags:
  assumes "wf_clause (Tcp_Flags neg fs m)" "tok 0 rest \<noteq> Some ''/''"
  shows "reads_back (Tcp_Flags neg fs m) rest"
proof -
  have c: "cmp_parse (join_str '','' fs) = None"
    using assms(1) known_no_operator [OF _ known_not_operators(2), of fs] by (simp add: plain_operand_def)
  have f: "fw_names_in TCP_FLAGS (join_str '','' fs) = Inr fs"
    using assms(1) by (simp add: names_in_join known_lists)
  have m: "fw_names_in TCP_FLAGS (join_str '','' k) = Inr k" "find (\<lambda>f. f \<notin> set k) fs = None" if "m = Some k" for k
    using assms(1) that by (auto simp: names_in_join known_lists find_None_iff)
  show ?thesis
    using c f m assms(2)
    by (cases neg; cases m)
      (simp_all add: plain_reading flags_clause_def ne_cmp_def after_op_def tok_operand_def op_at_def cmp_parse_def unordered_def cmp_ordered_def)
qed

lemma reads_plain:
  assumes "wf_clause c" "lookup_of c = None" "c \<noteq> Rpf" "tok 0 rest \<noteq> Some ''/''"
  shows "reads_back c rest"
  using assms
  by (cases c) (simp_all only: reads_addr reads_port reads_mark reads_ct_state reads_ct reads_icmp reads_meta reads_iface reads_flags simp_thms, simp_all add: lookup_of_def)


text \<open>The words a clause starts with that are no field.\<close>

lemma tokens_not_field:
  "wf_clause c \<Longrightarrow> lookup_of c = None \<Longrightarrow> c \<noteq> Rpf \<Longrightarrow> set_clause (clause_tokens c @ rest) = None"
proof (cases c)
  case (Addr_Clause v6 src neg addr p t)
  then show "wf_clause c \<Longrightarrow> ?thesis" using set_clause_plain [of t "F_Addr v6 src"] by simp
next
  case (Port_Clause tcp dport op lo hi)
  then show ?thesis using set_clause_plain [OF range_operand, of "F_Port tcp dport"] by simp
next
  case (Mark_Clause op v m t)
  then show "wf_clause c \<Longrightarrow> ?thesis" using set_clause_plain [of t F_Mark] by simp
next
  case (Mark_Range neg lo hi t)
  then show "wf_clause c \<Longrightarrow> ?thesis" using set_clause_plain [of t F_Mark] by simp
qed (auto simp: set_clause_def field_at_def lookup_of_def)

lemma field_hd: "\<exists>a ts. field_tokens f = a # ts \<and> a \<noteq> ''fib'' \<and> a \<noteq> ''/''"
  by (cases f) auto

lemma tokens_hd: "c \<noteq> Rpf \<Longrightarrow> \<exists>a ts. clause_tokens c = a # ts \<and> a \<noteq> ''fib'' \<and> a \<noteq> ''/''"
proof (cases c)
  case (In_Set f neg s)
  then show ?thesis using field_hd [of f] by auto
next
  case (Concat_Set fs neg s)
  then show ?thesis using field_hd [of "hd fs"] by auto
qed simp_all

lemma tokens_not_rpf: "c \<noteq> Rpf \<Longrightarrow> take 6 (clause_tokens c @ rest) \<noteq> RPF"
  using tokens_hd [of c] by (auto simp: RPF_def)

lemma parse_clause_tokens:
  assumes "wf_clause c" "tok 0 rest \<noteq> Some ''/''"
  shows "parse_clause (clause_tokens c @ rest) = Inr (c, rest)"
proof (cases "c = Rpf")
  case True
  then show ?thesis by (simp add: parse_clause_def RPF_def)
next
  case rpf: False
  note r = tokens_not_rpf [OF rpf, of rest]
  show ?thesis
  proof (cases "lookup_of c")
    case None
    then show ?thesis
      using r tokens_not_field [OF assms(1) None rpf] reads_plain [OF assms(1) None rpf assms(2)]
      by (simp add: parse_clause_def reads_back_def)
  next
    case (Some l)
    then have "set_clause (clause_tokens c @ rest) = Some (Inr (c, rest))"
    proof (cases c)
      case (In_Set f neg s)
      then show ?thesis using assms(1) set_clause_set [of s f neg rest] by simp
    next
      case (Concat_Set fs neg s)
      moreover from this assms(1) obtain f g gs where "fs = f # g # gs"
        by (cases fs; cases "tl fs") auto
      ultimately show ?thesis using assms(1) set_clause_concat [of fs f g gs s neg rest] by simp
    qed (simp_all add: lookup_of_def)
    then show ?thesis using r by (simp add: parse_clause_def)
  qed
qed

text \<open>A clause never starts with the \<open>/\<close> of a mask, so clauses can follow each other.\<close>

lemma tokens_not_slash: "tok 0 (clause_tokens c @ rest) \<noteq> Some ''/''"
  using tokens_hd [of c] by (cases "c = Rpf") (auto simp: RPF_def)

lemma parse_clauses_tokens: "list_all wf_clause cs \<Longrightarrow> parse_clauses (concat (map clause_tokens cs)) = Inr cs"
proof (induction cs)
  case (Cons c cs)
  let ?r = "concat (map clause_tokens cs)"
  have "tok 0 ?r \<noteq> Some ''/''" by (cases cs) (simp_all add: tokens_not_slash)
  with Cons.prems have "parse_clause (clause_tokens c @ ?r) = Inr (c, ?r)" by (simp add: parse_clause_tokens)
  moreover from this have "clause_tokens c @ ?r \<noteq> []" using parse_clause_length by fastforce
  ultimately show ?case using Cons by (simp add: parse_clauses.simps [of "clause_tokens c @ ?r"])
qed (simp add: parse_clauses.simps)

subsection \<open>The text of a clause\<close>

lemma join_append: "xs \<noteq> [] \<Longrightarrow> ys \<noteq> [] \<Longrightarrow> join_str sep (xs @ ys) = join_str sep xs @ sep @ join_str sep ys"
  by (induction sep xs rule: join_str.induct) (auto simp: neq_Nil_conv)

lemma join_Cons: "xs \<noteq> [] \<Longrightarrow> join_str sep (x # xs) = x @ sep @ join_str sep xs"
  by (cases xs) simp_all

lemma join_cmp: "join_str '' '' (cmp_tokens op @ [t]) = (case op_text op of [] \<Rightarrow> t | _ # w \<Rightarrow> w @ '' '' @ t)"
  by (cases op) simp_all

lemma field_text_tokens: "field_text f = join_str '' '' (field_tokens f)"
  by (cases f) auto

lemma join_field_op: "join_str '' '' (field_tokens f @ cmp_tokens op @ [t]) = field_text f @ op_text op @ '' '' @ t"
  by (cases op; cases f) (auto simp: field_text_tokens)

lemma join_word_op: "join_str '' '' (a # b # cmp_tokens op @ [t]) = a @ '' '' @ b @ op_text op @ '' '' @ t"
  "join_str '' '' (a # cmp_tokens op @ [t]) = a @ op_text op @ '' '' @ t"
  by (cases op; simp)+

lemma ne_text_cmp: "ne_text neg = op_text (ne_cmp neg)"
  by (simp add: ne_text_def ne_cmp_def)

lemma field_tokens_not_Nil: "field_tokens f \<noteq> []"
  by (cases f) simp_all

lemma join_fields:
  "fs \<noteq> [] \<Longrightarrow> join_str '' '' (field_tokens (hd fs) @ concat (map (\<lambda>f. ''.'' # field_tokens f) (tl fs)) @ cmp_tokens op @ [t]) =
     join_str '' . '' (map field_text fs) @ op_text op @ '' '' @ t"
proof (induction fs)
  case (Cons f fs)
  show ?case
  proof (cases fs)
    case Nil
    then show ?thesis by (simp add: join_field_op)
  next
    case (Cons g gs)
    let ?r = "field_tokens g @ concat (map (\<lambda>f. ''.'' # field_tokens f) gs) @ cmp_tokens op @ [t]"
    have "join_str '' '' (field_tokens f @ ''.'' # ?r) = field_text f @ '' '' @ ''. '' @ join_str '' '' ?r"
      using join_append [OF field_tokens_not_Nil, of "''.'' # ?r" "'' ''" f] field_tokens_not_Nil [of g]
      by (simp add: field_text_tokens join_Cons)
    then show ?thesis using Cons.IH Cons by simp
  qed
qed simp

lemma to_match_tokens: "wf_clause c \<Longrightarrow> to_match c = join_str '' '' (clause_tokens c)"
proof (cases c)
  case (Concat_Set fs neg s)
  then show "wf_clause c \<Longrightarrow> ?thesis" using join_fields [of fs "ne_cmp neg" "''@'' @ s"] by (cases "fs = []") (simp_all add: ne_text_cmp)
next
  case (In_Set f neg s)
  then show ?thesis using join_field_op [of f "ne_cmp neg" "''@'' @ s"] by (simp add: ne_text_cmp)
next
  case (Addr_Clause v6 src neg addr p t)
  then show ?thesis using join_field_op [of "F_Addr v6 src" "ne_cmp neg" t] by (simp add: ne_text_cmp)
next
  case (Port_Clause tcp dport op lo hi)
  then show ?thesis using join_field_op [of "F_Port tcp dport" op "range_text lo hi"] by simp
next
  case (Tcp_Flags neg fs m)
  then show ?thesis by (cases neg; cases m) (simp_all add: ne_text_def ne_cmp_def)
qed (auto simp: ne_text_cmp join_word_op)


subsection \<open>Every clause read is well formed\<close>

lemma operator_not_digit:
  "operator_char c \<Longrightarrow> \<not> is_radix_digit 16 c \<and> \<not> is_radix_digit 10 c \<and> radix_val 10 c = None \<and> c \<noteq> CHR '':'' \<and>
     c \<noteq> CHR ''+'' \<and> c \<noteq> CHR ''-'' \<and> c \<noteq> CHR ''/'' \<and> c \<noteq> CHR ''0''"
proof -
  assume "operator_char c"
  then consider "c = CHR ''!''" | "c = CHR ''<''" | "c = CHR ''>''" | "c = CHR ''.''" | "c = CHR ''@''"
    by (auto simp: operator_char_def)
  then show ?thesis by cases (simp_all add: is_radix_digit_def radix_val_def digit_val_def Let_def)
qed

lemma parse_ip_operator: "operator_char c \<Longrightarrow> parse_ip (c # s) = None"
  using operator_not_digit [of c] read_groups.simps(2) [of 0 7 "c # s"]
  by (auto simp: parse_ip_def read_ipv6_def read_ipv4_Cons_None read_number_Cons_None read_separator_def)

lemma parse_ip_Nil: "parse_ip [] = None"
  using read_groups.simps(2) [of 0 7 "[]"] by (simp add: parse_ip_def read_ipv6_def read_separator_def)

lemma parse_addr_plain: "parse_ip_or_cidr v = Inr x \<Longrightarrow> plain_operand v"
proof (rule plain_operand_hd)
  assume v: "parse_ip_or_cidr v = Inr x"
  then obtain w r where w: "v = w @ r" "parse_ip w \<noteq> None"
    by (auto simp: parse_ip_or_cidr_def parse_cidr_def split: if_splits dest: rsplit_once_Some)
  then have "w \<noteq> []" using parse_ip_Nil by auto
  then show "v \<noteq> []" "\<not> operator_char (hd v)" using w parse_ip_operator by (cases w; auto)+
qed

lemma parse_uint_operator: "operator_char c \<Longrightarrow> parse_uint mx (c # s) = None" "parse_uint mx [] = None"
  using operator_not_digit [of c] by (simp_all add: parse_uint_def)

lemma parse_mark_operator: "operator_char c \<Longrightarrow> parse_mark_u32 (c # s) = None" "parse_mark_u32 [] = None"
  using operator_not_digit [of c] parse_uint_operator by (auto simp: parse_mark_u32_def)

lemma parse_mark_plain: "parse_mark_u32 v = Some x \<Longrightarrow> plain_operand v"
  using parse_mark_operator by (cases v) (auto intro!: plain_operand_hd)

lemma fw_mark_prefix: "fw_mark v w = Inr x \<Longrightarrow> v = w @ r \<Longrightarrow> plain_operand v"
  using parse_mark_operator by (cases w) (auto simp: fw_mark_def intro!: plain_operand_hd)

lemma mark_operand_Inr:
  assumes "mark_operand op v = Inr c"
  obtains (single) x m where "c = Mark_Clause op x m v" "plain_operand v"
    | (many) lo hi where "c = Mark_Range (op = Cmp_Unequal) lo hi v" "\<not> cmp_ordered op" "plain_operand v"
proof (cases "split_once CHR ''-'' v")
  case (Some p)
  then show ?thesis
    using assms many fw_mark_prefix split_once_Some [of "CHR ''-''" v]
    by (cases p) (auto simp: mark_operand_def split: if_splits)
next
  case dash: None
  show ?thesis
  proof (cases "split_once CHR ''/'' v")
    case (Some p)
    then show ?thesis
      using assms single dash fw_mark_prefix split_once_Some [of "CHR ''/''" v]
      by (cases p) (auto simp: mark_operand_def split: if_splits)
  next
    case None
    then show ?thesis
      using assms single dash fw_mark_prefix [of v v _ "[]"] by (auto simp: mark_operand_def split: if_splits)
  qed
qed

lemma l4_known_plain: "list_all (\<lambda>(n, _). n \<noteq> [] \<and> \<not> operator_char (hd n)) L4_PROTOS"
  by code_simp

lemma l4_plain: "l4proto_number v = Some p \<Longrightarrow> plain_operand v"
proof -
  assume v: "l4proto_number v = Some p"
  have "v \<noteq> [] \<and> \<not> operator_char (hd v)"
  proof (cases "map_of L4_PROTOS v")
    case (Some q)
    then have "(v, q) \<in> set L4_PROTOS" by (rule map_of_SomeD)
    then show ?thesis using l4_known_plain by (auto simp: list_all_iff)
  next
    case None
    then have "parse_u8 v = Some p" using v by (simp add: l4proto_number_def)
    then show ?thesis using parse_uint_operator by (cases v) auto
  qed
  then show ?thesis by (simp add: plain_operand_hd)
qed

lemma unordered_op: "unordered op = Inr u \<Longrightarrow> op = ne_cmp (op = Cmp_Unequal)"
  by (cases op) (simp_all add: unordered_def cmp_ordered_def ne_cmp_def)

lemma tok_member: "tok k ts = Some v \<Longrightarrow> list_all ws_free ts \<Longrightarrow> ws_free v"
  by (auto simp: tok_def list_all_iff split: if_splits)

definition all_read :: "(clause \<Rightarrow> bool) \<Rightarrow> (fw_error, clause \<times> string list) result \<Rightarrow> bool" where
  "all_read P r \<longleftrightarrow> (\<forall>c rest. r = Inr (c, rest) \<longrightarrow> P c)"

abbreviation all_wf :: "(fw_error, clause \<times> string list) result \<Rightarrow> bool" where
  "all_wf \<equiv> all_read wf_clause"

lemma all_read_if: "(b \<Longrightarrow> all_read P x) \<Longrightarrow> (\<not> b \<Longrightarrow> all_read P y) \<Longrightarrow> all_read P (if b then x else y)"
  by simp

lemma all_read_Inl: "all_read P (Inl e)"
  by (simp add: all_read_def)

lemma all_read_then: "(\<And>a. r = Inr a \<Longrightarrow> all_read P (f a)) \<Longrightarrow> all_read P (and_then r f)"
  by (cases r) (simp_all add: all_read_def)

lemma all_read_at: "(\<And>v c. f v = Inr c \<Longrightarrow> tok k ts = Some v \<Longrightarrow> P c) \<Longrightarrow> all_read P (at_operand k ts f)"
  by (auto simp: all_read_def at_operand_Inr)

lemma all_wf_at:
  "list_all ws_free ts \<Longrightarrow> (\<And>v c. ws_free v \<Longrightarrow> f v = Inr c \<Longrightarrow> tok k ts = Some v \<Longrightarrow> wf_clause c) \<Longrightarrow> all_wf (at_operand k ts f)"
  using tok_member by (intro all_read_at) blast

lemma wf_addr: "ws_free v \<Longrightarrow> addr_operand v6 src neg v = Inr c \<Longrightarrow> wf_clause c"
  using parse_addr_plain by (auto simp: addr_operand_def split: sum.splits if_splits)

lemma wf_port: "port_operand tcp dport op v = Inr c \<Longrightarrow> wf_clause c"
  by (auto simp: port_operand_def parse_port_def dest: parse_uint_le split: option.splits if_splits)

lemma wf_mark:
  assumes "ws_free v" "mark_operand op v = Inr c"
  shows "wf_clause c"
  using assms(2)
proof (cases rule: mark_operand_Inr)
  case (many lo hi)
  then have "ne_cmp (op = Cmp_Unequal) = op" using unordered_op [of op "()"] by (simp add: unordered_def)
  with many assms show ?thesis by simp
qed (use assms in simp)

lemma wf_operand:
  "and_then (ok_or (parse_u8 v) e) (\<lambda>ty. Inr (Icmp_Clause v6 ty)) = Inr c \<Longrightarrow> wf_clause c"
  "and_then (fw_names_in CT_STATES v) (\<lambda>ss. Inr (Ct_State ss)) = Inr c \<Longrightarrow> wf_clause c"
  "and_then (fw_names_in CT_STATUS v) (\<lambda>ns. Inr (Ct_Status neg ns)) = Inr c \<Longrightarrow> wf_clause c"
  "and_then (ok_or (parse_u16 v) e) (\<lambda>z. Inr (Ct_Zone op z)) = Inr c \<Longrightarrow> wf_clause c"
  "direction_operand neg v = Inr c \<Longrightarrow> wf_clause c"
  "pkttype_operand neg v = Inr c \<Longrightarrow> wf_clause c"
  "ws_free v \<Longrightarrow> and_then (fw_mark v v) (\<lambda>x. Inr (Ct_Mark op x v)) = Inr c \<Longrightarrow> wf_clause c"
  "ws_free v \<Longrightarrow> and_then (ok_or (l4proto_number v) e) (\<lambda>p. Inr (L4_Proto op p v)) = Inr c \<Longrightarrow> wf_clause c"
  by (auto simp: direction_operand_def pkttype_operand_def fw_mark_def names_in_ok
      dest: parse_uint_le parse_mark_plain l4_plain split: if_splits)

lemma wf_flags: "all_wf (flags_clause op ts)"
  using names_in_ok [of TCP_FLAGS]
  by (auto simp: all_read_def flags_clause_def Let_def find_None_iff split: if_splits option.splits)

lemma wf_iface:
  assumes "list_all ws_free ts"
  shows "all_wf (at_operand (if neg_at (drop 1 ts) then 2 else 1) ts (iface_operand out (neg_at (drop 1 ts))))"
proof (rule all_wf_at [OF assms])
  fix v c
  assume v: "ws_free v" "iface_operand out (neg_at (drop 1 ts)) v = Inr c" "tok (if neg_at (drop 1 ts) then 2 else 1) ts = Some v"
  moreover have "v = ''!='' \<longrightarrow> neg_at (drop 1 ts)" using v(3) by (cases ts) (auto simp: neg_at_def split: if_splits)
  ultimately show "wf_clause c" by (auto simp: iface_operand_def split: if_splits)
qed

lemma wf_plain: "list_all ws_free ts \<Longrightarrow> all_wf (plain_clause ts)"
  unfolding plain_clause_def Let_def
  by (intro all_read_if; (rule all_read_Inl wf_flags | erule wf_iface | intro all_read_then all_wf_at);
      (assumption | erule (1) wf_addr wf_mark wf_operand(7,8) | erule wf_port wf_operand(1-6)))

lemma wf_set:
  assumes "list_all ws_free ts" "set_clause ts = Some r"
  shows "all_wf r"
proof -
  obtain f rest where f: "field_at ts = Some (f, rest)" using assms(2) by (auto simp: set_clause_def split: option.splits)
  then have rest: "list_all ws_free rest" using assms(1)
    by (auto simp: field_at_def list_all_iff split: if_splits dest: in_set_dropD)
  have name: "s \<noteq> [] \<and> ws_free (''@'' @ s)" if "tok k xs = Some t" "list_all ws_free xs" "set_ref t = Inr (Some s)" for k xs t s
    using that tok_member [OF that(1,2)] by (auto simp: set_ref_def strip_prefix_str_Some split: option.splits if_splits)
  show ?thesis
  proof (cases "tok 0 rest = Some ''.''")
    case True
    have fields: "concat_fields xs = Inr (fs, r') \<Longrightarrow> list_all ws_free xs \<Longrightarrow> list_all ws_free r' \<and> (tok 0 xs = Some ''.'' \<longrightarrow> fs \<noteq> [])" for xs fs r'
    proof (induction xs arbitrary: fs rule: concat_fields.induct)
      case (1 xs)
      show ?case
      proof (cases "tok 0 xs = Some ''.''")
        case dot: True
        with "1.prems" obtain g rs fs' where g: "field_at (drop 1 xs) = Some (g, rs)" "concat_fields rs = Inr (fs', r')" "fs = g # fs'"
          by (auto simp: concat_fields.simps [of xs] split: option.splits)
        moreover have "list_all ws_free rs" using g(1) "1.prems"(2)
          by (auto simp: field_at_def list_all_iff split: if_splits dest: in_set_dropD)
        ultimately show ?thesis using "1.IH" [OF dot g(1) refl g(2)] by simp
      qed (use "1.prems" in \<open>simp add: concat_fields.simps [of xs]\<close>)
    qed
    have "wf_clause c" if c: "concat_clause f rest = Inr (c, out)" for c out
    proof -
      from c obtain fs r' where r': "concat_fields rest = Inr (fs, r')"
        by (cases "concat_fields rest") (auto simp: concat_clause_def)
      let ?k = "if neg_at r' then 1 else 0"
      obtain n t where n: "c = Concat_Set (f # fs) (neg_at r') n" "tok ?k r' = Some t" "set_ref t = Inr (Some n)"
      proof (cases "tok ?k r'")
        case None
        then show ?thesis using c r' by (simp add: concat_clause_def Let_def set_ref_def)
      next
        case (Some t)
        then show ?thesis using c r' that [of _ t] by (auto simp: concat_clause_def Let_def split: option.splits)
      qed
      show ?thesis using n(1) name [OF n(2) _ n(3)] fields [OF r' rest] True by (auto simp: Suc_le_eq)
    qed
    then have "all_wf (concat_clause f rest)" by (auto simp: all_read_def)
    then show ?thesis using assms(2) f True by (simp add: set_clause_def)
  next
    case False
    then show ?thesis using assms(2) f name [OF _ rest]
      by (auto simp: set_clause_def all_read_def Let_def split: option.splits sum.splits)
  qed
qed


lemma parse_clause_wf: "parse_clause ts = Inr (c, rest) \<Longrightarrow> list_all ws_free ts \<Longrightarrow> wf_clause c"
  using wf_plain [of ts] wf_set [of ts]
  by (auto simp: parse_clause_def all_read_def split: if_splits option.splits)

lemma parse_clauses_wf: "parse_clauses ts = Inr cs \<Longrightarrow> list_all ws_free ts \<Longrightarrow> list_all wf_clause cs"
proof (induction ts arbitrary: cs rule: parse_clauses.induct)
  case (1 ts)
  show ?case
  proof (cases "ts = []")
    case False
    with "1.prems"(1) obtain c rest cs' where c: "parse_clause ts = Inr (c, rest)" "parse_clauses rest = Inr cs'" "cs = c # cs'"
      by (auto simp: parse_clauses.simps [of ts] split: sum.splits)
    have "list_all ws_free rest"
      using parse_clause_rest [OF c(1)] "1.prems"(2) by (auto simp: strict_suffix_def suffix_def)
    then show ?thesis using "1.IH" [OF False c(1) refl c(2)] parse_clause_wf [OF c(1) "1.prems"(2)] c(3) by simp
  qed (use "1.prems" in \<open>simp add: parse_clauses.simps\<close>)
qed

lemma parse_match_wf: "parse_match e = Inr cs \<Longrightarrow> list_all wf_clause cs"
  by (rule parse_clauses_wf [of "split_whitespace e"])
    (auto simp: parse_match_def list_all_iff dest: split_whitespace_ws_free)

subsection \<open>Words of a written expression\<close>

definition KEYWORDS :: "string list" where
  "KEYWORDS = [''ip'', ''ip6'', ''saddr'', ''daddr'', ''tcp'', ''udp'', ''dport'', ''sport'', ''mark'', ''!='', ''<'', ''>'', ''<='',
     ''>='', ''.'', ''icmp'', ''icmpv6'', ''type'', ''ct'', ''state'', ''flags'', ''/'', ''status'', ''direction'', ''reply'', ''original'',
     ''zone'', ''meta'', ''pkttype'', ''l4proto'', ''oifname'', ''iifname'', ''fib'', ''iif'', ''oif'', ''missing'']"

lemma keywords_free: "list_all ws_free KEYWORDS"
proof -
  have "list_all (\<lambda>t. t \<noteq> [] \<and> list_all plain_char t) KEYWORDS" by code_simp
  then show ?thesis using plain_ws_free by (auto simp: list_all_iff)
qed

lemma keyword_free: "t \<in> set KEYWORDS \<Longrightarrow> ws_free t"
  using keywords_free by (simp add: list_all_iff)

lemma cmp_free: "list_all ws_free (cmp_tokens op)"
  by (cases op) (simp_all add: keyword_free KEYWORDS_def)

lemma field_free: "list_all ws_free (field_tokens f)"
  by (cases f) (simp_all add: keyword_free KEYWORDS_def)

lemma show_nat_plain: "list_all plain_char (show_nat n)"
  using show_nat_decimal [of n] decimal_digit_plain by (auto simp: list_all_iff)

lemma number_free: "ws_free (show_nat n)" "ws_free (range_text lo hi)"
  using show_nat_plain by (auto simp: range_text_def plain_char_def less_char_def intro!: plain_ws_free)

lemma names_free: "known_names known \<Longrightarrow> names_ok known ns \<Longrightarrow> ws_free (join_str '','' ns)"
  using names_plain plain_ws_free by blast

lemma clause_free: "wf_clause c \<Longrightarrow> list_all ws_free (clause_tokens c)"
proof (cases c)
  case (Concat_Set fs neg s)
  then show "wf_clause c \<Longrightarrow> ?thesis"
    using field_free cmp_free by (auto simp: list_all_iff keyword_free KEYWORDS_def)
next
  case (Tcp_Flags neg fs m)
  then show "wf_clause c \<Longrightarrow> ?thesis"
    using cmp_free by (cases m) (simp_all add: keyword_free KEYWORDS_def names_free [OF known_lists(2)])
next
  case (Pkt_Type neg k)
  then show "wf_clause c \<Longrightarrow> ?thesis"
    using cmp_free known_lists(4) plain_ws_free by (auto simp: keyword_free KEYWORDS_def known_names_def list_all_iff)
qed (use field_free cmp_free in \<open>simp_all add: keyword_free KEYWORDS_def number_free names_free [OF known_lists(1)] names_free [OF known_lists(3)] RPF_def\<close>)

lemma split_joined: "list_all ws_free ts \<Longrightarrow> split_whitespace (join_str '' '' ts) = ts"
proof (induction ts)
  case Nil
  then show ?case by (simp add: split_whitespace_def words_of.simps)
next
  case (Cons t ts)
  then show ?case by (cases ts) (simp_all add: split_whitespace_one split_whitespace_Cons)
qed

lemma clause_tokens_not_Nil: "clause_tokens c \<noteq> []"
  using tokens_hd [of c] by (cases "c = Rpf") (auto simp: RPF_def)

lemma written_tokens:
  "list_all wf_clause cs \<Longrightarrow> join_str '' '' (map to_match cs) = join_str '' '' (concat (map clause_tokens cs))"
proof (induction cs)
  case (Cons c cs)
  then show ?case
    by (cases cs) (simp_all add: to_match_tokens join_append clause_tokens_not_Nil)
qed simp

lemma parse_written: "list_all wf_clause cs \<Longrightarrow> parse_match (join_str '' '' (map to_match cs)) = Inr cs"
proof -
  assume wf: "list_all wf_clause cs"
  then have "list_all ws_free (concat (map clause_tokens cs))" using clause_free by (auto simp: list_all_iff)
  then show ?thesis by (simp add: parse_match_def written_tokens wf split_joined parse_clauses_tokens)
qed


subsection \<open>Lookups\<close>

text \<open>Only a token with \<open>@\<close> makes a lookup.\<close>

lemma no_lookup_operand:
  "addr_operand v6 src neg v = Inr c \<Longrightarrow> lookup_of c = None"
  "port_operand tcp dport op v = Inr c \<Longrightarrow> lookup_of c = None"
  "direction_operand neg v = Inr c \<Longrightarrow> lookup_of c = None"
  "pkttype_operand neg v = Inr c \<Longrightarrow> lookup_of c = None"
  "iface_operand out neg v = Inr c \<Longrightarrow> lookup_of c = None"
  "and_then x (\<lambda>ty. Inr (Icmp_Clause v6 ty)) = Inr c \<Longrightarrow> lookup_of c = None"
  "and_then y (\<lambda>ss. Inr (Ct_State ss)) = Inr c \<Longrightarrow> lookup_of c = None"
  "and_then y (\<lambda>ns. Inr (Ct_Status neg ns)) = Inr c \<Longrightarrow> lookup_of c = None"
  "and_then x (\<lambda>z. Inr (Ct_Zone op z)) = Inr c \<Longrightarrow> lookup_of c = None"
  "and_then x (\<lambda>z. Inr (Ct_Mark op z v)) = Inr c \<Longrightarrow> lookup_of c = None"
  "and_then x (\<lambda>p. Inr (L4_Proto op p v)) = Inr c \<Longrightarrow> lookup_of c = None"
  by (auto simp: addr_operand_def port_operand_def direction_operand_def pkttype_operand_def iface_operand_def lookup_of_def
      split: sum.splits if_splits)

lemma no_lookup_mark: "mark_operand op v = Inr c \<Longrightarrow> lookup_of c = None"
  by (erule mark_operand_Inr) (simp_all add: lookup_of_def)

lemma no_lookup_flags: "all_read (\<lambda>c. lookup_of c = None) (flags_clause op ts)"
  by (auto simp: all_read_def flags_clause_def Let_def lookup_of_def split: if_splits option.splits)

lemma plain_no_lookup: "all_read (\<lambda>c. lookup_of c = None) (plain_clause ts)"
  unfolding plain_clause_def Let_def
  by (intro all_read_if; (rule all_read_Inl no_lookup_flags | intro all_read_then all_read_at); (erule no_lookup_operand no_lookup_mark))

lemma no_set_ref: "\<forall>t \<in> set ts. CHR ''@'' \<notin> set t \<Longrightarrow> tok k ts = Some t \<Longrightarrow> set_ref t = Inr None"
  by (rule set_ref_plain) (force simp: tok_def prefix_def split: if_splits dest: nth_mem)

lemma no_lookup_set:
  assumes "\<forall>t \<in> set ts. CHR ''@'' \<notin> set t" "set_clause ts = Some r"
  shows "\<exists>e. r = Inl e"
proof -
  obtain f rest where f: "field_at ts = Some (f, rest)" using assms(2) by (auto simp: set_clause_def split: option.splits)
  then have "set rest \<subseteq> set ts" using field_at_rest by (force simp: strict_suffix_def suffix_def)
  then have free: "set xs \<subseteq> set rest \<Longrightarrow> \<forall>t \<in> set xs. CHR ''@'' \<notin> set t" for xs using assms(1) by blast
  show ?thesis
  proof (cases "tok 0 rest = Some ''.''")
    case True
    have "\<exists>e. concat_clause f rest = Inl e"
    proof (cases "concat_fields rest")
      case (Inr q)
      then obtain fs r' where q: "concat_fields rest = Inr (fs, r')" by (cases q) auto
      have "set r' \<subseteq> set rest" using concat_fields_rest [OF q] by (auto simp: suffix_def)
      note ref = no_set_ref [OF free [OF this]]
      have "set_ref [] = Inr None" by (simp add: set_ref_def)
      with q ref show ?thesis by (cases "tok (if neg_at r' then 1 else 0) r'") (simp_all add: concat_clause_def Let_def)
    qed (simp add: concat_clause_def)
    then show ?thesis using assms(2) f True by (simp add: set_clause_def)
  next
    case False
    then show ?thesis using assms(2) f no_set_ref [OF free [OF subset_refl]]
      by (auto simp: set_clause_def Let_def split: option.splits sum.splits)
  qed
qed

lemma parse_clauses_no_lookup:
  "parse_clauses ts = Inr cs \<Longrightarrow> \<forall>t \<in> set ts. CHR ''@'' \<notin> set t \<Longrightarrow> \<forall>c \<in> set cs. lookup_of c = None"
proof (induction ts arbitrary: cs rule: parse_clauses.induct)
  case (1 ts)
  show ?case
  proof (cases "ts = []")
    case False
    with "1.prems"(1) obtain c rest cs' where c: "parse_clause ts = Inr (c, rest)" "parse_clauses rest = Inr cs'" "cs = c # cs'"
      by (auto simp: parse_clauses.simps [of ts] split: sum.splits)
    have "\<forall>t \<in> set rest. CHR ''@'' \<notin> set t"
      using parse_clause_rest [OF c(1)] "1.prems"(2) by (auto simp: strict_suffix_def suffix_def)
    moreover have "lookup_of c = None"
      using c(1) plain_no_lookup [of ts] no_lookup_set [OF "1.prems"(2)]
      by (auto simp: parse_clause_def all_read_def lookup_of_def split: if_splits option.splits)
    ultimately show ?thesis using "1.IH" [OF False c(1) refl c(2)] c(3) by simp
  qed (use "1.prems" in \<open>simp add: parse_clauses.simps\<close>)
qed

lemma fix_clause_wf: "wf_clause c \<Longrightarrow> wf_clause (fix_clause sets c)"
proof (cases c)
  case (Concat_Set fs neg s)
  have "length (fix_fields ks fs) = length fs" for ks by (induction ks fs rule: fix_fields.induct) auto
  with Concat_Set show "wf_clause c \<Longrightarrow> ?thesis" by (auto split: option.splits)
qed simp_all

lemma fix_clause_no_lookup: "lookup_of c = None \<Longrightarrow> fix_clause sets c = c"
  by (cases c) (simp_all add: lookup_of_def)

lemma normalized_parses:
  assumes "parse_match e = Inr cs"
  shows "parse_match (normalize_set_families e sets) = Inr (map (fix_clause sets) cs)"
proof (cases "CHR ''@'' \<in> set e")
  case True
  have "list_all wf_clause (map (fix_clause sets) cs)"
    using parse_match_wf [OF assms] fix_clause_wf by (auto simp: list_all_iff)
  from parse_written [OF this] show ?thesis using True assms by (simp add: normalize_set_families_def comp_def)
next
  case False
  have "\<forall>t \<in> set (split_whitespace e). CHR ''@'' \<notin> set t"
    using False split_whitespace_ws_free by blast
  then have "\<forall>c \<in> set cs. lookup_of c = None"
    using parse_clauses_no_lookup [of "split_whitespace e"] assms by (simp add: parse_match_def)
  then have "map (fix_clause sets) cs = cs" by (simp add: map_idI fix_clause_no_lookup)
  with False assms show ?thesis by (simp add: normalize_set_families_def)
qed

text \<open>A field suits a key up to the family of an address.\<close>

fun suits :: "fw_field \<Rightarrow> set_key \<Rightarrow> bool" where
  "suits (F_Addr _ _) k \<longleftrightarrow> k = Key_Ipv4 \<or> k = Key_Ipv6"
| "suits (F_Port _ _) k \<longleftrightarrow> k = Key_Port"
| "suits F_Mark k \<longleftrightarrow> k = Key_Mark"

lemma fix_field_key: "field_key (fix_field (Some k) f) = k \<longleftrightarrow> suits f k"
  by (cases f; cases k) (auto simp: fix_field_def)

lemma fix_fields_keys: "ks = map field_key (fix_fields ks fs) \<longleftrightarrow> list_all2 suits fs ks"
proof (induction ks fs rule: fix_fields.induct)
  case (1 k ks f fs)
  then show ?case using fix_field_key [of k f] by auto
qed auto


lemma lookup_checked:
  assumes "lookup_of c = Some (flds, s)"
  shows "check_set_ref sets (fix_clause sets c) = None \<longleftrightarrow> (\<exists>d. bm_get sets s = Some d \<and> list_all2 suits flds (fs_key d))"
proof (cases "bm_get sets s")
  case None
  then show ?thesis using assms by (cases c) (auto simp: check_set_ref_def lookup_of_def)
next
  case (Some d)
  show ?thesis
  proof (cases c)
    case (In_Set f neg s')
    then show ?thesis using assms Some fix_field_key [of _ f]
      by (cases "fs_key d") (auto simp: check_set_ref_def lookup_of_def first_key_def list_all2_Cons1 eq_commute [of _ "field_key _"])
  next
    case (Concat_Set fs neg s')
    then show ?thesis using assms Some fix_fields_keys by (auto simp: check_set_ref_def lookup_of_def)
  qed (use assms in \<open>simp_all add: lookup_of_def\<close>)
qed

subsection \<open>Properties\<close>

text \<open>C20.
  The stored text of a firewall match reads back: the clauses that \<open>parse_match\<close> read from any text, written
  with \<open>to_match\<close> and joined with blanks, are read as the same clauses, so writing and reading a match
  again changes nothing.
\<close>

theorem match_roundtrip:
  assumes "parse_match e = Inr cs"
  shows "parse_match (join_str '' '' (map to_match cs)) = Inr cs"
  using parse_match_wf [OF assms] by (rule parse_written)

lemma match_roundtrip_witness:
  "parse_match ''ip6 saddr . tcp dport != @web  tcp flags syn,ack / syn,ack,rst mark 0x10/0xf0'' =
     Inr [Concat_Set [F_Addr True True, F_Port True True] True ''web'', Tcp_Flags False [''syn'', ''ack''] (Some [''syn'', ''ack'', ''rst'']),
          Mark_Clause Cmp_Equal 16 (Some 240) ''0x10/0xf0''] \<and>
   parse_match (join_str '' '' (map to_match [Concat_Set [F_Addr True True, F_Port True True] True ''web'',
     Tcp_Flags False [''syn'', ''ack''] (Some [''syn'', ''ack'', ''rst'']), Mark_Clause Cmp_Equal 16 (Some 240) ''0x10/0xf0''])) =
     Inr [Concat_Set [F_Addr True True, F_Port True True] True ''web'', Tcp_Flags False [''syn'', ''ack''] (Some [''syn'', ''ack'', ''rst'']),
          Mark_Clause Cmp_Equal 16 (Some 240) ''0x10/0xf0'']"
proof -
  have "parse_match ''ip6 saddr . tcp dport != @web  tcp flags syn,ack / syn,ack,rst mark 0x10/0xf0'' =
     Inr [Concat_Set [F_Addr True True, F_Port True True] True ''web'', Tcp_Flags False [''syn'', ''ack''] (Some [''syn'', ''ack'', ''rst'']),
          Mark_Clause Cmp_Equal 16 (Some 240) ''0x10/0xf0'']"
    by code_simp
  from this match_roundtrip [OF this] show ?thesis by blast
qed

text \<open>C21.
  \<open>normalize_set_families\<close> gives every address field the family of the set it is looked up in and changes
  nothing else: the rewritten match reads as the old clauses with the fields fixed, and afterwards a lookup
  passes \<open>check_set_refs\<close> exactly when its set is declared and its fields suit the set's keys up to the
  family of the addresses.
\<close>

theorem set_families_normalized:
  assumes "parse_match e = Inr cs"
  shows "parse_match (normalize_set_families e sets) = Inr (map (fix_clause sets) cs) \<and>
    (\<forall>c \<in> set cs. \<forall>flds s. lookup_of c = Some (flds, s) \<longrightarrow>
       (check_set_ref sets (fix_clause sets c) = None \<longleftrightarrow> (\<exists>d. bm_get sets s = Some d \<and> list_all2 suits flds (fs_key d))))"
  using normalized_parses [OF assms] lookup_checked by blast

lemma set_families_normalized_witness:
  defines "sets \<equiv> bm_insert ''bad'' \<lparr>fs_key = [Key_Ipv6], fs_elements = [], fs_size = None, fs_timeout = None, fs_dynamic = False\<rparr> bm_empty"
  shows "parse_match ''ip saddr @bad'' = Inr [In_Set (F_Addr False True) False ''bad''] \<and>
    parse_match (normalize_set_families ''ip saddr @bad'' sets) = Inr [In_Set (F_Addr True True) False ''bad''] \<and>
    check_set_ref sets (In_Set (F_Addr True True) False ''bad'') = None"
proof -
  have p: "parse_match ''ip saddr @bad'' = Inr [In_Set (F_Addr False True) False ''bad'']" by code_simp
  show ?thesis
    using p set_families_normalized [OF p, of sets]
    by (simp add: sets_def first_key_def fix_field_def lookup_of_def)
qed

end
