(* ===== verification/Nll_Refs.thy ===== *)
theory Nll_Refs
  imports Lower_Links Fw_Roundtrip
begin

unbundle bit_operations_syntax

text \<open>
  What follows the lowering of the statements in \<open>parser/nll/lower.rs\<close>: \<open>${node.iface}\<close> references become
  addresses, the \<open>ip\<close>/\<open>ip6\<close> of a firewall match follows the address behind it and the set it looks into,
  and a \<open>translate\<close> rule becomes one \<open>dnat\<close> rule per address of its target range. The warnings about
  references left over (\<open>warn_unresolved_refs\<close>) only log and are not modelled.
\<close>

subsection \<open>The addresses of a lab\<close>

text \<open>\<open>addr.split('/').next()\<close>.\<close>

definition host_part :: "string \<Rightarrow> string" where
  "host_part addr = hd (split_char CHR ''/'' addr)"

definition insert_absent :: "'k :: linorder \<Rightarrow> 'v \<Rightarrow> ('k, 'v) btree_map \<Rightarrow> ('k, 'v) btree_map" where
  "insert_absent k v m = (if bm_contains m k then m else bm_insert k v m)"

definition link_entries :: "link \<Rightarrow> (string \<times> string) list" where
  "link_entries l =
     (case link_addresses l of
        None \<Rightarrow> []
      | Some (a, b) \<Rightarrow> [(fst (link_endpoints l), host_part a), (snd (link_endpoints l), host_part b)])"

definition add_first_address :: "string \<Rightarrow> string list \<Rightarrow> (string, string) btree_map \<Rightarrow> (string, string) btree_map" where
  "add_first_address key addrs m = (case addrs of [] \<Rightarrow> m | a # _ \<Rightarrow> insert_absent key (host_part a) m)"

definition build_address_map :: "topology \<Rightarrow> (string, string) btree_map" where
  "build_address_map t =
     (let links = bm_extend bm_empty (concat (map link_entries (topo_links t)));
          nodes = foldl (\<lambda>m (name, n).
            foldl (\<lambda>m (i, c). add_first_address (endpoint name i) (if_addresses c) m) m (bm_entries (node_interfaces n)))
            links (bm_entries (topo_nodes t))
      in foldl (\<lambda>m nw. foldl (\<lambda>m (ep, p). add_first_address ep (port_addresses p) m) m (bm_entries (network_ports nw)))
           nodes (bm_values (topo_networks t)))"

subsection \<open>References\<close>

text \<open>The rest of the text is searched from behind the \<open>${\<close> of a reference that stays, or from behind the
  address that replaced one.\<close>

function resolve_ref :: "string \<Rightarrow> (string, string) btree_map \<Rightarrow> string" where
  "resolve_ref s m =
     (case split_once_str ''${'' s of
        None \<Rightarrow> s
      | Some (before, rest) \<Rightarrow>
          (case split_once CHR ''}'' rest of
             None \<Rightarrow> before @ ''${'' @ resolve_ref rest m
           | Some (expr, after) \<Rightarrow>
               (case Option.bind (split_once CHR ''.'' expr) (\<lambda>(node, iface). bm_get m (endpoint node iface)) of
                  Some addr \<Rightarrow> before @ addr @ resolve_ref after m
                | None \<Rightarrow> before @ ''${'' @ resolve_ref rest m)))"
  by pat_completeness auto
termination
  by (relation "measure (\<lambda>(s, m). length s)") (auto dest!: split_once_str_length split_once_Some)

declare resolve_ref.simps [simp del]

text \<open>The \<open>ip\<close> or \<open>ip6\<close> before \<open>saddr\<close>/\<open>daddr\<close> and an address follows the address.\<close>

function fix_family :: "string list \<Rightarrow> string list" where
  "fix_family ts =
     (case ts of
        [] \<Rightarrow> []
      | t # rest \<Rightarrow>
          let k = (if tok 2 ts = Some ''!='' then 3 else 2) in
          (case (if t \<in> {''ip'', ''ip6''} \<and> k < length ts \<and> ts ! 1 \<in> {''saddr'', ''daddr''} then parse_ip_or_cidr (ts ! k) else Inl Bad_Address) of
             Inr (ip, _) \<Rightarrow> (if is_ipv4 ip then ''ip'' else ''ip6'') # take k rest @ fix_family (drop (Suc k) ts)
           | Inl _ \<Rightarrow> t # fix_family rest))"
  by pat_completeness auto
termination
  by (relation "measure length") auto

declare fix_family.simps [simp del]

definition normalize_match_family :: "string \<Rightarrow> string" where
  "normalize_match_family expr = join_str '' '' (fix_family (split_whitespace expr))"

text \<open>\<open>all_rules_mut\<close>: every rule of the three chains.\<close>

definition map_rules :: "(firewall_rule \<Rightarrow> firewall_rule) \<Rightarrow> firewall_config \<Rightarrow> firewall_config" where
  "map_rules f fw =
     fw\<lparr>fw_rules := map f (fw_rules fw),
        fw_forward := map_option (\<lambda>c. c\<lparr>fc_rules := map f (fc_rules c)\<rparr>) (fw_forward fw),
        fw_output := map_option (\<lambda>c. c\<lparr>fc_rules := map f (fc_rules c)\<rparr>) (fw_output fw)\<rparr>"

definition map_match :: "(string \<Rightarrow> string) \<Rightarrow> firewall_rule \<Rightarrow> firewall_rule" where
  "map_match f r = r\<lparr>fr_match_expr := map_option f (fr_match_expr r)\<rparr>"

definition resolve_node_refs :: "(string, string) btree_map \<Rightarrow> node \<Rightarrow> node" where
  "resolve_node_refs m n =
     n\<lparr>node_routes := bm_map (\<lambda>_ r. r\<lparr>route_via := map_option (\<lambda>v. resolve_ref v m) (route_via r)\<rparr>) (node_routes n),
       node_wireguard := bm_map (\<lambda>_ wg. wg\<lparr>wg_peer_settings :=
          bm_map (\<lambda>_ p. p\<lparr>wgp_endpoint := map_option (\<lambda>e. resolve_ref e m) (wgp_endpoint p)\<rparr>) (wg_peer_settings wg)\<rparr>) (node_wireguard n),
       node_firewall := map_option (\<lambda>fw.
          (map_rules (map_match (\<lambda>e. normalize_match_family (resolve_ref e m))) fw)
            \<lparr>fw_sets := bm_map (\<lambda>_ s. s\<lparr>fs_elements := map (\<lambda>e. resolve_ref e m) (fs_elements s)\<rparr>) (fw_sets fw)\<rparr>) (node_firewall n)\<rparr>"

definition resolve_cross_refs :: "topology \<Rightarrow> topology" where
  "resolve_cross_refs t =
     (let m = build_address_map t in
      if bm_entries m = [] then t
      else t\<lparr>topo_nodes := bm_map (\<lambda>_. resolve_node_refs m) (topo_nodes t)\<rparr>)"

definition fix_sets :: "firewall_config \<Rightarrow> firewall_config" where
  "fix_sets fw = map_rules (map_match (\<lambda>e. normalize_set_families e (fw_sets fw))) fw"

definition normalize_topology_sets :: "topology \<Rightarrow> topology" where
  "normalize_topology_sets t =
     t\<lparr>topo_nodes := bm_map (\<lambda>_ n. n\<lparr>node_firewall := map_option fix_sets (node_firewall n)\<rparr>) (topo_nodes t),
       topo_profiles := bm_map (\<lambda>_ p. p\<lparr>profile_firewall := map_option fix_sets (profile_firewall p)\<rparr>) (topo_profiles t)\<rparr>"

subsection \<open>Translate rules\<close>

definition assigned_addresses :: "topology \<Rightarrow> ip_addr list" where
  "assigned_addresses t =
     List.map_filter (\<lambda>a. parse_ip (host_part a))
       (concat (map (\<lambda>l. case link_addresses l of None \<Rightarrow> [] | Some (a, b) \<Rightarrow> [a, b]) (topo_links t)) @
        concat (map (\<lambda>n. concat (map if_addresses (bm_values (node_interfaces n)))) (bm_values (topo_nodes t))))"

definition translate_mask :: "nat \<Rightarrow> nat \<Rightarrow> 128 word" where
  "translate_mask bits p =
     (if p = 0 then 0
      else let m = push_bit (bits - p) (- 1) in if bits = 32 then m AND u32_max else m)"

definition map_translate_address :: "ip_addr \<Rightarrow> nat \<Rightarrow> ip_addr \<Rightarrow> nat \<Rightarrow> ip_addr" where
  "map_translate_address addr dst_prefix src_net src_prefix =
     (let bits = addr_bits addr;
          host_bits = ip_to_bits addr AND NOT (translate_mask bits dst_prefix);
          src_masked = ip_to_bits src_net AND translate_mask bits src_prefix
      in ip_from_bits bits (src_masked OR host_bits))"

definition dnat_rule :: "string \<Rightarrow> string \<Rightarrow> nat_rule" where
  "dnat_rule dst target =
     \<lparr>nr_action = Dnat, nr_src = None, nr_dst = Some dst, nr_target = Some target, nr_target_port = None, nr_proto = None,
      nr_dport = None, nr_iif = None, nr_oif = None, nr_target_end = None, nr_target_port_end = None, nr_flags = []\<rparr>"

definition translate_cidr :: "string \<Rightarrow> string \<Rightarrow> (lower_error, ip_addr \<times> nat) result" where
  "translate_cidr name v = (case parse_cidr v of Inl _ \<Rightarrow> Inl (Translate_Cidr name v) | Inr x \<Rightarrow> Inr x)"

definition translate_rule :: "ip_addr list \<Rightarrow> string \<Rightarrow> nat_rule \<Rightarrow> (lower_error, nat_rule list) result" where
  "translate_rule assigned name r =
     (if nr_action r \<noteq> Translate then Inr [r]
      else (case (nr_src r, nr_target r) of
              (Some src, Some dst) \<Rightarrow>
                and_then (translate_cidr name src) (\<lambda>(src_net, src_prefix).
                and_then (translate_cidr name dst) (\<lambda>(dst_net, dst_prefix).
                  if is_ipv4 src_net \<noteq> is_ipv4 dst_net then Inl (Translate_Families name)
                  else Inr (map (\<lambda>a. dnat_rule (show_cidr (map_translate_address a dst_prefix src_net src_prefix) (addr_bits dst_net)) (show_ip a))
                              (filter (\<lambda>a. ip_in_subnet a dst_net dst_prefix) assigned))))
            | _ \<Rightarrow> Inl (Translate_Ranges name)))"

definition translate_node :: "ip_addr list \<Rightarrow> string \<Rightarrow> node \<Rightarrow> (lower_error, node) result" where
  "translate_node assigned name n =
     (case node_nat n of
        None \<Rightarrow> Inr n
      | Some cfg \<Rightarrow>
          if \<forall>r \<in> set (nat_rules cfg). nr_action r \<noteq> Translate then Inr n
          else and_then (traverse (translate_rule assigned name) (nat_rules cfg)) (\<lambda>rs.
            Inr (n\<lparr>node_nat := Some (cfg\<lparr>nat_rules := concat rs\<rparr>)\<rparr>)))"

definition expand_translate_rules :: "topology \<Rightarrow> (lower_error, topology) result" where
  "expand_translate_rules t =
     and_then (traverse (\<lambda>(name, n). and_then (translate_node (assigned_addresses t) name n) (\<lambda>n'. Inr (name, n'))) (bm_entries (topo_nodes t)))
       (\<lambda>ns. Inr (t\<lparr>topo_nodes := bm_of_list ns\<rparr>))"

definition post_passes :: "topology \<Rightarrow> (lower_error, topology) result" where
  "post_passes t = expand_translate_rules (normalize_topology_sets (resolve_cross_refs t))"


subsection \<open>The mapped address\<close>

text \<open>The network bits of the source range over the host bits of the address.\<close>

lemma u32_max_mask: "u32_max = mask 32"
  by (simp add: u32_max_def mask_eq_exp_minus_1)

lemma translate_mask_and:
  fixes w :: "128 word"
  assumes "bits = 32 \<and> unat w < 2 ^ 32 \<or> bits = 128" "p \<le> bits"
  shows "w AND translate_mask bits p = w AND NOT (mask (bits - p))" "w AND NOT (translate_mask bits p) = w AND mask (bits - p)"
proof -
  have high: "\<not> bit w n" if "bits = 32" "32 \<le> n" for n
  proof -
    have "unat w < 2 ^ 32" using assms(1) that(1) by auto
    then have "w = take_bit 32 w" by (simp add: word_unat_eq_iff unsigned_take_bit_eq take_bit_nat_eq_self)
    then have "bit w n = bit (take_bit 32 w) n" by (rule arg_cong)
    then show ?thesis using that(2) by (simp add: bit_take_bit_iff)
  qed
  have m: "bit (translate_mask bits p) n \<longleftrightarrow> bits - p \<le> n \<and> n < 128 \<and> p \<noteq> 0 \<and> (bits = 32 \<longrightarrow> n < 32)" for n
    by (auto simp: translate_mask_def u32_max_mask Let_def bit_simps)
  have lim: "n < bits \<Longrightarrow> n < 128" for n using assms(1) by auto
  show "w AND translate_mask bits p = w AND NOT (mask (bits - p))"
  proof (rule bit_word_eqI)
    fix n assume n: "n < LENGTH(128)"
    show "bit (w AND translate_mask bits p) n = bit (w AND NOT (mask (bits - p))) n"
      using n high [of n] assms m [of n] by (auto simp: bit_simps)
  qed
  show "w AND NOT (translate_mask bits p) = w AND mask (bits - p)"
  proof (rule bit_word_eqI)
    fix n assume n: "n < LENGTH(128)"
    show "bit (w AND NOT (translate_mask bits p)) n = bit (w AND mask (bits - p)) n"
      using n high [of n] assms m [of n] by (cases "n < 32") (auto simp: bit_simps)
  qed
qed

lemma unat_or_disjoint:
  fixes a b :: "128 word"
  assumes "j \<le> k" "k \<le> 128"
  shows "unat ((a AND NOT (mask k)) OR (b AND mask j)) = unat a div 2 ^ k * 2 ^ k + unat b mod 2 ^ j"
proof -
  have d: "(a AND NOT (mask k)) AND (b AND mask j) = 0"
    using assms by (auto intro!: bit_word_eqI simp: bit_simps)
  have b: "unat (b AND mask j) = unat b mod 2 ^ j"
    by (simp only: take_bit_eq_mask [symmetric] unsigned_take_bit_eq) (simp add: take_bit_eq_mod)
  have "unat (a AND NOT (mask k)) = unat a div 2 ^ k * 2 ^ k" by simp
  moreover have "(a AND NOT (mask k)) OR (b AND mask j) = (a AND NOT (mask k)) + (b AND mask j)"
    using disjunctive_add_eq_or [OF d] by simp
  moreover have "unat a div 2 ^ k * 2 ^ k + unat b mod 2 ^ j < 2 ^ 128"
  proof -
    have "unat b mod 2 ^ j < 2 ^ k" using assms(1) by (metis mod_less_divisor order_less_le_trans pos2 power_increasing zero_less_power one_le_numeral)
    moreover have "(unat a div 2 ^ k + 1) * 2 ^ k \<le> 2 ^ 128"
    proof -
      have "unat a < 2 ^ (128 - k) * 2 ^ k" using assms(2) unsigned_less [of a, where 'a = nat] by (simp add: power_add [symmetric])
      then have "unat a div 2 ^ k < 2 ^ (128 - k)" by (simp add: less_mult_imp_div_less)
      then have "(unat a div 2 ^ k + 1) * 2 ^ k \<le> 2 ^ (128 - k) * 2 ^ k" by (intro mult_le_mono1) simp
      then show ?thesis using assms(2) by (simp add: power_add [symmetric])
    qed
    ultimately show ?thesis by (simp add: algebra_simps)
  qed
  ultimately have "unat (a AND NOT (mask k)) + unat (b AND mask j) < 2 ^ LENGTH(128)" using b by simp
  from iffD1 [OF unat_add_lem this] show ?thesis using b by (simp add: disjunctive_add_eq_or [OF d, symmetric])
qed


lemma map_translate_num:
  assumes "is_ipv4 a = is_ipv4 sn" "sp \<le> dp" "dp \<le> addr_bits a"
  defines "b \<equiv> addr_bits a"
  shows "is_ipv4 (map_translate_address a dp sn sp) = is_ipv4 a"
    "ip_num (map_translate_address a dp sn sp) = ip_num sn div 2 ^ (b - sp) * 2 ^ (b - sp) + ip_num a mod 2 ^ (b - dp)"
proof -
  have b: "addr_bits sn = b" using assms(1) by (simp add: b_def addr_bits_def)
  have w: "b = 32 \<and> unat (ip_to_bits x) < 2 ^ 32 \<or> b = 128" if "addr_bits x = b" for x
    using that ip_num_bound [of x] by (auto simp: ip_num_def addr_bits_def split: if_splits)
  let ?v = "(ip_to_bits sn AND translate_mask b sp) OR (ip_to_bits a AND NOT (translate_mask b dp))"
  have v: "?v = (ip_to_bits sn AND NOT (mask (b - sp))) OR (ip_to_bits a AND mask (b - dp))"
    using translate_mask_and(1) [OF w [OF b], of sp] translate_mask_and(2) [OF w [of a], of dp] assms(2,3) by (simp add: b_def)
  have "b - sp \<le> 128" using addr_bits_le [of a] by (simp add: b_def)
  then have n: "unat ?v = ip_num sn div 2 ^ (b - sp) * 2 ^ (b - sp) + ip_num a mod 2 ^ (b - dp)"
    unfolding v ip_num_def using assms(2) by (intro unat_or_disjoint) simp_all
  have "ip_num sn div 2 ^ (b - sp) * 2 ^ (b - sp) + ip_num a mod 2 ^ (b - dp) < 2 ^ b"
  proof -
    have "ip_num a mod 2 ^ (b - dp) < 2 ^ (b - sp)" using assms(2)
      by (metis diff_le_mono2 mod_less_divisor order_less_le_trans pos2 power_increasing zero_less_power one_le_numeral)
    moreover have "ip_num sn div 2 ^ (b - sp) < 2 ^ sp"
      using ip_num_bound [of sn] assms(2,3) by (simp add: b less_mult_imp_div_less power_add [symmetric] b_def [symmetric])
    then have "(ip_num sn div 2 ^ (b - sp) + 1) * 2 ^ (b - sp) \<le> 2 ^ sp * 2 ^ (b - sp)" by (intro mult_le_mono1) simp
    moreover have "(2 :: nat) ^ sp * 2 ^ (b - sp) = 2 ^ b" using assms(2,3) by (simp add: power_add [symmetric] b_def)
    ultimately show ?thesis by (simp add: algebra_simps)
  qed
  then have "b = 32 \<and> unat ?v < 2 ^ 32 \<or> b = 128" unfolding n using b_def by (auto simp: addr_bits_def split: if_splits)
  from ip_from_bits_num [OF this] show "is_ipv4 (map_translate_address a dp sn sp) = is_ipv4 a"
    "ip_num (map_translate_address a dp sn sp) = ip_num sn div 2 ^ (b - sp) * 2 ^ (b - sp) + ip_num a mod 2 ^ (b - dp)"
    unfolding n by (auto simp: map_translate_address_def Let_def b_def addr_bits_def)
qed

lemma map_translate_in_block:
  assumes "is_ipv4 a = is_ipv4 sn" "sp \<le> dp" "dp \<le> addr_bits a"
  shows "ip_in_subnet (map_translate_address a dp sn sp) sn sp"
    "ip_num (map_translate_address a dp sn sp) mod 2 ^ (addr_bits a - dp) = ip_num a mod 2 ^ (addr_bits a - dp)"
proof -
  let ?b = "addr_bits a"
  note n = map_translate_num [OF assms]
  have b: "addr_bits sn = ?b" using assms(1) by (simp add: addr_bits_def)
  have lt: "ip_num a mod 2 ^ (?b - dp) < 2 ^ (?b - sp)" using assms(2)
    by (metis diff_le_mono2 mod_less_divisor order_less_le_trans pos2 power_increasing zero_less_power one_le_numeral)
  have "ip_num (map_translate_address a dp sn sp) div 2 ^ (?b - sp) = ip_num sn div 2 ^ (?b - sp)"
    unfolding n(2) using lt by simp
  then show "ip_in_subnet (map_translate_address a dp sn sp) sn sp"
    using n(1) assms by (subst ip_in_subnet_iff) (simp_all add: b)
  have "(2 :: nat) ^ (?b - dp) dvd 2 ^ (?b - sp)" using assms(2) by (intro le_imp_power_dvd) simp
  then have "ip_num sn div 2 ^ (?b - sp) * 2 ^ (?b - sp) mod 2 ^ (?b - dp) = 0" by (simp add: dvd_mult)
  then show "ip_num (map_translate_address a dp sn sp) mod 2 ^ (?b - dp) = ip_num a mod 2 ^ (?b - dp)"
    unfolding n(2) by (metis add_0 mod_add_left_eq mod_mod_trivial)
qed

subsection \<open>Families\<close>

definition FAMILIES :: "string set" where "FAMILIES = {''ip'', ''ip6''}"

text \<open>A match of an address that starts here and has the wrong family.\<close>

definition operand_at :: "string list \<Rightarrow> string option" where
  "operand_at ts = tok (if tok 2 ts = Some ''!='' then 3 else 2) ts"

definition mismatch :: "string list \<Rightarrow> bool" where
  "mismatch ts \<longleftrightarrow>
     (tok 0 ts = Some ''ip'' \<or> tok 0 ts = Some ''ip6'') \<and> (tok 1 ts = Some ''saddr'' \<or> tok 1 ts = Some ''daddr'') \<and>
     (\<exists>t ip p. operand_at ts = Some t \<and> parse_ip_or_cidr t = Inr (ip, p) \<and> is_ipv4 ip = (tok 0 ts = Some ''ip6''))"

lemma keyword_no_addr: "\<exists>e. parse_ip_or_cidr ''ip'' = Inl e" "\<exists>e. parse_ip_or_cidr ''ip6'' = Inl e"
proof -
  have "parse_ip_or_cidr ''ip'' = Inl Bad_Address" "parse_ip_or_cidr ''ip6'' = Inl Bad_Address" by code_simp+
  then show "\<exists>e. parse_ip_or_cidr ''ip'' = Inl e" "\<exists>e. parse_ip_or_cidr ''ip6'' = Inl e" by blast+
qed

definition same_word :: "string \<Rightarrow> string \<Rightarrow> bool" where
  "same_word a b \<longleftrightarrow> a = b \<or> a \<in> FAMILIES \<and> b \<in> FAMILIES"

lemma same_word_refl: "list_all2 same_word ts ts"
  by (simp add: list_all2_refl same_word_def)

lemma fix_family_cases:
  obtains (nil) "ts = []" "fix_family ts = []"
  | (fixed) t rest k ip p where "ts = t # rest" "k = (if tok 2 ts = Some ''!='' then 3 else 2)" "t \<in> FAMILIES" "k < length ts"
      "ts ! 1 \<in> {''saddr'', ''daddr''}" "parse_ip_or_cidr (ts ! k) = Inr (ip, p)"
      "fix_family ts = (if is_ipv4 ip then ''ip'' else ''ip6'') # take k rest @ fix_family (drop (Suc k) ts)"
  | (kept) t rest k where "ts = t # rest" "k = (if tok 2 ts = Some ''!='' then 3 else 2)" "fix_family ts = t # fix_family rest"
      "t \<in> FAMILIES \<Longrightarrow> k < length ts \<Longrightarrow> ts ! 1 \<in> {''saddr'', ''daddr''} \<Longrightarrow> \<exists>e. parse_ip_or_cidr (ts ! k) = Inl e"
proof (cases ts)
  case Nil
  then show ?thesis using nil by (simp add: fix_family.simps)
next
  case (Cons t rest)
  define k where "k = (if tok 2 ts = Some ''!='' then 3 else 2 :: nat)"
  define r where "r = (if t \<in> {''ip'', ''ip6''} \<and> k < length ts \<and> ts ! 1 \<in> {''saddr'', ''daddr''} then parse_ip_or_cidr (ts ! k) else Inl Bad_Address)"
  have f: "fix_family ts = (case r of Inr (ip, _) \<Rightarrow> (if is_ipv4 ip then ''ip'' else ''ip6'') # take k rest @ fix_family (drop (Suc k) ts)
      | Inl _ \<Rightarrow> t # fix_family rest)"
    using Cons by (subst fix_family.simps) (simp only: list.case Let_def k_def r_def)
  show ?thesis
  proof (cases r)
    case (Inl e)
    have "\<exists>e. parse_ip_or_cidr (ts ! k) = Inl e" if "t \<in> FAMILIES" "k < length ts" "ts ! 1 \<in> {''saddr'', ''daddr''}"
      using that Inl unfolding r_def FAMILIES_def by auto
    then show ?thesis using kept [OF Cons k_def] f Inl by simp
  next
    case (Inr q)
    then obtain ip p where q: "q = (ip, p)" by (cases q)
    have "t \<in> FAMILIES \<and> k < length ts \<and> ts ! 1 \<in> {''saddr'', ''daddr''} \<and> parse_ip_or_cidr (ts ! k) = Inr (ip, p)"
      using Inr q unfolding r_def FAMILIES_def by (metis Inl_Inr_False)
    then show ?thesis using fixed [OF Cons k_def] f Inr q by simp
  qed
qed


lemma fix_family_words: "list_all2 same_word (fix_family ts) ts"
proof (induction ts rule: length_induct)
  case (1 ts)
  show ?case
  proof (cases ts rule: fix_family_cases)
    case (fixed t rest k ip p)
    have "list_all2 same_word (take k rest @ fix_family (drop (Suc k) ts)) (take k rest @ drop (Suc k) ts)"
      using 1 fixed(1) by (intro list_all2_appendI same_word_refl) auto
    moreover have "take k rest @ drop (Suc k) ts = rest" using fixed(1) by simp
    moreover have "same_word (if is_ipv4 ip then ''ip'' else ''ip6'') t" using fixed(3) by (simp add: same_word_def FAMILIES_def)
    ultimately show ?thesis using fixed(1,7) by simp
  next
    case (kept t rest k)
    then show ?thesis using 1 by (simp add: same_word_def)
  qed simp
qed

lemma same_word_tok: "list_all2 same_word xs ys \<Longrightarrow> tok k xs = Some w \<Longrightarrow> w \<notin> FAMILIES \<Longrightarrow> tok k ys = Some w"
  by (auto simp: tok_def same_word_def list_all2_conv_all_nth split: if_splits)

lemma same_word_tok_iff: "list_all2 same_word xs ys \<Longrightarrow> w \<notin> FAMILIES \<Longrightarrow> tok k xs = Some w \<longleftrightarrow> tok k ys = Some w"
  by (auto simp: tok_def same_word_def list_all2_conv_all_nth split: if_splits)

text \<open>Nothing that starts inside a rewritten match reads as another match.\<close>

lemma mismatch_hd: "mismatch ts \<Longrightarrow> \<exists>t rest. ts = t # rest \<and> t \<in> FAMILIES"
  by (cases ts) (auto simp: mismatch_def FAMILIES_def)

lemma suffix_Cons_cases: "suffix s (x # xs) \<Longrightarrow> s = x # xs \<or> suffix s xs"
  by (auto simp: suffix_Cons)

lemma fix_family_agrees: "suffix s (fix_family ts) \<Longrightarrow> \<not> mismatch s"
proof (induction ts arbitrary: s rule: length_induct)
  case (1 ts)
  show ?case
  proof (cases ts rule: fix_family_cases)
    case nil
    then show ?thesis using 1(2) by (simp add: mismatch_def)
  next
    case (fixed t rest k ip p)
    let ?w = "if is_ipv4 ip then ''ip'' else ''ip6''" and ?tail = "fix_family (drop (Suc k) ts)"
    from 1(2) have "s = ?w # take k rest @ ?tail \<or> suffix s (take k rest @ ?tail)"
      unfolding fixed(7) by (rule suffix_Cons_cases)
    then show ?thesis
    proof
      assume s: "s = ?w # take k rest @ ?tail"
      have k: "k = 2 \<or> k = 3" using fixed(2) by simp
      have "list_all2 same_word s ts" using fix_family_words [of ts] fixed(7) s by simp
      then have "tok 2 s = Some ''!='' \<longleftrightarrow> tok 2 ts = Some ''!=''" by (rule same_word_tok_iff) (simp add: FAMILIES_def)
      then have "operand_at s = tok k s" using fixed(2) by (simp add: operand_at_def)
      also have "\<dots> = Some (ts ! k)" using s k fixed(1,4) by (auto simp: tok_def nth_append nth_Cons')
      finally show "\<not> mismatch s" using s fixed(6) by (auto simp: mismatch_def)
    next
      assume "suffix s (take k rest @ ?tail)"
      then consider "suffix s ?tail" | u where "s = u @ ?tail" "suffix u (take k rest)" "u \<noteq> []"
        unfolding suffix_append by (metis append_Nil suffix_order.refl)
      then show "\<not> mismatch s"
      proof cases
        case 1
        have "length (drop (Suc k) ts) < length ts" using fixed(1) by simp
        with "1.IH" 1 show ?thesis by blast
      next
        case 2
        then have "hd u \<in> set (take k rest)" by (auto simp: suffix_def)
        moreover have "set (take k rest) \<inter> FAMILIES = {}"
        proof -
          have "x \<notin> FAMILIES" if x: "x \<in> set (take k rest)" for x
          proof -
            from x obtain i where i: "i < k" "x = ts ! Suc i" using fixed(1,4) by (auto simp: in_set_conv_nth)
            have k: "k = 2 \<or> k = 3 \<and> tok 2 ts = Some ''!=''" using fixed(2) by simp
            have "Suc i = k \<or> Suc i = 1 \<or> (k = 3 \<and> Suc i = 2)" using i(1) k by linarith
            then consider "x = ts ! k" | "x = ts ! 1" | "x = ''!=''"
              using i(2) k fixed(4) by (auto simp: tok_def numeral_2_eq_2)
            then show ?thesis
            proof cases
              case 1
              then show ?thesis using fixed(6) keyword_no_addr by (auto simp: FAMILIES_def)
            qed (use fixed(5) in \<open>auto simp: FAMILIES_def\<close>)
          qed
          then show ?thesis by blast
        qed
        ultimately have "hd s \<notin> FAMILIES" using 2 by (cases u) auto
        then show ?thesis using mismatch_hd [of s] by auto
      qed
    qed
  next
    case (kept t rest k)
    from 1(2) have "s = t # fix_family rest \<or> suffix s (fix_family rest)"
      unfolding kept(3) by (rule suffix_Cons_cases)
    then show ?thesis
    proof
      assume s: "s = t # fix_family rest"
      show "\<not> mismatch s"
      proof
        assume m: "mismatch s"
        have same: "list_all2 same_word s ts" using fix_family_words [of ts] kept(3) s by simp
        obtain x ip p where x: "operand_at s = Some x" "parse_ip_or_cidr x = Inr (ip, p)" using m by (auto simp: mismatch_def)
        have "tok 2 s = Some ''!='' \<longleftrightarrow> tok 2 ts = Some ''!=''" by (rule same_word_tok_iff [OF same]) (simp add: FAMILIES_def)
        then have "tok k s = Some x" using x(1) kept(2) by (simp add: operand_at_def)
        moreover have "x \<notin> FAMILIES" using x(2) keyword_no_addr by (auto simp: FAMILIES_def)
        ultimately have "tok k ts = Some x" by (rule same_word_tok [OF same])
        moreover have "tok 1 ts = Some ''saddr'' \<or> tok 1 ts = Some ''daddr''"
          using m same_word_tok [OF same, of 1] by (auto simp: mismatch_def FAMILIES_def)
        moreover have "t \<in> FAMILIES" using mismatch_hd [OF m] s by auto
        ultimately show False using kept(4) x(2) by (auto simp: tok_def split: if_splits)
      qed
    next
      assume "suffix s (fix_family rest)"
      moreover have "length rest < length ts" using kept(1) by simp
      ultimately show ?thesis using "1.IH" by blast
    qed
  qed
qed


text \<open>The reader complains about a family only where a mismatch starts.\<close>

definition wrong_family :: "(fw_error, 'a) result \<Rightarrow> bool" where
  "wrong_family r \<longleftrightarrow> (\<exists>v. r = Inl (Wrong_Family v))"

lemma wrong_family_simps [simp]:
  "wrong_family (Inr x) = False" "wrong_family (ok_or y (Bad_Number v)) = False" "wrong_family (ok_or y (Unknown_Name v)) = False"
  "wrong_family (ok_or y (Needs_Value v)) = False" "wrong_family (ok_or z (Bad_Port v)) = False"
  "wrong_family (unordered op) = False" "wrong_family (Inl (Unsupported v)) = False" "wrong_family (tok_operand k ts) = False"
  by (auto simp: wrong_family_def ok_or_def unordered_def tok_operand_def split: option.splits if_splits)

lemma wrong_family_then: "wrong_family (and_then r f) \<longleftrightarrow> wrong_family r \<or> (\<exists>a. r = Inr a \<and> wrong_family (f a))"
  by (cases r) (auto simp: wrong_family_def)

lemma wrong_family_traverse: "wrong_family (traverse f xs) \<Longrightarrow> \<exists>x \<in> set xs. wrong_family (f x)"
  by (induction xs) (auto simp: wrong_family_then)

lemma wrong_family_names [simp]: "wrong_family (fw_names_in known v) = False"
  by (auto simp: fw_names_in_def Let_def wrong_family_def split: if_splits dest!: wrong_family_traverse [unfolded wrong_family_def, OF exI])

lemma wrong_family_at: "wrong_family (at_operand k ts f) \<Longrightarrow> \<exists>v. tok k ts = Some v \<and> wrong_family (f v)"
  by (auto simp: at_operand_def wrong_family_then tok_operand_def)

lemma wrong_family_operand [simp]:
  "wrong_family (port_operand tcp dport op v) = False" "wrong_family (mark_operand op v) = False"
  "wrong_family (direction_operand neg v) = False" "wrong_family (pkttype_operand neg v) = False"
  "wrong_family (iface_operand out neg v) = False" "wrong_family (flags_clause op ts) = False"
  unfolding port_operand_def mark_operand_def direction_operand_def pkttype_operand_def iface_operand_def flags_clause_def fw_mark_def parse_port_def Let_def
  by (auto simp: wrong_family_then split: option.splits if_splits) (auto simp: wrong_family_def)


lemma wrong_family_addr: "wrong_family (addr_operand v6 src neg v) \<Longrightarrow> \<exists>ip p. parse_ip_or_cidr v = Inr (ip, p) \<and> is_ipv4 ip = v6"
  by (auto simp: addr_operand_def wrong_family_def split: sum.splits if_splits)

lemma op_operand: "unordered (op_at 2 ts) = Inr u \<Longrightarrow> tok (after_op 2 (op_at 2 ts)) ts = operand_at ts"
  by (cases "tok 2 ts")
    (auto simp: unordered_def cmp_ordered_def operand_at_def after_op_def op_at_def cmp_parse_def numeral_3_eq_3 numeral_2_eq_2
      split: if_splits)

lemma not_wrong_if: "\<not> wrong_family x \<Longrightarrow> \<not> wrong_family y \<Longrightarrow> \<not> wrong_family (if b then x else y)"
  by simp

lemma not_wrong_then: "\<not> wrong_family r \<Longrightarrow> (\<And>a. \<not> wrong_family (f a)) \<Longrightarrow> \<not> wrong_family (and_then r f)"
  by (simp add: wrong_family_then)

lemma not_wrong_at: "(\<And>v. \<not> wrong_family (f v)) \<Longrightarrow> \<not> wrong_family (at_operand k ts f)"
  using wrong_family_at by blast

lemma wrong_family_plain:
  assumes "wrong_family (plain_clause ts)" "ts \<noteq> []"
  shows "mismatch ts"
proof -
  have hd: "tok 0 ts = Some (hd ts)" using assms(2) by (cases ts) simp_all
  have c: "hd ts \<in> {''ip'', ''ip6''} \<and> tok 1 ts \<in> {Some ''saddr'', Some ''daddr''}"
  proof (rule ccontr)
    assume n: "\<not> (hd ts \<in> {''ip'', ''ip6''} \<and> tok 1 ts \<in> {Some ''saddr'', Some ''daddr''})"
    have "\<not> wrong_family (plain_clause ts)"
      unfolding plain_clause_def Let_def if_not_P [OF n]
      by (intro not_wrong_if not_wrong_then not_wrong_at) (simp_all add: fw_mark_def)
    with assms(1) show False by blast
  qed
  have "wrong_family (and_then (unordered (op_at 2 ts)) (\<lambda>_. at_operand (after_op 2 (op_at 2 ts)) ts
      (addr_operand (hd ts = ''ip6'') (tok 1 ts = Some ''saddr'') (op_at 2 ts = Cmp_Unequal))))"
    using assms(1) unfolding plain_clause_def Let_def if_P [OF c] .
  then obtain u v where u: "unordered (op_at 2 ts) = Inr u" "tok (after_op 2 (op_at 2 ts)) ts = Some v"
    "wrong_family (addr_operand (hd ts = ''ip6'') (tok 1 ts = Some ''saddr'') (op_at 2 ts = Cmp_Unequal) v)"
    by (auto simp: wrong_family_then dest!: wrong_family_at)
  have "operand_at ts = Some v" using op_operand [OF u(1)] u(2) by simp
  then show ?thesis using wrong_family_addr [OF u(3)] c hd by (auto simp: mismatch_def)
qed

lemma wrong_family_set: "set_clause ts = Some r \<Longrightarrow> \<not> wrong_family r"
proof -
  have fields: "\<not> wrong_family (concat_fields xs)" for xs
    by (induction xs rule: concat_fields.induct)
      (subst concat_fields.simps, auto simp: wrong_family_then split: option.splits, simp add: wrong_family_def)
  have ref: "\<not> wrong_family (set_ref x)" for x by (auto simp: wrong_family_def set_ref_def split: option.splits)
  have c: "\<not> wrong_family (concat_clause f xs)" for f xs
    using fields ref by (auto simp: concat_clause_def Let_def wrong_family_then split: option.splits) (simp_all add: wrong_family_def)
  show "set_clause ts = Some r \<Longrightarrow> ?thesis"
    using c ref by (auto simp: set_clause_def Let_def wrong_family_def split: option.splits sum.splits if_splits)
qed

lemma wrong_family_clauses: "wrong_family (parse_clauses ts) \<Longrightarrow> \<exists>s. suffix s ts \<and> mismatch s"
proof (induction ts rule: parse_clauses.induct)
  case (1 ts)
  show ?case
  proof (cases "ts = []")
    case False
    show ?thesis
    proof (cases "parse_clause ts")
      case (Inl e)
      then have "wrong_family (parse_clause ts)"
        using "1.prems" False by (simp add: parse_clauses.simps [of ts] wrong_family_def)
      then have "wrong_family (plain_clause ts)"
        using wrong_family_set by (auto simp: parse_clause_def split: if_splits option.splits)
      then show ?thesis using wrong_family_plain [OF _ False] suffix_order.refl by blast
    next
      case (Inr q)
      then obtain c rest where c: "parse_clause ts = Inr (c, rest)" by (cases q) auto
      then have "wrong_family (parse_clauses rest)"
        using "1.prems" False by (simp add: parse_clauses.simps [of ts] wrong_family_then)
      then obtain s where "suffix s rest" "mismatch s" using "1.IH" [OF False c refl] by blast
      moreover have "suffix rest ts" using parse_clause_rest [OF c] by (simp add: strict_suffix_def)
      ultimately show ?thesis using suffix_order.trans by blast
    qed
  qed (use "1.prems" in \<open>simp add: parse_clauses.simps\<close>)
qed

lemma fix_family_free: "list_all ws_free ts \<Longrightarrow> list_all ws_free (fix_family ts)"
proof -
  assume f: "list_all ws_free ts"
  have "ws_free ''ip''" "ws_free ''ip6''" by (simp_all add: keyword_free KEYWORDS_def)
  then show ?thesis
    using fix_family_words [of ts] f
    by (auto simp: list_all_length list_all2_conv_all_nth same_word_def FAMILIES_def)
qed

lemma normalized_tokens: "parse_match (normalize_match_family e) = parse_clauses (fix_family (split_whitespace e))"
proof -
  have "list_all ws_free (split_whitespace e)" by (auto simp: list_all_iff dest: split_whitespace_ws_free)
  then show ?thesis by (simp add: parse_match_def normalize_match_family_def split_joined fix_family_free)
qed


subsection \<open>Every node's rules\<close>

lemma traverse_member: "traverse f xs = Inr ys \<Longrightarrow> x \<in> set xs \<Longrightarrow> \<exists>y \<in> set ys. f x = Inr y"
  by (induction xs arbitrary: ys) auto

lemma expanded_nodes:
  assumes "expand_translate_rules t = Inr t'"
  shows "bm_get (topo_nodes t') name = Some n' \<longleftrightarrow>
    (\<exists>n. bm_get (topo_nodes t) name = Some n \<and> translate_node (assigned_addresses t) name n = Inr n')"
proof -
  let ?f = "\<lambda>(name, n). and_then (translate_node (assigned_addresses t) name n) (\<lambda>n'. Inr (name, n'))"
  obtain ns where ns: "traverse ?f (bm_entries (topo_nodes t)) = Inr ns" "t' = t\<lparr>topo_nodes := bm_of_list ns\<rparr>"
    using assms by (auto simp: expand_translate_rules_def)
  have all: "list_all2 (\<lambda>x y. ?f x = Inr y) (bm_entries (topo_nodes t)) ns"
    using ns(1) by (simp add: traverse_eq_Inr_iff)
  have "map fst ns = map fst (bm_entries (topo_nodes t))"
    using all by (induction rule: list_all2_induct) auto
  then have dist: "distinct (map fst ns)" by simp
  have "(name, n') \<in> set ns \<longleftrightarrow> (\<exists>n. (name, n) \<in> set (bm_entries (topo_nodes t)) \<and> translate_node (assigned_addresses t) name n = Inr n')"
  proof
    assume "(name, n') \<in> set ns"
    from list_all2_Inr_set [OF all this] show "\<exists>n. (name, n) \<in> set (bm_entries (topo_nodes t)) \<and> translate_node (assigned_addresses t) name n = Inr n'"
      by auto
  next
    assume "\<exists>n. (name, n) \<in> set (bm_entries (topo_nodes t)) \<and> translate_node (assigned_addresses t) name n = Inr n'"
    then obtain i n where i: "i < length (bm_entries (topo_nodes t))" "bm_entries (topo_nodes t) ! i = (name, n)"
      "translate_node (assigned_addresses t) name n = Inr n'" by (auto simp: in_set_conv_nth)
    then have "?f (name, n) = Inr (ns ! i)" using all by (auto simp: list_all2_conv_all_nth)
    then have "ns ! i = (name, n')" using i(3) by simp
    moreover have "i < length ns" using i(1) list_all2_lengthD [OF all] by simp
    ultimately show "(name, n') \<in> set ns" by (metis nth_mem)
  qed
  then show ?thesis using ns(2) dist by (simp add: bm_get_of_list_distinct in_bm_entries map_of_eq_Some_iff)
qed

lemma expanded_result:
  assumes "expand_translate_rules t = Inr t'" "bm_get (topo_nodes t) name = Some n"
  shows "\<exists>n'. translate_node (assigned_addresses t) name n = Inr n'"
proof -
  let ?f = "\<lambda>(name, n). and_then (translate_node (assigned_addresses t) name n) (\<lambda>n'. Inr (name, n'))"
  obtain ns where ns: "traverse ?f (bm_entries (topo_nodes t)) = Inr ns"
    using assms(1) by (auto simp: expand_translate_rules_def)
  have "(name, n) \<in> set (bm_entries (topo_nodes t))" using assms(2) by (simp add: in_bm_entries)
  from traverse_member [OF ns this] obtain y where "?f (name, n) = Inr y" by blast
  then show ?thesis by auto
qed

lemma translate_rule_kinds: "translate_rule as name r = Inr rs \<Longrightarrow> r' \<in> set rs \<Longrightarrow> nr_action r' \<noteq> Translate"
  by (auto simp: translate_rule_def dnat_rule_def split: if_splits option.splits)

lemma translate_node_rules:
  assumes "translate_node as name n = Inr n'" "node_nat n = Some cfg"
  obtains cfg' rs where "node_nat n' = Some cfg'" "nat_rules cfg' = concat rs" "traverse (translate_rule as name) (nat_rules cfg) = Inr rs"
proof (cases "\<forall>r \<in> set (nat_rules cfg). nr_action r \<noteq> Translate")
  case True
  then have "traverse (translate_rule as name) (nat_rules cfg) = Inr (map (\<lambda>r. [r]) (nat_rules cfg))"
    by (intro traverse_Inr) (simp add: translate_rule_def)
  moreover have "concat (map (\<lambda>r. [r]) (nat_rules cfg)) = nat_rules cfg" by (induction "nat_rules cfg") simp_all
  ultimately show ?thesis
    using that [of cfg "map (\<lambda>r. [r]) (nat_rules cfg)"] assms True by (simp add: translate_node_def)
next
  case False
  then obtain rs where rs: "traverse (translate_rule as name) (nat_rules cfg) = Inr rs"
      "n' = n\<lparr>node_nat := Some (cfg\<lparr>nat_rules := concat rs\<rparr>)\<rparr>"
    using assms by (auto simp: translate_node_def split: if_splits)
  then show ?thesis using that [of "cfg\<lparr>nat_rules := concat rs\<rparr>" rs] by simp
qed

lemma no_translate_left:
  assumes "translate_node as name n = Inr n'" "node_nat n' = Some cfg'" "r \<in> set (nat_rules cfg')"
  shows "nr_action r \<noteq> Translate"
proof (cases "node_nat n")
  case None
  then show ?thesis using assms(1,2) by (simp add: translate_node_def)
next
  case (Some cfg)
  obtain c rs where c: "node_nat n' = Some c" "nat_rules c = concat rs" "traverse (translate_rule as name) (nat_rules cfg) = Inr rs"
    using translate_node_rules [OF assms(1) Some] by blast
  then obtain xs where "xs \<in> set rs" "r \<in> set xs" using assms(2,3) by auto
  moreover from traverse_set [OF c(3) this(1)] obtain x where "translate_rule as name x = Inr xs" by blast
  ultimately show ?thesis using translate_rule_kinds by blast
qed


lemma translate_rule_maps:
  assumes "translate_rule as name r = Inr rs" "nr_action r = Translate" "nr_src r = Some s" "nr_target r = Some d"
    "parse_cidr s = Inr (sn, sp)" "parse_cidr d = Inr (dn, dp)" "sp \<le> dp" "a \<in> set as" "ip_in_subnet a dn dp"
  shows "\<exists>m. dnat_rule (show_cidr m (addr_bits m)) (show_ip a) \<in> set rs \<and> ip_in_subnet m sn sp \<and> addr_bits m = addr_bits a \<and>
    ip_num m mod 2 ^ (addr_bits a - dp) = ip_num a mod 2 ^ (addr_bits a - dp)"
proof -
  have fam: "is_ipv4 sn = is_ipv4 dn"
    using assms(1-6) by (auto simp: translate_rule_def translate_cidr_def split: if_splits)
  have a: "is_ipv4 a = is_ipv4 dn" using assms(9) by (cases a; cases dn) simp_all
  then have bits: "addr_bits a = addr_bits dn" by (rule addr_bits_cong)
  have dp: "dp \<le> addr_bits a" using parse_cidr_Inr [OF assms(6)] bits by simp
  let ?m = "map_translate_address a dp sn sp"
  have m: "is_ipv4 ?m = is_ipv4 a" using map_translate_num(1) [OF _ assms(7) dp] fam a by simp
  then have mb: "addr_bits ?m = addr_bits a" by (rule addr_bits_cong)
  have "dnat_rule (show_cidr ?m (addr_bits dn)) (show_ip a) \<in> set rs"
    using assms fam by (auto simp: translate_rule_def translate_cidr_def)
  then show ?thesis using map_translate_in_block [OF _ assms(7) dp, of sn] fam a bits mb by metis
qed

subsection \<open>Properties\<close>

text \<open>C22.
  After \<open>normalize_match_family\<close> the firewall never refuses a match because the family of an address differs
  from its \<open>ip\<close> or \<open>ip6\<close>, whatever text it was given: every place where the reader could take a field
  with its address has been brought to the address's family.
\<close>

theorem families_agree: "parse_match (normalize_match_family e) \<noteq> Inl (Wrong_Family v)"
proof
  assume "parse_match (normalize_match_family e) = Inl (Wrong_Family v)"
  then have "wrong_family (parse_clauses (fix_family (split_whitespace e)))"
    by (simp add: normalized_tokens wrong_family_def)
  then obtain s where "suffix s (fix_family (split_whitespace e))" "mismatch s"
    using wrong_family_clauses by blast
  then show False using fix_family_agrees by blast
qed



text \<open>A gateway that stands for 10.0.0.0/8 before the hosts of one link.\<close>

definition gateway_nat :: nat_rule where
  "gateway_nat = (dnat_rule [] [])\<lparr>nr_action := Translate, nr_src := Some ''10.0.0.0/8'', nr_dst := None, nr_target := Some ''172.16.0.0/16''\<rparr>"

definition gateway_lab :: topology where
  "gateway_lab = topology_default\<lparr>
     topo_nodes := bm_insert ''gw'' (node_default\<lparr>node_nat := Some \<lparr>nat_rules = [gateway_nat]\<rparr>\<rparr>) bm_empty,
     topo_links := [\<lparr>link_endpoints = (''a:e0'', ''b:e0''), link_addresses = Some (''172.16.1.18/24'', ''172.16.1.19/24''), link_mtu = None\<rparr>]\<rparr>"


text \<open>
  When the source range is the smaller one the host bits spill over its prefix: two addresses of the target
  may get the same source address, and one outside the range.
\<close>

lemma translate_spills:
  "map_translate_address (V4 0xAC100501) 16 (V4 0x0A000500) 24 = map_translate_address (V4 0xAC100401) 16 (V4 0x0A000500) 24"
  "\<not> ip_in_subnet (map_translate_address (V4 0xAC100601) 16 (V4 0x0A000500) 24) (V4 0x0A000500) 24"
  by (simp_all add: map_translate_address_def translate_mask_def u32_max_def ip_from_bits_def addr_bits_def Let_def mask_eq_exp_minus_1
      not_eq_complement)

end
