(* ===== verification/Nll_Import.thy ===== *)
theory Nll_Import
  imports Nll_Refs
begin

text \<open>
  Whole files, \<open>parser/nll/lower.rs\<close>: parameters and variables, the declarations of the expanded
  statements, imported modules with the prefix of their alias, the lowering of the statements in order
  and the passes after it. The lexer, the parser and the file system are an argument, \<open>module_files\<close>: what
  \<open>canonicalize\<close> answers, and the parse of the file at each canonical path. Only modules being lowered
  are on the list \<open>visited\<close>, so a file may be imported twice but never by itself.
\<close>

subsection \<open>Parameters\<close>

definition params_of :: "statement list \<Rightarrow> param_def list" where
  "params_of sts = List.map_filter (\<lambda>s. case s of St_Param p \<Rightarrow> Some p | _ \<Rightarrow> None) sts"

text \<open>The first value given under the name of the parameter, else its default.\<close>

definition param_value :: "(string \<times> string) list \<Rightarrow> param_def \<Rightarrow> (lower_error, string) result" where
  "param_value given p = ok_or (or_else (map_of given (param_name p)) (param_default p)) (Missing_Param (param_name p))"

definition bind_params :: "(string \<times> string) list \<Rightarrow> statement list \<Rightarrow> vars \<Rightarrow> (lower_error, vars) result" where
  "bind_params given sts vars =
     fold_result (\<lambda>p vars. and_then (param_value given p) (\<lambda>v. Inr (bm_insert (param_name p) v vars))) (params_of sts) vars"

definition is_param :: "statement \<Rightarrow> bool" where
  "is_param s \<longleftrightarrow> (case s of St_Param _ \<Rightarrow> True | _ \<Rightarrow> False)"

definition resolve_import_params :: "(string \<times> string) list \<Rightarrow> nll_file \<Rightarrow> (lower_error, nll_file) result" where
  "resolve_import_params given f =
     and_then (traverse (\<lambda>p. and_then (param_value given p) (\<lambda>v. Inr (St_Let \<lparr>let_name = param_name p, let_value = v\<rparr>)))
         (params_of (file_statements f))) (\<lambda>lets.
       Inr (f\<lparr>file_statements := lets @ filter (\<lambda>s. \<not> is_param s) (file_statements f)\<rparr>))"

subsection \<open>Imported modules\<close>

definition alias_name :: "string \<Rightarrow> string \<Rightarrow> string" where
  "alias_name alias n = alias @ ''-'' @ n"

text \<open>\<open>prefix_endpoint\<close>.\<close>

definition alias_endpoint :: "string \<Rightarrow> string \<Rightarrow> string" where
  "alias_endpoint alias ep =
     (case split_once CHR '':'' ep of
        Some (node, iface) \<Rightarrow> alias_name alias node @ '':'' @ iface
      | None \<Rightarrow> alias_name alias ep)"

definition rekey :: "(string \<Rightarrow> string) \<Rightarrow> ('v \<Rightarrow> 'v) \<Rightarrow> (string, 'v) btree_map \<Rightarrow> (string \<times> 'v) list" where
  "rekey f g m = map (\<lambda>(k, v). (f k, g v)) (bm_entries m)"

definition prefix_wireguard_peers :: "(string \<Rightarrow> string) \<Rightarrow> wireguard_config \<Rightarrow> wireguard_config" where
  "prefix_wireguard_peers pn wg =
     wg\<lparr>wg_peers := map pn (wg_peers wg), wg_peer_settings := bm_of_list (rekey pn (\<lambda>p. p) (wg_peer_settings wg))\<rparr>"

definition prefix_bgp_neighbors :: "(string \<Rightarrow> string) \<Rightarrow> frr_config \<Rightarrow> frr_config" where
  "prefix_bgp_neighbors pn frr =
     frr\<lparr>frr_bgp := map_option (\<lambda>b. b\<lparr>bgp_neighbors := map (\<lambda>n. n\<lparr>bn_node := pn (bn_node n)\<rparr>) (bgp_neighbors b)\<rparr>) (frr_bgp frr)\<rparr>"

fun prefix_lowered_assertion :: "(string \<Rightarrow> string) \<Rightarrow> assertion \<Rightarrow> assertion" where
  "prefix_lowered_assertion pn (Reach a b) = Reach (pn a) (pn b)"
| "prefix_lowered_assertion pn (NoReach a b) = NoReach (pn a) (pn b)"
| "prefix_lowered_assertion pn (TcpConnect a b port t r i) = TcpConnect (pn a) (pn b) port t r i"
| "prefix_lowered_assertion pn (LatencyUnder a b m s) = LatencyUnder (pn a) (pn b) m s"
| "prefix_lowered_assertion pn (RouteHas n d v dev) = RouteHas (pn n) d v dev"
| "prefix_lowered_assertion pn (DnsResolves a name ip) = DnsResolves (pn a) name ip"
| "prefix_lowered_assertion pn (Counter n name m op v) = Counter (pn n) name m op v"

fun import_action :: "string \<Rightarrow> scenario_action \<Rightarrow> scenario_action" where
  "import_action al (Act_Down ep) = Act_Down (alias_endpoint al ep)"
| "import_action al (Act_Up ep) = Act_Up (alias_endpoint al ep)"
| "import_action al (Act_Clear ep) = Act_Clear (alias_endpoint al ep)"
| "import_action al (Act_Validate as) = Act_Validate (map (prefix_lowered_assertion (alias_name al)) as)"
| "import_action al (Act_Exec node cmd) = Act_Exec (alias_name al node) cmd"
| "import_action al (Act_Log m) = Act_Log m"
| "import_action al (Act_Impair ep i) = Act_Impair (alias_endpoint al ep) i"
| "import_action al (Act_Partition ep both) = Act_Partition (alias_endpoint al ep) both"
| "import_action al (Act_Heal ep both) = Act_Heal (alias_endpoint al ep) both"
| "import_action al (Act_PairImpair nw src dst i cap) =
     Act_PairImpair (alias_name al nw) (alias_endpoint al src) (alias_endpoint al dst) i cap"
| "import_action al (Act_Replay (Replay_Endpoint ep dir) file ms looped) =
     Act_Replay (Replay_Endpoint (alias_endpoint al ep) dir) file ms looped"
| "import_action al (Act_Replay (Replay_Pair nw src dst) file ms looped) =
     Act_Replay (Replay_Pair (alias_name al nw) (alias_endpoint al src) (alias_endpoint al dst)) file ms looped"

fun prefix_test :: "(string \<Rightarrow> string) \<Rightarrow> benchmark_test \<Rightarrow> benchmark_test" where
  "prefix_test pn (Iperf3 a b d s u r as) = Iperf3 (pn a) (pn b) d s u r as"
| "prefix_test pn (Ping a b c as) = Ping (pn a) (pn b) c as"

definition import_node :: "(string \<Rightarrow> string) \<Rightarrow> node \<Rightarrow> node" where
  "import_node pn n =
     n\<lparr>node_profiles := map pn (node_profiles n), node_depends_on := map pn (node_depends_on n),
       node_wireguard := bm_map (\<lambda>_. prefix_wireguard_peers pn) (node_wireguard n),
       node_frr := map_option (prefix_bgp_neighbors pn) (node_frr n)\<rparr>"

definition import_link :: "string \<Rightarrow> link \<Rightarrow> link" where
  "import_link al l = l\<lparr>link_endpoints := map_prod (alias_endpoint al) (alias_endpoint al) (link_endpoints l)\<rparr>"

definition import_network :: "string \<Rightarrow> network \<Rightarrow> network" where
  "import_network al nw =
     nw\<lparr>network_members := map (alias_endpoint al) (network_members nw),
        network_ports := bm_of_list (rekey (alias_endpoint al) (\<lambda>p. p) (network_ports nw)),
        network_impairments := map (\<lambda>i. i\<lparr>ni_src := alias_endpoint al (ni_src i), ni_dst := alias_endpoint al (ni_dst i)\<rparr>)
          (network_impairments nw)\<rparr>"

definition import_profile :: "(string \<Rightarrow> string) \<Rightarrow> profile \<Rightarrow> profile" where
  "import_profile pn p = p\<lparr>profile_frr := map_option (prefix_bgp_neighbors pn) (profile_frr p)\<rparr>"

definition merge_import :: "topology \<Rightarrow> string \<Rightarrow> topology \<Rightarrow> topology" where
  "merge_import t al m =
     (let pn = alias_name al; pe = alias_endpoint al in
      t\<lparr>topo_nodes := bm_extend (topo_nodes t) (rekey pn (import_node pn) (topo_nodes m)),
        topo_links := topo_links t @ map (import_link al) (topo_links m),
        topo_networks := bm_extend (topo_networks t) (rekey pn (import_network al) (topo_networks m)),
        topo_impairments := bm_extend (topo_impairments t) (rekey pe (\<lambda>i. i) (topo_impairments m)),
        topo_directional_impairments := bm_extend (topo_directional_impairments t) (rekey pe (\<lambda>u. u) (topo_directional_impairments m)),
        topo_sites := bm_extend (topo_sites t) (rekey pn (map pn) (topo_sites m)),
        topo_rate_limits := bm_extend (topo_rate_limits t) (rekey pe (\<lambda>r. r) (topo_rate_limits m)),
        topo_qdiscs := bm_extend (topo_qdiscs t) (rekey pe (\<lambda>q. q) (topo_qdiscs m)),
        topo_profiles := bm_extend (topo_profiles t) (rekey pn (import_profile pn) (topo_profiles m)),
        topo_assertion_retries := or_else (topo_assertion_retries m) (topo_assertion_retries t),
        topo_assertion_interval := or_else (topo_assertion_interval m) (topo_assertion_interval t),
        topo_assertions := topo_assertions t @ map (prefix_lowered_assertion pn) (topo_assertions m),
        topo_scenarios := topo_scenarios t @
          map (\<lambda>sc. sc\<lparr>scenario_steps := map (\<lambda>st. st\<lparr>step_actions := map (import_action al) (step_actions st)\<rparr>) (scenario_steps sc)\<rparr>)
            (topo_scenarios m),
        topo_benchmarks := topo_benchmarks t @
          map (\<lambda>b. b\<lparr>bench_tests := map (prefix_test pn) (bench_tests b)\<rparr>) (topo_benchmarks m)\<rparr>)"

subsection \<open>The context of a file\<close>

definition add_declaration :: "statement \<Rightarrow> lower_ctx \<Rightarrow> (lower_error, lower_ctx) result" where
  "add_declaration s ctx =
     (case s of
        St_Profile p \<Rightarrow> Inr (ctx\<lparr>cx_profiles := bm_insert (pfd_name p) p (cx_profiles ctx)\<rparr>)
      | St_Defaults d \<Rightarrow>
          Inr (case def_kind d of
                 Def_Link \<Rightarrow> ctx\<lparr>cx_link_mtu := def_mtu d\<rparr>
               | Def_Impair \<Rightarrow> ctx\<lparr>cx_impair := def_impair d\<rparr>
               | Def_Rate \<Rightarrow> ctx\<lparr>cx_rate := def_rate d\<rparr>
               | Def_Named name \<Rightarrow> ctx\<lparr>cx_link_profiles := bm_insert name d (cx_link_profiles ctx)\<rparr>)
      | St_Pool p \<Rightarrow> and_then (add_pool p (cx_pools ctx)) (\<lambda>pools. Inr (ctx\<lparr>cx_pools := pools\<rparr>))
      | _ \<Rightarrow> Inr ctx)"

definition undefined_profiles :: "statement list \<Rightarrow> lower_ctx \<Rightarrow> (string \<times> string) list" where
  "undefined_profiles sts ctx =
     concat (map (\<lambda>s. case s of
         St_Node n \<Rightarrow> map (Pair (nd_name n)) (filter (\<lambda>p. \<not> bm_contains (cx_profiles ctx) p) (nd_profiles n))
       | _ \<Rightarrow> []) sts)"

definition check_profile_refs :: "statement list \<Rightarrow> lower_ctx \<Rightarrow> (lower_error, unit) result" where
  "check_profile_refs sts ctx =
     (if undefined_profiles sts ctx = [] then Inr () else Inl (Undefined_Profiles (undefined_profiles sts ctx)))"

fun validate_stmt :: "statement \<Rightarrow> string list" where
  "validate_stmt (St_For v rng body) =
     (case rng of
        IntRange a b \<Rightarrow> if b < a then [v] else []
      | ListRange items \<Rightarrow> if items = [] then [v] else []
      | DynRange _ _ \<Rightarrow> []) @ concat (map validate_stmt body)"
| "validate_stmt _ = []"

definition validate_ast :: "nll_file \<Rightarrow> (lower_error, unit) result" where
  "validate_ast f =
     (let errors = concat (map validate_stmt (file_statements f)) in
      if errors = [] then Inr () else Inl (Invalid_Loops errors))"

definition add_variable :: "vars \<Rightarrow> statement \<Rightarrow> vars" where
  "add_variable vars s = (case s of St_Let l \<Rightarrow> bm_insert (let_name l) (let_value l) vars | _ \<Rightarrow> vars)"

definition lab_variables :: "lab_decl \<Rightarrow> vars \<Rightarrow> vars" where
  "lab_variables lab vars =
     bm_insert ''lab.prefix'' (case ld_prefix lab of Some p \<Rightarrow> p | None \<Rightarrow> ld_name lab)
       (bm_insert ''lab.name'' (ld_name lab) vars)"

definition new_ctx :: "vars \<Rightarrow> sites \<Rightarrow> lower_ctx" where
  "new_ctx vars sites =
     \<lparr>cx_profiles = bm_empty, cx_variables = vars, cx_link_mtu = None, cx_impair = None, cx_rate = None,
      cx_pools = bm_empty, cx_link_profiles = bm_empty, cx_sites = sites\<rparr>"

text \<open>The first two passes: variables, expansion and declarations.\<close>

definition prepare :: "(string \<times> string) list \<Rightarrow> nll_file \<Rightarrow> (lower_error, statement list \<times> lower_ctx) result" where
  "prepare given f =
     and_then (bind_params given (file_statements f) bm_empty) (\<lambda>vars0.
     let vars = lab_variables (file_lab f) (foldl add_variable vars0 (file_statements f)) in
     and_then (validate_ast f) (\<lambda>_.
     and_then (expand_into (file_statements f) (vars, bm_empty)) (\<lambda>(expanded, (_, sites)).
     and_then (fold_result add_declaration expanded (new_ctx vars sites)) (\<lambda>ctx.
     and_then (check_profile_refs expanded ctx) (\<lambda>_. Inr (expanded, ctx))))))"

subsection \<open>Statements in order\<close>

definition lower_impair :: "impair_def \<Rightarrow> topology \<Rightarrow> (lower_error, topology) result" where
  "lower_impair d t =
     (let ep = endpoint (id_node d) (id_iface d) in
      and_then (lower_impair_props (id_props d)) (\<lambda>i.
        Inr (set_impairment ep i (t\<lparr>topo_directional_impairments := bm_remove ep (topo_directional_impairments t)\<rparr>))))"

definition lower_rate :: "rate_def \<Rightarrow> topology \<Rightarrow> (lower_error, topology) result" where
  "lower_rate d t = and_then (lower_rate_props (rd_props d)) (\<lambda>r. Inr (set_rate (endpoint (rd_node d) (rd_iface d)) r t))"

definition lower_qdisc :: "qdisc_def \<Rightarrow> topology \<Rightarrow> (lower_error, topology) result" where
  "lower_qdisc d t =
     and_then (lower_qdisc_kind (qd_kind d)) (\<lambda>k.
       Inr (t\<lparr>topo_qdiscs := bm_insert (endpoint (qd_node d) (qd_iface d)) \<lparr>qdisc_kind_of = k\<rparr> (topo_qdiscs t)\<rparr>))"

text \<open>A later \<open>validate\<close> block with a value wins.\<close>

definition lower_validate :: "validate_def \<Rightarrow> topology \<Rightarrow> (lower_error, topology) result" where
  "lower_validate v t =
     and_then (opt_text parse_duration (vd_interval v)) (\<lambda>i.
     and_then (traverse lower_assertion (vd_assertions v)) (\<lambda>as.
       Inr (t\<lparr>topo_assertion_retries := or_else (vd_retries v) (topo_assertion_retries t),
              topo_assertion_interval := or_else i (topo_assertion_interval t),
              topo_assertions := topo_assertions t @ as\<rparr>)))"

definition statement_nodes :: "statement \<Rightarrow> string list" where
  "statement_nodes s = (case s of St_Node n \<Rightarrow> [nd_name n] | St_Pattern p \<Rightarrow> pattern_nodes p | _ \<Rightarrow> [])"

text \<open>Every node the lab will have, in order: what a glob of a network matches.\<close>

definition lab_node_names :: "topology \<Rightarrow> statement list \<Rightarrow> string list" where
  "lab_node_names t expanded = bm_keys (bset_of_list (bm_keys (topo_nodes t) @ concat (map statement_nodes expanded)))"

definition on_topology :: "(topology \<Rightarrow> (lower_error, topology) result) \<Rightarrow> lower_state \<Rightarrow> (lower_error, lower_state) result" where
  "on_topology f = (\<lambda>(t, pools). and_then (f t) (\<lambda>t'. Inr (t', pools)))"

definition lower_statement :: "lower_ctx \<Rightarrow> string list \<Rightarrow> statement \<Rightarrow> lower_state \<Rightarrow> (lower_error, lower_state) result" where
  "lower_statement ctx names s =
     (case s of
        St_Node n \<Rightarrow> lower_node ctx n
      | St_Link l \<Rightarrow> lower_link ctx l
      | St_Network n \<Rightarrow> on_topology (lower_network n (cx_variables ctx) names)
      | St_Impair d \<Rightarrow> on_topology (lower_impair d)
      | St_Rate d \<Rightarrow> on_topology (lower_rate d)
      | St_Qdisc d \<Rightarrow> on_topology (lower_qdisc d)
      | St_Pattern p \<Rightarrow> expand_pattern ctx p
      | St_Validate v \<Rightarrow> on_topology (lower_validate v)
      | St_Scenario d \<Rightarrow> on_topology (\<lambda>t. and_then (lower_scenario d) (\<lambda>sc. Inr (t\<lparr>topo_scenarios := topo_scenarios t @ [sc]\<rparr>)))
      | St_Benchmark d \<Rightarrow> on_topology (\<lambda>t. and_then (lower_benchmark d) (\<lambda>b. Inr (t\<lparr>topo_benchmarks := topo_benchmarks t @ [b]\<rparr>)))
      | _ \<Rightarrow> Inr)"

definition add_profiles :: "lower_ctx \<Rightarrow> topology \<Rightarrow> topology" where
  "add_profiles ctx t =
     t\<lparr>topo_profiles := bm_extend (topo_profiles t) (map (\<lambda>(k, p). (k, lower_profile p)) (bm_entries (cx_profiles ctx)))\<rparr>"

definition lower_statements :: "lower_ctx \<Rightarrow> statement list \<Rightarrow> topology \<Rightarrow> (lower_error, topology) result" where
  "lower_statements ctx expanded t =
     (let t0 = add_profiles ctx t in
      and_then (fold_result (lower_statement ctx (lab_node_names t0 expanded)) expanded (t0, cx_pools ctx)) (\<lambda>(t', _). post_passes t'))"

subsection \<open>Files\<close>

record module_files =
  mf_canonical :: "string \<Rightarrow> string option"
  mf_parsed :: "(string \<times> nll_file option) list"

text \<open>\<open>Path::parent\<close> of a path without empty or \<open>.\<close> components.\<close>

definition path_parent :: "string \<Rightarrow> string option" where
  "path_parent p =
     (case rsplit_once CHR ''/'' p of
        Some (d, f) \<Rightarrow> if d = [] \<and> f = [] then None else Some (if d = [] then ''/'' else d)
      | None \<Rightarrow> if p = [] then None else Some [])"

text \<open>What an import opens: the canonical path, the module with its parameters bound, its directory.\<close>

definition open_import ::
  "module_files \<Rightarrow> string \<Rightarrow> string list \<Rightarrow> vars \<Rightarrow> import_def \<Rightarrow> (lower_error, string \<times> nll_file \<times> string) result" where
  "open_import fs base visited vars imp =
     (let given = map (\<lambda>(k, v). (k, interpolate v vars)) (imp_params imp);
          path = path_join base (imp_path imp) in
      and_then (ok_or (mf_canonical fs path) (Unreadable_Import (imp_path imp))) (\<lambda>c.
      if c \<in> set visited then Inl (Circular_Import (imp_path imp))
      else
        and_then (ok_or (map_of (mf_parsed fs) c) (Unreadable_Import (imp_path imp))) (\<lambda>parsed.
        and_then (ok_or parsed (Bad_Import (imp_path imp))) (\<lambda>f.
        and_then (if given \<noteq> [] \<or> list_ex is_param (file_statements f) then resolve_import_params given f else Inr f) (\<lambda>f'.
          Inr (c, f', case path_parent path of Some d \<Rightarrow> d | None \<Rightarrow> base))))))"

definition imported_module :: "import_def \<Rightarrow> topology \<Rightarrow> string \<times> topology" where
  "imported_module imp t =
     (imp_alias imp, case path_parent (imp_path imp) of Some d \<Rightarrow> rebase_host_paths d t | None \<Rightarrow> t)"

definition start_topology :: "lab_config \<Rightarrow> sites \<Rightarrow> topology" where
  "start_topology lab sites = topology_default\<lparr>topo_lab := lab, topo_sites := sites\<rparr>"

definition merge_modules :: "(string \<times> topology) list \<Rightarrow> topology \<Rightarrow> topology" where
  "merge_modules mods t = foldl (\<lambda>t (al, m). merge_import t al m) t mods"

text \<open>
  \<open>lower_with_base_dir_and_params\<close>. Merging cannot fail, so the modules of \<open>resolve_imports\<close> are lowered
  in order first and merged in order then.
\<close>

function lower_file ::
  "module_files \<Rightarrow> nll_file \<Rightarrow> string option \<Rightarrow> string list \<Rightarrow> (string \<times> string) list \<Rightarrow> (lower_error, topology) result" where
  "lower_file fs f base visited given =
     and_then (prepare given f) (\<lambda>(expanded, ctx).
     and_then (lower_lab (file_lab f)) (\<lambda>lab.
     and_then (if file_imports f = [] then Inr []
               else and_then (ok_or base Import_Without_Base) (\<lambda>b.
                 traverse (\<lambda>imp.
                   and_then (open_import fs b visited (cx_variables ctx) imp) (\<lambda>(c, m, dir).
                   and_then (lower_file fs m (Some dir) (c # visited) []) (\<lambda>t. Inr (imported_module imp t)))) (file_imports f)))
       (\<lambda>mods. lower_statements ctx expanded (merge_modules mods (start_topology lab (cx_sites ctx))))))"
  by pat_completeness auto

lemma open_import_visits:
  "open_import fs base visited vars imp = Inr (c, m, dir) \<Longrightarrow> c \<notin> set visited \<and> c \<in> fst ` set (mf_parsed fs)"
  by (auto simp: open_import_def Let_def split: if_splits dest!: map_of_SomeD) force+

termination lower_file
proof (relation "measure (\<lambda>(fs, f, base, visited, given). card (fst ` set (mf_parsed fs) - set visited))", goal_cases)
  case (2 fs f base visited given p expanded ctx lab b imp q c r m dir)
  then have "c \<notin> set visited" "c \<in> fst ` set (mf_parsed fs)" by (blast dest: open_import_visits)+
  then have "fst ` set (mf_parsed fs) - set (c # visited) \<subset> fst ` set (mf_parsed fs) - set visited" by auto
  then have "card (fst ` set (mf_parsed fs) - set (c # visited)) < card (fst ` set (mf_parsed fs) - set visited)"
    by (rule psubset_card_mono [rotated]) simp
  then show ?case by simp
qed simp

declare lower_file.simps [simp del]

definition lower_with_params :: "module_files \<Rightarrow> nll_file \<Rightarrow> string option \<Rightarrow> (string \<times> string) list \<Rightarrow> (lower_error, topology) result" where
  "lower_with_params fs f base given =
     lower_file fs f base (case Option.bind base (mf_canonical fs) of Some c \<Rightarrow> [c] | None \<Rightarrow> []) given"

end
