(* ===== verification/Nll_Lab.thy ===== *)
theory Nll_Lab
  imports Nll_Import
begin

text \<open>
  What a lowered file holds, over the definitions of \<open>Nll_Import\<close>: its nodes are the names collected
  before its statements were lowered, its profile references resolve, an import renames a module as a
  whole, and a file that lowers has no cycle of imports.
\<close>

subsection \<open>Nodes and profiles of a topology\<close>

text \<open>The part of a topology that only nodes and patterns change.\<close>

definition same_nodes :: "topology \<Rightarrow> topology \<Rightarrow> bool" where
  "same_nodes t t' \<longleftrightarrow> topo_nodes t' = topo_nodes t \<and> topo_profiles t' = topo_profiles t"

lemma same_nodes_refl [simp]: "same_nodes t t"
  by (simp add: same_nodes_def)

lemma same_nodes_trans: "same_nodes t u \<Longrightarrow> same_nodes u v \<Longrightarrow> same_nodes t v"
  by (simp add: same_nodes_def)

lemma same_nodes_setters [simp]:
  "same_nodes t (set_impairment ep i t') = same_nodes t t'" "same_nodes t (set_rate ep r t') = same_nodes t t'"
  "same_nodes t (set_directional ep t') = same_nodes t t'"
  by (simp_all add: same_nodes_def set_impairment_def set_rate_def set_directional_def)

lemma lower_both_same: "lower_both l r p t = Inr t' \<Longrightarrow> same_nodes u t \<Longrightarrow> same_nodes u t'"
  by (auto simp: lower_both_def split: option.splits)

lemma lower_directional_same: "lower_directional ep p t = Inr t' \<Longrightarrow> same_nodes u t \<Longrightarrow> same_nodes u t'"
  by (auto simp: lower_directional_def split: option.splits)

lemma lower_link_same: "lower_link ctx l (t, p) = Inr (t', p') \<Longrightarrow> same_nodes t t'"
proof -
  assume "lower_link ctx l (t, p) = Inr (t', p')"
  then obtain ls t2 t3 t4 where s: "lower_both (endpoint (lk_left_node l) (lk_left_iface l)) (endpoint (lk_right_node l) (lk_right_iface l))
      (or_else (or_else (lk_impairment l) (Option.bind (link_defaults ctx l) def_impair)) (cx_impair ctx)) (t\<lparr>topo_links := ls\<rparr>) = Inr t2"
    "lower_directional (endpoint (lk_left_node l) (lk_left_iface l)) (lk_left_impair l) t2 = Inr t3"
    "lower_directional (endpoint (lk_right_node l) (lk_right_iface l)) (lk_right_impair l) t3 = Inr t4"
    "same_nodes t4 t'"
    by (auto simp: lower_link_def Let_def split: option.splits)
  have "same_nodes t (t\<lparr>topo_links := ls\<rparr>)" by (simp add: same_nodes_def)
  from lower_directional_same [OF s(3) lower_directional_same [OF s(2) lower_both_same [OF s(1) this]]]
  show ?thesis using s(4) by (rule same_nodes_trans)
qed

lemma statement_frames:
  "lower_network d vars names t = Inr t' \<Longrightarrow> same_nodes t t'"
  "lower_impair i t = Inr t' \<Longrightarrow> same_nodes t t'"
  "lower_rate r t = Inr t' \<Longrightarrow> same_nodes t t'"
  "lower_qdisc q t = Inr t' \<Longrightarrow> same_nodes t t'"
  "lower_validate v t = Inr t' \<Longrightarrow> same_nodes t t'"
  by (auto simp: lower_network_def lower_impair_def lower_rate_def lower_qdisc_def lower_validate_def Let_def same_nodes_def
      set_impairment_def set_rate_def split: if_splits)

text \<open>The nodes a step adds, with profiles of the context only.\<close>

definition lab_grows :: "lower_ctx \<Rightarrow> string set \<Rightarrow> lower_state \<Rightarrow> lower_state \<Rightarrow> bool" where
  "lab_grows ctx ns st st' \<longleftrightarrow>
     topo_profiles (fst st') = topo_profiles (fst st) \<and>
     dom (bm_get (topo_nodes (fst st'))) = dom (bm_get (topo_nodes (fst st))) \<union> ns \<and>
     (\<forall>name n. bm_get (topo_nodes (fst st')) name = Some n \<longrightarrow>
        bm_get (topo_nodes (fst st)) name = Some n \<or> set (node_profiles n) \<subseteq> dom (bm_get (cx_profiles ctx)))"

lemma lab_grows_same: "same_nodes t t' \<Longrightarrow> lab_grows ctx {} (t, p) (t', p')"
  by (simp add: lab_grows_def same_nodes_def)

lemma lab_grows_trans: "lab_grows ctx ms a b \<Longrightarrow> lab_grows ctx ns b c \<Longrightarrow> lab_grows ctx (ms \<union> ns) a c"
  by (simp add: lab_grows_def Un_assoc) blast

lemma lab_grows_fold:
  assumes "fold_result f xs st = Inr st'" "\<And>x s s'. x \<in> set xs \<Longrightarrow> f x s = Inr s' \<Longrightarrow> lab_grows ctx (g x) s s'"
  shows "lab_grows ctx (\<Union> (g ` set xs)) st st'"
  using assms
proof (induction xs arbitrary: st)
  case Nil
  then show ?case by (simp add: lab_grows_def)
next
  case (Cons x xs)
  then obtain s where s: "f x st = Inr s" "fold_result f xs s = Inr st'" by auto
  have "lab_grows ctx (g x) st s" using Cons.prems(2) s(1) by simp
  moreover have "lab_grows ctx (\<Union> (g ` set xs)) s st'" by (rule Cons.IH [OF s(2)]) (use Cons.prems(2) in simp)
  ultimately show ?case using lab_grows_trans by fastforce
qed


lemma lab_grows_node: "lower_node ctx d st = Inr st' \<Longrightarrow> set (nd_profiles d) \<subseteq> dom (bm_get (cx_profiles ctx)) \<Longrightarrow> lab_grows ctx {nd_name d} st st'"
proof -
  assume a: "lower_node ctx d st = Inr st'" "set (nd_profiles d) \<subseteq> dom (bm_get (cx_profiles ctx))"
  obtain t p t' p' where st: "st = (t, p)" "st' = (t', p')" by (cases st; cases st') auto
  obtain n0 s1 n where n: "node_base d = Inr n0"
    "fold_result (apply_node_props (cx_variables ctx)) (profile_props ctx (nd_profiles d)) (n0, p) = Inr s1"
    "apply_node_props (cx_variables ctx) (nd_props d) s1 = Inr (n, p')"
    "t' = t\<lparr>topo_nodes := bm_insert (nd_name d) n (topo_nodes t)\<rparr>"
    using a(1) unfolding st by (rule lower_node_cases)
  have "node_profiles n = nd_profiles d"
    using apply_node_props_covers [OF n(3) covers_default] fold_node_props_covers [OF n(2) covers_default]
      node_base_profiles [OF n(1)] by simp
  then show ?thesis using a(2) st n(4) by (auto simp: lab_grows_def)
qed

lemma lab_grows_pattern_node: "add_pattern_node ctx p name st = Inr st' \<Longrightarrow> lab_grows ctx {pattern_name p name} st st'"
proof -
  assume a: "add_pattern_node ctx p name st = Inr st'"
  obtain t q where st: "st = (t, q)" by (cases st)
  from a obtain n q' where n: "pattern_node ctx p q = Inr (n, q')"
    "st' = (t\<lparr>topo_nodes := bm_insert (pattern_name p name) n (topo_nodes t)\<rparr>, q')"
    by (auto simp: add_pattern_node_def st)
  have "set (node_profiles n) \<subseteq> dom (bm_get (cx_profiles ctx))"
  proof (cases "pat_profile p")
    case None
    then show ?thesis using n(1) by (auto simp: pattern_node_def node_default_def)
  next
    case (Some name)
    then show ?thesis using n(1) by (auto simp: pattern_node_def)
  qed
  then show ?thesis using n(2) by (auto simp: st lab_grows_def)
qed

lemma lab_grows_pattern_link: "add_pattern_link ctx p eps st = Inr st' \<Longrightarrow> lab_grows ctx {} st st'"
  by (cases st) (auto simp: add_pattern_link_def lab_grows_def)

lemma lab_grows_pattern_links: "fold_result (\<lambda>x. add_pattern_link ctx p (f x)) xs st = Inr st' \<Longrightarrow> lab_grows ctx {} st st'"
  using lab_grows_fold [of "\<lambda>x. add_pattern_link ctx p (f x)" xs st st' ctx "\<lambda>_. {}"] lab_grows_pattern_link by simp

lemma lab_grows_pattern: "expand_pattern ctx p st = Inr st' \<Longrightarrow> lab_grows ctx (set (pattern_nodes p)) st st'"
proof (cases "pat_kind p")
  case Pat_Mesh
  assume "expand_pattern ctx p st = Inr st'"
  then obtain s where s: "fold_result (add_pattern_node ctx p) (pat_nodes p) st = Inr s"
    "fold_result (\<lambda>ab. add_pattern_link ctx p (mesh_link p ab)) (all_pairs (pat_nodes p)) s = Inr st'"
    using Pat_Mesh by (auto simp: expand_pattern_def)
  have "lab_grows ctx (\<Union> ((\<lambda>n. {pattern_name p n}) ` set (pat_nodes p))) st s"
    by (rule lab_grows_fold [OF s(1)]) (rule lab_grows_pattern_node)
  from lab_grows_trans [OF this lab_grows_pattern_links [OF s(2)]] show ?thesis
    using Pat_Mesh by (simp add: pattern_nodes_def UNION_singleton_eq_range)
next
  case Pat_Ring
  assume "expand_pattern ctx p st = Inr st'"
  then obtain n s where n: "ring_count p = Inr n" and s: "fold_result (add_pattern_node ctx p) (ring_names p n) st = Inr s"
    "fold_result (\<lambda>i. add_pattern_link ctx p (ring_link p (ring_names p n) i)) [0..<length (ring_names p n)] s = Inr st'"
    using Pat_Ring by (auto simp: expand_pattern_def Let_def)
  have "lab_grows ctx (\<Union> ((\<lambda>n. {pattern_name p n}) ` set (ring_names p n))) st s"
    by (rule lab_grows_fold [OF s(1)]) (rule lab_grows_pattern_node)
  note g = lab_grows_trans [OF this lab_grows_pattern_links [OF s(2)]]
  have "pattern_nodes p = map (pattern_name p) (ring_names p n)"
    using n Pat_Ring by (auto simp: pattern_nodes_def ring_names_def ring_count_def Let_def split: option.splits if_splits)
  with g show ?thesis by (simp add: UNION_singleton_eq_range)
next
  case (Pat_Star hub)
  assume "expand_pattern ctx p st = Inr st'"
  then obtain s where s: "add_pattern_node ctx p hub st = Inr s"
    "fold_result (star_spoke ctx p hub) (enumerate 0 (pat_nodes p)) s = Inr st'"
    using Pat_Star by (auto simp: expand_pattern_def)
  have "lab_grows ctx {pattern_name p (snd x)} u v" if "star_spoke ctx p hub x u = Inr v" for x u v
  proof -
    from that obtain w where w: "add_pattern_node ctx p (snd x) u = Inr w" "\<exists>eps. add_pattern_link ctx p eps w = Inr v"
      by (cases x) (auto simp: star_spoke_def)
    then show ?thesis using lab_grows_trans [OF lab_grows_pattern_node lab_grows_pattern_link] by fastforce
  qed
  then have "lab_grows ctx (\<Union> ((\<lambda>x. {pattern_name p (snd x)}) ` set (enumerate 0 (pat_nodes p)))) s st'"
    by (intro lab_grows_fold [OF s(2)])
  from lab_grows_trans [OF lab_grows_pattern_node [OF s(1)] this]
  have "lab_grows ctx ({pattern_name p hub} \<union> pattern_name p ` snd ` set (enumerate 0 (pat_nodes p))) st st'"
    by (simp add: UNION_singleton_eq_range image_image)
  moreover have "snd ` set (enumerate 0 (pat_nodes p)) = set (pat_nodes p)"
    unfolding set_map [symmetric] map_snd_enumerate ..
  ultimately show ?thesis using Pat_Star by (simp add: pattern_nodes_def Un_commute)
qed

text \<open>A statement adds exactly the nodes the pre-pass lists for it.\<close>

definition profiles_known :: "lower_ctx \<Rightarrow> statement \<Rightarrow> bool" where
  "profiles_known ctx s \<longleftrightarrow> (\<forall>d. s = St_Node d \<longrightarrow> set (nd_profiles d) \<subseteq> dom (bm_get (cx_profiles ctx)))"

lemma lab_grows_on_topology:
  assumes "on_topology f st = Inr st'" "\<And>t t'. f t = Inr t' \<Longrightarrow> same_nodes t t'"
  shows "lab_grows ctx {} st st'"
  using assms by (cases st) (auto simp: on_topology_def intro!: lab_grows_same)

lemma lab_grows_statement:
  assumes "lower_statement ctx names s st = Inr st'" "profiles_known ctx s"
  shows "lab_grows ctx (set (statement_nodes s)) st st'"
proof (cases s)
  case (St_Node d)
  then show ?thesis using assms lab_grows_node [of ctx d st st'] by (simp add: lower_statement_def statement_nodes_def profiles_known_def)
next
  case (St_Link l)
  then have "lower_link ctx l (fst st, snd st) = Inr (fst st', snd st')" using assms(1) by (simp add: lower_statement_def)
  then have "lab_grows ctx {} (fst st, snd st) (fst st', snd st')" by (intro lab_grows_same lower_link_same)
  then show ?thesis using St_Link by (simp add: statement_nodes_def)
next
  case (St_Pattern p)
  then show ?thesis using assms(1) lab_grows_pattern by (simp add: lower_statement_def statement_nodes_def)
qed (use assms(1) in \<open>auto simp: lower_statement_def statement_nodes_def dest: statement_frames intro!: lab_grows_same
      elim!: lab_grows_on_topology [where ctx = ctx]\<close>, auto simp: same_nodes_def lab_grows_def)


subsection \<open>The whole lowering\<close>

definition refs_resolve :: "topology \<Rightarrow> bool" where
  "refs_resolve t \<longleftrightarrow>
     (\<forall>name n. bm_get (topo_nodes t) name = Some n \<longrightarrow> set (node_profiles n) \<subseteq> dom (bm_get (topo_profiles t)))"

lemma dom_bset_of_list: "dom (bm_get (bset_of_list ks)) = set ks"
  by (simp add: bset_of_list_def bm_of_list_def dom_bm_extend image_image)

lemma set_lab_node_names:
  "set (lab_node_names t expanded) = dom (bm_get (topo_nodes t)) \<union> \<Union> ((\<lambda>s. set (statement_nodes s)) ` set expanded)"
  by (simp add: lab_node_names_def dom_bset_of_list)

lemma checked_profiles: "check_profile_refs expanded ctx = Inr u \<Longrightarrow> s \<in> set expanded \<Longrightarrow> profiles_known ctx s"
  by (force simp: check_profile_refs_def undefined_profiles_def profiles_known_def filter_empty_conv bm_contains_iff split: if_splits)

lemma statements_grow:
  assumes "fold_result (lower_statement ctx names) expanded st = Inr st'" "check_profile_refs expanded ctx = Inr u"
  shows "lab_grows ctx (\<Union> ((\<lambda>s. set (statement_nodes s)) ` set expanded)) st st'"
  by (rule lab_grows_fold [OF assms(1)]) (rule lab_grows_statement, simp_all add: checked_profiles [OF assms(2)])

text \<open>The passes afterwards keep the nodes, their profiles and the profiles' names.\<close>

definition same_refs :: "topology \<Rightarrow> topology \<Rightarrow> bool" where
  "same_refs t t' \<longleftrightarrow>
     dom (bm_get (topo_profiles t')) = dom (bm_get (topo_profiles t)) \<and>
     (\<forall>name. map_option node_profiles (bm_get (topo_nodes t') name) = map_option node_profiles (bm_get (topo_nodes t) name))"

lemma same_refs_trans: "same_refs t u \<Longrightarrow> same_refs u v \<Longrightarrow> same_refs t v"
  by (simp add: same_refs_def)

lemma map_option_Some_dom: "\<forall>k. map_option f (m k) = map_option f (n k) \<Longrightarrow> dom m = dom n"
proof -
  assume m: "\<forall>k. map_option f (m k) = map_option f (n k)"
  have "m k = None \<longleftrightarrow> n k = None" for k using m [rule_format, of k] by (cases "m k"; cases "n k") simp_all
  then show ?thesis by (simp add: dom_def)
qed

lemma same_refs_dom: "same_refs t t' \<Longrightarrow> dom (bm_get (topo_nodes t')) = dom (bm_get (topo_nodes t))"
  unfolding same_refs_def using map_option_Some_dom by blast

lemma same_refs_resolve: "same_refs t t' \<Longrightarrow> refs_resolve t \<Longrightarrow> refs_resolve t'"
  unfolding refs_resolve_def
proof (intro allI impI)
  fix name n
  assume s: "same_refs t t'" and r: "\<forall>name n. bm_get (topo_nodes t) name = Some n \<longrightarrow> set (node_profiles n) \<subseteq> dom (bm_get (topo_profiles t))"
    and n: "bm_get (topo_nodes t') name = Some n"
  have "map_option node_profiles (bm_get (topo_nodes t) name) = Some (node_profiles n)"
    using s n unfolding same_refs_def by (metis option.map(2))
  then obtain m where "bm_get (topo_nodes t) name = Some m" "node_profiles m = node_profiles n" by blast
  then show "set (node_profiles n) \<subseteq> dom (bm_get (topo_profiles t'))" using r s unfolding same_refs_def by metis
qed

lemma same_refs_cross: "same_refs t (resolve_cross_refs t)"
  by (auto simp: same_refs_def resolve_cross_refs_def Let_def resolve_node_refs_def option.map_comp comp_def)

lemma same_refs_sets: "same_refs t (normalize_topology_sets t)"
  by (auto simp: same_refs_def normalize_topology_sets_def option.map_comp comp_def dom_def)

lemma translate_node_profiles: "translate_node as name n = Inr n' \<Longrightarrow> node_profiles n' = node_profiles n"
  by (auto simp: translate_node_def split: option.splits if_splits)

lemma same_refs_translate: "expand_translate_rules t = Inr t' \<Longrightarrow> same_refs t t'"
proof -
  assume e: "expand_translate_rules t = Inr t'"
  have "map_option node_profiles (bm_get (topo_nodes t') name) = map_option node_profiles (bm_get (topo_nodes t) name)" for name
  proof (cases "bm_get (topo_nodes t) name")
    case None
    then have "bm_get (topo_nodes t') name = None" using expanded_nodes [OF e, of name] by (cases "bm_get (topo_nodes t') name") auto
    with None show ?thesis by simp
  next
    case (Some n)
    from expanded_result [OF e Some] obtain n' where n': "translate_node (assigned_addresses t) name n = Inr n'" by blast
    then have "bm_get (topo_nodes t') name = Some n'" using expanded_nodes [OF e, of name n'] Some by blast
    then show ?thesis using Some translate_node_profiles [OF n'] by simp
  qed
  moreover have "topo_profiles t' = topo_profiles t" using e by (auto simp: expand_translate_rules_def)
  ultimately show ?thesis by (simp add: same_refs_def)
qed

lemma same_refs_post: "post_passes t = Inr t' \<Longrightarrow> same_refs t t'"
  unfolding post_passes_def
  by (rule same_refs_trans [OF same_refs_cross same_refs_trans [OF same_refs_sets same_refs_translate]])

lemma lowered_statements:
  assumes "lower_statements ctx expanded t = Inr t'" "check_profile_refs expanded ctx = Inr u"
  obtains st where "lab_grows ctx (\<Union> ((\<lambda>s. set (statement_nodes s)) ` set expanded)) (add_profiles ctx t, cx_pools ctx) st" "same_refs (fst st) t'"
proof -
  obtain st where "fold_result (lower_statement ctx (lab_node_names (add_profiles ctx t) expanded)) expanded (add_profiles ctx t, cx_pools ctx) = Inr st"
    "post_passes (fst st) = Inr t'"
    using assms(1) by (auto simp: lower_statements_def Let_def)
  then show ?thesis using that statements_grow [OF _ assms(2)] same_refs_post by blast
qed

lemma lowered_refs:
  assumes "lower_statements ctx expanded t = Inr t'" "check_profile_refs expanded ctx = Inr u" "refs_resolve t"
  shows "refs_resolve t'"
proof -
  obtain st where g: "lab_grows ctx (\<Union> ((\<lambda>s. set (statement_nodes s)) ` set expanded)) (add_profiles ctx t, cx_pools ctx) st"
      and s: "same_refs (fst st) t'"
    using assms(1,2) by (rule lowered_statements)
  have d: "dom (bm_get (topo_profiles (add_profiles ctx t))) = dom (bm_get (topo_profiles t)) \<union> dom (bm_get (cx_profiles ctx))"
    by (simp add: add_profiles_def dom_bm_extend image_image case_prod_beta fst_bm_entries)
  have "refs_resolve (fst st)"
    unfolding refs_resolve_def
  proof (intro allI impI)
    fix name n assume n: "bm_get (topo_nodes (fst st)) name = Some n"
    have "topo_profiles (fst st) = topo_profiles (add_profiles ctx t)" using g by (simp add: lab_grows_def)
    moreover have "bm_get (topo_nodes t) name = Some n \<or> set (node_profiles n) \<subseteq> dom (bm_get (cx_profiles ctx))"
      using g n by (auto simp: lab_grows_def add_profiles_def)
    ultimately show "set (node_profiles n) \<subseteq> dom (bm_get (topo_profiles (fst st)))"
      using assms(3) unfolding refs_resolve_def by (metis d le_supI1 le_supI2)
  qed
  then show ?thesis using s same_refs_resolve by blast
qed


subsection \<open>Files and their imports\<close>

text \<open>A module of a file: lowered with its own path on the list of files being lowered.\<close>

definition lowers_import ::
  "module_files \<Rightarrow> nll_file \<Rightarrow> string \<Rightarrow> string list \<Rightarrow> vars \<Rightarrow> import_def \<Rightarrow> topology \<Rightarrow> bool" where
  "lowers_import fs f b visited vars imp t \<longleftrightarrow>
     (\<exists>c m dir. open_import fs b visited vars imp = Inr (c, m, dir) \<and> lower_file fs m (Some dir) (c # visited) [] = Inr t)"

lemma prepare_checked: "prepare given f = Inr (expanded, ctx) \<Longrightarrow> check_profile_refs expanded ctx = Inr ()"
  by (auto simp: prepare_def Let_def)

lemma lower_file_cases:
  assumes "lower_file fs f base visited given = Inr t"
  obtains expanded ctx lab mods where "prepare given f = Inr (expanded, ctx)" "lower_lab (file_lab f) = Inr lab"
    "lower_statements ctx expanded (merge_modules mods (start_topology lab (cx_sites ctx))) = Inr t"
    "\<And>al m. (al, m) \<in> set mods \<Longrightarrow> \<exists>b imp t'. base = Some b \<and> imp \<in> set (file_imports f) \<and>
       lowers_import fs f b visited (cx_variables ctx) imp t' \<and> (al, m) = imported_module imp t'"
    "\<And>imp. imp \<in> set (file_imports f) \<Longrightarrow> \<exists>b t'. base = Some b \<and> lowers_import fs f b visited (cx_variables ctx) imp t'"
proof -
  let ?one = "\<lambda>b ctx imp. and_then (open_import fs b visited (cx_variables ctx) imp) (\<lambda>(c, m, dir).
      and_then (lower_file fs m (Some dir) (c # visited) []) (\<lambda>t. Inr (imported_module imp t)))"
  obtain expanded ctx where p: "prepare given f = Inr (expanded, ctx)"
    using assms unfolding lower_file.simps [of fs f base visited given] by (cases "prepare given f") auto
  obtain lab mods where lab: "lower_lab (file_lab f) = Inr lab"
    and mods: "(if file_imports f = [] then Inr [] else and_then (ok_or base Import_Without_Base) (\<lambda>b. traverse (?one b ctx) (file_imports f))) = Inr mods"
    and st: "lower_statements ctx expanded (merge_modules mods (start_topology lab (cx_sites ctx))) = Inr t"
    using assms unfolding lower_file.simps [of fs f base visited given] p and_then.simps prod.case and_then_eq_Inr by blast
  have lowered: "\<exists>t'. lowers_import fs f b visited (cx_variables ctx) imp t' \<and> y = imported_module imp t'" if "?one b ctx imp = Inr y" for b imp y
    using that by (auto simp: lowers_import_def)
  show ?thesis
  proof (rule that [OF p lab st])
    fix al m assume "(al, m) \<in> set mods"
    then show "\<exists>b imp t'. base = Some b \<and> imp \<in> set (file_imports f) \<and>
       lowers_import fs f b visited (cx_variables ctx) imp t' \<and> (al, m) = imported_module imp t'"
    proof (cases "file_imports f = []")
      case False
      then obtain b where b: "base = Some b" "traverse (?one b ctx) (file_imports f) = Inr mods" using mods by auto
      from traverse_set [OF b(2) \<open>(al, m) \<in> set mods\<close>] obtain imp where "imp \<in> set (file_imports f)" "?one b ctx imp = Inr (al, m)" by blast
      with lowered b(1) show ?thesis by blast
    qed (use mods in simp)
  next
    fix imp assume i: "imp \<in> set (file_imports f)"
    then obtain b where b: "base = Some b" "traverse (?one b ctx) (file_imports f) = Inr mods" using mods by (cases "file_imports f") auto
    from traverse_member [OF b(2) i] obtain y where "?one b ctx imp = Inr y" by blast
    with lowered b(1) show "\<exists>b t'. base = Some b \<and> lowers_import fs f b visited (cx_variables ctx) imp t'" by blast
  qed
qed

text \<open>A module's names under its alias.\<close>

lemma inj_alias: "inj (alias_name al)"
  by (auto simp: inj_def alias_name_def)

lemma rekey_get:
  assumes "inj f"
  shows "bm_get (bm_extend m (rekey f g n)) (f k) = (case bm_get n k of Some v \<Rightarrow> Some (g v) | None \<Rightarrow> bm_get m (f k))"
    and "x \<notin> f ` dom (bm_get n) \<Longrightarrow> bm_get (bm_extend m (rekey f g n)) x = bm_get m x"
proof -
  have d: "distinct (map fst (rekey f g n))"
    using assms bm_entries_distinct [of n] unfolding rekey_def
    by (auto simp: distinct_map inj_on_def comp_def case_prod_beta dest: injD)
  have dr: "map_of (rev (rekey f g n)) = map_of (rekey f g n)"
    using d by (intro map_of_inject_set [THEN iffD2]) (simp_all add: rev_map [symmetric])
  have e: "(k, v) \<in> set (bm_entries n) \<longleftrightarrow> bm_get n k = Some v" for k v by (simp add: in_bm_entries)
  have "map_of (rekey f g n) (f k) = map_option g (bm_get n k)"
  proof (cases "bm_get n k")
    case None
    then have "f k \<notin> fst ` set (rekey f g n)" using assms e by (force simp: rekey_def dest: injD)
    then show ?thesis using None by (simp add: map_of_eq_None_iff)
  next
    case (Some v)
    then have "(f k, g v) \<in> set (rekey f g n)" using e by (force simp: rekey_def)
    then show ?thesis using Some d by simp
  qed
  then show "bm_get (bm_extend m (rekey f g n)) (f k) = (case bm_get n k of Some v \<Rightarrow> Some (g v) | None \<Rightarrow> bm_get m (f k))"
    by (simp add: bm_get_extend dr split: option.splits)
  show "x \<notin> f ` dom (bm_get n) \<Longrightarrow> bm_get (bm_extend m (rekey f g n)) x = bm_get m x"
  proof -
    assume "x \<notin> f ` dom (bm_get n)"
    then have "x \<notin> fst ` set (rekey f g n)" using e by (force simp: rekey_def)
    then show ?thesis by (simp add: bm_get_extend dr map_of_eq_None_iff [THEN iffD2])
  qed
qed

lemma dom_rekey: "fst ` set (rekey f g m) = f ` dom (bm_get m)"
  by (force simp: rekey_def fst_bm_entries [symmetric])

lemma merge_refs:
  assumes "refs_resolve t" "refs_resolve m"
  shows "refs_resolve (merge_import t al m)"
  unfolding refs_resolve_def
proof (intro allI impI)
  let ?pn = "alias_name al"
  fix name n
  assume n: "bm_get (topo_nodes (merge_import t al m)) name = Some n"
  have dp: "dom (bm_get (topo_profiles (merge_import t al m))) = dom (bm_get (topo_profiles t)) \<union> ?pn ` dom (bm_get (topo_profiles m))"
    by (simp add: merge_import_def Let_def dom_bm_extend dom_rekey)
  have nodes: "topo_nodes (merge_import t al m) = bm_extend (topo_nodes t) (rekey ?pn (import_node ?pn) (topo_nodes m))"
    by (simp add: merge_import_def Let_def)
  show "set (node_profiles n) \<subseteq> dom (bm_get (topo_profiles (merge_import t al m)))"
  proof (cases "name \<in> ?pn ` dom (bm_get (topo_nodes m))")
    case True
    then obtain k v where k: "name = ?pn k" "bm_get (topo_nodes m) k = Some v" by blast
    then have "n = import_node ?pn v" using n unfolding nodes by (simp add: rekey_get(1) [OF inj_alias])
    moreover have "set (node_profiles v) \<subseteq> dom (bm_get (topo_profiles m))" using assms(2) k(2) unfolding refs_resolve_def by blast
    ultimately show ?thesis unfolding dp by (auto simp: import_node_def)
  next
    case False
    then have "bm_get (topo_nodes t) name = Some n" using n unfolding nodes by (simp add: rekey_get(2) [OF inj_alias])
    then show ?thesis using assms(1) unfolding refs_resolve_def dp by blast
  qed
qed


lemma merge_modules_refs:
  "refs_resolve t \<Longrightarrow> \<forall>(al, m) \<in> set mods. refs_resolve m \<Longrightarrow> refs_resolve (merge_modules mods t)"
  unfolding merge_modules_def by (induction mods arbitrary: t) (auto simp: merge_refs)

lemma rebase_refs: "refs_resolve t \<Longrightarrow> refs_resolve (rebase_host_paths d t)"
  by (rule same_refs_resolve [rotated], assumption)
    (simp add: same_refs_def rebase_host_paths_def rebase_node_def option.map_comp comp_def)

lemma imported_refs: "imported_module imp t = (al, m) \<Longrightarrow> refs_resolve t \<Longrightarrow> refs_resolve m"
  by (auto simp: imported_module_def rebase_refs split: option.splits)

definition unvisited :: "module_files \<Rightarrow> string list \<Rightarrow> nat" where
  "unvisited fs visited = card (fst ` set (mf_parsed fs) - set visited)"

lemma lowers_import_smaller:
  assumes "lowers_import fs f b visited vars imp t"
  obtains c m dir where "open_import fs b visited vars imp = Inr (c, m, dir)" "lower_file fs m (Some dir) (c # visited) [] = Inr t"
    "c \<notin> set visited" "unvisited fs (c # visited) < unvisited fs visited"
proof -
  obtain c m dir where o: "open_import fs b visited vars imp = Inr (c, m, dir)" "lower_file fs m (Some dir) (c # visited) [] = Inr t"
    using assms by (auto simp: lowers_import_def)
  then have c: "c \<notin> set visited" "c \<in> fst ` set (mf_parsed fs)" by (blast dest: open_import_visits)+
  then have "fst ` set (mf_parsed fs) - set (c # visited) \<subset> fst ` set (mf_parsed fs) - set visited" by auto
  then have "unvisited fs (c # visited) < unvisited fs visited"
    unfolding unvisited_def by (rule psubset_card_mono [rotated]) simp
  with o c that show ?thesis by blast
qed

lemma lowered_file_refs: "lower_file fs f base visited given = Inr t \<Longrightarrow> refs_resolve t"
proof (induction "unvisited fs visited" arbitrary: f base visited given t rule: less_induct)
  case less
  obtain expanded ctx lab mods where f: "prepare given f = Inr (expanded, ctx)"
    "lower_statements ctx expanded (merge_modules mods (start_topology lab (cx_sites ctx))) = Inr t"
    "\<And>al m. (al, m) \<in> set mods \<Longrightarrow> \<exists>b imp t'. base = Some b \<and> imp \<in> set (file_imports f) \<and>
       lowers_import fs f b visited (cx_variables ctx) imp t' \<and> (al, m) = imported_module imp t'"
    using lower_file_cases [OF less.prems] by metis
  have "refs_resolve m" if "(al, m) \<in> set mods" for al m
  proof -
    from f(3) [OF that] obtain b imp t' where i: "lowers_import fs f b visited (cx_variables ctx) imp t'" "(al, m) = imported_module imp t'"
      by blast
    obtain c m' dir where "lower_file fs m' (Some dir) (c # visited) [] = Inr t'" "unvisited fs (c # visited) < unvisited fs visited"
      using i(1) by (rule lowers_import_smaller)
    then have "refs_resolve t'" using less.hyps by blast
    then show ?thesis using imported_refs [of imp t' al m] i(2) by simp
  qed
  moreover have "refs_resolve (start_topology lab (cx_sites ctx))"
    by (simp add: refs_resolve_def start_topology_def topology_default_def)
  ultimately have "refs_resolve (merge_modules mods (start_topology lab (cx_sites ctx)))" by (intro merge_modules_refs) auto
  then show ?case by (rule lowered_refs [OF f(2) prepare_checked [OF f(1)]])
qed

text \<open>The files a chain of imports opens, one importing the next; the argument is the file it starts from.\<close>

inductive import_chain :: "module_files \<Rightarrow> import_def list \<Rightarrow> string \<Rightarrow> string list \<Rightarrow> bool" for fs :: module_files where
  chain_end: "import_chain fs imports base []"
| chain_import: "imp \<in> set imports \<Longrightarrow> mf_canonical fs (path_join base (imp_path imp)) = Some c \<Longrightarrow>
    map_of (mf_parsed fs) c = Some (Some m) \<Longrightarrow>
    import_chain fs (file_imports m) (case path_parent (path_join base (imp_path imp)) of Some d \<Rightarrow> d | None \<Rightarrow> base) cs \<Longrightarrow>
    import_chain fs imports base (c # cs)"

inductive_cases import_chain_Cons: "import_chain fs imports base (c # cs)"

lemma open_import_chain:
  assumes "open_import fs b visited vars imp = Inr (c, m', dir)"
  obtains m where "mf_canonical fs (path_join b (imp_path imp)) = Some c" "map_of (mf_parsed fs) c = Some (Some m)"
    "file_imports m' = file_imports m" "dir = (case path_parent (path_join b (imp_path imp)) of Some d \<Rightarrow> d | None \<Rightarrow> b)"
proof -
  have "file_imports f' = file_imports f" if "resolve_import_params given f = Inr f'" for given f f'
    using that by (auto simp: resolve_import_params_def)
  then show ?thesis using assms that by (auto simp: open_import_def Let_def split: if_splits)
qed

lemma chains_distinct:
  assumes "lower_file fs f (Some base) visited given = Inr t" "import_chain fs (file_imports f) base cs"
  shows "distinct cs \<and> set cs \<inter> set visited = {}"
  using assms
proof (induction cs arbitrary: f base visited given t)
  case (Cons c cs)
  from Cons.prems(2) obtain imp m where i: "imp \<in> set (file_imports f)" "mf_canonical fs (path_join base (imp_path imp)) = Some c"
    "map_of (mf_parsed fs) c = Some (Some m)"
    "import_chain fs (file_imports m) (case path_parent (path_join base (imp_path imp)) of Some d \<Rightarrow> d | None \<Rightarrow> base) cs"
    by (rule import_chain_Cons) blast
  obtain vars t' where l: "lowers_import fs f base visited vars imp t'"
    using lower_file_cases [OF Cons.prems(1)] i(1) by (metis option.inject)
  obtain c' m' dir where o: "open_import fs base visited vars imp = Inr (c', m', dir)" "lower_file fs m' (Some dir) (c' # visited) [] = Inr t'"
    "c' \<notin> set visited" using l by (rule lowers_import_smaller)
  obtain m'' where m: "mf_canonical fs (path_join base (imp_path imp)) = Some c'" "map_of (mf_parsed fs) c' = Some (Some m'')"
    "file_imports m' = file_imports m''" "dir = (case path_parent (path_join base (imp_path imp)) of Some d \<Rightarrow> d | None \<Rightarrow> base)"
    using o(1) by (rule open_import_chain)
  have c: "c' = c" "m'' = m" using m i by simp_all
  have "distinct cs \<and> set cs \<inter> set (c # visited) = {}"
    by (rule Cons.IH [of m' dir]) (use o(2) m(3,4) i(4) c in simp_all)
  then show ?case using o(3) c by auto
qed simp


subsection \<open>The nodes a topology refers to\<close>

fun lowered_assertion_refs :: "assertion \<Rightarrow> string list" where
  "lowered_assertion_refs (Reach a b) = [a, b]"
| "lowered_assertion_refs (NoReach a b) = [a, b]"
| "lowered_assertion_refs (TcpConnect a b _ _ _ _) = [a, b]"
| "lowered_assertion_refs (LatencyUnder a b _ _) = [a, b]"
| "lowered_assertion_refs (RouteHas n _ _ _) = [n]"
| "lowered_assertion_refs (DnsResolves a _ _) = [a]"
| "lowered_assertion_refs (Counter n _ _ _ _) = [n]"

fun lowered_action_refs :: "scenario_action \<Rightarrow> string list" where
  "lowered_action_refs (Act_Down ep) = [ep_node ep]"
| "lowered_action_refs (Act_Up ep) = [ep_node ep]"
| "lowered_action_refs (Act_Clear ep) = [ep_node ep]"
| "lowered_action_refs (Act_Validate as) = concat (map lowered_assertion_refs as)"
| "lowered_action_refs (Act_Exec n _) = [n]"
| "lowered_action_refs (Act_Log _) = []"
| "lowered_action_refs (Act_Impair ep _) = [ep_node ep]"
| "lowered_action_refs (Act_Partition ep _) = [ep_node ep]"
| "lowered_action_refs (Act_Heal ep _) = [ep_node ep]"
| "lowered_action_refs (Act_PairImpair _ a b _ _) = [ep_node a, ep_node b]"
| "lowered_action_refs (Act_Replay (Replay_Endpoint ep _) _ _ _) = [ep_node ep]"
| "lowered_action_refs (Act_Replay (Replay_Pair _ a b) _ _ _) = [ep_node a, ep_node b]"

fun lowered_test_refs :: "benchmark_test \<Rightarrow> string list" where
  "lowered_test_refs (Iperf3 a b _ _ _ _ _) = [a, b]"
| "lowered_test_refs (Ping a b _ _) = [a, b]"

definition frr_refs :: "frr_config option \<Rightarrow> string set" where
  "frr_refs f = (case Option.bind f frr_bgp of None \<Rightarrow> {} | Some b \<Rightarrow> bn_node ` set (bgp_neighbors b))"

definition wg_refs :: "wireguard_config \<Rightarrow> string set" where
  "wg_refs wg = set (wg_peers wg) \<union> dom (bm_get (wg_peer_settings wg))"

definition node_refs :: "node \<Rightarrow> string set" where
  "node_refs n = set (node_depends_on n) \<union> \<Union> (wg_refs ` ran (bm_get (node_wireguard n))) \<union> frr_refs (node_frr n)"

definition network_refs :: "network \<Rightarrow> string set" where
  "network_refs nw = ep_node ` (set (network_members nw) \<union> dom (bm_get (network_ports nw)) \<union>
     ni_src ` set (network_impairments nw) \<union> ni_dst ` set (network_impairments nw))"

definition topology_refs :: "topology \<Rightarrow> string set" where
  "topology_refs t =
     \<Union> (node_refs ` ran (bm_get (topo_nodes t))) \<union>
     \<Union> ((\<lambda>l. {ep_node (fst (link_endpoints l)), ep_node (snd (link_endpoints l))}) ` set (topo_links t)) \<union>
     \<Union> (network_refs ` ran (bm_get (topo_networks t))) \<union>
     ep_node ` (dom (bm_get (topo_impairments t)) \<union> dom (bm_get (topo_directional_impairments t)) \<union>
       dom (bm_get (topo_rate_limits t)) \<union> dom (bm_get (topo_qdiscs t))) \<union>
     \<Union> (set ` ran (bm_get (topo_sites t))) \<union>
     \<Union> ((\<lambda>p. frr_refs (profile_frr p)) ` ran (bm_get (topo_profiles t))) \<union>
     \<Union> ((\<lambda>a. set (lowered_assertion_refs a)) ` set (topo_assertions t)) \<union>
     \<Union> ((\<lambda>sc. \<Union> ((\<lambda>st. \<Union> ((\<lambda>a. set (lowered_action_refs a)) ` set (step_actions st))) ` set (scenario_steps sc))) ` set (topo_scenarios t)) \<union>
     \<Union> ((\<lambda>b. \<Union> ((\<lambda>x. set (lowered_test_refs x)) ` set (bench_tests b))) ` set (topo_benchmarks t))"

definition closed_refs :: "topology \<Rightarrow> bool" where
  "closed_refs t \<longleftrightarrow> topology_refs t \<subseteq> dom (bm_get (topo_nodes t))"

lemma alias_ep_node: "CHR '':'' \<notin> set al \<Longrightarrow> ep_node (alias_endpoint al ep) = alias_name al (ep_node ep)"
proof (cases "split_once CHR '':'' ep")
  case None
  assume al: "CHR '':'' \<notin> set al"
  have "CHR '':'' \<notin> set ep" using None split_once_append by (metis split_list_first option.distinct(1))
  then have "split_once CHR '':'' (alias_name al ep) = None" using al by (simp add: alias_name_def split_once_None)
  then show ?thesis using None by (simp add: alias_endpoint_def ep_node_def)
next
  case (Some p)
  assume al: "CHR '':'' \<notin> set al"
  obtain a b where ab: "split_once CHR '':'' ep = Some (a, b)" using Some by (cases p) simp
  then have "CHR '':'' \<notin> set a" using split_once_Some by blast
  then have "split_once CHR '':'' (alias_name al a @ CHR '':'' # b) = Some (alias_name al a, b)"
    using al by (intro split_once_append) (simp add: alias_name_def)
  then show ?thesis using ab by (simp add: alias_endpoint_def ep_node_def)
qed

lemma ran_rekey: "v \<in> ran (bm_get (bm_extend m (rekey f g n))) \<Longrightarrow> v \<in> ran (bm_get m) \<or> v \<in> g ` ran (bm_get n)"
proof -
  assume "v \<in> ran (bm_get (bm_extend m (rekey f g n)))"
  then obtain k where k: "bm_get (bm_extend m (rekey f g n)) k = Some v" by (auto simp: ran_def)
  show ?thesis
  proof (cases "map_of (rev (rekey f g n)) k")
    case None
    then show ?thesis using k by (auto simp: bm_get_extend ran_def)
  next
    case (Some w)
    then have "(k, v) \<in> set (rekey f g n)" using k map_of_SomeD [OF Some] by (simp add: bm_get_extend)
    then obtain a b where "bm_get n a = Some b" "v = g b" by (auto simp: rekey_def in_bm_entries)
    then show ?thesis using ranI [of "bm_get n" a b] by blast
  qed
qed

lemma alias_frr_refs: "frr_refs (map_option (prefix_bgp_neighbors pn) f) = pn ` frr_refs f"
  by (cases f; cases "Option.bind f frr_bgp") (auto simp: frr_refs_def prefix_bgp_neighbors_def image_image)

lemma alias_profile_refs: "frr_refs (profile_frr (import_profile pn p)) \<subseteq> pn ` frr_refs (profile_frr p)"
  by (simp add: import_profile_def alias_frr_refs)

lemma alias_wg_refs: "wg_refs (prefix_wireguard_peers pn wg) = pn ` wg_refs wg"
  by (simp add: wg_refs_def prefix_wireguard_peers_def bm_of_list_def dom_bm_extend dom_rekey image_Un)

lemma alias_node_refs: "node_refs (import_node pn n) \<subseteq> pn ` node_refs n"
  by (auto simp: node_refs_def import_node_def alias_frr_refs ran_def alias_wg_refs) blast+

lemma alias_network_refs: "CHR '':'' \<notin> set al \<Longrightarrow> network_refs (import_network al nw) = alias_name al ` network_refs nw"
  by (simp add: network_refs_def import_network_def bm_of_list_def dom_bm_extend dom_rekey image_Un image_image alias_ep_node)

lemma alias_assertion_refs: "lowered_assertion_refs (prefix_lowered_assertion pn a) = map pn (lowered_assertion_refs a)"
  by (cases a) simp_all

lemma alias_action_refs: "CHR '':'' \<notin> set al \<Longrightarrow> lowered_action_refs (import_action al a) = map (alias_name al) (lowered_action_refs a)"
proof (cases a)
  case (Act_Replay target trace ms looped)
  then show "CHR '':'' \<notin> set al \<Longrightarrow> ?thesis" by (cases target) (simp_all add: alias_ep_node)
qed (simp_all add: alias_ep_node alias_assertion_refs map_concat comp_def)

lemma alias_test_refs: "lowered_test_refs (prefix_test pn b) = map pn (lowered_test_refs b)"
  by (cases b) simp_all


lemma rekey_refs:
  assumes "\<And>x. h (g x) \<subseteq> k ` h x"
  shows "\<Union> (h ` ran (bm_get (bm_extend a (rekey f g b)))) \<subseteq> \<Union> (h ` ran (bm_get a)) \<union> k ` \<Union> (h ` ran (bm_get b))"
proof
  fix y assume "y \<in> \<Union> (h ` ran (bm_get (bm_extend a (rekey f g b))))"
  then obtain x where x: "x \<in> ran (bm_get (bm_extend a (rekey f g b)))" "y \<in> h x" by blast
  from ran_rekey [OF x(1)] show "y \<in> \<Union> (h ` ran (bm_get a)) \<union> k ` \<Union> (h ` ran (bm_get b))"
  proof
    assume "x \<in> g ` ran (bm_get b)"
    then obtain z where z: "z \<in> ran (bm_get b)" "x = g z" by blast
    then have "y \<in> k ` h z" using x(2) assms [of z] by blast
    with z(1) show ?thesis by blast
  qed (use x(2) in blast)
qed

text \<open>The parts of \<open>topology_refs\<close>.\<close>

definition list_refs :: "topology \<Rightarrow> string set" where
  "list_refs t =
     \<Union> ((\<lambda>l. {ep_node (fst (link_endpoints l)), ep_node (snd (link_endpoints l))}) ` set (topo_links t)) \<union>
     \<Union> ((\<lambda>a. set (lowered_assertion_refs a)) ` set (topo_assertions t)) \<union>
     \<Union> ((\<lambda>sc. \<Union> ((\<lambda>st. \<Union> ((\<lambda>a. set (lowered_action_refs a)) ` set (step_actions st))) ` set (scenario_steps sc))) ` set (topo_scenarios t)) \<union>
     \<Union> ((\<lambda>b. \<Union> ((\<lambda>x. set (lowered_test_refs x)) ` set (bench_tests b))) ` set (topo_benchmarks t))"

lemma merged_list_refs:
  assumes "CHR '':'' \<notin> set al"
  shows "list_refs (merge_import t al m) = list_refs t \<union> alias_name al ` list_refs m"
proof -
  note simps = alias_ep_node [OF assms] alias_action_refs [OF assms] alias_assertion_refs alias_test_refs
  have "list_refs (merge_import t al m) =
     \<Union> ((\<lambda>l. {ep_node (fst (link_endpoints l)), ep_node (snd (link_endpoints l))}) ` (set (topo_links t) \<union> import_link al ` set (topo_links m))) \<union>
     \<Union> ((\<lambda>a. set (lowered_assertion_refs a)) ` (set (topo_assertions t) \<union> prefix_lowered_assertion (alias_name al) ` set (topo_assertions m))) \<union>
     \<Union> ((\<lambda>sc. \<Union> ((\<lambda>st. \<Union> ((\<lambda>a. set (lowered_action_refs a)) ` set (step_actions st))) ` set (scenario_steps sc))) ` (set (topo_scenarios t) \<union>
       (\<lambda>sc. sc\<lparr>scenario_steps := map (\<lambda>st. st\<lparr>step_actions := map (import_action al) (step_actions st)\<rparr>) (scenario_steps sc)\<rparr>) ` set (topo_scenarios m))) \<union>
     \<Union> ((\<lambda>b. \<Union> ((\<lambda>x. set (lowered_test_refs x)) ` set (bench_tests b))) ` (set (topo_benchmarks t) \<union>
       (\<lambda>b. b\<lparr>bench_tests := map (prefix_test (alias_name al)) (bench_tests b)\<rparr>) ` set (topo_benchmarks m)))"
    by (simp add: list_refs_def merge_import_def Let_def)
  also have "\<dots> = list_refs t \<union> alias_name al ` list_refs m"
    by (simp add: list_refs_def image_Un UN_Un image_image simps import_link_def image_UN Un_ac)
  finally show ?thesis .
qed

definition map_refs :: "topology \<Rightarrow> string set" where
  "map_refs t = \<Union> (node_refs ` ran (bm_get (topo_nodes t))) \<union> \<Union> (network_refs ` ran (bm_get (topo_networks t))) \<union>
     \<Union> (set ` ran (bm_get (topo_sites t))) \<union> \<Union> ((\<lambda>p. frr_refs (profile_frr p)) ` ran (bm_get (topo_profiles t)))"

lemma merged_map_refs:
  assumes "CHR '':'' \<notin> set al"
  shows "map_refs (merge_import t al m) \<subseteq> map_refs t \<union> alias_name al ` map_refs m"
proof -
  let ?pn = "alias_name al"
  have "map_refs (merge_import t al m) =
     \<Union> (node_refs ` ran (bm_get (bm_extend (topo_nodes t) (rekey ?pn (import_node ?pn) (topo_nodes m))))) \<union>
     \<Union> (network_refs ` ran (bm_get (bm_extend (topo_networks t) (rekey ?pn (import_network al) (topo_networks m))))) \<union>
     \<Union> (set ` ran (bm_get (bm_extend (topo_sites t) (rekey ?pn (map ?pn) (topo_sites m))))) \<union>
     \<Union> ((\<lambda>p. frr_refs (profile_frr p)) ` ran (bm_get (bm_extend (topo_profiles t) (rekey ?pn (import_profile ?pn) (topo_profiles m)))))"
    by (simp add: map_refs_def merge_import_def Let_def)
  moreover note rekey_refs [of node_refs "import_node ?pn" ?pn "topo_nodes t" ?pn "topo_nodes m", OF alias_node_refs]
    rekey_refs [of network_refs "import_network al" ?pn "topo_networks t" ?pn "topo_networks m", OF equalityD1 [OF alias_network_refs [OF assms]]]
    rekey_refs [of set "map ?pn" ?pn "topo_sites t" ?pn "topo_sites m", OF equalityD1 [OF set_map]]
    rekey_refs [of "\<lambda>p. frr_refs (profile_frr p)" "import_profile ?pn" ?pn "topo_profiles t" ?pn "topo_profiles m", OF alias_profile_refs]
  moreover have "a1 \<union> a2 \<union> a3 \<union> a4 \<subseteq> (b1 \<union> b2 \<union> b3 \<union> b4) \<union> ?pn ` (c1 \<union> c2 \<union> c3 \<union> c4)"
    if "a1 \<subseteq> b1 \<union> ?pn ` c1" "a2 \<subseteq> b2 \<union> ?pn ` c2" "a3 \<subseteq> b3 \<union> ?pn ` c3" "a4 \<subseteq> b4 \<union> ?pn ` c4" for a1 a2 a3 a4 b1 b2 b3 b4 c1 c2 c3 c4
    using that by blast
  ultimately show ?thesis by (simp only: map_refs_def)
qed

definition key_refs :: "topology \<Rightarrow> string set" where
  "key_refs t = ep_node ` (dom (bm_get (topo_impairments t)) \<union> dom (bm_get (topo_directional_impairments t)) \<union>
     dom (bm_get (topo_rate_limits t)) \<union> dom (bm_get (topo_qdiscs t)))"

lemma merged_key_refs:
  assumes "CHR '':'' \<notin> set al"
  shows "key_refs (merge_import t al m) = key_refs t \<union> alias_name al ` key_refs m"
  by (simp add: key_refs_def merge_import_def Let_def dom_bm_extend dom_rekey image_Un image_image alias_ep_node [OF assms] Un_ac)

lemma topology_refs_parts: "topology_refs t = map_refs t \<union> list_refs t \<union> key_refs t"
  by (simp add: topology_refs_def map_refs_def list_refs_def key_refs_def Un_ac)

lemma dom_merged_nodes: "dom (bm_get (topo_nodes (merge_import t al m))) = dom (bm_get (topo_nodes t)) \<union> alias_name al ` dom (bm_get (topo_nodes m))"
  by (simp add: merge_import_def Let_def dom_bm_extend dom_rekey)

subsection \<open>Properties\<close>

text \<open>C15.
  A file that lowers has no cycle of imports: along every chain of files that import one another, from its
  own imports on, no file occurs twice and none is one of the files being lowered around it.
\<close>

theorem imports_acyclic:
  assumes "lower_file fs f (Some base) visited given = Inr t" "import_chain fs (file_imports f) base cs"
  shows "distinct cs \<and> set cs \<inter> set visited = {}"
  using assms by (rule chains_distinct)

text \<open>C18.
  Every profile a node of a lowered lab names exists in the lab, for the nodes of patterns, of sites and of
  imported modules too, whose profile names carry the module's alias.
\<close>

theorem lab_profiles_resolve:
  assumes "lower_file fs f base visited given = Inr t" "bm_get (topo_nodes t) name = Some n" "p \<in> set (node_profiles n)"
  shows "bm_contains (topo_profiles t) p"
  using lowered_file_refs [OF assms(1)] assms(2,3) by (auto simp: refs_resolve_def bm_contains_iff)

text \<open>C17.
  The names that the globs of networks are matched against are exactly the nodes the lowered lab has:
  the imported ones, those declared before and after the network, and those of patterns.
\<close>

theorem lab_nodes_exact:
  assumes "prepare given f = Inr (expanded, ctx)" "lower_statements ctx expanded t = Inr t'"
  shows "dom (bm_get (topo_nodes t')) = set (lab_node_names (add_profiles ctx t) expanded)"
proof -
  obtain st where g: "lab_grows ctx (\<Union> ((\<lambda>s. set (statement_nodes s)) ` set expanded)) (add_profiles ctx t, cx_pools ctx) st"
      and s: "same_refs (fst st) t'"
    using assms(2) prepare_checked [OF assms(1)] by (rule lowered_statements)
  from same_refs_dom [OF s] g show ?thesis by (simp add: set_lab_node_names lab_grows_def)
qed


text \<open>A lab that imports one module; the module has a profile and a node that uses it.\<close>

definition plain_lab :: "string \<Rightarrow> lab_decl" where
  "plain_lab name = \<lparr>ld_name = name, ld_description = None, ld_prefix = None, ld_runtime = None, ld_version = None, ld_author = None,
     ld_tags = [], ld_mgmt = None, ld_mgmt_host_reachable = False, ld_dns = None, ld_routing = None, ld_frr = None, ld_seed = None\<rparr>"

definition module_file :: nll_file where
  "module_file = \<lparr>file_imports = [], file_lab = plain_lab ''mod'',
     file_statements = [St_Profile \<lparr>pfd_name = ''rt'', pfd_props = []\<rparr>, St_Node (node_def_default\<lparr>nd_name := ''r'', nd_profiles := [''rt'']\<rparr>)]\<rparr>"

definition main_file :: nll_file where
  "main_file = \<lparr>file_imports = [\<lparr>imp_path = ''m.nll'', imp_alias = ''a'', imp_params = []\<rparr>], file_lab = plain_lab ''main'',
     file_statements = [St_Node (node_def_default\<lparr>nd_name := ''h''\<rparr>)]\<rparr>"

definition lab_files :: module_files where
  "lab_files = \<lparr>mf_canonical = Some, mf_parsed = [(''/l/m.nll'', Some module_file)]\<rparr>"

lemma main_file_lowers:
  "(case lower_file lab_files main_file (Some ''/l'') [] [] of
     Inr t \<Rightarrow> bm_keys (topo_nodes t) = [''a-r'', ''h''] \<and>
       map_option node_profiles (bm_get (topo_nodes t) ''a-r'') = Some [''a-rt'']
   | Inl _ \<Rightarrow> False)"
  by code_simp

lemma main_file_lab:
  obtains t n where "lower_file lab_files main_file (Some ''/l'') [] [] = Inr t" "bm_get (topo_nodes t) ''a-r'' = Some n" "node_profiles n = [''a-rt'']"
  using main_file_lowers by (auto split: sum.splits)

lemma imports_acyclic_witness:
  "\<exists>t. lower_file lab_files main_file (Some ''/l'') [] [] = Inr t \<and> import_chain lab_files (file_imports main_file) ''/l'' [''/l/m.nll''] \<and>
     distinct [''/l/m.nll'']"
proof -
  obtain t n where t: "lower_file lab_files main_file (Some ''/l'') [] [] = Inr t" by (rule main_file_lab)
  have "mf_canonical lab_files (path_join ''/l'' ''m.nll'') = Some ''/l/m.nll''" by code_simp
  moreover have "map_of (mf_parsed lab_files) ''/l/m.nll'' = Some (Some module_file)" by (simp add: lab_files_def)
  ultimately have c: "import_chain lab_files (file_imports main_file) ''/l'' [''/l/m.nll'']"
    by (intro chain_import [where imp = "\<lparr>imp_path = ''m.nll'', imp_alias = ''a'', imp_params = []\<rparr>" and m = module_file] chain_end)
      (simp_all only: import_def.simps, simp_all add: main_file_def)
  show ?thesis using imports_acyclic [OF t c] t c by blast
qed

lemma lab_profiles_resolve_witness:
  "\<exists>t n. lower_file lab_files main_file (Some ''/l'') [] [] = Inr t \<and> bm_get (topo_nodes t) ''a-r'' = Some n \<and>
     ''a-rt'' \<in> set (node_profiles n) \<and> bm_contains (topo_profiles t) ''a-rt''"
proof -
  obtain t n where t: "lower_file lab_files main_file (Some ''/l'') [] [] = Inr t" "bm_get (topo_nodes t) ''a-r'' = Some n"
    "node_profiles n = [''a-rt'']" by (rule main_file_lab)
  then have "''a-rt'' \<in> set (node_profiles n)" by simp
  with lab_profiles_resolve [OF t(1,2) this] t show ?thesis by blast
qed

lemma lab_nodes_exact_witness:
  "\<exists>expanded ctx t'. prepare [] module_file = Inr (expanded, ctx) \<and> lower_statements ctx expanded topology_default = Inr t' \<and>
     dom (bm_get (topo_nodes t')) = set (lab_node_names (add_profiles ctx topology_default) expanded)"
proof -
  have "case prepare [] module_file of Inr (expanded, ctx) \<Rightarrow> (case lower_statements ctx expanded topology_default of Inr _ \<Rightarrow> True | Inl _ \<Rightarrow> False) | Inl _ \<Rightarrow> False"
    by code_simp
  then obtain expanded ctx where e: "prepare [] module_file = Inr (expanded, ctx)"
      "case lower_statements ctx expanded topology_default of Inr _ \<Rightarrow> True | Inl _ \<Rightarrow> False"
    by (cases "prepare [] module_file") auto
  from e(2) obtain t' where "lower_statements ctx expanded topology_default = Inr t'"
    by (cases "lower_statements ctx expanded topology_default") simp_all
  with e(1) have p: "prepare [] module_file = Inr (expanded, ctx)" "lower_statements ctx expanded topology_default = Inr t'" .
  with lab_nodes_exact [OF p] show ?thesis by blast
qed


end
