(* ===== verification/Spec2Isabelle.thy ===== *)
theory Spec2Isabelle
  imports Ip_Func Plan_Diff Topology_Diff Subnet_Pool Host_Registry Start_Order Seed Rollback Job_Queue
    Validator_Order Validator_Subnets Validator_Values Validator_Foreign Validator_Frr Nll_Cond
    Lower_Links Nll_Lab
begin

text \<open>
  nlink-lab builds network labs out of Linux namespaces and containers from a topology language,
  NLL. This development models the logic of its library, \<open>crates/nlink-lab\<close>, and of its daemon,
  \<open>bins/nlink-labd\<close>: what decides which topologies are accepted, which operations a deploy or an
  apply runs and in which order, who may use which addresses of the host, and what is undone
  when something fails.

  \<^bold>\<open>How the parts interact.\<close> The parser lowers NLL to a \<open>Topology\<close>. A deploy validates it
  (\<open>validator.rs\<close>), settles its netem seed (\<open>seed.rs\<close>), allocates its \<open>auto/24\<close> subnets from the
  host's pool (\<open>subnet_pool.rs\<close>), claims what it takes in the host's namespace (\<open>host_registry.rs\<close>), plans
  operations (\<open>deploy/op.rs\<close>, \<open>deploy/plan\<close>), and executes them while a journal records the inverse of each
  (\<open>deploy/rollback.rs\<close>). An apply diffs the running plan with the desired one (\<open>Plan::diff\<close>) and
  shows the difference of the topologies (\<open>diff.rs\<close>). The daemon runs changes of one lab through one queue
  (\<open>jobs.rs\<close>).

  \<^bold>\<open>Theories and sources\<close> (paths under \<open>crates/nlink-lab/src\<close>):

  \<^item> \<open>Prelude\<close>, \<open>Text_Numbers\<close>, \<open>Btree_Map\<close>, \<open>Ip_Addr\<close>, \<open>Ip_Text\<close>: the part of Rust's standard library the
    code uses: results, string splitting and trimming, integer parsing and printing, ordered maps (a
    type whose values are ascending association lists, as \<open>BTreeMap\<close> iterates), addresses with their text forms.
  \<^item> \<open>Ip_Helpers\<close> (\<open>helpers.rs\<close>) and \<open>Ip_Func\<close> (\<open>ipfunc.rs\<close>): CIDRs, management addresses, interface
    names, and \<open>subnet()\<close> and \<open>host()\<close> of NLL. The lemmas give the exact results and errors, and
    that no call panics.
  \<^item> \<open>Topology_Types\<close>, \<open>Topology_Ops\<close> (\<open>types.rs\<close>): every struct and enum, and the operations on them:
    generated interface names, keyword tables, profiles merged into nodes, redaction of secrets, netem properties and qdisc
    specifications.
  \<^item> \<open>Validator_Base\<close>, \<open>Validator_Refs\<close>, \<open>Validator_Subnets\<close>, \<open>Validator_Order\<close>, \<open>Validator_Values\<close>,
    \<open>Validator_Foreign\<close>, \<open>Validator_Frr\<close> (\<open>validator.rs\<close>): the rules. For the groups of error-level rules the theorems say what a
    topology without issues satisfies, and mostly that nothing else is reported.
  \<^item> \<open>Deploy_Op\<close>, \<open>Plan_Diff\<close> (\<open>deploy/op.rs\<close>): stages, operations, keys, inverses, and \<open>Plan::diff\<close>, refining
    an abstract map of resources: executing the diff leads from the current resources to the desired ones.
  \<^item> \<open>Topology_Diff\<close> (\<open>diff.rs\<close>): \<open>diff_topologies\<close>; empty exactly when nothing a deployment reads differs, and
    its lists replay to the desired side.
  \<^item> \<open>Start_Order\<close> (\<open>deploy/plan/process.rs\<close>): the order nodes start in.
  \<^item> \<open>Lease_Table\<close>: the contract of the two host-wide registries as a locale; \<open>Subnet_Pool\<close> and \<open>Host_Registry\<close>
    interpret it, so no address and no bridge ever belongs to two labs. \<open>Subnet_Assign\<close> is the
    assignment of member addresses of \<open>parser/nll/lower.rs\<close>, which the pool uses.
  \<^item> \<open>Nll_Arith\<close>, \<open>Nll_Interp\<close>, \<open>Nll_Cond\<close> (\<open>parser/nll/lower.rs\<close>): interpolation of texts, its arithmetic on checked
    64-bit integers, and conditions; each agrees with the evaluation of a syntax tree it is printed from.
  \<^item> \<open>F64\<close>, \<open>Nll_Value\<close> (\<open>helpers.rs\<close>, \<open>parser/nll/value.rs\<close>): IEEE double precision as exact rationals rounded to
    nearest, the parsers of durations, percentages, rates, sizes and CPU shares on them, and typed values.
  \<^item> \<open>Nll_Ast\<close> (\<open>parser/nll/ast.rs\<close>): the syntax tree. \<open>Nll_Expand\<close>, \<open>Nll_Scope\<close>, \<open>Nll_Pool\<close> (\<open>parser/nll/lower.rs\<close>): statements are
    interpolated, loops, conditions and sites are expanded, and pools hand out subnets. The expansion ends, leaves
    only concrete statements, and a site is a renaming of its body; the blocks of a pool are disjoint.
  \<^item> \<open>Lower_Values\<close>, \<open>Lower_Nodes\<close>, \<open>Lower_Links\<close> (\<open>parser/nll/lower.rs\<close>): every statement lowered to its part of the topology. A
    lowered node says all that its profiles say.
  \<^item> \<open>Fw_Match\<close>, \<open>Fw_Roundtrip\<close> (\<open>firewall.rs\<close>): the grammar of firewall matches, its parser and printer, and set
    lookups; printing inverts parsing.
  \<^item> \<open>Nll_Refs\<close>, \<open>Nll_Import\<close>, \<open>Nll_Lab\<close> (\<open>parser/nll/lower.rs\<close>): the passes over a lowered lab (cross references, address families,
    translate rules), imports and the whole of \<open>lower_with_params\<close>. Imports cannot be circular, an
    imported module is renamed as a whole, and the nodes and profiles of a lab are those its statements declare.
  \<^item> \<open>Frr\<close> (\<open>frr.rs\<close>): the routing daemons of a node, their configuration and BGP neighbours; with
    \<open>Validator_Frr\<close>, an accepted topology never fails there.
  \<^item> \<open>Seed\<close> (\<open>seed.rs\<close>): derivation of netem seeds on 64-bit words, and how a deploy settles them.
  \<^item> \<open>Rollback\<close> (\<open>deploy/rollback.rs\<close>, \<open>deploy_ctx\<close> of \<open>deploy/mod.rs\<close>): the journal with its file, and the
    transaction of a deploy over the pool, the registry and the seeds: a failed deploy leaves nothing
    behind; a step relation with crashes shows that the journal file suffices to undo a killed run.
  \<^item> \<open>Job_Queue\<close> (\<open>bins/nlink-labd/src/jobs.rs\<close>): submissions and queue threads as a step relation; the
    queues of a lab refine one sequence of changes, and every change is answered.

  \<^bold>\<open>Conventions.\<close> Strings are lists of bytes (UTF-8), so \<open>length\<close> is the length in bytes. Rust
  integers are words where they wrap or shift; an arithmetic operation that would panic gives \<open>None\<close>, which the
  theorems exclude. Errors are the left of a sum; their texts, and the messages of issues, are
  not modelled, their kinds, rules and locations are. File operations, locks, probes, environment variables and
  random bytes are arguments of the call (\<open>io_outcome\<close>, \<open>undo_env\<close>, \<open>deploy_env\<close>). The types of
  the \<open>nlink\<close> crate inside operations are type parameters. Loops are recursive functions with proved
  termination; nothing uses fuel.

  \<^bold>\<open>Not modelled.\<close> The executor (\<open>deploy/apply.rs\<close>), running labs, captures and the daemon's connections are netlink,
  processes and sockets; the executor appears as the abstract run of \<open>Plan_Diff\<close> and as an outcome in
  \<open>Rollback\<close>. The lexer is generated by a macro of a crate that is not in the repository, and the parser works on its
  tokens: the lowering starts from the syntax tree, and the files an import opens are an argument
  (\<open>module_files\<close>). The rules that go to nftables, and the operations of the planner, are types of the \<open>nlink\<close> crate, which is
  not in the repository either. Views and layouts are geometry; the graphical interface and the command line are front ends.
\<close>

end
